(* ===== verification/Prelude.thy ===== *)
theory Prelude
  imports Main "HOL-Library.Word" "HOL-Library.AList" "HOL-Library.Multiset"
    "HOL-Library.Product_Lexorder"
begin

text \<open>
  What every component of the model shares: the Rust integer operations at their width, the
  standard collections (a \<open>HashMap\<close> as an association list without duplicate keys, a
  \<open>BTreeMap\<close> as one sorted by key), the iterator searches \<open>min_by_key\<close> and
  \<open>max_by_key\<close>, and two interfaces: \<open>keyed_store\<close> (what a map type promises its users)
  and \<open>fresh_ids\<close> (what an identifier allocator promises).
\<close>

named_theorems arith_simps \<open>characterisations of the checked and saturating word operations\<close>

type_synonym u8 = "8 word"
type_synonym u16 = "16 word"
type_synonym u32 = "32 word"
type_synonym u64 = "64 word"
type_synonym u128 = "128 word"

type_synonym ('e, 'a) rust_result = "'e + 'a"

section \<open>Results\<close>

text \<open>The \<open>?\<close> operator: the first error returns, a value goes on.\<close>

definition and_then :: "('e, 'a) rust_result \<Rightarrow> ('a \<Rightarrow> ('e, 'b) rust_result) \<Rightarrow> ('e, 'b) rust_result" where
  "and_then r f = (case r of Inl e \<Rightarrow> Inl e | Inr x \<Rightarrow> f x)"

lemma and_then_simps [simp]:
  "and_then (Inl e) f = Inl e"
  "and_then (Inr x) f = f x"
  by (simp_all add: and_then_def)

lemma and_then_Inr: "and_then r f = Inr y \<longleftrightarrow> (\<exists>x. r = Inr x \<and> f x = Inr y)"
  by (cases r) auto

section \<open>Integers\<close>

definition checked_add :: "'a::len word \<Rightarrow> 'a word \<Rightarrow> 'a word option" where
  "checked_add a b = (if unat a + unat b < 2 ^ LENGTH('a) then Some (a + b) else None)"

definition checked_mul :: "'a::len word \<Rightarrow> 'a word \<Rightarrow> 'a word option" where
  "checked_mul a b = (if unat a * unat b < 2 ^ LENGTH('a) then Some (a * b) else None)"

definition saturating_add :: "'a::len word \<Rightarrow> 'a word \<Rightarrow> 'a word" where
  "saturating_add a b = (case checked_add a b of None \<Rightarrow> - 1 | Some c \<Rightarrow> c)"

definition saturating_sub :: "'a::len word \<Rightarrow> 'a word \<Rightarrow> 'a word" where
  "saturating_sub a b = (if b \<le> a then a - b else 0)"

lemma checked_add_Some [arith_simps]:
  "checked_add (a :: 'a::len word) b = Some c \<longleftrightarrow>
     unat a + unat b < 2 ^ LENGTH('a) \<and> unat c = unat a + unat b"
proof -
  have "unat a + unat b < 2 ^ LENGTH('a) \<Longrightarrow> unat (a + b) = unat a + unat b"
    by (simp add: unat_word_ariths)
  then show ?thesis
    by (auto simp: checked_add_def word_unat_eq_iff)
qed

lemma checked_add_None [arith_simps]:
  "checked_add (a :: 'a::len word) b = None \<longleftrightarrow> 2 ^ LENGTH('a) \<le> unat a + unat b"
  by (auto simp: checked_add_def)

lemma checked_mul_Some [arith_simps]:
  "checked_mul (a :: 'a::len word) b = Some c \<longleftrightarrow>
     unat a * unat b < 2 ^ LENGTH('a) \<and> unat c = unat a * unat b"
proof -
  have "unat a * unat b < 2 ^ LENGTH('a) \<Longrightarrow> unat (a * b) = unat a * unat b"
    by (simp add: unat_word_ariths)
  then show ?thesis
    by (auto simp: checked_mul_def word_unat_eq_iff)
qed

lemma unat_saturating_add [arith_simps]:
  "unat (saturating_add (a :: 'a::len word) b) = min (unat a + unat b) (2 ^ LENGTH('a) - 1)"
proof (cases "checked_add a b")
  case None
  then have "2 ^ LENGTH('a) \<le> unat a + unat b" by (simp add: checked_add_None)
  moreover have "unat (- 1 :: 'a word) = 2 ^ LENGTH('a) - 1"
    by (simp add: unsigned_minus_1_eq_mask mask_eq_exp_minus_1)
  ultimately show ?thesis using None by (simp add: saturating_add_def)
next
  case (Some c)
  then have "unat a + unat b < 2 ^ LENGTH('a)" and "unat c = unat a + unat b"
    by (simp_all add: checked_add_Some)
  then show ?thesis using Some by (simp add: saturating_add_def)
qed

lemma unat_saturating_sub [arith_simps]:
  "unat (saturating_sub (a :: 'a::len word) b) = unat a - unat b"
  by (auto simp: saturating_sub_def unat_sub word_le_nat_alt)

lemma unat_bound: "unat (a :: 'a::len word) < 2 ^ LENGTH('a)"
  by (rule unsigned_less)

lemma unat_u32_u64 [simp]: "unat (ucast (v :: u32) :: u64) = unat v"
  using unat_bound[of v] by (simp add: unsigned_ucast_eq take_bit_nat_eq_self)

lemma checked_add_one_less: "checked_add (a :: 'a::len word) 1 = Some c \<Longrightarrow> a < c"
  by (auto simp: checked_add_Some word_less_nat_alt)

lemma checked_add_one_le:
  "checked_add (a :: 'a::len word) 1 = Some c \<Longrightarrow> (x < c) \<longleftrightarrow> (x \<le> a)"
  by (auto simp: checked_add_Some word_less_nat_alt word_le_nat_alt)

section \<open>Iterator searches\<close>

text \<open>
  Rust's \<open>Iterator::min_by_key\<close> returns the first of several minimal elements,
  \<open>max_by_key\<close> the last of several maximal ones.
\<close>

fun min_by_key :: "('x \<Rightarrow> 'r::linorder) \<Rightarrow> 'x list \<Rightarrow> 'x option" where
  "min_by_key f [] = None"
| "min_by_key f (x # xs) = Some (foldl (\<lambda>b y. if f y < f b then y else b) x xs)"

fun max_by_key :: "('x \<Rightarrow> 'r::linorder) \<Rightarrow> 'x list \<Rightarrow> 'x option" where
  "max_by_key f [] = None"
| "max_by_key f (x # xs) = Some (foldl (\<lambda>b y. if f b \<le> f y then y else b) x xs)"

lemma min_fold_least:
  "(let m = foldl (\<lambda>b y. if f y < f b then y else b) x xs
    in m \<in> insert x (set xs) \<and> f m \<le> f x \<and> (\<forall>y \<in> set xs. f m \<le> (f y :: 'r::linorder)))"
proof (induction xs arbitrary: x)
  case Nil
  then show ?case by simp
next
  case (Cons y ys)
  show ?case
    using Cons[of y] Cons[of x] by (auto simp: Let_def split: if_splits)
qed

lemma max_fold_greatest:
  "(let m = foldl (\<lambda>b y. if f b \<le> f y then y else b) x xs
    in m \<in> insert x (set xs) \<and> f x \<le> f m \<and> (\<forall>y \<in> set xs. (f y :: 'r::linorder) \<le> f m))"
proof (induction xs arbitrary: x)
  case Nil
  then show ?case by simp
next
  case (Cons y ys)
  show ?case
    using Cons[of y] Cons[of x] by (auto simp: Let_def split: if_splits)
qed

lemma min_by_key_None [simp]: "min_by_key f xs = None \<longleftrightarrow> xs = []"
  by (cases xs) auto

lemma max_by_key_None [simp]: "max_by_key f xs = None \<longleftrightarrow> xs = []"
  by (cases xs) auto

lemma min_by_key_Some:
  assumes "min_by_key f xs = Some m"
  shows "m \<in> set xs" and "\<And>y. y \<in> set xs \<Longrightarrow> f m \<le> f y"
proof -
  obtain x ys where xs: "xs = x # ys" using assms by (cases xs) auto
  then show "m \<in> set xs" and "\<And>y. y \<in> set xs \<Longrightarrow> f m \<le> f y"
    using assms min_fold_least[of f x ys] by (auto simp: Let_def)
qed

lemma max_by_key_Some:
  assumes "max_by_key f xs = Some m"
  shows "m \<in> set xs" and "\<And>y. y \<in> set xs \<Longrightarrow> f y \<le> f m"
proof -
  obtain x ys where xs: "xs = x # ys" using assms by (cases xs) auto
  then show "m \<in> set xs" and "\<And>y. y \<in> set xs \<Longrightarrow> f y \<le> f m"
    using assms max_fold_greatest[of f x ys] by (auto simp: Let_def)
qed

text \<open>
  When no two elements have the same key the result depends on the elements only and not on
  the order in which the iterator delivers them: what makes a search over a \<open>HashMap\<close>
  deterministic.
\<close>

lemma min_by_key_order_irrelevant:
  assumes "set xs = set ys" and "inj_on f (set xs)"
  shows "min_by_key f xs = min_by_key f ys"
proof (cases "min_by_key f xs")
  case None
  then show ?thesis using assms(1) by simp
next
  case (Some m)
  with assms(1) obtain n where n: "min_by_key f ys = Some n"
    by (cases "min_by_key f ys") (auto dest: min_by_key_Some(1))
  have "f m = f n"
    using min_by_key_Some[OF Some] min_by_key_Some[OF n] assms(1) by (metis order_antisym)
  then have "m = n"
    using assms min_by_key_Some(1)[OF Some] min_by_key_Some(1)[OF n] by (auto dest: inj_onD)
  then show ?thesis using Some n by simp
qed

lemma max_by_key_order_irrelevant:
  assumes "set xs = set ys" and "inj_on f (set xs)"
  shows "max_by_key f xs = max_by_key f ys"
proof (cases "max_by_key f xs")
  case None
  then show ?thesis using assms(1) by simp
next
  case (Some m)
  with assms(1) obtain n where n: "max_by_key f ys = Some n"
    by (cases "max_by_key f ys") (auto dest: max_by_key_Some(1))
  have "f m = f n"
    using max_by_key_Some[OF Some] max_by_key_Some[OF n] assms(1) by (metis order_antisym)
  then have "m = n"
    using assms max_by_key_Some(1)[OF Some] max_by_key_Some(1)[OF n] by (auto dest: inj_onD)
  then show ?thesis using Some n by simp
qed

section \<open>Maps\<close>

text \<open>
  The contract of a map type, as the components use it. The size laws are what the bounded
  containers of the program rest on; they follow from the lookup laws and are proved once here.
\<close>

locale keyed_store =
  fixes lookup :: "'m \<Rightarrow> 'k \<Rightarrow> 'v option"
    and put :: "'k \<Rightarrow> 'v \<Rightarrow> 'm \<Rightarrow> 'm"
    and remove :: "'k \<Rightarrow> 'm \<Rightarrow> 'm"
    and entries :: "'m \<Rightarrow> ('k \<times> 'v) list"
    and ok :: "'m \<Rightarrow> bool"
  assumes lookup_put: "ok m \<Longrightarrow> lookup (put k v m) j = (if j = k then Some v else lookup m j)"
    and lookup_remove: "ok m \<Longrightarrow> lookup (remove k m) j = (if j = k then None else lookup m j)"
    and ok_put: "ok m \<Longrightarrow> ok (put k v m)"
    and ok_remove: "ok m \<Longrightarrow> ok (remove k m)"
    and entries_lookup: "ok m \<Longrightarrow> (k, v) \<in> set (entries m) \<longleftrightarrow> lookup m k = Some v"
    and entries_distinct: "ok m \<Longrightarrow> distinct (map fst (entries m))"
begin

lemma dom_entries: "ok m \<Longrightarrow> dom (lookup m) = fst ` set (entries m)"
  by (force simp: dom_def entries_lookup[symmetric])

lemma length_entries: "ok m \<Longrightarrow> length (entries m) = card (dom (lookup m))"
  using entries_distinct[of m] by (metis dom_entries distinct_card length_map set_map)

lemma finite_dom: "ok m \<Longrightarrow> finite (dom (lookup m))"
  by (simp add: dom_entries)

lemma dom_put: "ok m \<Longrightarrow> dom (lookup (put k v m)) = insert k (dom (lookup m))"
  by (auto simp: lookup_put split: if_splits)

lemma dom_remove: "ok m \<Longrightarrow> dom (lookup (remove k m)) = dom (lookup m) - {k}"
  by (auto simp: lookup_remove split: if_splits)

lemma length_put:
  "ok m \<Longrightarrow> length (entries (put k v m)) =
     (if lookup m k = None then Suc (length (entries m)) else length (entries m))"
  by (auto simp: length_entries ok_put dom_put finite_dom card_insert_if)

lemma length_remove:
  "ok m \<Longrightarrow> length (entries (remove k m)) =
     (if lookup m k = None then length (entries m) else length (entries m) - 1)"
  by (auto simp: length_entries ok_remove dom_remove finite_dom card_Diff_singleton_if)

lemma length_bound:
  assumes "ok m" and "dom (lookup m) \<subseteq> A \<union> B" and "finite A" and "finite B"
  shows "length (entries m) \<le> card A + card B"
proof -
  have "length (entries m) \<le> card (A \<union> B)"
    using assms by (simp add: length_entries card_mono)
  also have "\<dots> \<le> card A + card B" by (rule card_Un_le)
  finally show ?thesis .
qed

end

text \<open>\<open>HashMap\<close>: an association list without duplicate keys. Its order stands for one of the
  iteration orders the real map may use.\<close>

type_synonym ('k, 'v) hash_map = "('k \<times> 'v) list"

definition hm_ok :: "('k, 'v) hash_map \<Rightarrow> bool" where
  "hm_ok m \<longleftrightarrow> distinct (map fst m)"

definition hm_insert :: "'k \<Rightarrow> 'v \<Rightarrow> ('k, 'v) hash_map \<Rightarrow> ('k, 'v) hash_map" where
  "hm_insert k v m = AList.update k v m"

definition hm_remove :: "'k \<Rightarrow> ('k, 'v) hash_map \<Rightarrow> ('k, 'v) hash_map" where
  "hm_remove k m = AList.delete k m"

interpretation hm: keyed_store map_of hm_insert hm_remove "\<lambda>m. m" hm_ok
proof unfold_locales
  fix m :: "('k, 'v) hash_map" and k j v
  show "map_of (hm_insert k v m) j = (if j = k then Some v else map_of m j)"
    by (simp add: hm_insert_def update_conv')
  show "map_of (hm_remove k m) j = (if j = k then None else map_of m j)"
    by (simp add: hm_remove_def delete_conv')
  assume ok: "hm_ok m"
  show "hm_ok (hm_insert k v m)"
    using ok by (simp add: hm_ok_def hm_insert_def distinct_update)
  show "hm_ok (hm_remove k m)"
    using ok by (simp add: hm_ok_def hm_remove_def distinct_delete)
  show "(k, v) \<in> set m \<longleftrightarrow> map_of m k = Some v"
    using ok by (auto simp: hm_ok_def)
  show "distinct (map fst m)"
    using ok by (simp add: hm_ok_def)
qed

lemma hm_lookup_insert [simp]: "map_of (hm_insert k v m) = (map_of m)(k \<mapsto> v)"
  by (simp add: hm_insert_def update_conv')

lemma hm_lookup_remove [simp]: "map_of (hm_remove k m) = (map_of m)(k := None)"
  by (simp add: hm_remove_def delete_conv')

lemma hm_ok_insert [simp, intro]: "hm_ok m \<Longrightarrow> hm_ok (hm_insert k v m)"
  by (rule hm.ok_put)

lemma hm_ok_remove [simp, intro]: "hm_ok m \<Longrightarrow> hm_ok (hm_remove k m)"
  by (rule hm.ok_remove)

lemma hm_ok_Nil [simp, intro]: "hm_ok []"
  by (simp add: hm_ok_def)

lemma hm_ok_filter [simp, intro]: "hm_ok m \<Longrightarrow> hm_ok (filter P m)"
  by (simp add: hm_ok_def distinct_map_filter)

lemma map_of_filter:
  "hm_ok m \<Longrightarrow>
   map_of (filter P m) k = (case map_of m k of None \<Rightarrow> None | Some v \<Rightarrow> if P (k, v) then Some v else None)"
  by (induction m) (auto simp: hm_ok_def map_of_eq_None_iff split: option.splits)

text \<open>\<open>BTreeMap\<close>: an association list in increasing order of its keys.\<close>

definition bt_ok :: "('k::linorder \<times> 'v) list \<Rightarrow> bool" where
  "bt_ok m \<longleftrightarrow> sorted_wrt (<) (map fst m)"

fun bt_insert :: "'k::linorder \<Rightarrow> 'v \<Rightarrow> ('k \<times> 'v) list \<Rightarrow> ('k \<times> 'v) list" where
  "bt_insert k v [] = [(k, v)]"
| "bt_insert k v ((j, u) # m) =
     (if k < j then (k, v) # (j, u) # m
      else if k = j then (k, v) # m else (j, u) # bt_insert k v m)"

definition bt_remove :: "'k::linorder \<Rightarrow> ('k \<times> 'v) list \<Rightarrow> ('k \<times> 'v) list" where
  "bt_remove k m = filter (\<lambda>(j, _). j \<noteq> k) m"

lemma set_bt_insert: "fst ` set (bt_insert k v m) = insert k (fst ` set m)"
  by (induction k v m rule: bt_insert.induct) auto

lemma bt_ok_distinct: "bt_ok m \<Longrightarrow> distinct (map fst m)"
  by (auto simp: bt_ok_def strict_sorted_iff)

lemma bt_ok_insert: "bt_ok m \<Longrightarrow> bt_ok (bt_insert k v m)"
proof (induction k v m rule: bt_insert.induct)
  case (1 k v)
  then show ?case by (simp add: bt_ok_def)
next
  case (2 k v j u m)
  have keys: "set (map fst (bt_insert k v m)) = insert k (set (map fst m))"
    using set_bt_insert[of k v m] by simp
  show ?case
    using 2 keys by (auto simp: bt_ok_def simp del: set_map)
qed

lemma map_of_bt_insert: "bt_ok m \<Longrightarrow> map_of (bt_insert k v m) = (map_of m)(k \<mapsto> v)"
  by (induction k v m rule: bt_insert.induct) (auto simp: bt_ok_def fun_eq_iff)

lemma map_of_bt_remove: "map_of (bt_remove k m) = (map_of m)(k := None)"
  by (induction m) (auto simp: bt_remove_def fun_eq_iff)

lemma bt_ok_remove: "bt_ok m \<Longrightarrow> bt_ok (bt_remove k m)"
  by (auto simp: bt_ok_def bt_remove_def sorted_wrt_map intro: sorted_wrt_filter)

interpretation bt: keyed_store map_of bt_insert bt_remove "\<lambda>m. m" bt_ok
proof unfold_locales
  fix m :: "('k::linorder \<times> 'v) list" and k j v
  assume ok: "bt_ok m"
  show "map_of (bt_insert k v m) j = (if j = k then Some v else map_of m j)"
    using ok by (simp add: map_of_bt_insert)
  show "map_of (bt_remove k m) j = (if j = k then None else map_of m j)"
    by (simp add: map_of_bt_remove)
  show "bt_ok (bt_insert k v m)" using ok by (rule bt_ok_insert)
  show "bt_ok (bt_remove k m)" using ok by (rule bt_ok_remove)
  show "(k, v) \<in> set m \<longleftrightarrow> map_of m k = Some v"
    using bt_ok_distinct[OF ok] by auto
  show "distinct (map fst m)" using ok by (rule bt_ok_distinct)
qed

section \<open>Identifier allocators\<close>

text \<open>
  Every identity of the program (request, resource, document, generation, revision) comes from
  a counter. \<open>issue\<close> collects what a sequence of calls hands out; an allocator whose position
  moves past each identity it hands out never repeats one.
\<close>

primrec issue :: "('s \<Rightarrow> 'id option \<times> 's) \<Rightarrow> nat \<Rightarrow> 's \<Rightarrow> 'id list" where
  "issue alloc 0 s = []"
| "issue alloc (Suc n) s =
     (case alloc s of (r, s') \<Rightarrow>
        (case r of None \<Rightarrow> issue alloc n s' | Some i \<Rightarrow> i # issue alloc n s'))"

locale fresh_ids =
  fixes alloc :: "'s \<Rightarrow> 'id option \<times> 's"
    and position :: "'s \<Rightarrow> nat"
    and rank :: "'id \<Rightarrow> nat"
  assumes alloc_Some: "alloc s = (Some i, s') \<Longrightarrow> position s \<le> rank i \<and> rank i < position s'"
    and alloc_None: "alloc s = (None, s') \<Longrightarrow> position s \<le> position s'"
begin

lemma issue_above: "i \<in> set (issue alloc n s) \<Longrightarrow> position s \<le> rank i"
proof (induction n arbitrary: s)
  case 0
  then show ?case by simp
next
  case (Suc n)
  obtain r s' where a: "alloc s = (r, s')" by (cases "alloc s")
  show ?case
  proof (cases r)
    case None
    then show ?thesis using Suc a alloc_None[of s s'] by fastforce
  next
    case (Some j)
    then show ?thesis using Suc a alloc_Some[of s j s'] by fastforce
  qed
qed

lemma issue_increasing: "sorted_wrt (\<lambda>i j. rank i < rank j) (issue alloc n s)"
proof (induction n arbitrary: s)
  case 0
  then show ?case by simp
next
  case (Suc n)
  obtain r s' where a: "alloc s = (r, s')" by (cases "alloc s")
  show ?case
  proof (cases r)
    case None
    then show ?thesis using Suc a by simp
  next
    case (Some j)
    then have "\<forall>i \<in> set (issue alloc n s'). rank j < rank i"
      using a alloc_Some[of s j s'] issue_above by fastforce
    then show ?thesis using Suc a Some by simp
  qed
qed

lemma issue_distinct: "distinct (issue alloc n s)"
proof -
  have "sorted_wrt (<) (map rank (issue alloc n s))"
    using issue_increasing by (simp add: sorted_wrt_map)
  then have "distinct (map rank (issue alloc n s))" by (simp add: strict_sorted_iff)
  then show ?thesis by (simp add: distinct_map)
qed

end

end
