(* ===== verification/CancelStore.thy ===== *)
theory CancelStore
  imports Prelude
begin

text \<open>
  Cooperative cancellation, \<open>crates/key-pdf-runtime/src/cancellation.rs\<close>. A source is an
  \<open>Arc\<close> to one shared atomic flag, so its clones alias: the model keeps the flags in an
  explicit store and a source is an address. A token is the list of the addresses it observes.
  The store is the base of every state record of the runtime, so each operation here applies to
  all of them (record extension).
\<close>

named_theorems store_simps \<open>effect of the cancellation operations on the store\<close>

section \<open>State and operations\<close>

record cancel_store =
  fresh :: nat
  flag :: "nat \<Rightarrow> bool"

type_synonym source = nat
type_synonym token = "nat list"

datatype cancelled_error = Cancelled

definition source_new :: "'a cancel_store_scheme \<Rightarrow> source \<times> 'a cancel_store_scheme" where
  "source_new w = (fresh w, w\<lparr>fresh := Suc (fresh w), flag := (flag w)(fresh w := False)\<rparr>)"

definition source_token :: "source \<Rightarrow> token" where
  "source_token a = [a]"

text \<open>\<open>swap(true)\<close>: the flag is set, and the result says whether this call changed it.\<close>

definition source_cancel :: "source \<Rightarrow> 'a cancel_store_scheme \<Rightarrow> bool \<times> 'a cancel_store_scheme" where
  "source_cancel a w = (\<not> flag w a, w\<lparr>flag := (flag w)(a := True)\<rparr>)"

definition source_is_cancelled :: "source \<Rightarrow> 'a cancel_store_scheme \<Rightarrow> bool" where
  "source_is_cancelled a w = flag w a"

definition token_combined :: "token \<Rightarrow> token \<Rightarrow> token" where
  "token_combined t u = foldl (\<lambda>states a. if a \<in> set states then states else states @ [a]) [] (t @ u)"

definition token_is_cancelled :: "token \<Rightarrow> 'a cancel_store_scheme \<Rightarrow> bool" where
  "token_is_cancelled t w = list_ex (flag w) t"

definition token_checkpoint :: "token \<Rightarrow> 'a cancel_store_scheme \<Rightarrow> (cancelled_error, unit) rust_result" where
  "token_checkpoint t w = (if token_is_cancelled t w then Inl Cancelled else Inr ())"

text \<open>Draining a collection of sources and cancelling each, as several owners do.\<close>

primrec cancel_each :: "source list \<Rightarrow> 'a cancel_store_scheme \<Rightarrow> 'a cancel_store_scheme" where
  "cancel_each [] w = w"
| "cancel_each (a # xs) w = cancel_each xs (snd (source_cancel a w))"

section \<open>What the operations do\<close>

lemma source_new_simps [store_simps]:
  "fst (source_new w) = fresh w"
  "fresh (snd (source_new w)) = Suc (fresh w)"
  "flag (snd (source_new w)) a = (a \<noteq> fresh w \<and> flag w a)"
  by (simp_all add: source_new_def)

lemma source_cancel_simps [store_simps]:
  "fst (source_cancel a w) = (\<not> flag w a)"
  "fresh (snd (source_cancel a w)) = fresh w"
  "flag (snd (source_cancel a w)) b = (b = a \<or> flag w b)"
  by (simp_all add: source_cancel_def)

lemma cancel_each_simps [store_simps]:
  "fresh (cancel_each xs w) = fresh w"
  "flag (cancel_each xs w) b = (b \<in> set xs \<or> flag w b)"
  by (induction xs arbitrary: w) (auto simp: store_simps)

lemma combined_fold:
  "distinct states \<Longrightarrow>
   distinct (foldl (\<lambda>states a. if a \<in> set states then states else states @ [a]) states xs) \<and>
   set (foldl (\<lambda>states a. if a \<in> set states then states else states @ [a]) states xs)
     = set states \<union> set xs"
  by (induction xs arbitrary: states) auto

lemma set_token_combined [simp]: "set (token_combined t u) = set t \<union> set u"
  using combined_fold[of "[]" "t @ u"] by (simp add: token_combined_def)

lemma token_is_cancelled_iff: "token_is_cancelled t w \<longleftrightarrow> (\<exists>a \<in> set t. flag w a)"
  by (simp add: token_is_cancelled_def list_ex_iff)

lemma token_is_cancelled_combined [simp]:
  "token_is_cancelled (token_combined t u) w \<longleftrightarrow> token_is_cancelled t w \<or> token_is_cancelled u w"
  by (auto simp: token_is_cancelled_iff)

lemma token_is_cancelled_source [simp]: "token_is_cancelled (source_token a) w = flag w a"
  by (simp add: token_is_cancelled_iff source_token_def)

lemma token_combined_self: "distinct t \<Longrightarrow> set (token_combined t t) = set t \<and> distinct (token_combined t t)"
  using combined_fold[of "[]" "t @ t"] by (simp add: token_combined_def)

section \<open>Monotonicity: the contract of every step\<close>

text \<open>
  A cancelled source never becomes active again. Every operation of the runtime, and every step
  another thread may take meanwhile, satisfies \<open>store_le\<close>; this is the interface between the
  components and their environment.
\<close>

definition store_le :: "'a cancel_store_scheme \<Rightarrow> 'b cancel_store_scheme \<Rightarrow> bool" where
  "store_le w w' \<longleftrightarrow> fresh w \<le> fresh w' \<and> (\<forall>a < fresh w. flag w a \<longrightarrow> flag w' a)"

locale monotone_step =
  fixes step :: "'a cancel_store_scheme \<Rightarrow> 'a cancel_store_scheme"
  assumes step_le: "store_le w (step w)"
begin

lemma steps_le: "store_le w ((step ^^ n) w)"
proof (induction n)
  case 0
  then show ?case by (simp add: store_le_def)
next
  case (Suc n)
  then show ?case using step_le[of "(step ^^ n) w"] by (fastforce simp: store_le_def)
qed

lemma stays_cancelled:
  assumes "\<forall>a \<in> set t. a < fresh w" and "token_is_cancelled t w"
  shows "token_is_cancelled t ((step ^^ n) w)"
  using assms steps_le[of w n] by (auto simp: store_le_def token_is_cancelled_iff)

end

lemma store_le_refl [simp, intro]: "store_le w w"
  by (simp add: store_le_def)

lemma store_le_trans [trans]: "store_le u v \<Longrightarrow> store_le v w \<Longrightarrow> store_le u w"
  by (auto simp: store_le_def intro: order_trans order_less_le_trans)

lemma store_le_new [simp, intro]: "store_le w (snd (source_new w))"
  by (simp add: store_le_def store_simps)

lemma store_le_cancel [simp, intro]: "store_le w (snd (source_cancel a w))"
  by (simp add: store_le_def store_simps)

lemma store_le_cancel_each [simp, intro]: "store_le w (cancel_each xs w)"
  by (simp add: store_le_def store_simps)

lemma store_le_flag: "store_le w w' \<Longrightarrow> flag w a \<Longrightarrow> a < fresh w \<Longrightarrow> flag w' a"
  by (simp add: store_le_def)

lemma store_le_token:
  "store_le w w' \<Longrightarrow> token_is_cancelled t w \<Longrightarrow> \<forall>a \<in> set t. a < fresh w \<Longrightarrow> token_is_cancelled t w'"
  by (auto simp: store_le_def token_is_cancelled_iff)

interpretation new_step: monotone_step "\<lambda>w. snd (source_new w)"
  by unfold_locales (rule store_le_new)

interpretation cancel_step: monotone_step "\<lambda>w. snd (source_cancel a w)" for a
  by unfold_locales (rule store_le_cancel)

interpretation drain_step: monotone_step "cancel_each xs" for xs
  by unfold_locales (rule store_le_cancel_each)

end
