(* ===== verification/Scheduler.thy ===== *)
theory Scheduler
  imports CancelStore
begin

text \<open>
  The bounded latest-wins queue, \<open>crates/key-pdf-runtime/src/scheduler.rs\<close>: its state
  (\<open>LatestWinsQueue\<close>), its operations in the order of the code, and the invariant they keep.
  The three \<open>HashMap\<close>s are association lists without duplicate keys; a result of \<open>None\<close> of
  \<open>schedule\<close> is the panic of \<open>expect\<close> (128-bit revisions exhausted).
\<close>

section \<open>State\<close>

type_synonym revision = u128
type_synonym priority = u16

record ('k, 'v) scheduled_demand =
  sd_key :: 'k
  sd_revision :: revision
  sd_priority :: priority
  sd_value :: 'v
  sd_cancellation :: source

datatype ('k, 'v) schedule_outcome =
    Queued revision
  | Replaced revision 'v
  | Evicted revision "('k, 'v) scheduled_demand"
  | Rejected 'v

fun outcome_revision :: "('k, 'v) schedule_outcome \<Rightarrow> revision option" where
  "outcome_revision (Queued r) = Some r"
| "outcome_revision (Replaced r _) = Some r"
| "outcome_revision (Evicted r _) = Some r"
| "outcome_revision (Rejected _) = None"

datatype completion_disposition = Publish | Stale | Unknown

datatype scheduler_error = SchedulerError

record 'v queued_entry =
  q_revision :: revision
  q_priority :: priority
  q_value :: 'v
  q_cancellation :: source

record flight_entry =
  f_revision :: revision
  f_cancellation :: source

record ('k, 'v) lw_queue =
  capacity :: nat
  max_in_flight :: nat
  next_revision :: revision
  queued :: "('k, 'v queued_entry) hash_map"
  in_flight :: "('k, flight_entry) hash_map"
  latest :: "('k, revision) hash_map"

section \<open>Operations\<close>

definition with_max_in_flight :: "nat \<Rightarrow> nat \<Rightarrow> (scheduler_error, ('k, 'v) lw_queue) rust_result" where
  "with_max_in_flight cap flights =
     (if flights = 0 then Inl SchedulerError
      else Inr \<lparr>capacity = cap, max_in_flight = flights, next_revision = 1,
                queued = [], in_flight = [], latest = []\<rparr>)"

definition queue_len :: "('k, 'v) lw_queue \<Rightarrow> nat" where
  "queue_len q = length (queued q)"

definition contains_key :: "'k \<Rightarrow> ('k, 'v) lw_queue \<Rightarrow> bool" where
  "contains_key k q \<longleftrightarrow> map_of (queued q) k \<noteq> None"

definition allocate_revision :: "('k, 'v) lw_queue \<Rightarrow> (revision \<times> ('k, 'v) lw_queue) option" where
  "allocate_revision q =
     (case checked_add (next_revision q) 1 of
        None \<Rightarrow> None
      | Some n \<Rightarrow> Some (next_revision q, q\<lparr>next_revision := n\<rparr>))"

definition cancel_in_flight ::
  "'k \<Rightarrow> ('k, 'v) lw_queue \<Rightarrow> 'a cancel_store_scheme \<Rightarrow> 'a cancel_store_scheme" where
  "cancel_in_flight k q w =
     (case map_of (in_flight q) k of None \<Rightarrow> w | Some f \<Rightarrow> snd (source_cancel (f_cancellation f) w))"

text \<open>The tail that the branches of \<open>schedule\<close> share: a new revision and a new source, the entry,
  the cancellation of a running operation with the same key, the \<open>latest\<close> mark.\<close>

definition enqueue ::
  "'k \<Rightarrow> priority \<Rightarrow> 'v \<Rightarrow> ('k, 'v) lw_queue \<Rightarrow> 'a cancel_store_scheme \<Rightarrow>
   (revision \<times> ('k, 'v) lw_queue \<times> 'a cancel_store_scheme) option" where
  "enqueue k p v q w =
     (case allocate_revision q of
        None \<Rightarrow> None
      | Some (r, q1) \<Rightarrow>
          (case source_new w of (c, w1) \<Rightarrow>
             let q2 = q1\<lparr>queued := hm_insert k
                   \<lparr>q_revision = r, q_priority = p, q_value = v, q_cancellation = c\<rparr> (queued q1)\<rparr>;
                 w2 = cancel_in_flight k q2 w1
             in Some (r, q2\<lparr>latest := hm_insert k r (latest q2)\<rparr>, w2)))"

definition entry_rank :: "'k \<times> 'v queued_entry \<Rightarrow> priority \<times> revision" where
  "entry_rank ke = (q_priority (snd ke), q_revision (snd ke))"

definition to_demand :: "'k \<Rightarrow> 'v queued_entry \<Rightarrow> ('k, 'v) scheduled_demand" where
  "to_demand k e = \<lparr>sd_key = k, sd_revision = q_revision e, sd_priority = q_priority e,
     sd_value = q_value e, sd_cancellation = q_cancellation e\<rparr>"

definition evict ::
  "'k \<Rightarrow> 'v queued_entry \<Rightarrow> ('k, 'v) lw_queue \<Rightarrow> 'a cancel_store_scheme \<Rightarrow>
   ('k, 'v) lw_queue \<times> 'a cancel_store_scheme" where
  "evict k e q w =
     (q\<lparr>queued := hm_remove k (queued q),
        latest := (if map_of (latest q) k = Some (q_revision e) then hm_remove k (latest q) else latest q)\<rparr>,
      snd (source_cancel (q_cancellation e) w))"

definition schedule ::
  "'k \<Rightarrow> priority \<Rightarrow> 'v \<Rightarrow> ('k, 'v) lw_queue \<Rightarrow> 'a cancel_store_scheme \<Rightarrow>
   (('k, 'v) schedule_outcome \<times> ('k, 'v) lw_queue \<times> 'a cancel_store_scheme) option" where
  "schedule k p v q w =
     (if capacity q = 0 then Some (Rejected v, q, w)
      else case map_of (queued q) k of
        Some previous \<Rightarrow>
          (case enqueue k p v (q\<lparr>queued := hm_remove k (queued q)\<rparr>)
                  (snd (source_cancel (q_cancellation previous) w)) of
             None \<Rightarrow> None
           | Some (r, q', w') \<Rightarrow> Some (Replaced r (q_value previous), q', w'))
      | None \<Rightarrow>
          if capacity q \<le> length (queued q) then
            (case min_by_key entry_rank (queued q) of
               None \<Rightarrow> None
             | Some (ek, e) \<Rightarrow>
                 if p < q_priority e then Some (Rejected v, q, w)
                 else (case evict ek e q w of (q1, w1) \<Rightarrow>
                   (case enqueue k p v q1 w1 of
                      None \<Rightarrow> None
                    | Some (r, q', w') \<Rightarrow> Some (Evicted r (to_demand ek e), q', w'))))
          else
            (case enqueue k p v q w of
               None \<Rightarrow> None
             | Some (r, q', w') \<Rightarrow> Some (Queued r, q', w')))"

definition pop_next :: "('k, 'v) lw_queue \<Rightarrow> ('k, 'v) scheduled_demand option \<times> ('k, 'v) lw_queue" where
  "pop_next q =
     (if max_in_flight q \<le> length (in_flight q) then (None, q)
      else case max_by_key entry_rank (filter (\<lambda>(k, _). map_of (in_flight q) k = None) (queued q)) of
        None \<Rightarrow> (None, q)
      | Some (k, e) \<Rightarrow>
          (Some (to_demand k e),
           q\<lparr>queued := hm_remove k (queued q),
             in_flight := hm_insert k \<lparr>f_revision = q_revision e, f_cancellation = q_cancellation e\<rparr>
               (in_flight q)\<rparr>))"

definition is_latest :: "('k, 'v) scheduled_demand \<Rightarrow> ('k, 'v) lw_queue \<Rightarrow> bool" where
  "is_latest d q \<longleftrightarrow> map_of (latest q) (sd_key d) = Some (sd_revision d)"

definition finish ::
  "('k, 'v) scheduled_demand \<Rightarrow> ('k, 'v) lw_queue \<Rightarrow> completion_disposition \<times> ('k, 'v) lw_queue" where
  "finish d q =
     (if map_option f_revision (map_of (in_flight q) (sd_key d)) \<noteq> Some (sd_revision d) then (Unknown, q)
      else
        let q1 = q\<lparr>in_flight := hm_remove (sd_key d) (in_flight q)\<rparr>
        in if map_of (latest q1) (sd_key d) = Some (sd_revision d)
           then (Publish, q1\<lparr>latest := hm_remove (sd_key d) (latest q1)\<rparr>)
           else (Stale, q1))"

definition cancel_key ::
  "'k \<Rightarrow> ('k, 'v) lw_queue \<Rightarrow> 'a cancel_store_scheme \<Rightarrow> 'v option \<times> ('k, 'v) lw_queue \<times> 'a cancel_store_scheme" where
  "cancel_key k q w =
     (let q1 = q\<lparr>latest := hm_remove k (latest q)\<rparr>;
          w1 = cancel_in_flight k q1 w
      in case map_of (queued q1) k of
           None \<Rightarrow> (None, q1, w1)
         | Some e \<Rightarrow> (Some (q_value e), q1\<lparr>queued := hm_remove k (queued q1)\<rparr>,
                      snd (source_cancel (q_cancellation e) w1)))"

definition clear_pending ::
  "('k, 'v) lw_queue \<Rightarrow> 'a cancel_store_scheme \<Rightarrow> 'v list \<times> ('k, 'v) lw_queue \<times> 'a cancel_store_scheme" where
  "clear_pending q w =
     (map (q_value \<circ> snd) (queued q), q\<lparr>latest := [], queued := []\<rparr>,
      cancel_each (map (q_cancellation \<circ> snd) (queued q))
        (cancel_each (map (f_cancellation \<circ> snd) (in_flight q)) w))"

section \<open>The invariant\<close>

text \<open>
  \<open>queue_inv X\<close> holds but for the keys of \<open>X\<close>, whose \<open>latest\<close> mark may be out of date: the
  state in the middle of a replacement. The invariant proper is \<open>queue_inv {}\<close>.
\<close>

definition maps_ok :: "('k, 'v) lw_queue \<Rightarrow> bool" where
  "maps_ok q \<longleftrightarrow> hm_ok (queued q) \<and> hm_ok (in_flight q) \<and> hm_ok (latest q) \<and>
     length (queued q) \<le> capacity q \<and> length (in_flight q) \<le> max_in_flight q"

definition queued_ok :: "('k, 'v) lw_queue \<Rightarrow> 'a cancel_store_scheme \<Rightarrow> bool" where
  "queued_ok q w \<longleftrightarrow>
     (\<forall>k e. map_of (queued q) k = Some e \<longrightarrow>
        map_of (latest q) k = Some (q_revision e) \<and> q_revision e < next_revision q \<and>
        q_cancellation e < fresh w) \<and>
     (\<forall>k e k' e'. map_of (queued q) k = Some e \<longrightarrow> map_of (queued q) k' = Some e' \<longrightarrow>
        q_revision e = q_revision e' \<or> q_cancellation e = q_cancellation e' \<longrightarrow> k = k')"

definition flight_ok :: "('k, 'v) lw_queue \<Rightarrow> 'a cancel_store_scheme \<Rightarrow> bool" where
  "flight_ok q w \<longleftrightarrow>
     (\<forall>k f. map_of (in_flight q) k = Some f \<longrightarrow>
        f_revision f < next_revision q \<and> f_cancellation f < fresh w \<and>
        (map_of (latest q) k = Some (f_revision f) \<or> flag w (f_cancellation f))) \<and>
     (\<forall>k f k' f'. map_of (in_flight q) k = Some f \<longrightarrow> map_of (in_flight q) k' = Some f' \<longrightarrow>
        f_cancellation f = f_cancellation f' \<longrightarrow> k = k') \<and>
     (\<forall>k e k' f. map_of (queued q) k = Some e \<longrightarrow> map_of (in_flight q) k' = Some f \<longrightarrow>
        q_revision e \<noteq> f_revision f \<and> q_cancellation e \<noteq> f_cancellation f)"

definition latest_ok :: "'k set \<Rightarrow> ('k, 'v) lw_queue \<Rightarrow> bool" where
  "latest_ok X q \<longleftrightarrow>
     (\<forall>k r. k \<notin> X \<longrightarrow> map_of (latest q) k = Some r \<longrightarrow>
        map_of (queued q) k \<noteq> None \<or>
        (\<exists>f. map_of (in_flight q) k = Some f \<and> f_revision f = r))"

definition queue_inv :: "'k set \<Rightarrow> ('k, 'v) lw_queue \<Rightarrow> 'a cancel_store_scheme \<Rightarrow> bool" where
  "queue_inv X q w \<longleftrightarrow> maps_ok q \<and> queued_ok q w \<and> flight_ok q w \<and> latest_ok X q"

lemmas inv_parts = maps_ok_def queued_ok_def flight_ok_def latest_ok_def

text \<open>Introduction and destruction rules for the parts, so that a proof sees one entry at a time.\<close>

lemma queued_okI:
  assumes "\<And>k e. map_of (queued q) k = Some e \<Longrightarrow> map_of (latest q) k = Some (q_revision e)"
    and "\<And>k e. map_of (queued q) k = Some e \<Longrightarrow> q_revision e < next_revision q"
    and "\<And>k e. map_of (queued q) k = Some e \<Longrightarrow> q_cancellation e < fresh w"
    and "\<And>k e k' e'. map_of (queued q) k = Some e \<Longrightarrow> map_of (queued q) k' = Some e' \<Longrightarrow>
           q_revision e = q_revision e' \<Longrightarrow> k = k'"
    and "\<And>k e k' e'. map_of (queued q) k = Some e \<Longrightarrow> map_of (queued q) k' = Some e' \<Longrightarrow>
           q_cancellation e = q_cancellation e' \<Longrightarrow> k = k'"
  shows "queued_ok q w"
  using assms unfolding queued_ok_def by blast

lemma queued_okD:
  assumes "queued_ok q w" and "map_of (queued q) k = Some e"
  shows "map_of (latest q) k = Some (q_revision e)" and "q_revision e < next_revision q"
    and "q_cancellation e < fresh w"
  using assms unfolding queued_ok_def by blast+

lemma queued_ok_inj:
  assumes "queued_ok q w" and "map_of (queued q) k = Some e" and "map_of (queued q) k' = Some e'"
    and "q_revision e = q_revision e' \<or> q_cancellation e = q_cancellation e'"
  shows "k = k'"
  using assms unfolding queued_ok_def by blast

lemma flight_okI:
  assumes "\<And>k f. map_of (in_flight q) k = Some f \<Longrightarrow> f_revision f < next_revision q"
    and "\<And>k f. map_of (in_flight q) k = Some f \<Longrightarrow> f_cancellation f < fresh w"
    and "\<And>k f. map_of (in_flight q) k = Some f \<Longrightarrow> map_of (latest q) k \<noteq> Some (f_revision f) \<Longrightarrow>
           flag w (f_cancellation f)"
    and "\<And>k f k' f'. map_of (in_flight q) k = Some f \<Longrightarrow> map_of (in_flight q) k' = Some f' \<Longrightarrow>
           f_cancellation f = f_cancellation f' \<Longrightarrow> k = k'"
    and "\<And>k e k' f. map_of (queued q) k = Some e \<Longrightarrow> map_of (in_flight q) k' = Some f \<Longrightarrow>
           q_revision e \<noteq> f_revision f \<and> q_cancellation e \<noteq> f_cancellation f"
  shows "flight_ok q w"
  using assms unfolding flight_ok_def by blast

lemma flight_okD:
  assumes "flight_ok q w" and "map_of (in_flight q) k = Some f"
  shows "f_revision f < next_revision q" and "f_cancellation f < fresh w"
    and "map_of (latest q) k \<noteq> Some (f_revision f) \<Longrightarrow> flag w (f_cancellation f)"
  using assms unfolding flight_ok_def by blast+

lemma flight_ok_inj:
  assumes "flight_ok q w" and "map_of (in_flight q) k = Some f" and "map_of (in_flight q) k' = Some f'"
    and "f_cancellation f = f_cancellation f'"
  shows "k = k'"
  using assms unfolding flight_ok_def by blast

lemma flight_ok_disjoint:
  assumes "flight_ok q w" and "map_of (queued q) k = Some e" and "map_of (in_flight q) k' = Some f"
  shows "q_revision e \<noteq> f_revision f" and "q_cancellation e \<noteq> f_cancellation f"
  using assms unfolding flight_ok_def by blast+

lemma allocate_revision_Some:
  "allocate_revision q = Some (r, q1) \<longleftrightarrow>
     (\<exists>n. checked_add (next_revision q) 1 = Some n \<and> r = next_revision q \<and> q1 = q\<lparr>next_revision := n\<rparr>)"
  by (auto simp: allocate_revision_def split: option.splits)

lemma cancel_in_flight_simps [store_simps]:
  "fresh (cancel_in_flight k q w) = fresh w"
  "flag (cancel_in_flight k q w) a =
     ((\<exists>f. map_of (in_flight q) k = Some f \<and> a = f_cancellation f) \<or> flag w a)"
  by (auto simp: cancel_in_flight_def store_simps split: option.splits)

lemma enqueue_Some:
  assumes "enqueue k p v q w = Some (r, q', w')"
  obtains n where "checked_add (next_revision q) 1 = Some n" and "r = next_revision q"
    and "q' = q\<lparr>next_revision := n,
         queued := hm_insert k \<lparr>q_revision = r, q_priority = p, q_value = v, q_cancellation = fresh w\<rparr> (queued q),
         latest := hm_insert k r (latest q)\<rparr>"
    and "fresh w' = Suc (fresh w)"
    and "\<And>a. a < fresh w \<Longrightarrow> flag w' a = ((\<exists>f. map_of (in_flight q) k = Some f \<and> a = f_cancellation f) \<or> flag w a)"
    and "store_le w w'"
proof -
  obtain q1 where a: "allocate_revision q = Some (r, q1)"
    using assms by (auto simp: enqueue_def Let_def split: option.splits prod.splits)
  obtain w1 where n: "source_new w = (fresh w, w1)" by (simp add: source_new_def)
  have w1: "w1 = snd (source_new w)" using n by simp
  note a' = a[unfolded allocate_revision_Some]
  have w': "w' = cancel_in_flight k q w1"
    using assms a a' by (auto simp: enqueue_def n Let_def cancel_in_flight_def)
  show thesis
  proof (rule that)
    show "checked_add (next_revision q) 1 = Some (next_revision q1)" "r = next_revision q" using a' by auto
    show "q' = q\<lparr>next_revision := next_revision q1,
         queued := hm_insert k \<lparr>q_revision = r, q_priority = p, q_value = v, q_cancellation = fresh w\<rparr> (queued q),
         latest := hm_insert k r (latest q)\<rparr>"
      using assms a a' by (auto simp: enqueue_def n Let_def)
    show "fresh w' = Suc (fresh w)" by (simp add: w' w1 store_simps)
    show "flag w' a = ((\<exists>f. map_of (in_flight q) k = Some f \<and> a = f_cancellation f) \<or> flag w a)"
      if "a < fresh w" for a using that by (simp add: w' w1 store_simps)
    show "store_le w w'" by (simp add: w' w1 store_le_def store_simps)
  qed
qed

end
