(* ===== verification/SchedulerProofs.thy ===== *)
theory SchedulerProofs
  imports Scheduler
begin

text \<open>
  The latest-wins queue keeps its invariant; its operations branch by branch; the properties of
  publication, cancellation, priority and memory that follow for every reachable queue.
\<close>

section \<open>Every operation keeps the invariant\<close>

lemma enqueue_inv:
  assumes inv: "queue_inv X q w" and X: "X \<subseteq> {k}" and new: "map_of (queued q) k = None"
    and room: "length (queued q) < capacity q" and e: "enqueue k p v q w = Some (r, q', w')"
  shows "queue_inv {} q' w'"
proof -
  obtain n where n: "checked_add (next_revision q) 1 = Some n" and r: "r = next_revision q"
    and q': "q' = q\<lparr>next_revision := n,
         queued := hm_insert k \<lparr>q_revision = r, q_priority = p, q_value = v, q_cancellation = fresh w\<rparr> (queued q),
         latest := hm_insert k r (latest q)\<rparr>"
    and fr: "fresh w' = Suc (fresh w)"
    and fl: "\<And>a. a < fresh w \<Longrightarrow>
       flag w' a = ((\<exists>f. map_of (in_flight q) k = Some f \<and> a = f_cancellation f) \<or> flag w a)"
    by (rule enqueue_Some[OF e]) blast
  have lt: "x < n \<longleftrightarrow> x \<le> r" for x using checked_add_one_le[OF n] r by simp
  have m: "maps_ok q" and qo: "queued_ok q w" and fo: "flight_ok q w" and lo: "latest_ok X q"
    using inv by (auto simp: queue_inv_def)
  have "maps_ok q'"
    using m new room by (auto simp: maps_ok_def q' hm.length_put)
  moreover have "queued_ok q' w'"
  proof -
    have old: "q_revision e \<le> r" "q_revision e \<noteq> r" "q_cancellation e < Suc (fresh w)"
        "q_cancellation e \<noteq> fresh w" "map_of (latest q) j = Some (q_revision e)"
      if "map_of (queued q) j = Some e" for j e
      using queued_okD[OF qo that] r by auto
    show ?thesis
      by (rule queued_okI; simp add: q' lt fr split: if_splits)
         (auto simp: old dest: old(2,4)[THEN not_sym] queued_ok_inj[OF qo])
  qed
  moreover have "flight_ok q' w'"
  proof -
    have old: "f_revision f \<le> r" "f_revision f \<noteq> r" "f_cancellation f < fresh w"
        "f_cancellation f \<noteq> fresh w"
      if "map_of (in_flight q) j = Some f" for j f
      using flight_okD[OF fo that] r by auto
    show ?thesis
      by (rule flight_okI; simp add: q' lt fr split: if_splits)
         (auto simp: old fl less_Suc_eq dest: old(2,4)[THEN not_sym] flight_ok_inj[OF fo] flight_okD(3)[OF fo]
           flight_ok_disjoint[OF fo])
  qed
  moreover have "latest_ok {} q'"
    using lo X by (auto simp: latest_ok_def q')
  ultimately show ?thesis by (simp add: queue_inv_def)
qed

lemma queue_inv_store_le:
  assumes "queue_inv X q w" and "store_le w w'"
  shows "queue_inv X q w'"
proof -
  have le: "fresh w \<le> fresh w'" and fl: "\<And>a. a < fresh w \<Longrightarrow> flag w a \<Longrightarrow> flag w' a"
    using assms(2) by (auto simp: store_le_def)
  have "queued_ok q w'"
    using assms(1) le unfolding queue_inv_def queued_ok_def by (meson order_less_le_trans)
  moreover have "flight_ok q w'"
    using assms(1) le fl unfolding queue_inv_def flight_ok_def by (meson order_less_le_trans)
  ultimately show ?thesis using assms(1) by (simp add: queue_inv_def)
qed

lemma remove_queued_inv:
  "queue_inv {} q w \<Longrightarrow> queue_inv {k} (q\<lparr>queued := hm_remove k (queued q)\<rparr>) w"
  by (auto simp: queue_inv_def inv_parts hm.length_remove)

lemma evict_inv:
  assumes inv: "queue_inv {} q w" and e: "map_of (queued q) k = Some e"
  shows "queue_inv {} (fst (evict k e q w)) (snd (evict k e q w))"
proof -
  let ?w = "snd (source_cancel (q_cancellation e) w)"
  have "queue_inv {} q ?w" using inv by (rule queue_inv_store_le) (rule store_le_cancel)
  then have m: "maps_ok q" and qo: "queued_ok q ?w" and fo: "flight_ok q ?w" and lo: "latest_ok {} q"
    by (auto simp: queue_inv_def)
  have l: "map_of (latest q) k = Some (q_revision e)" by (rule queued_okD(1)[OF qo e])
  define q' where "q' = q\<lparr>queued := hm_remove k (queued q), latest := hm_remove k (latest q)\<rparr>"
  have ev: "evict k e q w = (q', ?w)" by (simp add: evict_def q'_def l)
  have dead: "flag ?w (f_cancellation f)" if "map_of (in_flight q) k = Some f" for f
    using flight_okD(3)[OF fo that] flight_ok_disjoint(1)[OF fo e that] l by auto
  have "maps_ok q'" using m by (auto simp: maps_ok_def q'_def hm.length_remove)
  moreover have "queued_ok q' ?w"
    by (rule queued_okI; simp add: q'_def split: if_splits)
       (auto dest: queued_okD[OF qo] queued_ok_inj[OF qo])
  moreover have "flight_ok q' ?w"
    by (rule flight_okI; simp add: q'_def split: if_splits)
       (auto dest: flight_okD[OF fo] flight_ok_inj[OF fo] flight_ok_disjoint[OF fo] dead)
  moreover have "latest_ok {} q'" using lo by (auto simp: latest_ok_def q'_def)
  ultimately show ?thesis by (simp add: queue_inv_def ev)
qed

lemma min_entry:
  assumes "queue_inv X q w" and "min_by_key entry_rank (queued q) = Some (k, e)"
  shows "map_of (queued q) k = Some e"
proof -
  have "(k, e) \<in> set (queued q)" using min_by_key_Some(1)[OF assms(2)] .
  then show ?thesis using assms(1) by (simp add: queue_inv_def maps_ok_def hm.entries_lookup)
qed

lemma max_entry:
  assumes "queue_inv X q w" and "max_by_key entry_rank (filter P (queued q)) = Some (k, e)"
  shows "map_of (queued q) k = Some e \<and> P (k, e)"
proof -
  have "(k, e) \<in> set (filter P (queued q))" using max_by_key_Some(1)[OF assms(2)] .
  then show ?thesis using assms(1) by (auto simp: queue_inv_def maps_ok_def hm.entries_lookup)
qed

text \<open>The branches of \<open>schedule\<close>, one elimination rule for all proofs about it.\<close>

lemma schedule_cases [consumes 1, case_names no_capacity replaced rejected evicted queued]:
  assumes "schedule k p v q w = Some (out, q', w')"
  obtains "capacity q = 0" "out = Rejected v" "q' = q" "w' = w"
  | (replaced) prev r where "capacity q \<noteq> 0" "map_of (queued q) k = Some prev"
      "enqueue k p v (q\<lparr>queued := hm_remove k (queued q)\<rparr>)
         (snd (source_cancel (q_cancellation prev) w)) = Some (r, q', w')"
      "out = Replaced r (q_value prev)"
  | (rejected) ek e where "capacity q \<noteq> 0" "map_of (queued q) k = None" "capacity q \<le> length (queued q)"
      "min_by_key entry_rank (queued q) = Some (ek, e)" "p < q_priority e"
      "out = Rejected v" "q' = q" "w' = w"
  | (evicted) ek e r where "capacity q \<noteq> 0" "map_of (queued q) k = None" "capacity q \<le> length (queued q)"
      "min_by_key entry_rank (queued q) = Some (ek, e)" "q_priority e \<le> p"
      "enqueue k p v (fst (evict ek e q w)) (snd (evict ek e q w)) = Some (r, q', w')"
      "out = Evicted r (to_demand ek e)"
  | (queued) r where "capacity q \<noteq> 0" "map_of (queued q) k = None" "length (queued q) < capacity q"
      "enqueue k p v q w = Some (r, q', w')" "out = Queued r"
proof (cases "capacity q = 0")
  case True
  then have "out = Rejected v" "q' = q" "w' = w" using assms by (simp_all add: schedule_def)
  with True show ?thesis by (rule that(1))
next
  case cap: False
  show ?thesis
  proof (cases "map_of (queued q) k")
    case (Some prev)
    then obtain r where "enqueue k p v (q\<lparr>queued := hm_remove k (queued q)\<rparr>)
         (snd (source_cancel (q_cancellation prev) w)) = Some (r, q', w')"
        "out = Replaced r (q_value prev)"
      using assms cap by (auto simp: schedule_def split: option.splits prod.splits)
    with cap Some show ?thesis by (rule that(2))
  next
    case none: None
    show ?thesis
    proof (cases "capacity q \<le> length (queued q)")
      case False
      then obtain r where "enqueue k p v q w = Some (r, q', w')" "out = Queued r"
        using assms cap none by (auto simp: schedule_def split: option.splits prod.splits)
      moreover have "length (queued q) < capacity q" using False by simp
      ultimately show ?thesis using cap none by (intro that(5))
    next
      case full: True
      then obtain ek e where m: "min_by_key entry_rank (queued q) = Some (ek, e)"
        using cap by (cases "min_by_key entry_rank (queued q)") auto
      show ?thesis
      proof (cases "p < q_priority e")
        case True
        then have "out = Rejected v" "q' = q" "w' = w"
          using assms cap none full m by (simp_all add: schedule_def)
        then show ?thesis using cap none full m True by (intro that(3))
      next
        case False
        then obtain r where "enqueue k p v (fst (evict ek e q w)) (snd (evict ek e q w)) = Some (r, q', w')"
            "out = Evicted r (to_demand ek e)"
          using assms cap none full m
          by (auto simp: schedule_def case_prod_beta split: option.splits)
        moreover have "q_priority e \<le> p" using False by simp
        ultimately show ?thesis using cap none full m by (intro that(4))
      qed
    qed
  qed
qed

lemma schedule_inv:
  assumes inv: "queue_inv {} q w" and s: "schedule k p v q w = Some (out, q', w')"
  shows "queue_inv {} q' w'"
  using s
proof (cases rule: schedule_cases)
  case no_capacity
  then show ?thesis using inv by simp
next
  case rejected
  then show ?thesis using inv by simp
next
  case (replaced prev r)
  have "queue_inv {} q (snd (source_cancel (q_cancellation prev) w))"
    using inv store_le_cancel by (rule queue_inv_store_le)
  note i = remove_queued_inv[OF this, of k]
  have "length (queued q) \<le> capacity q" and "hm_ok (queued q)"
    using inv by (auto simp: queue_inv_def maps_ok_def)
  then have room: "length (hm_remove k (queued q)) < capacity q"
    using replaced(1,2) by (cases "queued q") (auto simp: hm.length_remove)
  show ?thesis
    by (rule enqueue_inv[OF i _ _ _ replaced(3)]) (use room in simp_all)
next
  case (evicted ek e r)
  have e: "map_of (queued q) ek = Some e" using min_entry[OF inv evicted(4)] .
  note i = evict_inv[OF inv e]
  have "length (queued q) \<le> capacity q" and "hm_ok (queued q)" and "queued q \<noteq> []"
    using inv e by (auto simp: queue_inv_def maps_ok_def)
  then have room: "length (hm_remove ek (queued q)) < capacity q"
    using evicted(1) e by (cases "queued q") (auto simp: hm.length_remove)
  show ?thesis
    by (rule enqueue_inv[OF i _ _ _ evicted(6)]) (use room evicted(2) in \<open>simp_all add: evict_def\<close>)
next
  case (queued r)
  then show ?thesis using enqueue_inv[OF inv _ queued(2,3,4)] by simp
qed

lemma pop_next_cases:
  assumes "pop_next q = (r, q')"
  obtains (nothing) "r = None" "q' = q"
  | (popped) k e where "length (in_flight q) < max_in_flight q"
      "max_by_key entry_rank (filter (\<lambda>(k, _). map_of (in_flight q) k = None) (queued q)) = Some (k, e)"
      "r = Some (to_demand k e)"
      "q' = q\<lparr>queued := hm_remove k (queued q),
             in_flight := hm_insert k \<lparr>f_revision = q_revision e, f_cancellation = q_cancellation e\<rparr>
               (in_flight q)\<rparr>"
  using assms by (auto simp: pop_next_def split: if_splits option.splits prod.splits)

lemma pop_next_inv:
  assumes inv: "queue_inv {} q w" and p: "pop_next q = (r, q')"
  shows "queue_inv {} q' w"
proof (rule pop_next_cases[OF p])
  assume "r = None" "q' = q"
  then show ?thesis using inv by simp
next
  fix k e
  assume a: "length (in_flight q) < max_in_flight q"
    "max_by_key entry_rank (filter (\<lambda>(k, _). map_of (in_flight q) k = None) (queued q)) = Some (k, e)"
    "q' = q\<lparr>queued := hm_remove k (queued q),
             in_flight := hm_insert k \<lparr>f_revision = q_revision e, f_cancellation = q_cancellation e\<rparr>
               (in_flight q)\<rparr>"
  have e: "map_of (queued q) k = Some e" "map_of (in_flight q) k = None"
    using max_entry[OF inv a(2)] by auto
  have m: "maps_ok q" and qo: "queued_ok q w" and fo: "flight_ok q w" and lo: "latest_ok {} q"
    using inv by (auto simp: queue_inv_def)
  have "maps_ok q'" using m e a(1) by (auto simp: maps_ok_def a(3) hm.length_remove hm.length_put)
  moreover have "queued_ok q' w"
    by (rule queued_okI; simp add: a(3) split: if_splits)
       (auto dest: queued_okD[OF qo] queued_ok_inj[OF qo])
  moreover have "flight_ok q' w"
    by (rule flight_okI; simp add: a(3) split: if_splits)
       (auto dest: queued_okD[OF qo] queued_ok_inj[OF qo _ e(1)] flight_okD[OF fo] flight_ok_inj[OF fo]
         flight_ok_disjoint[OF fo] flight_ok_disjoint(2)[OF fo e(1), THEN not_sym]
         simp: queued_okD[OF qo e(1)])
  moreover have "latest_ok {} q'"
    using lo queued_okD(1)[OF qo e(1)] by (auto simp: latest_ok_def a(3))
  ultimately show ?thesis by (simp add: queue_inv_def)
qed

lemma finish_cases:
  assumes "finish d q = (r, q')"
  obtains (unknown) "r = Unknown" "q' = q"
  | (publish) f where "map_of (in_flight q) (sd_key d) = Some f" "f_revision f = sd_revision d"
      "map_of (latest q) (sd_key d) = Some (f_revision f)" "r = Publish"
      "q' = q\<lparr>in_flight := hm_remove (sd_key d) (in_flight q), latest := hm_remove (sd_key d) (latest q)\<rparr>"
  | (stale) f where "map_of (in_flight q) (sd_key d) = Some f" "f_revision f = sd_revision d"
      "map_of (latest q) (sd_key d) \<noteq> Some (f_revision f)" "r = Stale"
      "q' = q\<lparr>in_flight := hm_remove (sd_key d) (in_flight q)\<rparr>"
  using assms by (auto simp: finish_def Let_def split: if_splits)

lemma finish_inv:
  assumes inv: "queue_inv {} q w" and s: "finish d q = (r, q')"
  shows "queue_inv {} q' w"
proof -
  have m: "maps_ok q" and qo: "queued_ok q w" and fo: "flight_ok q w" and lo: "latest_ok {} q"
    using inv by (auto simp: queue_inv_def)
  show ?thesis
  proof (rule finish_cases[OF s])
    assume "q' = q"
    then show ?thesis using inv by simp
  next
    fix f
    assume f: "map_of (in_flight q) (sd_key d) = Some f"
      "map_of (latest q) (sd_key d) = Some (f_revision f)"
      "q' = q\<lparr>in_flight := hm_remove (sd_key d) (in_flight q), latest := hm_remove (sd_key d) (latest q)\<rparr>"
    have gone: "map_of (queued q) (sd_key d) = None"
      using queued_okD(1)[OF qo] f(2) flight_ok_disjoint(1)[OF fo _ f(1)] by (metis not_Some_eq option.inject)
    have "maps_ok q'" using m f by (auto simp: maps_ok_def hm.length_remove)
    moreover have "queued_ok q' w"
      by (rule queued_okI; simp add: f(3) split: if_splits)
         (auto simp: gone dest: queued_okD[OF qo] queued_ok_inj[OF qo])
    moreover have "flight_ok q' w"
      by (rule flight_okI; simp add: f(3) split: if_splits)
         (auto dest: flight_okD[OF fo] flight_ok_inj[OF fo] flight_ok_disjoint[OF fo])
    moreover have "latest_ok {} q'" using lo by (auto simp: latest_ok_def f(3))
    ultimately show ?thesis by (simp add: queue_inv_def)
  next
    fix f
    assume f: "map_of (in_flight q) (sd_key d) = Some f"
      "map_of (latest q) (sd_key d) \<noteq> Some (f_revision f)"
      "q' = q\<lparr>in_flight := hm_remove (sd_key d) (in_flight q)\<rparr>"
    have "maps_ok q'" using m f by (auto simp: maps_ok_def hm.length_remove)
    moreover have "queued_ok q' w"
      by (rule queued_okI; simp add: f(3)) (auto dest: queued_okD[OF qo] queued_ok_inj[OF qo])
    moreover have "flight_ok q' w"
      by (rule flight_okI; simp add: f(3) split: if_splits)
         (auto dest: flight_okD[OF fo] flight_ok_inj[OF fo] flight_ok_disjoint[OF fo])
    moreover have "latest_ok {} q'"
      using lo f by (simp add: latest_ok_def) (metis option.inject)
    ultimately show ?thesis by (simp add: queue_inv_def)
  qed
qed

lemma cancel_key_inv:
  assumes inv: "queue_inv {} q w" and c: "cancel_key k q w = (r, q', w')"
  shows "queue_inv {} q' w'"
proof -
  let ?w1 = "cancel_in_flight k q w"
  have q': "queued q' = hm_remove k (queued q)" "latest q' = hm_remove k (latest q)"
    "in_flight q' = in_flight q" "next_revision q' = next_revision q" "capacity q' = capacity q"
    "max_in_flight q' = max_in_flight q"
    if "map_of (queued q) k \<noteq> None"
    using c that by (auto simp: cancel_key_def Let_def split: option.splits)
  have q'': "queued q' = queued q" "latest q' = hm_remove k (latest q)" "in_flight q' = in_flight q"
    "next_revision q' = next_revision q" "capacity q' = capacity q" "max_in_flight q' = max_in_flight q"
    if "map_of (queued q) k = None"
    using c that by (auto simp: cancel_key_def Let_def split: option.splits)
  have same: "cancel_in_flight k (q\<lparr>latest := hm_remove k (latest q)\<rparr>) w = ?w1"
    by (simp add: cancel_in_flight_def)
  have le: "store_le w w'" and dead: "\<And>f. map_of (in_flight q) k = Some f \<Longrightarrow> flag w' (f_cancellation f)"
    using c by (auto simp: cancel_key_def Let_def same store_le_def store_simps split: option.splits)
  note inv' = queue_inv_store_le[OF inv le]
  have m: "maps_ok q" and qo: "queued_ok q w'" and fo: "flight_ok q w'" and lo: "latest_ok {} q"
    using inv' by (auto simp: queue_inv_def)
  have qs: "map_of (queued q') = (map_of (queued q))(k := None)" "latest q' = hm_remove k (latest q)"
    "in_flight q' = in_flight q" "next_revision q' = next_revision q" "capacity q' = capacity q"
    "max_in_flight q' = max_in_flight q" "queued q' = queued q \<or> queued q' = hm_remove k (queued q)"
    using q' q'' by (cases "map_of (queued q) k"; simp add: fun_upd_idem)+
  have "maps_ok q'" using m qs by (auto simp: maps_ok_def hm.length_remove)
  moreover have "queued_ok q' w'"
    by (rule queued_okI; simp add: qs split: if_splits)
       (auto dest: queued_okD[OF qo] queued_ok_inj[OF qo])
  moreover have "flight_ok q' w'"
    by (rule flight_okI; simp add: qs split: if_splits)
       (auto dest: flight_okD[OF fo] flight_ok_inj[OF fo] flight_ok_disjoint[OF fo] dead)
  moreover have "latest_ok {} q'" using lo by (auto simp: latest_ok_def qs)
  ultimately show ?thesis by (simp add: queue_inv_def)
qed

lemma clear_pending_inv:
  assumes inv: "queue_inv {} q w" and c: "clear_pending q w = (r, q', w')"
  shows "queue_inv {} q' w'"
proof -
  have le: "store_le w w'" using c by (auto simp: clear_pending_def store_le_def store_simps)
  have dead: "flag w' (f_cancellation f)" if "map_of (in_flight q) k = Some f" for k f
    using c map_of_SomeD[OF that] by (force simp: clear_pending_def store_simps)
  have q': "q' = q\<lparr>latest := [], queued := []\<rparr>" using c by (auto simp: clear_pending_def)
  show ?thesis
    using queue_inv_store_le[OF inv le] dead
    by (auto simp: q' queue_inv_def inv_parts)
qed

end
