(* ===== verification/SchedulerProps.thy ===== *)
theory SchedulerProps
  imports SchedulerProofs
begin

text \<open>
  Runs of the latest-wins queue and the properties that hold in every reachable state. A run
  carries the history of what it has published, as pairs of key and revision, oldest first.
\<close>

section \<open>Runs\<close>

inductive queue_run ::
  "('k, 'v) lw_queue \<Rightarrow> 'a cancel_store_scheme \<Rightarrow> ('k \<times> revision) list \<Rightarrow> bool" where
  run_new: "with_max_in_flight cap flights = Inr q \<Longrightarrow> queue_run q w []"
| run_schedule: "queue_run q w h \<Longrightarrow> schedule k p v q w = Some (out, q', w') \<Longrightarrow> queue_run q' w' h"
| run_pop: "queue_run q w h \<Longrightarrow> pop_next q = (r, q') \<Longrightarrow> queue_run q' w h"
| run_publish: "queue_run q w h \<Longrightarrow> finish d q = (Publish, q') \<Longrightarrow>
    queue_run q' w (h @ [(sd_key d, sd_revision d)])"
| run_finish: "queue_run q w h \<Longrightarrow> finish d q = (r, q') \<Longrightarrow> r \<noteq> Publish \<Longrightarrow> queue_run q' w h"
| run_cancel: "queue_run q w h \<Longrightarrow> cancel_key k q w = (r, q', w') \<Longrightarrow> queue_run q' w' h"
| run_clear: "queue_run q w h \<Longrightarrow> clear_pending q w = (r, q', w') \<Longrightarrow> queue_run q' w' h"
| run_env: "queue_run q w h \<Longrightarrow> store_le w w' \<Longrightarrow> queue_run q w' h"

lemma new_queue_inv: "with_max_in_flight cap flights = Inr q \<Longrightarrow> queue_inv {} q w"
  by (auto simp: with_max_in_flight_def queue_inv_def inv_parts split: if_splits)

lemma queue_run_inv: "queue_run q w h \<Longrightarrow> queue_inv {} q w"
  by (induction rule: queue_run.induct)
     (blast intro: new_queue_inv schedule_inv pop_next_inv finish_inv cancel_key_inv
       clear_pending_inv queue_inv_store_le)+

text \<open>What has been published for a key is older than what runs for it, which is older than what
  waits for it.\<close>

definition history_inv :: "('k, 'v) lw_queue \<Rightarrow> ('k \<times> revision) list \<Rightarrow> bool" where
  "history_inv q h \<longleftrightarrow>
     (\<forall>k e f. map_of (queued q) k = Some e \<longrightarrow> map_of (in_flight q) k = Some f \<longrightarrow>
        f_revision f < q_revision e) \<and>
     (\<forall>(k, r) \<in> set h. r < next_revision q \<and>
        (\<forall>e. map_of (queued q) k = Some e \<longrightarrow> r < q_revision e) \<and>
        (\<forall>f. map_of (in_flight q) k = Some f \<longrightarrow> r < f_revision f)) \<and>
     sorted_wrt (\<lambda>(j, r) (k, s). j = k \<longrightarrow> r < s) h"

lemma history_invI:
  assumes "\<And>k e f. map_of (queued q) k = Some e \<Longrightarrow> map_of (in_flight q) k = Some f \<Longrightarrow>
      f_revision f < q_revision e"
    and "\<And>k r. (k, r) \<in> set h \<Longrightarrow> r < next_revision q"
    and "\<And>k r e. (k, r) \<in> set h \<Longrightarrow> map_of (queued q) k = Some e \<Longrightarrow> r < q_revision e"
    and "\<And>k r f. (k, r) \<in> set h \<Longrightarrow> map_of (in_flight q) k = Some f \<Longrightarrow> r < f_revision f"
    and "sorted_wrt (\<lambda>(j, r) (k, s). j = k \<longrightarrow> r < s) h"
  shows "history_inv q h"
  using assms unfolding history_inv_def by blast

lemma history_invD:
  assumes "history_inv q h"
  shows "map_of (queued q) k = Some e \<Longrightarrow> map_of (in_flight q) k = Some f \<Longrightarrow>
      f_revision f < q_revision e"
    and "(k, r) \<in> set h \<Longrightarrow> r < next_revision q"
    and "(k, r) \<in> set h \<Longrightarrow> map_of (queued q) k = Some e \<Longrightarrow> r < q_revision e"
    and "(k, r) \<in> set h \<Longrightarrow> map_of (in_flight q) k = Some f \<Longrightarrow> r < f_revision f"
    and "sorted_wrt (\<lambda>(j, r) (k, s). j = k \<longrightarrow> r < s) h"
  using assms unfolding history_inv_def by blast+

text \<open>The invariant looks at three maps only, and survives when they shrink.\<close>

lemma history_inv_shrink:
  assumes "history_inv q h" and "map_of (queued q') \<subseteq>\<^sub>m map_of (queued q)"
    and "map_of (in_flight q') \<subseteq>\<^sub>m map_of (in_flight q)" and "next_revision q' = next_revision q"
  shows "history_inv q' h"
proof -
  have a: "map_of (queued q) k = Some e" if "map_of (queued q') k = Some e" for k e
    using assms(2) that by (metis domI map_le_def)
  have b: "map_of (in_flight q) k = Some f" if "map_of (in_flight q') k = Some f" for k f
    using assms(3) that by (metis domI map_le_def)
  show ?thesis
    by (rule history_invI) (auto dest!: a b intro: history_invD[OF assms(1)] simp: assms(4))
qed

lemma history_inv_enqueue:
  assumes inv: "queue_inv X q w" and h: "history_inv q h" and e: "enqueue k p v q w = Some (r, q', w')"
  shows "history_inv q' h"
proof -
  obtain n where n: "checked_add (next_revision q) 1 = Some n" and r: "r = next_revision q"
    and q': "q' = q\<lparr>next_revision := n,
         queued := hm_insert k \<lparr>q_revision = r, q_priority = p, q_value = v, q_cancellation = fresh w\<rparr> (queued q),
         latest := hm_insert k r (latest q)\<rparr>"
    by (rule enqueue_Some[OF e]) blast
  have lt: "x < n \<longleftrightarrow> x \<le> r" for x using checked_add_one_le[OF n] r by simp
  have fo: "flight_ok q w" using inv by (simp add: queue_inv_def)
  have fl: "f_revision f < r" if "map_of (in_flight q) j = Some f" for j f
    using flight_okD(1)[OF fo that] r by simp
  have hr: "s < r" if "(j, s) \<in> set h" for j s using history_invD(2)[OF h that] r by simp
  show ?thesis
    by (rule history_invI, simp_all add: q' lt split: if_splits)
       (auto intro: history_invD[OF h] fl hr order_less_imp_le)
qed

lemma history_inv_schedule:
  assumes inv: "queue_inv {} q w" and h: "history_inv q h"
    and s: "schedule k p v q w = Some (out, q', w')"
  shows "history_inv q' h"
  using s
proof (cases rule: schedule_cases)
  case no_capacity
  then show ?thesis using h by simp
next
  case rejected
  then show ?thesis using h by simp
next
  case (replaced prev r)
  have "queue_inv {} q (snd (source_cancel (q_cancellation prev) w))"
    using inv store_le_cancel by (rule queue_inv_store_le)
  moreover have "history_inv (q\<lparr>queued := hm_remove k (queued q)\<rparr>) h"
    using h by (rule history_inv_shrink) (auto simp: map_le_def)
  ultimately show ?thesis
    using history_inv_enqueue[OF remove_queued_inv _ replaced(3)] by blast
next
  case (evicted ek e r)
  note i = evict_inv[OF inv min_entry[OF inv evicted(4)]]
  have "history_inv (fst (evict ek e q w)) h"
    using h by (rule history_inv_shrink) (auto simp: map_le_def evict_def)
  then show ?thesis using history_inv_enqueue[OF i _ evicted(6)] by blast
next
  case (queued r)
  then show ?thesis using history_inv_enqueue[OF inv h queued(4)] by blast
qed

lemma history_inv_pop:
  assumes inv: "queue_inv {} q w" and h: "history_inv q h" and p: "pop_next q = (r, q')"
  shows "history_inv q' h"
proof (rule pop_next_cases[OF p])
  assume "q' = q"
  then show ?thesis using h by simp
next
  fix k e
  assume a: "max_by_key entry_rank (filter (\<lambda>(k, _). map_of (in_flight q) k = None) (queued q)) = Some (k, e)"
    "q' = q\<lparr>queued := hm_remove k (queued q),
             in_flight := hm_insert k \<lparr>f_revision = q_revision e, f_cancellation = q_cancellation e\<rparr>
               (in_flight q)\<rparr>"
  have e: "map_of (queued q) k = Some e" using max_entry[OF inv a(1)] by simp
  show ?thesis
    by (rule history_invI, simp_all add: a(2) split: if_splits)
       (auto intro: history_invD[OF h] history_invD(3)[OF h _ e])
qed

lemma history_inv_publish:
  assumes inv: "queue_inv {} q w" and h: "history_inv q h" and f: "finish d q = (Publish, q')"
  shows "history_inv q' (h @ [(sd_key d, sd_revision d)])"
proof -
  obtain f where f: "map_of (in_flight q) (sd_key d) = Some f" "f_revision f = sd_revision d"
    "q' = q\<lparr>in_flight := hm_remove (sd_key d) (in_flight q), latest := hm_remove (sd_key d) (latest q)\<rparr>"
    by (rule finish_cases[OF f]) auto
  have "flight_ok q w" using inv by (simp add: queue_inv_def)
  note b = flight_okD(1)[OF this f(1)]
  show ?thesis
    by (rule history_invI, simp_all add: f(3) sorted_wrt_append history_invD(5)[OF h] split: if_splits)
       (use b f(2) in \<open>auto intro: history_invD[OF h] history_invD(4)[OF h _ f(1), simplified f(2)]
           history_invD(1)[OF h _ f(1), simplified f(2)]\<close>)
qed

lemma queue_run_history: "queue_run q w h \<Longrightarrow> history_inv q h"
proof (induction rule: queue_run.induct)
  case (run_env q w h w')
  then show ?case by simp
next
  case (run_new cap flights q w)
  then show ?case by (auto simp: with_max_in_flight_def history_inv_def split: if_splits)
next
  case (run_schedule q w h k p v out q' w')
  show ?case
    by (rule history_inv_schedule[OF queue_run_inv[OF run_schedule.hyps(1)] run_schedule.IH run_schedule.hyps(2)])
next
  case (run_pop q w h r q')
  show ?case
    by (rule history_inv_pop[OF queue_run_inv[OF run_pop.hyps(1)] run_pop.IH run_pop.hyps(2)])
next
  case (run_publish q w h d q')
  show ?case
    by (rule history_inv_publish[OF queue_run_inv[OF run_publish.hyps(1)] run_publish.IH run_publish.hyps(2)])
next
  case (run_finish q w h d r q')
  show ?case
    by (rule history_inv_shrink[OF run_finish.IH])
       (rule finish_cases[OF run_finish.hyps(2)]; auto simp: map_le_def)+
next
  case (run_cancel q w h k r q' w')
  then show ?case
    by (intro history_inv_shrink[OF run_cancel.IH])
       (auto simp: cancel_key_def Let_def map_le_def split: option.splits if_splits)
next
  case (run_clear q w h r q' w')
  then show ?case
    by (intro history_inv_shrink[OF run_clear.IH]) (auto simp: clear_pending_def)
qed

section \<open>Properties\<close>

text \<open>The queue is bounded: never more entries than its capacity, never more running
  operations than its limit, and the bookkeeping of the latest revisions does not leak: it never
  holds more than one mark for each of those.\<close>

theorem queue_is_bounded:
  assumes "queue_run q w h"
  shows "queue_len q \<le> capacity q \<and> length (in_flight q) \<le> max_in_flight q \<and>
    length (latest q) \<le> capacity q + max_in_flight q"
proof -
  have m: "maps_ok q" and lo: "latest_ok {} q"
    using queue_run_inv[OF assms] by (auto simp: queue_inv_def)
  then have ok: "hm_ok (queued q)" "hm_ok (in_flight q)" "hm_ok (latest q)"
    by (auto simp: maps_ok_def)
  have "dom (map_of (latest q)) \<subseteq> dom (map_of (queued q)) \<union> dom (map_of (in_flight q))"
    using lo unfolding latest_ok_def by auto
  then have "length (latest q) \<le> card (dom (map_of (queued q))) + card (dom (map_of (in_flight q)))"
    by (rule hm.length_bound[OF ok(3) _ hm.finite_dom[OF ok(1)] hm.finite_dom[OF ok(2)]])
  then show ?thesis
    using m hm.length_entries[OF ok(1)] hm.length_entries[OF ok(2)]
    by (simp add: maps_ok_def queue_len_def)
qed

text \<open>An operation whose completion is suppressed as stale had been cancelled before: its
  source is set, so the engine was asked to stop and not only its result thrown away.\<close>

theorem stale_completion_was_cancelled:
  assumes "queue_run q w h" and "finish d q = (Stale, q')"
  shows "\<exists>f. map_of (in_flight q) (sd_key d) = Some f \<and> f_revision f = sd_revision d \<and>
    flag w (f_cancellation f)"
proof -
  have fo: "flight_ok q w" using queue_run_inv[OF assms(1)] by (simp add: queue_inv_def)
  show ?thesis
    by (rule finish_cases[OF assms(2)]) (use flight_okD(3)[OF fo] in auto)
qed

text \<open>C4: For each key the published completions come in the order of their demands: every
  publication is of a strictly newer revision than all earlier ones for that key, so none is
  published twice and an older result never follows a newer one.\<close>

theorem publications_are_ordered:
  assumes "queue_run q w (h @ [(k, r)] @ h' @ [(k, s)] @ h'')"
  shows "r < s"
  using queue_run_history[OF assms] by (auto simp: history_inv_def sorted_wrt_append)

text \<open>\<open>pop_next\<close> takes a demand of maximal priority, and among those the newest, from the
  queued keys that are not running; what it takes is the latest demand of its key, is registered
  with the same source as running, and is gone from the queue.\<close>

theorem pop_next_takes_best:
  assumes "queue_run q w h" and "pop_next q = (Some d, q')"
  shows "map_of (in_flight q) (sd_key d) = None \<and> is_latest d q' \<and> \<not> contains_key (sd_key d) q' \<and>
    map_of (in_flight q') (sd_key d) = Some \<lparr>f_revision = sd_revision d, f_cancellation = sd_cancellation d\<rparr> \<and>
    (\<forall>k e. map_of (queued q) k = Some e \<and> map_of (in_flight q) k = None \<longrightarrow>
       (q_priority e, q_revision e) \<le> (sd_priority d, sd_revision d))"
proof -
  have inv: "queue_inv {} q w" using assms(1) by (rule queue_run_inv)
  obtain k e where a: "max_by_key entry_rank (filter (\<lambda>(k, _). map_of (in_flight q) k = None) (queued q)) = Some (k, e)"
    "d = to_demand k e"
    "q' = q\<lparr>queued := hm_remove k (queued q),
             in_flight := hm_insert k \<lparr>f_revision = q_revision e, f_cancellation = q_cancellation e\<rparr>
               (in_flight q)\<rparr>"
    by (rule pop_next_cases[OF assms(2)]) auto
  have e: "map_of (queued q) k = Some e" "map_of (in_flight q) k = None"
    using max_entry[OF inv a(1)] by auto
  have "map_of (latest q) k = Some (q_revision e)"
    using inv e by (auto simp: queue_inv_def dest: queued_okD)
  moreover have "\<forall>j e'. map_of (queued q) j = Some e' \<and> map_of (in_flight q) j = None \<longrightarrow>
      (q_priority e', q_revision e') \<le> (q_priority e, q_revision e)"
    using max_by_key_Some(2)[OF a(1)] map_of_SomeD[of "queued q"] by (fastforce simp: entry_rank_def)
  ultimately show ?thesis
    using e by (simp add: a is_latest_def contains_key_def to_demand_def)
qed

text \<open>\<open>pop_next\<close> returns nothing only when the limit of running operations is reached or
  every queued key is running: pending work is never left behind.\<close>

theorem pop_next_makes_progress:
  "fst (pop_next q) = None \<longleftrightarrow>
     max_in_flight q \<le> length (in_flight q) \<or> fst ` set (queued q) \<subseteq> dom (map_of (in_flight q))"
proof (cases "max_in_flight q \<le> length (in_flight q)")
  case True
  then show ?thesis by (simp add: pop_next_def)
next
  case False
  let ?xs = "filter (\<lambda>(k, _). map_of (in_flight q) k = None) (queued q)"
  have "fst (pop_next q) = None \<longleftrightarrow> max_by_key entry_rank ?xs = None"
    using False by (simp add: pop_next_def del: max_by_key_None split: option.splits prod.splits)
  also have "\<dots> \<longleftrightarrow> ?xs = []" by (rule max_by_key_None)
  also have "\<dots> \<longleftrightarrow> fst ` set (queued q) \<subseteq> dom (map_of (in_flight q))"
    by (auto simp: filter_empty_conv)
  finally show ?thesis using False by simp
qed

text \<open>Latest wins: after \<open>schedule\<close> accepts a demand, it is the one queued and the latest of
  its key, and an operation that runs for the same key is cancelled and its completion is
  suppressed.\<close>

theorem schedule_supersedes_running:
  assumes "queue_run q w h" and "schedule k p v q w = Some (out, q', w')"
    and "outcome_revision out = Some r"
  shows "map_of (latest q') k = Some r \<and>
    (\<exists>e. map_of (queued q') k = Some e \<and> q_revision e = r \<and> q_priority e = p \<and> q_value e = v) \<and>
    (\<forall>f d. map_of (in_flight q') k = Some f \<and> sd_key d = k \<and> sd_revision d = f_revision f \<longrightarrow>
       flag w' (f_cancellation f) \<and> fst (finish d q') = Stale)"
proof -
  have inv: "queue_inv {} q' w'" by (rule schedule_inv[OF queue_run_inv[OF assms(1)] assms(2)])
  have step: "map_of (latest q') k = Some r \<and>
      (\<exists>e. map_of (queued q') k = Some e \<and> q_revision e = r \<and> q_priority e = p \<and> q_value e = v)"
    if "enqueue k p v q0 w0 = Some (r, q', w')" for q0 w0
    by (rule enqueue_Some[OF that]) simp
  have new: "map_of (latest q') k = Some r \<and>
      (\<exists>e. map_of (queued q') k = Some e \<and> q_revision e = r \<and> q_priority e = p \<and> q_value e = v)"
    using assms(2)
  proof (cases rule: schedule_cases)
    case (replaced prev s)
    then show ?thesis using step assms(3) by auto
  next
    case (evicted ek e s)
    then show ?thesis using step assms(3) by auto
  next
    case (queued s)
    then show ?thesis using step assms(3) by auto
  qed (use assms(3) in auto)
  then obtain e where e: "map_of (queued q') k = Some e" "q_revision e = r" by auto
  have fo: "flight_ok q' w'" using inv by (simp add: queue_inv_def)
  have "flag w' (f_cancellation f) \<and> fst (finish d q') = Stale"
    if "map_of (in_flight q') k = Some f" "sd_key d = k" "sd_revision d = f_revision f" for f d
    using flight_okD(3)[OF fo that(1)] flight_ok_disjoint(1)[OF fo e(1) that(1)] new e that
    by (auto simp: finish_def Let_def)
  then show ?thesis using new by blast
qed

text \<open>Capacity is enforced by priority: a demand is refused, without any effect, exactly when
  the queue has no capacity or is full of work of higher priority than the demand and does not hold
  its key; what a full queue evicts is a lowest-priority entry, the oldest among those, and it is
  cancelled.\<close>

theorem schedule_evicts_lowest:
  assumes "queue_run q w h" and "schedule k p v q w = Some (out, q', w')"
  shows "(out = Rejected v \<longleftrightarrow> capacity q = 0 \<or>
      (\<not> contains_key k q \<and> capacity q \<le> queue_len q \<and>
       (\<forall>(j, e) \<in> set (queued q). p < q_priority e))) \<and>
    (out = Rejected v \<longrightarrow> q' = q \<and> w' = w) \<and>
    (\<forall>r d. out = Evicted r d \<longrightarrow> sd_priority d \<le> p \<and> flag w' (sd_cancellation d) \<and>
       (\<forall>(j, e) \<in> set (queued q). (sd_priority d, sd_revision d) \<le> (q_priority e, q_revision e)))"
  using assms(2)
proof (cases rule: schedule_cases)
  case no_capacity
  then show ?thesis by simp
next
  case (replaced prev r)
  then show ?thesis by (auto simp: contains_key_def)
next
  case (rejected ek e)
  have "p < q_priority e'" if "(j, e') \<in> set (queued q)" for j e'
    using min_by_key_Some(2)[OF rejected(4) that] rejected(5) by (auto simp: entry_rank_def)
  then show ?thesis using rejected by (auto simp: contains_key_def queue_len_def)
next
  case (evicted ek e r)
  have inv: "queue_inv {} q w" by (rule queue_run_inv[OF assms(1)])
  have e: "map_of (queued q) ek = Some e" using min_entry[OF inv evicted(4)] .
  have low: "(q_priority e, q_revision e) \<le> (q_priority e', q_revision e')"
    if "(j, e') \<in> set (queued q)" for j e'
    using min_by_key_Some(2)[OF evicted(4) that] by (simp add: entry_rank_def)
  have "store_le (snd (evict ek e q w)) w'" by (rule enqueue_Some[OF evicted(6)])
  moreover have "q_cancellation e < fresh w" using inv e by (auto simp: queue_inv_def dest: queued_okD)
  ultimately have "flag w' (q_cancellation e)"
    by (auto simp: evict_def store_le_def store_simps)
  then show ?thesis
    using evicted low map_of_SomeD[OF e] by (fastforce simp: to_demand_def)
next
  case (queued r)
  then show ?thesis by (auto simp: queue_len_def)
qed

text \<open>What a caller of \<open>schedule\<close> sees, without the new state.\<close>

lemma enqueue_outcome:
  "map_option fst (enqueue k p v q w) = map_option (\<lambda>_. next_revision q) (checked_add (next_revision q) 1)"
  by (auto simp: enqueue_def allocate_revision_def Let_def split: option.splits prod.splits)

lemma map_option_triple:
  "map_option fst (case x of None \<Rightarrow> None | Some (r, q', w') \<Rightarrow> Some (g r, q', w')) =
     map_option g (map_option fst x)"
  by (cases x) auto

lemma schedule_outcome:
  "map_option fst (schedule k p v q w) =
     (let rev = map_option (\<lambda>_. next_revision q) (checked_add (next_revision q) 1) in
      if capacity q = 0 then Some (Rejected v)
      else case map_of (queued q) k of
        Some previous \<Rightarrow> map_option (\<lambda>r. Replaced r (q_value previous)) rev
      | None \<Rightarrow>
          if capacity q \<le> length (queued q) then
            (case min_by_key entry_rank (queued q) of
               None \<Rightarrow> None
             | Some (ek, e) \<Rightarrow> if p < q_priority e then Some (Rejected v)
                 else map_option (\<lambda>r. Evicted r (to_demand ek e)) rev)
          else map_option Queued rev)"
  by (simp add: schedule_def evict_def Let_def map_option_triple enqueue_outcome split: option.splits)

text \<open>The choices of the queue do not depend on the iteration order of its hash maps: two
  queues with the same contents pop the same demand and answer \<open>schedule\<close> in the same way.\<close>

theorem choices_ignore_hash_order:
  assumes "queue_run q w h" and "hm_ok qd" and "set qd = set (queued q)"
  shows "fst (pop_next (q\<lparr>queued := qd\<rparr>)) = fst (pop_next q) \<and>
    map_option fst (schedule k p v (q\<lparr>queued := qd\<rparr>) w) = map_option fst (schedule k p v q w)"
proof -
  have inv: "queue_inv {} q w" using assms(1) by (rule queue_run_inv)
  then have ok: "hm_ok (queued q)" and qo: "queued_ok q w"
    by (auto simp: queue_inv_def maps_ok_def)
  have same: "map_of qd = map_of (queued q)"
    using assms(2,3) ok by (simp add: hm_ok_def map_of_inject_set)
  have len: "length qd = length (queued q)"
    using assms(2) ok same by (simp add: hm.length_entries)
  have inj: "inj_on entry_rank (set (queued q))"
    using ok queued_ok_inj[OF qo] by (fastforce intro!: inj_onI simp: entry_rank_def hm.entries_lookup)
  let ?P = "\<lambda>(k, _). map_of (in_flight q) k = None"
  have "max_by_key entry_rank (filter ?P qd) = max_by_key entry_rank (filter ?P (queued q))"
    by (rule max_by_key_order_irrelevant) (use assms(3) inj_on_subset[OF inj] in auto)
  then have "fst (pop_next (q\<lparr>queued := qd\<rparr>)) = fst (pop_next q)"
    by (simp add: pop_next_def split: option.splits)
  moreover have "min_by_key entry_rank qd = min_by_key entry_rank (queued q)"
    by (rule min_by_key_order_irrelevant) (use assms(3) inj in auto)
  ultimately show ?thesis by (simp add: schedule_outcome Let_def same len split: option.splits)
qed

text \<open>Scheduling panics only when the 128-bit revision counter is exhausted.\<close>

theorem schedule_is_total:
  assumes "next_revision q \<noteq> - 1"
  shows "\<exists>out q' w'. schedule k p v q w = Some (out, q', w')"
proof -
  have "unat (next_revision q) + 1 < 2 ^ 128"
  proof (rule ccontr)
    assume "\<not> unat (next_revision q) + 1 < 2 ^ 128"
    moreover have "unat (next_revision q) < 2 ^ LENGTH(128)" by (rule unsigned_less)
    ultimately have "unat (next_revision q) = 2 ^ 128 - 1" by simp
    then have "next_revision q = - 1"
      by (simp add: word_unat_eq_iff unsigned_minus_1_eq_mask mask_eq_exp_minus_1)
    then show False using assms by simp
  qed
  then have "\<exists>n. checked_add (next_revision q) 1 = Some n" by (simp add: checked_add_def)
  then have "map_option fst (schedule k p v q w) \<noteq> None"
    by (auto simp: schedule_outcome Let_def split: option.splits)
  then show ?thesis by (cases "schedule k p v q w") auto
qed

section \<open>Witnesses\<close>

text \<open>A queue of capacity one: key 0 is demanded, taken, demanded again while it runs.\<close>

definition demo_new :: "(nat, nat) lw_queue" where
  "demo_new = \<lparr>capacity = 1, max_in_flight = 1, next_revision = 1, queued = [], in_flight = [], latest = []\<rparr>"

definition demo_store :: cancel_store where
  "demo_store = \<lparr>fresh = 0, flag = (\<lambda>_. False)\<rparr>"

definition demo_pending :: "(nat, nat) lw_queue \<times> cancel_store" where
  "demo_pending = (case schedule 0 128 7 demo_new demo_store of Some (_, q, w) \<Rightarrow> (q, w))"

definition demo_running :: "(nat, nat) lw_queue" where
  "demo_running = snd (pop_next (fst demo_pending))"

definition demo_superseded :: "(nat, nat) lw_queue \<times> cancel_store" where
  "demo_superseded = (case schedule 0 128 8 demo_running (snd demo_pending) of Some (_, q, w) \<Rightarrow> (q, w))"

definition demo_first :: "(nat, nat) scheduled_demand" where
  "demo_first = \<lparr>sd_key = 0, sd_revision = 1, sd_priority = 128, sd_value = 7, sd_cancellation = 0\<rparr>"

lemmas scheduler_defs = schedule_def enqueue_def allocate_revision_def checked_add_def source_new_def
  cancel_in_flight_def source_cancel_def hm_insert_def hm_remove_def pop_next_def finish_def
  entry_rank_def to_demand_def evict_def demo_new_def demo_store_def demo_pending_def demo_running_def
  demo_superseded_def demo_first_def Let_def

lemma demo_steps:
  "with_max_in_flight 1 1 = Inr demo_new"
  "schedule 0 128 7 demo_new demo_store = Some (Queued 1, fst demo_pending, snd demo_pending)"
  "pop_next (fst demo_pending) = (Some demo_first, demo_running)"
  "schedule 0 128 8 demo_running (snd demo_pending) =
     Some (Queued 2, fst demo_superseded, snd demo_superseded)"
  "finish demo_first (fst demo_superseded) = (Stale, (fst demo_superseded)\<lparr>in_flight := []\<rparr>)"
  "finish demo_first demo_running = (Publish, demo_running\<lparr>in_flight := [], latest := []\<rparr>)"
  by (simp_all add: with_max_in_flight_def scheduler_defs)

lemma demo_runs:
  "queue_run demo_new demo_store []"
  "queue_run (fst demo_pending) (snd demo_pending) []"
  "queue_run demo_running (snd demo_pending) []"
  "queue_run (fst demo_superseded) (snd demo_superseded) []"
proof -
  show 1: "queue_run demo_new demo_store []" by (rule run_new[OF demo_steps(1)])
  show 2: "queue_run (fst demo_pending) (snd demo_pending) []" by (rule run_schedule[OF 1 demo_steps(2)])
  show 3: "queue_run demo_running (snd demo_pending) []" by (rule run_pop[OF 2 demo_steps(3)])
  show "queue_run (fst demo_superseded) (snd demo_superseded) []" by (rule run_schedule[OF 3 demo_steps(4)])
qed

text \<open>Two publications for the same key.\<close>

lemma demo_twice: "\<exists>q w. queue_run (q :: (nat, nat) lw_queue) (w :: cancel_store) ([] @ [(0::nat, 1)] @ [] @ [(0, 2)] @ [])"
proof -
  define q1 where "q1 = demo_running\<lparr>in_flight := [], latest := []\<rparr>"
  define r1 where "r1 = the (schedule 0 128 9 q1 (snd demo_pending))"
  define r2 where "r2 = pop_next (fst (snd r1))"
  define r3 where "r3 = finish (the (fst r2)) (snd r2)"
  have 1: "queue_run q1 (snd demo_pending) [(0, 1)]"
    using run_publish[OF demo_runs(3) demo_steps(6)] by (simp add: q1_def demo_first_def)
  have 2: "schedule 0 128 9 q1 (snd demo_pending) = Some (fst r1, fst (snd r1), snd (snd r1))"
    by (simp add: r1_def q1_def scheduler_defs)
  have 3: "pop_next (fst (snd r1)) = (fst r2, snd r2)" by (simp add: r2_def)
  have 4: "finish (the (fst r2)) (snd r2) = (Publish, snd r3)"
    and 5: "sd_key (the (fst r2)) = 0" "sd_revision (the (fst r2)) = 2"
    by (simp_all add: r3_def r2_def r1_def q1_def scheduler_defs)
  show ?thesis
    using run_publish[OF run_pop[OF run_schedule[OF 1 2] 3] 4] 5 by auto
qed

theorem queue_is_bounded_witness: "queue_len (fst demo_superseded) \<le> 1"
  using queue_is_bounded[OF demo_runs(4)] by (simp add: scheduler_defs)

theorem stale_completion_was_cancelled_witness:
  "\<exists>f. map_of (in_flight (fst demo_superseded)) 0 = Some f \<and> flag (snd demo_superseded) (f_cancellation f)"
  using stale_completion_was_cancelled[OF demo_runs(4) demo_steps(5)] by (auto simp: demo_first_def)

theorem publications_are_ordered_witness: "(1::revision) < 2"
proof -
  obtain q :: "(nat, nat) lw_queue" and w :: cancel_store where
    "queue_run q w ([] @ [(0::nat, 1)] @ [] @ [(0, 2)] @ [])"
    using demo_twice by blast
  then show ?thesis by (rule publications_are_ordered)
qed

theorem pop_next_takes_best_witness:
  "is_latest demo_first demo_running \<and> \<not> contains_key 0 demo_running"
  using pop_next_takes_best[OF demo_runs(2) demo_steps(3)] by (simp add: demo_first_def)

theorem schedule_supersedes_running_witness:
  "map_of (latest (fst demo_superseded)) 0 = Some 2 \<and> fst (finish demo_first (fst demo_superseded)) = Stale"
proof -
  have "map_of (in_flight (fst demo_superseded)) 0 = Some \<lparr>f_revision = 1, f_cancellation = 0\<rparr>"
    by (simp add: scheduler_defs)
  then show ?thesis
    using schedule_supersedes_running[OF demo_runs(3) demo_steps(4), of 2] by (simp add: demo_first_def)
qed

theorem schedule_evicts_lowest_witness:
  "fst (the (schedule 1 64 3 (fst demo_pending) (snd demo_pending))) = Rejected 3 \<and>
   (\<exists>d. fst (the (schedule 1 128 3 (fst demo_pending) (snd demo_pending))) = Evicted 2 d \<and> sd_priority d \<le> 128)"
proof -
  have 1: "schedule 1 64 3 (fst demo_pending) (snd demo_pending) =
      Some (Rejected 3, fst demo_pending, snd demo_pending)"
    by (simp add: scheduler_defs)
  define r where "r = the (schedule 1 128 3 (fst demo_pending) (snd demo_pending))"
  have 2: "schedule 1 128 3 (fst demo_pending) (snd demo_pending) =
      Some (Evicted 2 demo_first, fst (snd r), snd (snd r))"
    by (simp add: r_def scheduler_defs)
  show ?thesis
    using schedule_evicts_lowest[OF demo_runs(2) 1] schedule_evicts_lowest[OF demo_runs(2) 2] 1 2 by simp
qed

theorem choices_ignore_hash_order_witness:
  "\<exists>q :: (nat, nat) lw_queue. map fst (queued q) = [0, 1] \<and>
     fst (pop_next (q\<lparr>queued := rev (queued q)\<rparr>)) = fst (pop_next q)"
proof -
  define q0 :: "(nat, nat) lw_queue" where "q0 = demo_new\<lparr>capacity := 2\<rparr>"
  define r1 where "r1 = the (schedule 0 64 7 q0 demo_store)"
  define r2 where "r2 = the (schedule 1 64 8 (fst (snd r1)) (snd (snd r1)))"
  have 0: "with_max_in_flight 2 1 = Inr q0" by (simp add: with_max_in_flight_def q0_def demo_new_def)
  have 1: "schedule 0 64 7 q0 demo_store = Some (fst r1, fst (snd r1), snd (snd r1))"
    by (simp add: r1_def q0_def scheduler_defs)
  have 2: "schedule 1 64 8 (fst (snd r1)) (snd (snd r1)) = Some (fst r2, fst (snd r2), snd (snd r2))"
    by (simp add: r2_def r1_def q0_def scheduler_defs)
  have keys: "map fst (queued (fst (snd r2))) = [0, 1]"
    by (simp add: r2_def r1_def q0_def scheduler_defs)
  note run = run_schedule[OF run_schedule[OF run_new[OF 0] 1] 2]
  have "hm_ok (rev (queued (fst (snd r2))))" by (simp add: hm_ok_def rev_map[symmetric] keys)
  from choices_ignore_hash_order[OF run this] keys show ?thesis
    by (intro exI[of _ "fst (snd r2)"]) simp
qed

theorem schedule_is_total_witness:
  "\<exists>out q' w'. schedule 0 0 5 demo_new demo_store = Some (out, q', w')"
  by (rule schedule_is_total) (simp add: demo_new_def)

end
