(* ===== verification/Session.thy ===== *)
theory Session
  imports CancelStore
begin

text \<open>
  Document sessions, \<open>crates/key-pdf-runtime/src/session.rs\<close>. A \<open>DocumentSession\<close> is an
  \<open>Arc\<close> to a \<open>SessionState\<close>, shared by the engine owner and by every client that received
  it: the model keeps the states in the \<open>world\<close>, which extends the cancellation store, and a
  session is the address of its state. The atomic counters are \<open>u64\<close> words. The manager owns
  the current session and cancels it before it starts another.
\<close>

named_theorems session_simps \<open>effect of the session operations on the world\<close>

section \<open>State\<close>

record session_state =
  ss_generation :: u64
  ss_cancellation :: source
  ss_next_request :: u64
  ss_next_resource :: u64

type_synonym session = nat

record world = cancel_store +
  next_session :: nat
  session_at :: "nat \<Rightarrow> session_state"

record resource_handle =
  rh_generation :: u64
  rh_id :: u64

datatype allocation_error = RequestIdsExhausted | ResourceIdsExhausted

datatype session_error = GenerationsExhausted

record session_manager =
  next_generation :: u64
  active :: "session option"

section \<open>Operations\<close>

text \<open>\<open>fetch_update(checked_add(1))\<close>, then \<open>NonZeroU64::new\<close> of the old value.\<close>

definition allocate_non_zero :: "u64 \<Rightarrow> u64 option \<times> u64" where
  "allocate_non_zero counter =
     (case checked_add counter 1 of
        None \<Rightarrow> (None, counter)
      | Some n \<Rightarrow> (if counter = 0 then None else Some counter, n))"

definition session_new :: "u64 \<Rightarrow> world \<Rightarrow> session \<times> world" where
  "session_new gen w =
     (case source_new w of (c, w1) \<Rightarrow>
        (next_session w1,
         w1\<lparr>next_session := Suc (next_session w1),
            session_at := (session_at w1)(next_session w1 :=
              \<lparr>ss_generation = gen, ss_cancellation = c, ss_next_request = 1,
               ss_next_resource = 1\<rparr>)\<rparr>))"

definition session_generation :: "session \<Rightarrow> world \<Rightarrow> u64" where
  "session_generation s w = ss_generation (session_at w s)"

definition session_cancellation :: "session \<Rightarrow> world \<Rightarrow> token" where
  "session_cancellation s w = source_token (ss_cancellation (session_at w s))"

definition session_cancel :: "session \<Rightarrow> world \<Rightarrow> bool \<times> world" where
  "session_cancel s w = source_cancel (ss_cancellation (session_at w s)) w"

definition session_is_cancelled :: "session \<Rightarrow> world \<Rightarrow> bool" where
  "session_is_cancelled s w = source_is_cancelled (ss_cancellation (session_at w s)) w"

definition next_request_id :: "session \<Rightarrow> world \<Rightarrow> (allocation_error, u64) rust_result \<times> world" where
  "next_request_id s w =
     (case allocate_non_zero (ss_next_request (session_at w s)) of (r, n) \<Rightarrow>
        (case r of None \<Rightarrow> Inl RequestIdsExhausted | Some i \<Rightarrow> Inr i,
         w\<lparr>session_at := (session_at w)(s := (session_at w s)\<lparr>ss_next_request := n\<rparr>)\<rparr>))"

definition allocate_resource ::
  "session \<Rightarrow> world \<Rightarrow> (allocation_error, resource_handle) rust_result \<times> world" where
  "allocate_resource s w =
     (case allocate_non_zero (ss_next_resource (session_at w s)) of (r, n) \<Rightarrow>
        (case r of None \<Rightarrow> Inl ResourceIdsExhausted
         | Some i \<Rightarrow> Inr \<lparr>rh_generation = session_generation s w, rh_id = i\<rparr>,
         w\<lparr>session_at := (session_at w)(s := (session_at w s)\<lparr>ss_next_resource := n\<rparr>)\<rparr>))"

definition belongs_to :: "resource_handle \<Rightarrow> u64 \<Rightarrow> bool" where
  "belongs_to h gen \<longleftrightarrow> rh_generation h = gen"

definition session_owns :: "session \<Rightarrow> resource_handle \<Rightarrow> world \<Rightarrow> bool" where
  "session_owns s h w \<longleftrightarrow> belongs_to h (session_generation s w)"

definition manager_new :: session_manager where
  "manager_new = \<lparr>next_generation = 1, active = None\<rparr>"

definition manager_close :: "session_manager \<Rightarrow> world \<Rightarrow> u64 option \<times> session_manager \<times> world" where
  "manager_close m w =
     (case active m of
        None \<Rightarrow> (None, m, w)
      | Some s \<Rightarrow>
          (Some (session_generation s w), m\<lparr>active := None\<rparr>, snd (session_cancel s w)))"

definition manager_begin ::
  "session_manager \<Rightarrow> world \<Rightarrow> (session_error, session) rust_result \<times> session_manager \<times> world" where
  "manager_begin m w =
     (if next_generation m = 0 then (Inl GenerationsExhausted, m, w)
      else
        let gen = next_generation m;
            m1 = m\<lparr>next_generation := (case checked_add gen 1 of None \<Rightarrow> 0 | Some n \<Rightarrow> n)\<rparr>
        in case manager_close m1 w of (_, m2, w2) \<Rightarrow>
           (case session_new gen w2 of (s, w3) \<Rightarrow> (Inr s, m2\<lparr>active := Some s\<rparr>, w3)))"

definition manager_current :: "session_manager \<Rightarrow> session option" where
  "manager_current m = active m"

definition manager_is_current :: "session_manager \<Rightarrow> u64 \<Rightarrow> world \<Rightarrow> bool" where
  "manager_is_current m gen w =
     (case active m of
        None \<Rightarrow> False
      | Some s \<Rightarrow> session_generation s w = gen \<and> \<not> session_is_cancelled s w)"

section \<open>Counters\<close>

lemma allocate_non_zero_Some:
  "allocate_non_zero c = (Some i, n) \<longleftrightarrow> i = c \<and> c \<noteq> 0 \<and> unat c + 1 < 2 ^ 64 \<and> unat n = unat c + 1"
  by (auto simp: allocate_non_zero_def checked_add_Some split: option.splits)
     (auto simp: checked_add_def word_unat_eq_iff unat_word_ariths split: if_splits)

lemma allocate_non_zero_None:
  "allocate_non_zero c = (None, n) \<Longrightarrow> unat c \<le> unat n"
  by (auto simp: allocate_non_zero_def checked_add_Some split: option.splits if_splits)

lemma allocate_non_zero_le: "unat c \<le> unat (snd (allocate_non_zero c))"
  by (auto simp: allocate_non_zero_def checked_add_Some split: option.splits if_splits)

interpretation counter: fresh_ids allocate_non_zero unat unat
proof unfold_locales
  fix c i n
  assume "allocate_non_zero c = (Some i, n)"
  then show "unat c \<le> unat i \<and> unat i < unat n" by (simp add: allocate_non_zero_Some)
next
  fix c n :: u64
  assume "allocate_non_zero c = (None, n)"
  then show "unat c \<le> unat n" by (rule allocate_non_zero_None)
qed

lemma session_frames [session_simps]:
  "fresh (snd (session_new g w)) = Suc (fresh w)"
  "next_session (snd (session_new g w)) = Suc (next_session w)"
  "fst (session_new g w) = next_session w"
  "flag (snd (session_new g w)) a = (a \<noteq> fresh w \<and> flag w a)"
  "session_at (snd (session_new g w)) s =
     (if s = next_session w
      then \<lparr>ss_generation = g, ss_cancellation = fresh w, ss_next_request = 1, ss_next_resource = 1\<rparr>
      else session_at w s)"
  by (simp_all add: session_new_def source_new_def)

lemma session_cancel_frames [session_simps]:
  "fst (session_cancel s w) = (\<not> flag w (ss_cancellation (session_at w s)))"
  "fresh (snd (session_cancel s w)) = fresh w"
  "flag (snd (session_cancel s w)) a = (a = ss_cancellation (session_at w s) \<or> flag w a)"
  "next_session (snd (session_cancel s w)) = next_session w"
  "session_at (snd (session_cancel s w)) = session_at w"
  by (simp_all add: session_cancel_def source_cancel_def)

lemma alloc_frames [session_simps]:
  "fresh (snd (next_request_id s w)) = fresh w"
  "flag (snd (next_request_id s w)) = flag w"
  "next_session (snd (next_request_id s w)) = next_session w"
  "session_at (snd (next_request_id s w)) t =
     (if t = s then (session_at w s)\<lparr>ss_next_request := snd (allocate_non_zero (ss_next_request (session_at w s)))\<rparr>
      else session_at w t)"
  "fresh (snd (allocate_resource s w)) = fresh w"
  "flag (snd (allocate_resource s w)) = flag w"
  "next_session (snd (allocate_resource s w)) = next_session w"
  "session_at (snd (allocate_resource s w)) t =
     (if t = s then (session_at w s)\<lparr>ss_next_resource := snd (allocate_non_zero (ss_next_resource (session_at w s)))\<rparr>
      else session_at w t)"
  by (simp_all add: next_request_id_def allocate_resource_def split: prod.splits)

lemma session_is_cancelled_iff [simp]:
  "session_is_cancelled s w \<longleftrightarrow> flag w (ss_cancellation (session_at w s))"
  by (simp add: session_is_cancelled_def source_is_cancelled_def)

lemma session_token_cancelled [simp]:
  "token_is_cancelled (session_cancellation s w) w' \<longleftrightarrow> flag w' (ss_cancellation (session_at w s))"
  by (simp add: session_cancellation_def)

section \<open>The world only grows\<close>

text \<open>
  \<open>world_le\<close> is the rely and the guarantee of every thread: sources and sessions are only
  added, cancellation is permanent, the identity of a session is fixed, its counters only grow.
  \<open>wf_world\<close> says that each session has a cancellation source of its own.
\<close>

definition world_le :: "world \<Rightarrow> world \<Rightarrow> bool" where
  "world_le w w' \<longleftrightarrow>
     store_le w w' \<and> next_session w \<le> next_session w' \<and>
     (\<forall>s < next_session w.
        ss_generation (session_at w' s) = ss_generation (session_at w s) \<and>
        ss_cancellation (session_at w' s) = ss_cancellation (session_at w s) \<and>
        unat (ss_next_request (session_at w s)) \<le> unat (ss_next_request (session_at w' s)) \<and>
        unat (ss_next_resource (session_at w s)) \<le> unat (ss_next_resource (session_at w' s)))"

definition wf_world :: "world \<Rightarrow> bool" where
  "wf_world w \<longleftrightarrow>
     (\<forall>s < next_session w. ss_cancellation (session_at w s) < fresh w) \<and>
     (\<forall>s < next_session w. \<forall>t < next_session w.
        ss_cancellation (session_at w s) = ss_cancellation (session_at w t) \<longrightarrow> s = t)"

lemma world_le_refl [simp, intro]: "world_le w w"
  by (simp add: world_le_def)

lemma world_le_trans [trans]:
  assumes "world_le u v" and "world_le v w"
  shows "world_le u w"
proof -
  have "store_le u w" using assms store_le_trans by (auto simp: world_le_def)
  moreover have "next_session u \<le> next_session v" and "next_session v \<le> next_session w"
    using assms by (auto simp: world_le_def)
  ultimately show ?thesis
    using assms unfolding world_le_def by (smt (verit) order_less_le_trans order_trans)
qed

lemma world_le_store: "world_le w w' \<Longrightarrow> store_le w w'"
  by (simp add: world_le_def)

lemma world_le_session_new [simp, intro]: "world_le w (snd (session_new g w))"
  by (auto simp: world_le_def store_le_def session_simps)

lemma world_le_session_cancel [simp, intro]: "world_le w (snd (session_cancel s w))"
  by (auto simp: world_le_def store_le_def session_simps)

lemma world_le_next_request [simp, intro]: "world_le w (snd (next_request_id s w))"
  by (auto simp: world_le_def store_le_def session_simps allocate_non_zero_le)

lemma world_le_allocate_resource [simp, intro]: "world_le w (snd (allocate_resource s w))"
  by (auto simp: world_le_def store_le_def session_simps allocate_non_zero_le)

lemma wf_session_new: "wf_world w \<Longrightarrow> wf_world (snd (session_new g w))"
  by (auto simp: wf_world_def session_simps less_Suc_eq)

lemma wf_session_cancel: "wf_world w \<Longrightarrow> wf_world (snd (session_cancel s w))"
  by (simp add: wf_world_def session_simps)

lemma alloc_identity [session_simps]:
  "ss_cancellation (session_at (snd (next_request_id s w)) t) = ss_cancellation (session_at w t)"
  "ss_cancellation (session_at (snd (allocate_resource s w)) t) = ss_cancellation (session_at w t)"
  "ss_generation (session_at (snd (next_request_id s w)) t) = ss_generation (session_at w t)"
  "ss_generation (session_at (snd (allocate_resource s w)) t) = ss_generation (session_at w t)"
  by (simp_all add: alloc_frames)

lemma wf_world_cong:
  "wf_world w \<Longrightarrow> fresh w' = fresh w \<Longrightarrow> next_session w' = next_session w \<Longrightarrow>
   (\<And>t. ss_cancellation (session_at w' t) = ss_cancellation (session_at w t)) \<Longrightarrow> wf_world w'"
  by (simp add: wf_world_def)

lemma wf_next_request: "wf_world w \<Longrightarrow> wf_world (snd (next_request_id s w))"
  by (erule wf_world_cong) (rule alloc_frames alloc_identity)+

lemma wf_allocate_resource: "wf_world w \<Longrightarrow> wf_world (snd (allocate_resource s w))"
  by (erule wf_world_cong) (rule alloc_frames alloc_identity)+

lemma world_le_generation:
  "world_le w w' \<Longrightarrow> s < next_session w \<Longrightarrow> session_generation s w' = session_generation s w"
  by (simp add: world_le_def session_generation_def)

lemma world_le_cancelled:
  "world_le w w' \<Longrightarrow> wf_world w \<Longrightarrow> s < next_session w \<Longrightarrow>
   session_is_cancelled s w \<Longrightarrow> session_is_cancelled s w'"
  by (simp add: world_le_def store_le_def wf_world_def)

lemma world_le_token_eq:
  "world_le w w' \<Longrightarrow> s < next_session w \<Longrightarrow> session_cancellation s w' = session_cancellation s w"
  by (simp add: world_le_def session_cancellation_def)

end
