(* ===== verification/SessionManager.thy ===== *)
theory SessionManager
  imports Session
begin

text \<open>
  The properties of document sessions: the life of a \<open>DocumentSessionManager\<close> in a world that
  other threads change (\<open>manager_run\<close>), its invariant, and what follows for generations,
  handles and identifiers.
\<close>

section \<open>What begin and close do\<close>

lemma manager_close_effect:
  "manager_close m w = (r, m', w') \<Longrightarrow>
   active m' = None \<and> next_generation m' = next_generation m \<and> world_le w w' \<and>
   (wf_world w \<longrightarrow> wf_world w') \<and> session_at w' = session_at w \<and> next_session w' = next_session w \<and>
   fresh w' = fresh w \<and> (\<forall>s. active m = Some s \<longrightarrow> session_is_cancelled s w')"
  by (auto simp: manager_close_def session_simps wf_session_cancel split: option.splits)

lemma manager_begin_effect:
  assumes "manager_begin m w = (Inr s, m', w')"
  shows "s = next_session w" and "active m' = Some s" and "world_le w w'"
    and "wf_world w \<Longrightarrow> wf_world w'" and "next_session w' = Suc (next_session w)"
    and "session_generation s w' = next_generation m" and "next_generation m \<noteq> 0"
    and "next_generation m' = 0 \<or> next_generation m < next_generation m'"
    and "\<And>t. active m = Some t \<Longrightarrow> wf_world w \<Longrightarrow> t < next_session w \<Longrightarrow> session_is_cancelled t w'"
    and "\<not> session_is_cancelled s w'"
proof -
  obtain r m2 w2 where c: "manager_close (m\<lparr>next_generation :=
      (case checked_add (next_generation m) 1 of None \<Rightarrow> 0 | Some n \<Rightarrow> n)\<rparr>) w = (r, m2, w2)"
    by (metis prod_cases3)
  note e = manager_close_effect[OF c]
  obtain w3 where n: "session_new (next_generation m) w2 = (next_session w2, w3)"
    by (metis session_frames(3) prod.exhaust_sel)
  have w3: "w3 = snd (session_new (next_generation m) w2)" using n by simp
  have r: "s = next_session w2" "m' = m2\<lparr>active := Some s\<rparr>" "w' = w3" "next_generation m \<noteq> 0"
    using assms n by (auto simp: manager_begin_def Let_def c split: if_splits)
  show "s = next_session w" "active m' = Some s" "next_generation m \<noteq> 0"
    using r e by simp_all
  have "world_le w2 w3" by (simp add: w3)
  then show le: "world_le w w'" using e r by (metis world_le_trans)
  show "wf_world w \<Longrightarrow> wf_world w'" using e r by (simp add: w3 wf_session_new)
  show "next_session w' = Suc (next_session w)" using e r by (simp add: w3 session_simps)
  show "session_generation s w' = next_generation m"
    using r by (simp add: w3 session_simps session_generation_def)
  show "next_generation m' = 0 \<or> next_generation m < next_generation m'"
    using r e by (auto split: option.splits dest: checked_add_one_less)
  show "\<not> session_is_cancelled s w'" using r by (simp add: w3 session_simps)
  fix t
  assume t: "active m = Some t" "wf_world w" "t < next_session w"
  then have "session_is_cancelled t w2" using e by auto
  moreover have "world_le w2 w'" using \<open>world_le w2 w3\<close> r by simp
  moreover have "wf_world w2" and "t < next_session w2" using t e by simp_all
  ultimately show "session_is_cancelled t w'" using world_le_cancelled by blast
qed

section \<open>Runs of a manager\<close>

text \<open>
  A run records the sessions the manager has begun, newest first. Between its calls any other
  thread may act: clients allocate identifiers or cancel, other managers begin sessions
  (\<open>run_env\<close>).
\<close>

inductive manager_run :: "session_manager \<Rightarrow> world \<Rightarrow> session list \<Rightarrow> bool" where
  run_init: "wf_world w \<Longrightarrow> manager_run manager_new w []"
| run_begin: "manager_run m w xs \<Longrightarrow> manager_begin m w = (Inr s, m', w') \<Longrightarrow> manager_run m' w' (s # xs)"
| run_close: "manager_run m w xs \<Longrightarrow> manager_close m w = (r, m', w') \<Longrightarrow> manager_run m' w' xs"
| run_env: "manager_run m w xs \<Longrightarrow> world_le w w' \<Longrightarrow> wf_world w' \<Longrightarrow> manager_run m w' xs"

inductive_cases manager_run_ConsE: "manager_run m w (s # xs)"

definition manager_inv :: "session_manager \<Rightarrow> world \<Rightarrow> session list \<Rightarrow> bool" where
  "manager_inv m w xs \<longleftrightarrow>
     wf_world w \<and> (\<forall>s \<in> set xs. s < next_session w) \<and>
     sorted_wrt (\<lambda>s t. session_generation t w < session_generation s w) xs \<and>
     (next_generation m \<noteq> 0 \<longrightarrow> (\<forall>s \<in> set xs. session_generation s w < next_generation m)) \<and>
     (\<forall>s \<in> set xs. active m \<noteq> Some s \<longrightarrow> session_is_cancelled s w) \<and>
     (\<forall>s. active m = Some s \<longrightarrow> xs \<noteq> [] \<and> hd xs = s)"

lemma sorted_generations_mono:
  assumes "sorted_wrt (\<lambda>s t. session_generation t w < session_generation s w) xs"
    and "\<forall>s \<in> set xs. session_generation s w' = session_generation s w"
  shows "sorted_wrt (\<lambda>s t. session_generation t w' < session_generation s w') xs"
  using assms(2) by (auto intro: sorted_wrt_mono_rel[OF _ assms(1)])

lemma manager_inv_env:
  assumes inv: "manager_inv m w xs" and le: "world_le w w'" and wf: "wf_world w'"
  shows "manager_inv m w' xs"
proof -
  have below: "\<forall>s \<in> set xs. s < next_session w" and "wf_world w"
    using inv by (auto simp: manager_inv_def)
  then have gen: "\<forall>s \<in> set xs. session_generation s w' = session_generation s w"
    and dead: "\<forall>s \<in> set xs. session_is_cancelled s w \<longrightarrow> session_is_cancelled s w'"
    using le world_le_generation world_le_cancelled by blast+
  have "\<forall>s \<in> set xs. s < next_session w'" using below le by (auto simp: world_le_def)
  moreover have "sorted_wrt (\<lambda>s t. session_generation t w' < session_generation s w') xs"
    using inv by (intro sorted_generations_mono[OF _ gen]) (simp add: manager_inv_def)
  ultimately show ?thesis
    using inv wf gen dead by (simp add: manager_inv_def del: session_is_cancelled_iff)
qed

lemma manager_inv_begin:
  assumes inv: "manager_inv m w xs" and step: "manager_begin m w = (Inr s, m', w')"
  shows "manager_inv m' w' (s # xs)"
proof -
  note e = manager_begin_effect[OF step]
  have wf: "wf_world w" and below: "\<forall>t \<in> set xs. t < next_session w"
    using inv by (auto simp: manager_inv_def)
  have env: "manager_inv m w' xs" using manager_inv_env[OF inv e(3) e(4)[OF wf]] .
  have older: "\<forall>t \<in> set xs. session_generation t w' < next_generation m"
    using env e(7) by (simp add: manager_inv_def)
  have dead: "\<forall>t \<in> set xs. session_is_cancelled t w'"
    using env e(9) wf below by (metis manager_inv_def)
  have "next_generation m' \<noteq> 0 \<longrightarrow> (\<forall>t \<in> set (s # xs). session_generation t w' < next_generation m')"
    using older e(6,8) by auto
  then show ?thesis
    using env e dead older wf unfolding manager_inv_def by auto
qed

lemma manager_inv_close:
  assumes inv: "manager_inv m w xs" and step: "manager_close m w = (r, m', w')"
  shows "manager_inv m' w' xs"
proof -
  note e = manager_close_effect[OF step]
  have "manager_inv m w' xs"
    using inv e by (intro manager_inv_env[OF inv]) (auto simp: manager_inv_def)
  then show ?thesis using e unfolding manager_inv_def by fastforce
qed

lemma manager_run_inv: "manager_run m w xs \<Longrightarrow> manager_inv m w xs"
proof (induction rule: manager_run.induct)
  case (run_init w)
  then show ?case by (simp add: manager_inv_def manager_new_def)
qed (blast intro: manager_inv_begin manager_inv_close manager_inv_env)+

lemma manager_run_generation_inj:
  assumes "manager_inv m w xs" and "s \<in> set xs" and "t \<in> set xs"
    and "session_generation s w = session_generation t w"
  shows "s = t"
proof -
  have "sorted_wrt (\<lambda>s t. session_generation t w < session_generation s w) xs"
    using assms(1) by (simp add: manager_inv_def)
  then have "sorted_wrt (<) (rev (map (\<lambda>s. session_generation s w) xs))"
    by (simp add: sorted_wrt_rev sorted_wrt_map)
  then have "distinct (map (\<lambda>s. session_generation s w) xs)"
    by (metis distinct_rev strict_sorted_iff)
  then show ?thesis using assms by (auto simp: distinct_map dest: inj_onD)
qed

section \<open>Properties\<close>

text \<open>C5: Whatever other threads do, at most one of the sessions a manager has begun is not
  cancelled: the newest one, and only while it is the active session.\<close>

theorem only_newest_session_lives:
  assumes "manager_run m w xs" and "s \<in> set xs" and "\<not> session_is_cancelled s w"
  shows "active m = Some s \<and> s = hd xs"
  using manager_run_inv[OF assms(1)] assms(2,3) by (auto simp: manager_inv_def)

text \<open>A generation the manager reports as current belongs to the newest session, and every
  other session of the run has a strictly smaller generation: results stamped with an older
  generation are never mistaken for current ones.\<close>

theorem current_generation_is_newest:
  assumes "manager_run m w xs" and "manager_is_current m gen w"
  shows "xs \<noteq> [] \<and> session_generation (hd xs) w = gen \<and>
    (\<forall>t \<in> set (tl xs). session_generation t w < gen \<and> session_is_cancelled t w)"
proof -
  have inv: "manager_inv m w xs" using assms(1) by (rule manager_run_inv)
  obtain s where s: "active m = Some s" "session_generation s w = gen"
    using assms(2) by (auto simp: manager_is_current_def split: option.splits)
  then obtain ys where xs: "xs = s # ys" using inv by (cases xs) (auto simp: manager_inv_def)
  then have "\<forall>t \<in> set ys. session_generation t w < gen"
    using inv s by (auto simp: manager_inv_def)
  moreover from this have "\<forall>t \<in> set ys. t \<noteq> s" using s by auto
  ultimately show ?thesis using inv s xs by (auto simp: manager_inv_def)
qed

text \<open>A resource handle belongs to the session that allocated it and to no other session of
  the manager, before or after.\<close>

theorem handles_stay_in_their_session:
  assumes "manager_run m w xs" and "s \<in> set xs" and "t \<in> set xs" and "t \<noteq> s"
    and "allocate_resource s w = (Inr h, w')"
  shows "session_owns s h w' \<and> \<not> session_owns t h w'"
proof -
  have inv: "manager_inv m w xs" using assms(1) by (rule manager_run_inv)
  have h: "rh_generation h = session_generation s w" and w': "w' = snd (allocate_resource s w)"
    using assms(5) by (auto simp: allocate_resource_def split: prod.splits option.splits)
  have "session_generation u w' = session_generation u w" for u
    by (simp add: w' session_generation_def session_simps)
  then show ?thesis
    using h manager_run_generation_inj[OF inv assms(2,3)] assms(4)
    by (auto simp: session_owns_def belongs_to_def)
qed

text \<open>The two identifier streams of one session are allocators in the sense of the prelude.\<close>

definition request_step :: "session \<Rightarrow> world \<Rightarrow> u64 option \<times> world" where
  "request_step s w = (case next_request_id s w of (Inl _, w') \<Rightarrow> (None, w') | (Inr i, w') \<Rightarrow> (Some i, w'))"

definition resource_step :: "session \<Rightarrow> world \<Rightarrow> u64 option \<times> world" where
  "resource_step s w =
     (case allocate_resource s w of (Inl _, w') \<Rightarrow> (None, w') | (Inr h, w') \<Rightarrow> (Some (rh_id h), w'))"

interpretation requests: fresh_ids "request_step s" "\<lambda>w. unat (ss_next_request (session_at w s))" unat
  for s
proof unfold_locales
  fix w i w'
  assume "request_step s w = (Some i, w')"
  then show "unat (ss_next_request (session_at w s)) \<le> unat i \<and>
      unat i < unat (ss_next_request (session_at w' s))"
    by (auto simp: request_step_def next_request_id_def allocate_non_zero_Some
        split: prod.splits option.splits)
next
  fix w w'
  assume "request_step s w = (None, w')"
  then show "unat (ss_next_request (session_at w s)) \<le> unat (ss_next_request (session_at w' s))"
    using allocate_non_zero_le[of "ss_next_request (session_at w s)"]
    by (auto simp: request_step_def next_request_id_def split: prod.splits option.splits)
qed

interpretation resources: fresh_ids "resource_step s" "\<lambda>w. unat (ss_next_resource (session_at w s))" unat
  for s
proof unfold_locales
  fix w i w'
  assume "resource_step s w = (Some i, w')"
  then show "unat (ss_next_resource (session_at w s)) \<le> unat i \<and>
      unat i < unat (ss_next_resource (session_at w' s))"
    by (auto simp: resource_step_def allocate_resource_def allocate_non_zero_Some
        split: prod.splits option.splits)
next
  fix w w'
  assume "resource_step s w = (None, w')"
  then show "unat (ss_next_resource (session_at w s)) \<le> unat (ss_next_resource (session_at w' s))"
    using allocate_non_zero_le[of "ss_next_resource (session_at w s)"]
    by (auto simp: resource_step_def allocate_resource_def split: prod.splits option.splits)
qed

text \<open>A session never hands out the same request identity or the same resource identity
  twice, however often it is asked and also across exhaustion of the 64-bit counters.\<close>

theorem session_ids_never_repeat:
  "distinct (issue (request_step s) n w) \<and> distinct (issue (resource_step s) n w)"
  by (simp add: requests.issue_distinct resources.issue_distinct)

section \<open>Witnesses\<close>

definition initial_world :: world where
  "initial_world = \<lparr>fresh = 0, flag = (\<lambda>_. False), next_session = 0,
     session_at = (\<lambda>_. \<lparr>ss_generation = 1, ss_cancellation = 0, ss_next_request = 1, ss_next_resource = 1\<rparr>)\<rparr>"

lemma wf_initial_world [simp]: "wf_world initial_world"
  by (simp add: wf_world_def initial_world_def)

definition reopened :: "session_manager \<times> world" where
  "reopened = (case manager_begin manager_new initial_world of
     (_, m, w) \<Rightarrow> snd (manager_begin m w))"

lemmas session_defs = manager_begin_def manager_close_def manager_new_def session_new_def
  source_new_def session_cancel_def source_cancel_def initial_world_def checked_add_def

lemma reopened_run: "manager_run (fst reopened) (snd reopened) [1, 0]"
proof -
  define r1 where "r1 = manager_begin manager_new initial_world"
  have 1: "manager_begin manager_new initial_world = (Inr 0, fst (snd r1), snd (snd r1))"
    by (simp add: r1_def session_defs Let_def)
  define r2 where "r2 = manager_begin (fst (snd r1)) (snd (snd r1))"
  have 2: "manager_begin (fst (snd r1)) (snd (snd r1)) = (Inr 1, fst (snd r2), snd (snd r2))"
    by (simp add: r2_def r1_def session_defs Let_def)
  have "manager_run (fst (snd r2)) (snd (snd r2)) [1, 0]"
    using run_begin[OF run_begin[OF run_init[OF wf_initial_world] 1] 2] .
  moreover have "reopened = (fst (snd r2), snd (snd r2))"
    by (simp add: reopened_def r2_def r1_def split: prod.splits)
  ultimately show ?thesis by simp
qed

lemma reopened_facts:
  "\<not> session_is_cancelled 1 (snd reopened)" "session_is_cancelled 0 (snd reopened)"
  "manager_is_current (fst reopened) 2 (snd reopened)"
  "session_generation 1 (snd reopened) = 2"
  by (simp_all add: reopened_def session_defs Let_def manager_is_current_def session_generation_def)

theorem only_newest_session_lives_witness:
  "active (fst reopened) = Some 1 \<and> (1::nat) = hd [1, 0]"
  by (rule only_newest_session_lives[OF reopened_run]) (simp_all only: reopened_facts, simp_all)

theorem current_generation_is_newest_witness:
  "session_generation (hd [1, 0]) (snd reopened) = 2 \<and> session_is_cancelled 0 (snd reopened)"
  using current_generation_is_newest[OF reopened_run reopened_facts(3)] by simp

theorem handles_stay_in_their_session_witness:
  "\<not> session_owns 0 \<lparr>rh_generation = 2, rh_id = 1\<rparr> (snd (allocate_resource 1 (snd reopened)))"
proof -
  have a: "allocate_resource 1 (snd reopened) =
      (Inr \<lparr>rh_generation = 2, rh_id = 1\<rparr>, snd (allocate_resource 1 (snd reopened)))"
    by (simp add: allocate_resource_def allocate_non_zero_def session_generation_def reopened_def
        session_defs Let_def)
  show ?thesis
    using handles_stay_in_their_session[OF reopened_run _ _ _ a, of 0] by simp
qed

end
