(* ===== verification/Float32.thy ===== *)
theory Float32
  imports Complex_Main "HOL-Library.Log_Nat" Prelude
begin

text \<open>
  The part of Rust's \<open>f32\<close> the modelled code uses, computable: IEEE 754 binary32 with
  rounding to nearest, ties to even. The two zeros are one value, which no modelled operation
  tells apart.
\<close>

datatype f32 = NaN | Inf bool | Fin rat  \<comment> \<open>\<open>Inf True\<close> is minus infinity\<close>

definition pow2 :: "int \<Rightarrow> rat" where
  "pow2 e = (if 0 \<le> e then 2 ^ nat e else 1 / 2 ^ nat (- e))"

definition round_half_even :: "rat \<Rightarrow> int" where
  "round_half_even x =
     (let f = \<lfloor>x\<rfloor>; d = x - of_int f
      in if d < 1 / 2 then f else if 1 / 2 < d then f + 1 else if even f then f else f + 1)"

text \<open>The exponent of the leading bit of a positive rational.\<close>

definition exponent :: "rat \<Rightarrow> int" where
  "exponent x =
     (case quotient_of x of (n, d) \<Rightarrow>
        let e = bitlen n - bitlen d in if pow2 e \<le> x then e else e - 1)"

definition round_f32 :: "rat \<Rightarrow> f32" where
  "round_f32 x =
     (if x = 0 then Fin 0
      else
        let unit = pow2 (max (exponent \<bar>x\<bar> - 23) (- 149));
            y = of_int (round_half_even (x / unit)) * unit
        in if 2 ^ 128 \<le> \<bar>y\<bar> then Inf (x < 0) else Fin y)"

fun is_finite :: "f32 \<Rightarrow> bool" where
  "is_finite (Fin _) = True"
| "is_finite _ = False"

fun f32_less :: "f32 \<Rightarrow> f32 \<Rightarrow> bool" where
  "f32_less NaN _ = False"
| "f32_less _ NaN = False"
| "f32_less (Inf s) (Inf t) = (s \<and> \<not> t)"
| "f32_less (Inf s) (Fin _) = s"
| "f32_less (Fin _) (Inf t) = (\<not> t)"
| "f32_less (Fin x) (Fin y) = (x < y)"

definition f32_le :: "f32 \<Rightarrow> f32 \<Rightarrow> bool" where
  "f32_le a b \<longleftrightarrow> f32_less a b \<or> (a = b \<and> a \<noteq> NaN)"

text \<open>\<open>clamp\<close> keeps a NaN.\<close>

definition f32_clamp :: "f32 \<Rightarrow> f32 \<Rightarrow> f32 \<Rightarrow> f32" where
  "f32_clamp x lo hi = (if f32_less x lo then lo else if f32_less hi x then hi else x)"

fun negative :: "f32 \<Rightarrow> bool" where
  "negative NaN = False"
| "negative (Inf s) = s"
| "negative (Fin x) = (x < 0)"

fun f32_mul :: "f32 \<Rightarrow> f32 \<Rightarrow> f32" where
  "f32_mul (Fin x) (Fin y) = round_f32 (x * y)"
| "f32_mul NaN _ = NaN"
| "f32_mul _ NaN = NaN"
| "f32_mul (Inf s) y = (if y = Fin 0 then NaN else Inf (s \<noteq> negative y))"
| "f32_mul x (Inf s) = (if x = Fin 0 then NaN else Inf (s \<noteq> negative x))"

text \<open>\<open>round\<close>: halves away from zero.\<close>

fun f32_round :: "f32 \<Rightarrow> f32" where
  "f32_round (Fin x) = Fin (of_int (if x < 0 then - \<lfloor>- x + 1 / 2\<rfloor> else \<lfloor>x + 1 / 2\<rfloor>))"
| "f32_round x = x"

definition f32_of_u32 :: "u32 \<Rightarrow> f32" where
  "f32_of_u32 n = round_f32 (of_int (uint n))"

text \<open>\<open>as u32\<close>: truncation that saturates, NaN to zero.\<close>

fun f32_to_u32 :: "f32 \<Rightarrow> u32" where
  "f32_to_u32 NaN = 0"
| "f32_to_u32 (Inf s) = (if s then 0 else - 1)"
| "f32_to_u32 (Fin x) = (if x < 1 then 0 else if 2 ^ 32 - 1 \<le> x then - 1 else of_int \<lfloor>x\<rfloor>)"

lemma f32_le_refl: "a \<noteq> NaN \<Longrightarrow> f32_le a a"
  by (simp add: f32_le_def)

lemma f32_clamp_within:
  assumes "x \<noteq> NaN" and "is_finite lo" and "is_finite hi" and "f32_le lo hi"
  shows "is_finite (f32_clamp x lo hi)" and "f32_le lo (f32_clamp x lo hi)"
    and "f32_le (f32_clamp x lo hi) hi"
proof -
  obtain l h where lh: "lo = Fin l" "hi = Fin h" "l \<le> h"
    using assms(2-4) by (cases lo; cases hi) (auto simp: f32_le_def)
  show "is_finite (f32_clamp x lo hi)" "f32_le lo (f32_clamp x lo hi)" "f32_le (f32_clamp x lo hi) hi"
    using assms(1) lh by (cases x; auto simp: f32_clamp_def f32_le_def)+
qed

lemma f32_clamp_id: "f32_le lo x \<Longrightarrow> f32_le x hi \<Longrightarrow> f32_clamp x lo hi = x"
  by (cases lo; cases x; cases hi) (auto simp: f32_clamp_def f32_le_def)

text \<open>A check of the rounding on values known from the standard: one third, and the first integer
  that is not representable.\<close>

lemma round_f32_examples:
  "round_f32 1 = Fin 1"
  "round_f32 (1 / 3) = Fin (11184811 / 33554432)"
  "round_f32 16777217 = Fin 16777216"
  by code_simp+

end
