(* ===== verification/PdfModel.thy ===== *)
theory PdfModel
  imports Float32 "HOL-Library.Sublist"
begin

text \<open>
  The PDF domain data of \<open>crates/key-pdf-core/src/model.rs\<close> that the runtime exchanges, and
  the text-selection functions. A \<open>char\<close> of Rust is its code point, a \<open>String\<close> a list of
  them. A \<open>TextLayer\<close> is its characters: its spatial index is a function of them that no
  modelled operation reads.
\<close>

section \<open>Data\<close>

record page_size =
  ps_width :: f32
  ps_height :: f32

record text_bounds =
  tb_left :: f32
  tb_top :: f32
  tb_right :: f32
  tb_bottom :: f32

type_synonym code_point = nat
type_synonym rust_string = "code_point list"

record toc_entry =
  toc_title :: rust_string
  toc_page :: nat
  toc_depth :: u16
  toc_destination_y :: "f32 option"

datatype pdf_link_target =
    Internal nat "f32 option" "f32 option"
  | External rust_string

record pdf_link =
  link_id :: nat
  link_page :: nat
  link_bounds :: text_bounds
  link_target :: pdf_link_target

record raster_size =
  rs_width :: u32
  rs_height :: u32

record pixel_rect =
  px_x :: u32
  px_y :: u32
  px_width :: u32
  px_height :: u32

record tile_key =
  tile_page :: nat
  tile_raster :: raster_size
  tile_column :: u32
  tile_row :: u32

record text_char =
  tc_value :: code_point
  tc_bounds :: "text_bounds option"

type_synonym text_layer = "text_char list"

section \<open>Text positions and selections\<close>

text \<open>The derived order of \<open>TextPosition\<close> is lexicographic: page, then index.\<close>

datatype text_position = TextPosition (tp_page: nat) (tp_index: nat)

instantiation text_position :: linorder
begin

definition less_eq_text_position :: "text_position \<Rightarrow> text_position \<Rightarrow> bool" where
  "less_eq_text_position a b \<longleftrightarrow> tp_page a < tp_page b \<or> tp_page a = tp_page b \<and> tp_index a \<le> tp_index b"

definition less_text_position :: "text_position \<Rightarrow> text_position \<Rightarrow> bool" where
  "less_text_position a b \<longleftrightarrow> tp_page a < tp_page b \<or> tp_page a = tp_page b \<and> tp_index a < tp_index b"

instance
  by standard (auto simp: less_eq_text_position_def less_text_position_def intro: text_position.expand)

end

record text_selection =
  sel_anchor :: text_position
  sel_focus :: text_position

definition ordered :: "text_selection \<Rightarrow> text_position \<times> text_position" where
  "ordered s = (if sel_anchor s \<le> sel_focus s then (sel_anchor s, sel_focus s) else (sel_focus s, sel_anchor s))"

text \<open>The inclusive range of original characters selected on a page.\<close>

definition indices_on_page :: "text_selection \<Rightarrow> nat \<Rightarrow> nat \<Rightarrow> (nat \<times> nat) option" where
  "indices_on_page s page char_count =
     (if char_count = 0 then None
      else case ordered s of (start, end') \<Rightarrow>
        if page < tp_page start \<or> tp_page end' < page then None
        else
          let first = (if page = tp_page start then tp_index start else 0);
              final = (if page = tp_page end' then min (tp_index end') (char_count - 1) else char_count - 1)
          in if first \<le> final \<and> first < char_count then Some (first, final) else None)"

text \<open>The loop over the characters, with \<open>previous_was_cr\<close> as its first argument.\<close>

fun push_chars :: "bool \<Rightarrow> code_point list \<Rightarrow> rust_string \<Rightarrow> rust_string" where
  "push_chars cr [] result = result"
| "push_chars cr (c # cs) result =
     (if c = 0 then push_chars cr cs result
      else if c = 13 then push_chars True cs (result @ [10])
      else if c = 10 \<and> cr then push_chars False cs result
      else if c = 10 then push_chars cr cs (result @ [10])
      else push_chars False cs (result @ [c]))"

definition append_selected_page_text ::
  "rust_string \<Rightarrow> text_selection \<Rightarrow> nat \<Rightarrow> text_char list \<Rightarrow> rust_string" where
  "append_selected_page_text result s page chars =
     (let body = (case indices_on_page s page (length chars) of
            None \<Rightarrow> result
          | Some (first, final) \<Rightarrow>
              push_chars False (map tc_value (take (Suc final - first) (drop first chars))) result)
      in if page \<noteq> tp_page (snd (ordered s)) \<and> \<not> suffix [10, 10] body
         then (if suffix [10] body then body else body @ [10]) @ [10]
         else body)"

definition selected_text :: "text_selection \<Rightarrow> text_layer option list \<Rightarrow> rust_string" where
  "selected_text s page_text =
     (case ordered s of (start, end') \<Rightarrow>
        foldl (\<lambda>result page.
            if page < length page_text then
              (case page_text ! page of
                 None \<Rightarrow> result
               | Some chars \<Rightarrow> append_selected_page_text result s page chars)
            else result)
          [] [tp_page start ..< Suc (tp_page end')])"

section \<open>Properties\<close>

lemma ordered_sorted: "fst (ordered s) \<le> snd (ordered s)"
  by (auto simp: ordered_def)

lemma ordered_swap:
  "ordered \<lparr>sel_anchor = sel_focus s, sel_focus = sel_anchor s\<rparr> = ordered s"
  by (auto simp: ordered_def)

text \<open>The range of a page is exactly the set of its characters between the two ends of the
  selection, and it is absent exactly when there is none: no selected character is lost and no
  index outside the page is ever produced.\<close>

theorem indices_on_page_exact:
  "(case indices_on_page s page char_count of
      None \<Rightarrow> {}
    | Some (first, final) \<Rightarrow> {first..final}) =
   {i. i < char_count \<and> fst (ordered s) \<le> TextPosition page i \<and> TextPosition page i \<le> snd (ordered s)}
   \<and> (case indices_on_page s page char_count of
      None \<Rightarrow> True
    | Some (first, final) \<Rightarrow> first \<le> final \<and> final < char_count)"
proof -
  obtain a b where ab: "ordered s = (a, b)" by (cases "ordered s")
  show ?thesis
    by (cases "page = tp_page a"; cases "page = tp_page b")
       (auto simp: indices_on_page_def ab less_eq_text_position_def Let_def split: if_splits)
qed

text \<open>Line ends: the reference drops the NULs, then reads CR LF and CR as one newline.\<close>

fun normal_newlines :: "code_point list \<Rightarrow> code_point list" where
  "normal_newlines [] = []"
| "normal_newlines [c] = [if c = 13 then 10 else c]"
| "normal_newlines (c # d # cs) =
     (if c = 13 \<and> d = 10 then 10 # normal_newlines cs
      else (if c = 13 then 10 else c) # normal_newlines (d # cs))"

definition drop_newline :: "code_point list \<Rightarrow> code_point list" where
  "drop_newline cs = (case cs of [] \<Rightarrow> [] | c # cs' \<Rightarrow> if c = 10 then cs' else cs)"

lemma normal_newlines_Cons:
  "normal_newlines (c # cs) = (if c = 13 then 10 # normal_newlines (drop_newline cs) else c # normal_newlines cs)"
  by (cases cs) (auto simp: drop_newline_def)

lemma push_chars_reference:
  "push_chars cr cs result =
     result @ normal_newlines (if cr then drop_newline (filter (\<lambda>c. c \<noteq> 0) cs) else filter (\<lambda>c. c \<noteq> 0) cs)"
proof (induction cr cs result rule: push_chars.induct)
  case (1 cr result)
  then show ?case by (simp add: drop_newline_def)
next
  case (2 cr c cs result)
  then show ?case
    by (cases "c = 0"; cases "c = 13"; cases "c = 10"; cases cr)
       (simp_all add: normal_newlines_Cons drop_newline_def)
qed

lemma normal_newlines_clean: "0 \<notin> set cs \<Longrightarrow> 0 \<notin> set (normal_newlines cs) \<and> 13 \<notin> set (normal_newlines cs)"
  by (induction cs rule: normal_newlines.induct) auto

text \<open>Copied text has uniform line ends: one page contributes its selected characters with the
  NULs dropped and CR LF and CR read as one newline each (never two for CR LF, also with a NUL in
  between), and blank lines are kept.\<close>

theorem page_text_normalises_newlines:
  assumes "indices_on_page s page (length chars) = Some (first, final)"
    and "page = tp_page (snd (ordered s))"
  shows "append_selected_page_text result s page chars =
    result @ normal_newlines (filter (\<lambda>c. c \<noteq> 0) (map tc_value (take (Suc final - first) (drop first chars))))"
  using assms by (simp add: append_selected_page_text_def push_chars_reference)

lemma page_text_clean:
  "0 \<notin> set result \<Longrightarrow> 13 \<notin> set result \<Longrightarrow>
   0 \<notin> set (append_selected_page_text result s page chars) \<and>
   13 \<notin> set (append_selected_page_text result s page chars)"
  using normal_newlines_clean[of "filter (\<lambda>c. c \<noteq> 0) cs" for cs]
  by (auto simp: append_selected_page_text_def push_chars_reference Let_def split: option.splits)

lemma selected_text_fold:
  "P [] \<Longrightarrow> (\<And>result page chars. P result \<Longrightarrow> P (append_selected_page_text result s page chars)) \<Longrightarrow>
   P (selected_text s pages)"
proof -
  assume base: "P []"
    and step: "\<And>result page chars. P result \<Longrightarrow> P (append_selected_page_text result s page chars)"
  have "P r \<Longrightarrow> P (foldl (\<lambda>result page.
            if page < length pages then
              (case pages ! page of
                 None \<Rightarrow> result
               | Some chars \<Rightarrow> append_selected_page_text result s page chars)
            else result) r xs)" for r xs
    by (induction xs arbitrary: r) (auto intro: step split: option.splits)
  then show ?thesis using base by (simp add: selected_text_def split: prod.splits)
qed

text \<open>The copied text never contains a NUL or a carriage return, and it does not depend on the
  direction in which the user dragged the selection.\<close>

theorem selected_text_clean_and_symmetric:
  "0 \<notin> set (selected_text s pages) \<and> 13 \<notin> set (selected_text s pages) \<and>
   selected_text \<lparr>sel_anchor = sel_focus s, sel_focus = sel_anchor s\<rparr> pages = selected_text s pages"
proof -
  have "0 \<notin> set (selected_text s pages) \<and> 13 \<notin> set (selected_text s pages)"
    by (rule selected_text_fold) (simp, blast dest: page_text_clean)
  moreover have swap: "append_selected_page_text r \<lparr>sel_anchor = sel_focus s, sel_focus = sel_anchor s\<rparr> p cs =
      append_selected_page_text r s p cs" for r p cs
    by (simp add: append_selected_page_text_def indices_on_page_def ordered_swap)
  moreover have "selected_text \<lparr>sel_anchor = sel_focus s, sel_focus = sel_anchor s\<rparr> pages = selected_text s pages"
    unfolding selected_text_def ordered_swap swap ..
  ultimately show ?thesis by blast
qed

theorem page_text_normalises_newlines_witness:
  "append_selected_page_text [97] \<lparr>sel_anchor = TextPosition 0 4, sel_focus = TextPosition 0 1\<rparr> 0
     (map (\<lambda>c. \<lparr>tc_value = c, tc_bounds = None\<rparr>) [98, 13, 0, 10, 10, 99]) = [97, 10, 10]"
proof -
  define s where "s = \<lparr>sel_anchor = TextPosition 0 4, sel_focus = TextPosition 0 1\<rparr>"
  define chars where "chars = map (\<lambda>c. \<lparr>tc_value = c, tc_bounds = None\<rparr>) [98, 13, 0, 10, 10, 99::nat]"
  have o: "ordered s = (TextPosition 0 1, TextPosition 0 4)"
    by (simp add: ordered_def s_def less_eq_text_position_def)
  have "indices_on_page s 0 (length chars) = Some (1, 4)" "0 = tp_page (snd (ordered s))"
    by (simp_all add: indices_on_page_def o chars_def)
  from page_text_normalises_newlines[OF this, of "[97]"] show ?thesis
    by (simp add: s_def chars_def numeral_eq_Suc)
qed

end
