(* ===== verification/Demand.thy ===== *)
theory Demand
  imports SessionManager PdfModel
begin

text \<open>
  Demands, \<open>crates/key-pdf-runtime/src/demand.rs\<close>: the stamped requests a session issues for
  tiles, text and previews, and the validation that precedes the allocation of a request identity.
\<close>

section \<open>Data\<close>

type_synonym demand_priority = u16

definition BACKGROUND :: demand_priority where "BACKGROUND = 0"
definition PREFETCH :: demand_priority where "PREFETCH = 64"
definition VISIBLE :: demand_priority where "VISIBLE = 128"
definition INTERACTIVE :: demand_priority where "INTERACTIVE = - 1"

datatype demand_intent = Visible | Interactive | Prefetch | Explicit | Background

record demand_stamp =
  st_generation :: u64
  st_request :: u64
  st_priority :: demand_priority
  st_intent :: demand_intent

record pixel_color =
  pc_red :: u8
  pc_green :: u8
  pc_blue :: u8
  pc_alpha :: u8

datatype color_mode = Original | Forced pixel_color pixel_color

record render_demand =
  rd_stamp :: demand_stamp
  rd_key :: tile_key
  rd_core_rect :: pixel_rect
  rd_render_rect :: pixel_rect
  rd_color_mode :: color_mode

datatype text_demand_purpose = VisibleLayer | Copy | Search | LinkResolution | DocumentAnalysis

record text_demand =
  td_stamp :: demand_stamp
  td_page :: nat
  td_purpose :: text_demand_purpose

record preview_demand =
  pd_stamp :: demand_stamp
  pd_page :: nat
  pd_raster :: raster_size
  pd_region :: pixel_rect
  pd_color_mode :: color_mode

datatype demand_error =
    Allocation allocation_error
  | EmptyRaster
  | EmptyRegion
  | RegionOutsideRaster
  | CoreOutsideRenderRegion
  | NonFiniteCoordinate

section \<open>Operations\<close>

definition validate_raster :: "raster_size \<Rightarrow> (demand_error, unit) rust_result" where
  "validate_raster r = (if rs_width r = 0 \<or> rs_height r = 0 then Inl EmptyRaster else Inr ())"

definition validate_region :: "raster_size \<Rightarrow> pixel_rect \<Rightarrow> (demand_error, unit) rust_result" where
  "validate_region raster region =
     (if px_width region = 0 \<or> px_height region = 0 then Inl EmptyRegion
      else case checked_add (px_x region) (px_width region) of
        None \<Rightarrow> Inl RegionOutsideRaster
      | Some right \<Rightarrow>
          (case checked_add (px_y region) (px_height region) of
             None \<Rightarrow> Inl RegionOutsideRaster
           | Some bottom \<Rightarrow>
               if rs_width raster < right \<or> rs_height raster < bottom then Inl RegionOutsideRaster
               else Inr ()))"

definition contains_rect :: "pixel_rect \<Rightarrow> pixel_rect \<Rightarrow> bool" where
  "contains_rect outer inner \<longleftrightarrow>
     px_x outer \<le> px_x inner \<and> px_y outer \<le> px_y inner \<and>
     saturating_add (px_x inner) (px_width inner) \<le> saturating_add (px_x outer) (px_width outer) \<and>
     saturating_add (px_y inner) (px_height inner) \<le> saturating_add (px_y outer) (px_height outer)"

definition stamp ::
  "session \<Rightarrow> demand_priority \<Rightarrow> demand_intent \<Rightarrow> world \<Rightarrow> (demand_error, demand_stamp) rust_result \<times> world" where
  "stamp s priority intent w =
     (case next_request_id s w of
        (Inl e, w') \<Rightarrow> (Inl (Allocation e), w')
      | (Inr r, w') \<Rightarrow>
          (Inr \<lparr>st_generation = session_generation s w, st_request = r, st_priority = priority,
                st_intent = intent\<rparr>, w'))"

definition new_render_demand ::
  "session \<Rightarrow> tile_key \<Rightarrow> pixel_rect \<Rightarrow> pixel_rect \<Rightarrow> color_mode \<Rightarrow> demand_priority \<Rightarrow> demand_intent \<Rightarrow>
   world \<Rightarrow> (demand_error, render_demand) rust_result \<times> world" where
  "new_render_demand s key core_rect render_rect color_mode priority intent w =
     (case and_then (validate_raster (tile_raster key)) (\<lambda>_.
           and_then (validate_region (tile_raster key) core_rect) (\<lambda>_.
           and_then (validate_region (tile_raster key) render_rect) (\<lambda>_.
             if contains_rect render_rect core_rect then Inr () else Inl CoreOutsideRenderRegion))) of
        Inl e \<Rightarrow> (Inl e, w)
      | Inr _ \<Rightarrow>
          (case stamp s priority intent w of
             (Inl e, w') \<Rightarrow> (Inl e, w')
           | (Inr st, w') \<Rightarrow>
               (Inr \<lparr>rd_stamp = st, rd_key = key, rd_core_rect = core_rect,
                     rd_render_rect = render_rect, rd_color_mode = color_mode\<rparr>, w')))"

definition new_text_demand ::
  "session \<Rightarrow> nat \<Rightarrow> text_demand_purpose \<Rightarrow> demand_priority \<Rightarrow> demand_intent \<Rightarrow> world \<Rightarrow>
   (demand_error, text_demand) rust_result \<times> world" where
  "new_text_demand s page purpose priority intent w =
     (case stamp s priority intent w of
        (Inl e, w') \<Rightarrow> (Inl e, w')
      | (Inr st, w') \<Rightarrow> (Inr \<lparr>td_stamp = st, td_page = page, td_purpose = purpose\<rparr>, w'))"

text \<open>One axis of the preview crop: a window of \<open>breadth\<close> around the centre, moved inside.\<close>

definition crop_origin :: "f32 \<Rightarrow> u32 \<Rightarrow> u32 \<Rightarrow> u32" where
  "crop_origin center extent breadth =
     (let c = f32_to_u32 (f32_round (f32_mul (f32_clamp center (Fin 0) (Fin 1)) (f32_of_u32 extent)))
      in min (saturating_sub c (breadth div 2)) (extent - breadth))"

definition preview_region :: "raster_size \<Rightarrow> raster_size \<Rightarrow> f32 \<Rightarrow> f32 \<Rightarrow> pixel_rect" where
  "preview_region raster output center_x center_y =
     (let width = min (rs_width output) (rs_width raster);
          height = min (rs_height output) (rs_height raster)
      in \<lparr>px_x = crop_origin center_x (rs_width raster) width,
          px_y = crop_origin center_y (rs_height raster) height,
          px_width = width, px_height = height\<rparr>)"

definition new_preview_demand ::
  "session \<Rightarrow> nat \<Rightarrow> raster_size \<Rightarrow> raster_size \<Rightarrow> f32 \<Rightarrow> f32 \<Rightarrow> color_mode \<Rightarrow> demand_priority \<Rightarrow>
   world \<Rightarrow> (demand_error, preview_demand) rust_result \<times> world" where
  "new_preview_demand s page raster output center_x center_y color_mode priority w =
     (case and_then (validate_raster raster) (\<lambda>_.
           and_then (validate_raster output) (\<lambda>_.
             if is_finite center_x \<and> is_finite center_y then Inr () else Inl NonFiniteCoordinate)) of
        Inl e \<Rightarrow> (Inl e, w)
      | Inr _ \<Rightarrow>
          (case stamp s priority Interactive w of
             (Inl e, w') \<Rightarrow> (Inl e, w')
           | (Inr st, w') \<Rightarrow>
               (Inr \<lparr>pd_stamp = st, pd_page = page, pd_raster = raster,
                     pd_region = preview_region raster output center_x center_y,
                     pd_color_mode = color_mode\<rparr>, w')))"

section \<open>What the validation accepts\<close>

text \<open>Containment over the unbounded numbers: what the checks mean.\<close>

definition region_inside :: "raster_size \<Rightarrow> pixel_rect \<Rightarrow> bool" where
  "region_inside raster r \<longleftrightarrow>
     0 < unat (px_width r) \<and> 0 < unat (px_height r) \<and>
     unat (px_x r) + unat (px_width r) \<le> unat (rs_width raster) \<and>
     unat (px_y r) + unat (px_height r) \<le> unat (rs_height raster)"

definition rect_inside :: "pixel_rect \<Rightarrow> pixel_rect \<Rightarrow> bool" where
  "rect_inside outer inner \<longleftrightarrow>
     unat (px_x outer) \<le> unat (px_x inner) \<and> unat (px_y outer) \<le> unat (px_y inner) \<and>
     unat (px_x inner) + unat (px_width inner) \<le> unat (px_x outer) + unat (px_width outer) \<and>
     unat (px_y inner) + unat (px_height inner) \<le> unat (px_y outer) + unat (px_height outer)"

lemma u32_bound: "unat (x :: u32) < 4294967296"
  using unsigned_less[of x] by simp

lemma validate_region_iff: "validate_region raster r = Inr () \<longleftrightarrow> region_inside raster r"
proof (cases "px_width r = 0 \<or> px_height r = 0")
  case True
  then show ?thesis by (auto simp: validate_region_def region_inside_def)
next
  case False
  then have pos: "0 < unat (px_width r)" "0 < unat (px_height r)"
    by (simp_all add: unat_gt_0)
  show ?thesis
  proof (cases "checked_add (px_x r) (px_width r)")
    case None
    then have "4294967296 \<le> unat (px_x r) + unat (px_width r)" by (simp add: checked_add_None)
    then show ?thesis
      using False None u32_bound[of "rs_width raster"]
      by (auto simp: validate_region_def region_inside_def)
  next
    case right: (Some right)
    show ?thesis
    proof (cases "checked_add (px_y r) (px_height r)")
      case None
      then have "4294967296 \<le> unat (px_y r) + unat (px_height r)" by (simp add: checked_add_None)
      then show ?thesis
        using False right None u32_bound[of "rs_height raster"]
        by (auto simp: validate_region_def region_inside_def)
    next
      case (Some bottom)
      have "unat right = unat (px_x r) + unat (px_width r)" "unat bottom = unat (px_y r) + unat (px_height r)"
        using right Some by (simp_all add: checked_add_Some)
      then show ?thesis
        using False right Some pos
        by (auto simp: validate_region_def region_inside_def word_less_nat_alt)
    qed
  qed
qed

lemma contains_rect_iff:
  assumes "region_inside raster outer" and "region_inside raster inner"
  shows "contains_rect outer inner \<longleftrightarrow> rect_inside outer inner"
proof -
  have "unat (px_x r) + unat (px_width r) < 4294967296 \<and> unat (px_y r) + unat (px_height r) < 4294967296"
    if "region_inside raster r" for r
    using that u32_bound[of "rs_width raster"] u32_bound[of "rs_height raster"]
    by (auto simp: region_inside_def)
  from this[OF assms(1)] this[OF assms(2)] show ?thesis
    by (auto simp: contains_rect_def rect_inside_def word_le_nat_alt unat_saturating_add)
qed

lemma stamp_cases:
  "(\<exists>e. stamp s p i w = (Inl (Allocation e), snd (next_request_id s w))) \<or>
   (\<exists>st. stamp s p i w = (Inr st, snd (next_request_id s w)) \<and> st_generation st = session_generation s w \<and>
      st_priority st = p \<and> st_intent st = i)"
  by (auto simp: stamp_def split: prod.splits sum.splits)

lemma world_le_render_demand:
  "world_le w (snd (new_render_demand s key core rect cm p i w))"
  using stamp_cases[of s p i w] by (auto simp: new_render_demand_def split: sum.splits)

lemma world_le_text_demand: "world_le w (snd (new_text_demand s page purpose p i w))"
  using stamp_cases[of s p i w] by (auto simp: new_text_demand_def)

lemma world_le_preview_demand:
  "world_le w (snd (new_preview_demand s page raster output cx cy cm p w))"
  using stamp_cases[of s p Interactive w] by (auto simp: new_preview_demand_def split: sum.splits)

section \<open>Properties\<close>

text \<open>A render demand is issued exactly when the raster is not empty, both regions are not
  empty and lie in the raster, the core lies in the render region, and a request identity is left;
  all comparisons are on the exact sums, although the code adds 32-bit numbers. A demand that fails
  validation consumes no identity.\<close>

theorem render_demand_accepts_exactly:
  "((\<exists>d w'. new_render_demand s key core rect cm p i w = (Inr d, w')) \<longleftrightarrow>
      rs_width (tile_raster key) \<noteq> 0 \<and> rs_height (tile_raster key) \<noteq> 0 \<and>
      region_inside (tile_raster key) core \<and> region_inside (tile_raster key) rect \<and>
      rect_inside rect core \<and> (\<exists>r w'. next_request_id s w = (Inr r, w'))) \<and>
   (case new_render_demand s key core rect cm p i w of
      (Inr d, w') \<Rightarrow> rd_key d = key \<and> rd_core_rect d = core \<and> rd_render_rect d = rect \<and>
        st_generation (rd_stamp d) = session_generation s w
    | (Inl e, w') \<Rightarrow> w' = w \<or> (\<exists>a. e = Allocation a \<and> next_request_id s w = (Inl a, w')))"
proof -
  let ?valid = "and_then (validate_raster (tile_raster key)) (\<lambda>_.
           and_then (validate_region (tile_raster key) core) (\<lambda>_.
           and_then (validate_region (tile_raster key) rect) (\<lambda>_.
             if contains_rect rect core then Inr () else Inl CoreOutsideRenderRegion)))"
  have v: "?valid = Inr () \<longleftrightarrow> rs_width (tile_raster key) \<noteq> 0 \<and> rs_height (tile_raster key) \<noteq> 0 \<and>
      region_inside (tile_raster key) core \<and> region_inside (tile_raster key) rect \<and> rect_inside rect core"
    using contains_rect_iff[of "tile_raster key" rect core]
    by (auto simp: and_then_Inr validate_region_iff validate_raster_def)
  show ?thesis
  proof (cases "?valid = Inr ()")
    case True
    then show ?thesis
      using v by (auto simp: new_render_demand_def stamp_def split: prod.splits sum.splits)
  next
    case False
    then obtain e where "?valid = Inl e" by (cases ?valid) auto
    then show ?thesis using v False by (auto simp: new_render_demand_def)
  qed
qed

text \<open>A preview crop is never empty and always lies inside the page raster, for every finite
  centre (also outside the page) and every output size; its breadth is the output size, cut to the
  raster.\<close>

theorem preview_region_inside_raster:
  assumes "new_preview_demand s page raster output cx cy cm p w = (Inr d, w')"
  shows "region_inside raster (pd_region d) \<and>
    px_width (pd_region d) = min (rs_width output) (rs_width raster) \<and>
    px_height (pd_region d) = min (rs_height output) (rs_height raster) \<and>
    st_generation (pd_stamp d) = session_generation s w"
proof -
  have valid: "rs_width raster \<noteq> 0" "rs_height raster \<noteq> 0" "rs_width output \<noteq> 0" "rs_height output \<noteq> 0"
    and d: "pd_region d = preview_region raster output cx cy"
      "st_generation (pd_stamp d) = session_generation s w"
    using assms by (auto simp: new_preview_demand_def validate_raster_def stamp_def split: prod.splits sum.splits if_splits)
  have axis: "unat (crop_origin c extent breadth) + unat breadth \<le> unat extent" if "breadth \<le> extent" for c extent breadth
  proof -
    have "crop_origin c extent breadth \<le> extent - breadth" by (simp add: crop_origin_def Let_def)
    then show ?thesis using that by (simp add: word_le_nat_alt unat_sub)
  qed
  have pos: "0 < unat (min a b)" if "a \<noteq> 0" "b \<noteq> 0" for a b :: u32
    using that by (simp add: min_def unat_gt_0)
  show ?thesis
    using axis pos valid by (simp add: d preview_region_def Let_def region_inside_def)
qed

theorem preview_region_inside_raster_witness:
  "px_x (preview_region \<lparr>rs_width = 1000, rs_height = 700\<rparr> \<lparr>rs_width = 360, rs_height = 204\<rparr> (Fin 1) (Fin 0)) = 640 \<and>
   region_inside \<lparr>rs_width = 1000, rs_height = 700\<rparr>
     (preview_region \<lparr>rs_width = 1000, rs_height = 700\<rparr> \<lparr>rs_width = 360, rs_height = 204\<rparr> (Fin 1) (Fin 0))"
proof -
  let ?w = "snd (session_new 1 initial_world)"
  define d where "d = new_preview_demand 0 1 \<lparr>rs_width = 1000, rs_height = 700\<rparr> \<lparr>rs_width = 360, rs_height = 204\<rparr>
      (Fin 1) (Fin 0) Original INTERACTIVE ?w"
  have "new_preview_demand 0 1 \<lparr>rs_width = 1000, rs_height = 700\<rparr> \<lparr>rs_width = 360, rs_height = 204\<rparr>
      (Fin 1) (Fin 0) Original INTERACTIVE ?w = (Inr (projr (fst d)), snd d)"
    and r: "pd_region (projr (fst d)) = preview_region \<lparr>rs_width = 1000, rs_height = 700\<rparr>
      \<lparr>rs_width = 360, rs_height = 204\<rparr> (Fin 1) (Fin 0)"
    by (simp_all add: d_def new_preview_demand_def validate_raster_def stamp_def next_request_id_def
        allocate_non_zero_def session_defs)
  moreover have "px_x (preview_region \<lparr>rs_width = 1000, rs_height = 700\<rparr> \<lparr>rs_width = 360, rs_height = 204\<rparr>
      (Fin 1) (Fin 0)) = 640"
    by code_simp
  ultimately show ?thesis
    using preview_region_inside_raster by metis
qed

end
