(* ===== verification/CachePolicy.thy ===== *)
theory CachePolicy
  imports Prelude
begin

text \<open>
  The document cache budgets, \<open>crates/key-pdf-runtime/src/cache.rs\<close>. A \<open>usize\<close> that is only
  compared is a \<open>nat\<close>.
\<close>

definition MAX_RENDER_CACHE_ENTRIES :: nat where "MAX_RENDER_CACHE_ENTRIES = 4096"
definition MAX_RENDER_CACHE_BYTES :: nat where "MAX_RENDER_CACHE_BYTES = 2 * 1024 * 1024 * 1024"
definition MAX_TEXT_CACHE_PAGES :: nat where "MAX_TEXT_CACHE_PAGES = 16384"
definition MAX_TEXT_CACHE_CHARACTERS :: nat where "MAX_TEXT_CACHE_CHARACTERS = 100000000"
definition MAX_PREVIEW_CACHE_ENTRIES :: nat where "MAX_PREVIEW_CACHE_ENTRIES = 512"
definition MAX_PREVIEW_CACHE_BYTES :: nat where "MAX_PREVIEW_CACHE_BYTES = 512 * 1024 * 1024"

lemmas cache_limits = MAX_RENDER_CACHE_ENTRIES_def MAX_RENDER_CACHE_BYTES_def MAX_TEXT_CACHE_PAGES_def
  MAX_TEXT_CACHE_CHARACTERS_def MAX_PREVIEW_CACHE_ENTRIES_def MAX_PREVIEW_CACHE_BYTES_def

record cache_policy =
  render_entries :: nat
  render_bytes :: nat
  text_pages :: nat
  text_characters :: nat
  preview_entries :: nat
  preview_bytes :: nat

datatype cache_kind = RenderCache | TextCache | PreviewCache

datatype cache_policy_error =
    InconsistentDisabledBudget string
  | EntryLimitExceeded string
  | SizeLimitExceeded string

fun cache_label :: "cache_kind \<Rightarrow> string" where
  "cache_label RenderCache = ''render''"
| "cache_label TextCache = ''text''"
| "cache_label PreviewCache = ''preview''"

definition validate_pair ::
  "cache_kind \<Rightarrow> nat \<Rightarrow> nat \<Rightarrow> nat \<Rightarrow> nat \<Rightarrow> (cache_policy_error, unit) rust_result" where
  "validate_pair kind entries bytes max_entries max_bytes =
     (if (entries = 0) \<noteq> (bytes = 0) then Inl (InconsistentDisabledBudget (cache_label kind))
      else if max_entries < entries then Inl (EntryLimitExceeded (cache_label kind))
      else if max_bytes < bytes then Inl (SizeLimitExceeded (cache_label kind))
      else Inr ())"

definition cache_policy_try_new ::
  "nat \<Rightarrow> nat \<Rightarrow> nat \<Rightarrow> nat \<Rightarrow> nat \<Rightarrow> nat \<Rightarrow> (cache_policy_error, cache_policy) rust_result" where
  "cache_policy_try_new re rb tp tc pe pb =
     and_then (validate_pair RenderCache re rb MAX_RENDER_CACHE_ENTRIES MAX_RENDER_CACHE_BYTES) (\<lambda>_.
     and_then (validate_pair TextCache tp tc MAX_TEXT_CACHE_PAGES MAX_TEXT_CACHE_CHARACTERS) (\<lambda>_.
     and_then (validate_pair PreviewCache pe pb MAX_PREVIEW_CACHE_ENTRIES MAX_PREVIEW_CACHE_BYTES) (\<lambda>_.
       Inr \<lparr>render_entries = re, render_bytes = rb, text_pages = tp, text_characters = tc,
            preview_entries = pe, preview_bytes = pb\<rparr>)))"

definition cache_policy_default :: cache_policy where
  "cache_policy_default = \<lparr>render_entries = 48, render_bytes = 128 * 1024 * 1024, text_pages = 16,
     text_characters = 1600000, preview_entries = 16, preview_bytes = 16 * 1024 * 1024\<rparr>"

definition render_cache_enabled :: "cache_policy \<Rightarrow> bool" where
  "render_cache_enabled p \<longleftrightarrow> render_entries p \<noteq> 0"

definition text_cache_enabled :: "cache_policy \<Rightarrow> bool" where
  "text_cache_enabled p \<longleftrightarrow> text_pages p \<noteq> 0"

definition preview_cache_enabled :: "cache_policy \<Rightarrow> bool" where
  "preview_cache_enabled p \<longleftrightarrow> preview_entries p \<noteq> 0"

definition pair_ok :: "nat \<Rightarrow> nat \<Rightarrow> nat \<Rightarrow> nat \<Rightarrow> bool" where
  "pair_ok entries bytes max_entries max_bytes \<longleftrightarrow>
     (entries = 0 \<longleftrightarrow> bytes = 0) \<and> entries \<le> max_entries \<and> bytes \<le> max_bytes"

lemma validate_pair_iff: "validate_pair k e b me mb = Inr u \<longleftrightarrow> pair_ok e b me mb"
  by (auto simp: validate_pair_def pair_ok_def)

text \<open>A cache policy is accepted exactly when each of its three budgets is within its limits and
  is disabled in both dimensions or in neither; the accepted policy carries the requested budgets,
  an enabled cache has a positive byte budget, and the default policy is one that is accepted.\<close>

theorem cache_policy_accepts_exactly:
  "((\<exists>p. cache_policy_try_new re rb tp tc pe pb = Inr p) \<longleftrightarrow>
      pair_ok re rb MAX_RENDER_CACHE_ENTRIES MAX_RENDER_CACHE_BYTES \<and>
      pair_ok tp tc MAX_TEXT_CACHE_PAGES MAX_TEXT_CACHE_CHARACTERS \<and>
      pair_ok pe pb MAX_PREVIEW_CACHE_ENTRIES MAX_PREVIEW_CACHE_BYTES) \<and>
   (\<forall>p. cache_policy_try_new re rb tp tc pe pb = Inr p \<longrightarrow>
      p = \<lparr>render_entries = re, render_bytes = rb, text_pages = tp, text_characters = tc,
           preview_entries = pe, preview_bytes = pb\<rparr> \<and>
      (render_cache_enabled p \<longleftrightarrow> 0 < render_bytes p) \<and>
      (text_cache_enabled p \<longleftrightarrow> 0 < text_characters p) \<and>
      (preview_cache_enabled p \<longleftrightarrow> 0 < preview_bytes p)) \<and>
   cache_policy_try_new 48 (128 * 1024 * 1024) 16 1600000 16 (16 * 1024 * 1024) = Inr cache_policy_default"
proof (intro conjI allI impI)
  have new: "cache_policy_try_new re rb tp tc pe pb = Inr p \<longleftrightarrow>
      pair_ok re rb MAX_RENDER_CACHE_ENTRIES MAX_RENDER_CACHE_BYTES \<and>
      pair_ok tp tc MAX_TEXT_CACHE_PAGES MAX_TEXT_CACHE_CHARACTERS \<and>
      pair_ok pe pb MAX_PREVIEW_CACHE_ENTRIES MAX_PREVIEW_CACHE_BYTES \<and>
      p = \<lparr>render_entries = re, render_bytes = rb, text_pages = tp, text_characters = tc,
           preview_entries = pe, preview_bytes = pb\<rparr>" for p
    by (auto simp only: cache_policy_try_new_def and_then_Inr validate_pair_iff sum.inject)
  show "(\<exists>p. cache_policy_try_new re rb tp tc pe pb = Inr p) \<longleftrightarrow>
      pair_ok re rb MAX_RENDER_CACHE_ENTRIES MAX_RENDER_CACHE_BYTES \<and>
      pair_ok tp tc MAX_TEXT_CACHE_PAGES MAX_TEXT_CACHE_CHARACTERS \<and>
      pair_ok pe pb MAX_PREVIEW_CACHE_ENTRIES MAX_PREVIEW_CACHE_BYTES"
    by (simp only: new) blast
  show "cache_policy_try_new 48 (128 * 1024 * 1024) 16 1600000 16 (16 * 1024 * 1024) = Inr cache_policy_default"
    by (simp add: cache_policy_try_new_def validate_pair_def cache_limits cache_policy_default_def)
  fix p
  assume p: "cache_policy_try_new re rb tp tc pe pb = Inr p"
  then show "p = \<lparr>render_entries = re, render_bytes = rb, text_pages = tp, text_characters = tc,
           preview_entries = pe, preview_bytes = pb\<rparr>"
    by (simp only: new)
  have pairs: "(re = 0) = (rb = 0)" "(tp = 0) = (tc = 0)" "(pe = 0) = (pb = 0)"
    using p unfolding new pair_ok_def by blast+
  show "render_cache_enabled p \<longleftrightarrow> 0 < render_bytes p" "text_cache_enabled p \<longleftrightarrow> 0 < text_characters p"
    "preview_cache_enabled p \<longleftrightarrow> 0 < preview_bytes p"
    using p pairs unfolding new
    by (simp_all add: render_cache_enabled_def text_cache_enabled_def preview_cache_enabled_def)
qed

theorem cache_policy_accepts_exactly_witness:
  "render_cache_enabled cache_policy_default \<and> 0 < render_bytes cache_policy_default"
proof -
  have on: "render_cache_enabled cache_policy_default"
    by (simp add: cache_policy_default_def render_cache_enabled_def)
  note t = cache_policy_accepts_exactly[of 48 "128 * 1024 * 1024" 16 1600000 16 "16 * 1024 * 1024"]
  from t[THEN conjunct2, THEN conjunct2] t[THEN conjunct2, THEN conjunct1] on
  show ?thesis by blast
qed

end
