(* ===== verification/Engine.thy ===== *)
theory Engine
  imports Demand CachePolicy
begin

text \<open>
  The engine-independent document runtime, \<open>crates/key-pdf-runtime/src/engine.rs\<close>. The engine
  itself (the traits \<open>PdfEngine\<close> and \<open>EngineDocument\<close>, implemented on the PDFium binary) is a
  parameter: a record of its calls. A call may change the document and returns the world as it is
  afterwards, in which other threads may have cancelled; \<open>engine_ok\<close> states that contract.
\<close>

section \<open>Data\<close>

record engine_capabilities =
  cap_text :: bool
  cap_previews :: bool
  cap_outlines :: bool
  cap_links :: bool
  cap_forced_colors :: bool

record document_descriptor =
  dd_title :: "rust_string option"
  dd_pages :: "page_size list"
  dd_table_of_contents :: "toc_entry list"
  dd_links :: "pdf_link list"

definition page_count :: "document_descriptor \<Rightarrow> nat" where
  "page_count d = length (dd_pages d)"

datatype pixel_format = Bgra8Premultiplied | Rgba8Premultiplied | Rgba8Straight

definition bytes_per_pixel :: "pixel_format \<Rightarrow> u64" where
  "bytes_per_pixel f = 4"

datatype raster_image_error = Empty | StrideTooSmall | SizeOverflow | BufferLengthMismatch

record raster_image =
  ri_width :: u32
  ri_height :: u32
  ri_stride :: u64
  ri_format :: pixel_format
  ri_pixels :: "u8 list"

text \<open>\<open>usize\<close> is 64 bits wide on the supported platforms, so the conversions from \<open>u32\<close> never
  fail.\<close>

definition raster_image_new ::
  "u32 \<Rightarrow> u32 \<Rightarrow> u64 \<Rightarrow> pixel_format \<Rightarrow> u8 list \<Rightarrow> (raster_image_error, raster_image) rust_result" where
  "raster_image_new width height stride format pixels =
     (if width = 0 \<or> height = 0 then Inl Empty
      else case checked_mul (ucast width) (bytes_per_pixel format) of
        None \<Rightarrow> Inl SizeOverflow
      | Some row_bytes \<Rightarrow>
          if stride < row_bytes then Inl StrideTooSmall
          else (case checked_mul stride (ucast height) of
            None \<Rightarrow> Inl SizeOverflow
          | Some expected \<Rightarrow>
              if length pixels \<noteq> unat expected then Inl BufferLengthMismatch
              else Inr \<lparr>ri_width = width, ri_height = height, ri_stride = stride,
                        ri_format = format, ri_pixels = pixels\<rparr>))"

record 'o resource =
  re_resource :: resource_handle
  re_output :: 'o

record text_page =
  tp_resource :: resource_handle
  tp_number :: nat
  tp_layer :: text_layer

record rendered_preview =
  rp_resource :: resource_handle
  rp_page :: nat
  rp_image :: raster_image

type_synonym rendered_tile = "raster_image resource"

datatype engine_output_error = UnexpectedDimensions u32 u32 u32 u32

datatype 'e runtime_failure =
    EngineFailure 'e
  | SessionFailure session_error
  | DemandFailure demand_error
  | AllocationFailure allocation_error
  | NoDocument
  | StaleGeneration
  | InvalidPage nat nat
  | InvalidEngineOutput engine_output_error

datatype 'e document_event =
    Opened u64 resource_handle document_descriptor
  | OpenCancelled u64
  | OpenFailed u64 "'e runtime_failure"
  | Closed u64

text \<open>\<open>RenderEvent\<close>, \<open>TextEvent\<close> and \<open>PreviewEvent\<close> have the same four constructors.\<close>

datatype ('d, 'r, 'e) work_event =
    Ready 'd 'r
  | WorkCancelled demand_stamp
  | Discarded demand_stamp
  | Failed demand_stamp "'e runtime_failure"

type_synonym 'e render_event = "(render_demand, rendered_tile, 'e) work_event"
type_synonym 'e text_event = "(text_demand, text_page, 'e) work_event"
type_synonym 'e preview_event = "(preview_demand, rendered_preview, 'e) work_event"

section \<open>The engine\<close>

record ('eng, 'src, 'doc, 'err) engine_ops =
  op_capabilities :: "'eng \<Rightarrow> engine_capabilities"
  op_open :: "'eng \<Rightarrow> 'src \<Rightarrow> token \<Rightarrow> world \<Rightarrow> ('err, 'doc) rust_result \<times> 'eng \<times> world"
  op_descriptor :: "'doc \<Rightarrow> document_descriptor"
  op_render :: "'doc \<Rightarrow> render_demand \<Rightarrow> token \<Rightarrow> world \<Rightarrow> ('err, raster_image) rust_result \<times> 'doc \<times> world"
  op_extract_text :: "'doc \<Rightarrow> text_demand \<Rightarrow> token \<Rightarrow> world \<Rightarrow> ('err, text_layer) rust_result \<times> 'doc \<times> world"
  op_render_preview :: "'doc \<Rightarrow> preview_demand \<Rightarrow> token \<Rightarrow> world \<Rightarrow> ('err, raster_image) rust_result \<times> 'doc \<times> world"

text \<open>The contract: an engine holds a read-only token, so during a call the world changes only as
  other threads may change it.\<close>

definition call_ok :: "('d \<Rightarrow> token \<Rightarrow> world \<Rightarrow> ('err, 'o) rust_result \<times> 'd \<times> world) \<Rightarrow> bool" where
  "call_ok call \<longleftrightarrow>
     (\<forall>d t w r d' w'. call d t w = (r, d', w') \<longrightarrow> world_le w w' \<and> (wf_world w \<longrightarrow> wf_world w'))"

definition engine_ok :: "('eng, 'src, 'doc, 'err) engine_ops \<Rightarrow> bool" where
  "engine_ok ops \<longleftrightarrow>
     (\<forall>source. call_ok (\<lambda>e. op_open ops e source)) \<and>
     (\<forall>demand. call_ok (\<lambda>d. op_render ops d demand)) \<and>
     (\<forall>demand. call_ok (\<lambda>d. op_extract_text ops d demand)) \<and>
     (\<forall>demand. call_ok (\<lambda>d. op_render_preview ops d demand))"

lemma call_okD:
  "call_ok call \<Longrightarrow> call d t w = (r, d', w') \<Longrightarrow> world_le w w'"
  "call_ok call \<Longrightarrow> call d t w = (r, d', w') \<Longrightarrow> wf_world w \<Longrightarrow> wf_world w'"
  unfolding call_ok_def by blast+

section \<open>The runtime\<close>

record ('eng, 'doc) pdf_runtime =
  rt_engine :: 'eng
  rt_sessions :: session_manager
  rt_document :: "'doc option"
  rt_document_handle :: "resource_handle option"
  rt_cache_policy :: cache_policy

datatype session_lookup = Current session | SessionCancelled | SessionStale

definition runtime_new :: "'eng \<Rightarrow> cache_policy \<Rightarrow> ('eng, 'doc) pdf_runtime" where
  "runtime_new engine policy = \<lparr>rt_engine = engine, rt_sessions = manager_new, rt_document = None,
     rt_document_handle = None, rt_cache_policy = policy\<rparr>"

definition runtime_descriptor ::
  "('eng, 'src, 'doc, 'err) engine_ops \<Rightarrow> ('eng, 'doc) pdf_runtime \<Rightarrow> document_descriptor option" where
  "runtime_descriptor ops rt = map_option (op_descriptor ops) (rt_document rt)"

definition composed_cancellation :: "session \<Rightarrow> token option \<Rightarrow> world \<Rightarrow> token" where
  "composed_cancellation s operation w =
     (case operation of
        None \<Rightarrow> session_cancellation s w
      | Some t \<Rightarrow> token_combined (session_cancellation s w) t)"

definition session_for :: "('eng, 'doc) pdf_runtime \<Rightarrow> demand_stamp \<Rightarrow> world \<Rightarrow> session_lookup" where
  "session_for rt st w =
     (case manager_current (rt_sessions rt) of
        None \<Rightarrow> SessionStale
      | Some s \<Rightarrow>
          if session_generation s w \<noteq> st_generation st then SessionStale
          else if session_is_cancelled s w then SessionCancelled
          else Current s)"

definition validate_page :: "document_descriptor option \<Rightarrow> nat \<Rightarrow> ('e runtime_failure, unit) rust_result" where
  "validate_page descriptor page =
     (case descriptor of
        None \<Rightarrow> Inl NoDocument
      | Some d \<Rightarrow> if page_count d \<le> page then Inl (InvalidPage page (page_count d)) else Inr ())"

definition open_inner ::
  "('eng, 'src, 'doc, 'err) engine_ops \<Rightarrow> ('eng, 'doc) pdf_runtime \<Rightarrow> 'src \<Rightarrow> token option \<Rightarrow> world \<Rightarrow>
   (session_error, 'err document_event) rust_result \<times> ('eng, 'doc) pdf_runtime \<times> world" where
  "open_inner ops rt source operation w =
     (let rt0 = rt\<lparr>rt_document := None, rt_document_handle := None\<rparr> in
      case manager_begin (rt_sessions rt0) w of
        (Inl e, m, w1) \<Rightarrow> (Inl e, rt0\<lparr>rt_sessions := m\<rparr>, w1)
      | (Inr s, m, w1) \<Rightarrow>
          let generation = session_generation s w1;
              cancellation = composed_cancellation s operation w1
          in case op_open ops (rt_engine rt0) source cancellation w1 of (result, engine, w2) \<Rightarrow>
            let rt1 = rt0\<lparr>rt_sessions := m, rt_engine := engine\<rparr> in
            (case result of
               Inr document \<Rightarrow>
                 if token_is_cancelled cancellation w2 then (Inr (OpenCancelled generation), rt1, w2)
                 else (case allocate_resource s w2 of
                     (Inr h, w3) \<Rightarrow>
                       (Inr (Opened generation h (op_descriptor ops document)),
                        rt1\<lparr>rt_document := Some document, rt_document_handle := Some h\<rparr>, w3)
                   | (Inl e, w3) \<Rightarrow> (Inr (OpenFailed generation (AllocationFailure e)), rt1, w3))
             | Inl e \<Rightarrow>
                 if token_is_cancelled cancellation w2 then (Inr (OpenCancelled generation), rt1, w2)
                 else (Inr (OpenFailed generation (EngineFailure e)), rt1, w2)))"

definition runtime_close ::
  "('eng, 'doc) pdf_runtime \<Rightarrow> world \<Rightarrow> 'err document_event option \<times> ('eng, 'doc) pdf_runtime \<times> world" where
  "runtime_close rt w =
     (case manager_close (rt_sessions rt) w of (generation, m, w') \<Rightarrow>
        (map_option Closed generation,
         rt\<lparr>rt_document := None, rt_document_handle := None, rt_sessions := m\<rparr>, w'))"

text \<open>
  \<open>render_inner\<close>, \<open>extract_text_inner\<close> and \<open>render_preview_inner\<close>, and their counterparts in
  the supervisor, share every step after the lookup of the session: they differ in the engine call,
  in the check of its output and in what they wrap it into.
\<close>

definition execute_demand ::
  "session \<Rightarrow> token \<Rightarrow> demand_stamp \<Rightarrow> nat \<Rightarrow> document_descriptor option \<Rightarrow> 'doc option \<Rightarrow>
   ('doc \<Rightarrow> token \<Rightarrow> world \<Rightarrow> ('err, 'o) rust_result \<times> 'doc \<times> world) \<Rightarrow>
   ('o \<Rightarrow> engine_output_error option) \<Rightarrow> (resource_handle \<Rightarrow> 'o \<Rightarrow> 'r) \<Rightarrow> 'd \<Rightarrow> world \<Rightarrow>
   ('d, 'r, 'err) work_event \<times> 'doc option \<times> world" where
  "execute_demand s cancellation st page descriptor document call check wrap demand w =
     (if token_is_cancelled cancellation w then (WorkCancelled st, document, w)
      else case validate_page descriptor page of
        Inl error \<Rightarrow> (Failed st error, document, w)
      | Inr _ \<Rightarrow>
          (case document of
             None \<Rightarrow> (Failed st NoDocument, None, w)
           | Some d \<Rightarrow>
               (case call d cancellation w of (result, d', w1) \<Rightarrow>
                  if token_is_cancelled cancellation w1 then (WorkCancelled st, Some d', w1)
                  else (case result of
                    Inl error \<Rightarrow> (Failed st (EngineFailure error), Some d', w1)
                  | Inr output \<Rightarrow>
                      (case check output of
                         Some error \<Rightarrow> (Failed st (InvalidEngineOutput error), Some d', w1)
                       | None \<Rightarrow>
                           (case allocate_resource s w1 of
                              (Inr h, w2) \<Rightarrow> (Ready demand (wrap h output), Some d', w2)
                            | (Inl error, w2) \<Rightarrow> (Failed st (AllocationFailure error), Some d', w2)))))))"

definition check_dimensions :: "pixel_rect \<Rightarrow> raster_image \<Rightarrow> engine_output_error option" where
  "check_dimensions expected picture =
     (if ri_width picture \<noteq> px_width expected \<or> ri_height picture \<noteq> px_height expected
      then Some (UnexpectedDimensions (px_width expected) (px_height expected) (ri_width picture) (ri_height picture))
      else None)"

definition execute_on_current ::
  "session_lookup \<Rightarrow> demand_stamp \<Rightarrow> 'doc option \<Rightarrow> world \<Rightarrow>
   (session \<Rightarrow> ('d, 'r, 'err) work_event \<times> 'doc option \<times> world) \<Rightarrow>
   ('d, 'r, 'err) work_event \<times> 'doc option \<times> world" where
  "execute_on_current lookup st document w run =
     (case lookup of
        Current s \<Rightarrow> run s
      | SessionCancelled \<Rightarrow> (WorkCancelled st, document, w)
      | SessionStale \<Rightarrow> (Discarded st, document, w))"

definition render_inner ::
  "('eng, 'src, 'doc, 'err) engine_ops \<Rightarrow> ('eng, 'doc) pdf_runtime \<Rightarrow> render_demand \<Rightarrow> token option \<Rightarrow> world \<Rightarrow>
   'err render_event \<times> ('eng, 'doc) pdf_runtime \<times> world" where
  "render_inner ops rt demand operation w =
     (let st = rd_stamp demand in
      case execute_on_current (session_for rt st w) st (rt_document rt) w (\<lambda>s.
          execute_demand s (composed_cancellation s operation w) st (tile_page (rd_key demand))
            (runtime_descriptor ops rt) (rt_document rt) (\<lambda>d. op_render ops d demand)
            (check_dimensions (rd_render_rect demand))
            (\<lambda>h picture. \<lparr>re_resource = h, re_output = picture\<rparr>) demand w) of
        (event, document, w') \<Rightarrow> (event, rt\<lparr>rt_document := document\<rparr>, w'))"

definition extract_text_inner ::
  "('eng, 'src, 'doc, 'err) engine_ops \<Rightarrow> ('eng, 'doc) pdf_runtime \<Rightarrow> text_demand \<Rightarrow> token option \<Rightarrow> world \<Rightarrow>
   'err text_event \<times> ('eng, 'doc) pdf_runtime \<times> world" where
  "extract_text_inner ops rt demand operation w =
     (let st = td_stamp demand in
      case execute_on_current (session_for rt st w) st (rt_document rt) w (\<lambda>s.
          execute_demand s (composed_cancellation s operation w) st (td_page demand)
            (runtime_descriptor ops rt) (rt_document rt) (\<lambda>d. op_extract_text ops d demand)
            (\<lambda>_. None)
            (\<lambda>h layer. \<lparr>tp_resource = h, tp_number = td_page demand, tp_layer = layer\<rparr>) demand w) of
        (event, document, w') \<Rightarrow> (event, rt\<lparr>rt_document := document\<rparr>, w'))"

definition render_preview_inner ::
  "('eng, 'src, 'doc, 'err) engine_ops \<Rightarrow> ('eng, 'doc) pdf_runtime \<Rightarrow> preview_demand \<Rightarrow> token option \<Rightarrow> world \<Rightarrow>
   'err preview_event \<times> ('eng, 'doc) pdf_runtime \<times> world" where
  "render_preview_inner ops rt demand operation w =
     (let st = pd_stamp demand in
      case execute_on_current (session_for rt st w) st (rt_document rt) w (\<lambda>s.
          execute_demand s (composed_cancellation s operation w) st (pd_page demand)
            (runtime_descriptor ops rt) (rt_document rt) (\<lambda>d. op_render_preview ops d demand)
            (check_dimensions (pd_region demand))
            (\<lambda>h picture. \<lparr>rp_resource = h, rp_page = pd_page demand, rp_image = picture\<rparr>) demand w) of
        (event, document, w') \<Rightarrow> (event, rt\<lparr>rt_document := document\<rparr>, w'))"

end
