(* ===== verification/Supervisor.thy ===== *)
theory Supervisor
  imports Engine
begin

text \<open>
  The process-wide supervisor, \<open>crates/key-pdf-runtime/src/supervisor.rs\<close>: one owner thread
  holds the engine and every document, clients send it commands. Modelled here are the data, the
  clients' cancellation sources, one managed document with its bounded queue, and the execution of
  its work; the owner thread itself is in \<open>SupervisorOwner\<close>.
\<close>

section \<open>Data\<close>

type_synonym document_id = u64

datatype work_class = RenderViewport | PreviewClass | VisibleText | CopyText | SearchText
  | LinkResolutionText | DocumentAnalysisText

record supervisor_policy =
  max_pending_per_document :: nat
  event_channel_capacity :: nat

datatype supervisor_policy_error = EmptyWorkQueue | EmptyEventChannel

definition supervisor_policy_new :: "nat \<Rightarrow> nat \<Rightarrow> (supervisor_policy_error, supervisor_policy) rust_result" where
  "supervisor_policy_new pending events =
     (if pending = 0 then Inl EmptyWorkQueue
      else if events = 0 then Inl EmptyEventChannel
      else Inr \<lparr>max_pending_per_document = pending, event_channel_capacity = events\<rparr>)"

definition supervisor_policy_default :: supervisor_policy where
  "supervisor_policy_default = \<lparr>max_pending_per_document = 4096, event_channel_capacity = 1\<rparr>"

datatype supervisor_send_error = Disconnected | DocumentIdsExhausted | InvalidWorkClass

datatype 'e supervisor_event =
    EvAttached document_id engine_capabilities
  | EvOpened document_id session resource_handle document_descriptor
  | EvOpenCancelled document_id u64
  | EvOpenFailed document_id "u64 option" "'e runtime_failure"
  | EvClosed document_id "u64 option"
  | EvRendered document_id "'e render_event"
  | EvTextExtracted document_id "'e text_event"
  | EvPreviewRendered document_id "'e preview_event"
  | EvWorkRejected document_id work_class nat

datatype work = RenderWork render_demand | TextWork text_demand | PreviewWork preview_demand

datatype work_key = OpenKey | RenderKey tile_key | TextKey work_class nat | PreviewKey

datatype 's pending_kind = PendingOpen 's | PendingEngine work

record 's pending_work =
  pw_sequence :: u128
  pw_priority :: demand_priority
  pw_class :: "work_class option"
  pw_cancellation :: source
  pw_kind :: "'s pending_kind"

fun work_priority :: "work \<Rightarrow> demand_priority" where
  "work_priority (RenderWork d) = st_priority (rd_stamp d)"
| "work_priority (TextWork d) = st_priority (td_stamp d)"
| "work_priority (PreviewWork d) = st_priority (pd_stamp d)"

fun work_key_of :: "work_class \<Rightarrow> work \<Rightarrow> work_key" where
  "work_key_of class (RenderWork d) = RenderKey (rd_key d)"
| "work_key_of class (TextWork d) = TextKey class (td_page d)"
| "work_key_of class (PreviewWork d) = PreviewKey"

section \<open>The sources a client holds\<close>

record client_cancellations =
  cc_open :: "source option"
  cc_classes :: "(work_class, source) hash_map"

definition client_new :: client_cancellations where
  "client_new = \<lparr>cc_open = None, cc_classes = []\<rparr>"

definition client_cancel_all :: "client_cancellations \<Rightarrow> world \<Rightarrow> client_cancellations \<times> world" where
  "client_cancel_all c w =
     (let w1 = (case cc_open c of None \<Rightarrow> w | Some a \<Rightarrow> snd (source_cancel a w))
      in (\<lparr>cc_open = None, cc_classes = []\<rparr>, cancel_each (map snd (cc_classes c)) w1))"

definition replace_open :: "client_cancellations \<Rightarrow> world \<Rightarrow> source \<times> client_cancellations \<times> world" where
  "replace_open c w =
     (case client_cancel_all c w of (c1, w1) \<Rightarrow>
        (case source_new w1 of (a, w2) \<Rightarrow> (a, c1\<lparr>cc_open := Some a\<rparr>, w2)))"

definition client_cancel_class :: "work_class \<Rightarrow> client_cancellations \<Rightarrow> world \<Rightarrow> client_cancellations \<times> world" where
  "client_cancel_class class c w =
     (case map_of (cc_classes c) class of
        None \<Rightarrow> (c, w)
      | Some a \<Rightarrow> (c\<lparr>cc_classes := hm_remove class (cc_classes c)\<rparr>, snd (source_cancel a w)))"

definition client_replace_class ::
  "work_class \<Rightarrow> client_cancellations \<Rightarrow> world \<Rightarrow> source \<times> client_cancellations \<times> world" where
  "client_replace_class class c w =
     (case client_cancel_class class c w of (c1, w1) \<Rightarrow>
        (case source_new w1 of (a, w2) \<Rightarrow>
           (a, c1\<lparr>cc_classes := hm_insert class a (cc_classes c1)\<rparr>, w2)))"

section \<open>A managed document\<close>

record ('d, 's, 'e) managed_document =
  md_sessions :: session_manager
  md_document :: "'d option"
  md_document_handle :: "resource_handle option"
  md_descriptor :: "document_descriptor option"
  md_pending_events :: "'e supervisor_event list"
  md_pending :: "(work_key, 's pending_work) hash_map"
  md_next_sequence :: u128

definition managed_new :: "('d, 's, 'e) managed_document" where
  "managed_new = \<lparr>md_sessions = manager_new, md_document = None, md_document_handle = None,
     md_descriptor = None, md_pending_events = [], md_pending = [], md_next_sequence = 1\<rparr>"

text \<open>\<open>wrapping_add(1).max(1)\<close>\<close>

definition allocate_sequence :: "('d, 's, 'e) managed_document \<Rightarrow> u128 \<times> ('d, 's, 'e) managed_document" where
  "allocate_sequence md =
     (md_next_sequence md, md\<lparr>md_next_sequence := max (md_next_sequence md + 1) 1\<rparr>)"

definition push_event :: "'e supervisor_event \<Rightarrow> ('d, 's, 'e) managed_document \<Rightarrow> ('d, 's, 'e) managed_document" where
  "push_event ev md = md\<lparr>md_pending_events := md_pending_events md @ [ev]\<rparr>"

definition cancel_and_clear ::
  "('d, 's, 'e) managed_document \<Rightarrow> world \<Rightarrow> ('d, 's, 'e) managed_document \<times> world" where
  "cancel_and_clear md w =
     (case manager_close (md_sessions md) w of (_, m, w1) \<Rightarrow>
        (md\<lparr>md_sessions := m, md_pending := [], md_document := None, md_document_handle := None,
            md_descriptor := None\<rparr>,
         cancel_each (map (pw_cancellation \<circ> snd) (md_pending md)) w1))"

text \<open>\<open>pending.retain(\<dots>)\<close>: the work of a class is cancelled and removed.\<close>

definition drop_class ::
  "work_class \<Rightarrow> ('d, 's, 'e) managed_document \<Rightarrow> world \<Rightarrow> ('d, 's, 'e) managed_document \<times> world" where
  "drop_class class md w =
     (md\<lparr>md_pending := filter (\<lambda>(_, p). pw_class p \<noteq> Some class) (md_pending md)\<rparr>,
      cancel_each (map (pw_cancellation \<circ> snd) (filter (\<lambda>(_, p). pw_class p = Some class) (md_pending md))) w)"

definition pending_rank :: "work_key \<times> 's pending_work \<Rightarrow> demand_priority \<times> u128" where
  "pending_rank kp = (pw_priority (snd kp), pw_sequence (snd kp))"

definition eviction_candidate :: "(work_key, 's pending_work) hash_map \<Rightarrow> (work_key \<times> 's pending_work) option" where
  "eviction_candidate pending = min_by_key pending_rank (filter (\<lambda>(k, _). k \<noteq> OpenKey) pending)"

lemma eviction_candidate_Some:
  assumes "eviction_candidate pending = Some (k, p)"
  shows "(k, p) \<in> set pending" and "k \<noteq> OpenKey"
    and "\<And>j q. (j, q) \<in> set pending \<Longrightarrow> j \<noteq> OpenKey \<Longrightarrow> pending_rank (k, p) \<le> pending_rank (j, q)"
  using min_by_key_Some[OF assms[unfolded eviction_candidate_def]] by auto

lemma hm_remove_shorter: "(k, v) \<in> set m \<Longrightarrow> length (hm_remove k m) < length m"
  unfolding hm_remove_def by (induction m) (auto simp: length_delete_le less_Suc_eq_le)

text \<open>The loop \<open>while pending.len() > capacity\<close>.\<close>

function evict_over ::
  "nat \<Rightarrow> (work_key, 's pending_work) hash_map \<Rightarrow> world \<Rightarrow> nat \<times> (work_key, 's pending_work) hash_map \<times> world" where
  "evict_over cap pending w =
     (if length pending \<le> cap then (0, pending, w)
      else case eviction_candidate pending of
        None \<Rightarrow> (0, pending, w)
      | Some (k, p) \<Rightarrow>
          (case evict_over cap (hm_remove k pending) (snd (source_cancel (pw_cancellation p) w)) of
             (n, pending', w') \<Rightarrow> (Suc n, pending', w')))"
  by pat_completeness auto
termination
  by (relation "measure (\<lambda>(_, pending, _). length pending)")
     (auto dest: eviction_candidate_Some(1) hm_remove_shorter)

declare evict_over.simps [simp del]

text \<open>One turn of the loop over the new work of a class.\<close>

definition admit ::
  "work_class \<Rightarrow> source \<Rightarrow> nat \<Rightarrow> work \<Rightarrow> ('d, 's, 'e) managed_document \<Rightarrow> world \<Rightarrow>
   nat \<times> ('d, 's, 'e) managed_document \<times> world" where
  "admit class c cap x md w =
     (let key = work_key_of class x in
      case allocate_sequence md of (sq, md1) \<Rightarrow>
        let p = \<lparr>pw_sequence = sq, pw_priority = work_priority x, pw_class = Some class,
                 pw_cancellation = c, pw_kind = PendingEngine x\<rparr>;
            w1 = (case map_of (md_pending md1) key of
                    None \<Rightarrow> w | Some previous \<Rightarrow> snd (source_cancel (pw_cancellation previous) w))
        in case evict_over cap (hm_insert key p (md_pending md1)) w1 of
          (n, pending, w2) \<Rightarrow> (n, md1\<lparr>md_pending := pending\<rparr>, w2))"

primrec admit_all ::
  "work_class \<Rightarrow> source \<Rightarrow> nat \<Rightarrow> work list \<Rightarrow> ('d, 's, 'e) managed_document \<Rightarrow> world \<Rightarrow>
   nat \<times> ('d, 's, 'e) managed_document \<times> world" where
  "admit_all class c cap [] md w = (0, md, w)"
| "admit_all class c cap (x # xs) md w =
     (case admit class c cap x md w of (n, md1, w1) \<Rightarrow>
        (case admit_all class c cap xs md1 w1 of (m, md2, w2) \<Rightarrow> (n + m, md2, w2)))"

definition replace_class ::
  "work_class \<Rightarrow> work list \<Rightarrow> source \<Rightarrow> nat \<Rightarrow> ('d, 's, 'e) managed_document \<Rightarrow> world \<Rightarrow>
   nat \<times> ('d, 's, 'e) managed_document \<times> world" where
  "replace_class class xs c cap md w =
     (case drop_class class md w of (md1, w1) \<Rightarrow> admit_all class c cap xs md1 w1)"

definition pop_pending ::
  "('d, 's, 'e) managed_document \<Rightarrow> 's pending_work option \<times> ('d, 's, 'e) managed_document" where
  "pop_pending md =
     (case max_by_key pending_rank (md_pending md) of
        None \<Rightarrow> (None, md)
      | Some (k, p) \<Rightarrow> (Some p, md\<lparr>md_pending := hm_remove k (md_pending md)\<rparr>))"

definition highest_pending_priority :: "('d, 's, 'e) managed_document \<Rightarrow> demand_priority option" where
  "highest_pending_priority md = max_by_key (\<lambda>p. p) (map (pw_priority \<circ> snd) (md_pending md))"

section \<open>Executing its work\<close>

definition current_session :: "('d, 's, 'e) managed_document \<Rightarrow> u64 \<Rightarrow> world \<Rightarrow> session option" where
  "current_session md gen w =
     (case manager_current (md_sessions md) of
        None \<Rightarrow> None
      | Some s \<Rightarrow> if session_generation s w = gen \<and> \<not> session_is_cancelled s w then Some s else None)"

definition execute_in_session ::
  "('d, 's, 'e) managed_document \<Rightarrow> demand_stamp \<Rightarrow> token \<Rightarrow> nat \<Rightarrow>
   ('d \<Rightarrow> token \<Rightarrow> world \<Rightarrow> ('e, 'o) rust_result \<times> 'd \<times> world) \<Rightarrow>
   ('o \<Rightarrow> engine_output_error option) \<Rightarrow> (resource_handle \<Rightarrow> 'o \<Rightarrow> 'r) \<Rightarrow> 'x \<Rightarrow> world \<Rightarrow>
   ('x, 'r, 'e) work_event \<times> ('d, 's, 'e) managed_document \<times> world" where
  "execute_in_session md st operation page call check wrap demand w =
     (case current_session md (st_generation st) w of
        None \<Rightarrow> (Discarded st, md, w)
      | Some s \<Rightarrow>
          (let cancellation = token_combined (session_cancellation s w) operation in
           if token_is_cancelled cancellation w then (WorkCancelled st, md, w)
           else case validate_page (md_descriptor md) page of
             Inl error \<Rightarrow> (Failed st error, md, w)
           | Inr _ \<Rightarrow>
               (case md_document md of
                  None \<Rightarrow> (Failed st NoDocument, md, w)
                | Some document \<Rightarrow>
                    (case call document cancellation w of (result, document', w1) \<Rightarrow>
                       let md' = md\<lparr>md_document := Some document'\<rparr> in
                       if token_is_cancelled cancellation w1 then (WorkCancelled st, md', w1)
                       else case result of
                         Inr output \<Rightarrow>
                           (case check output of
                              Some error \<Rightarrow> (Failed st (InvalidEngineOutput error), md', w1)
                            | None \<Rightarrow>
                                (case allocate_resource s w1 of
                                   (Inr resource, w2) \<Rightarrow> (Ready demand (wrap resource output), md', w2)
                                 | (Inl error, w2) \<Rightarrow> (Failed st (AllocationFailure error), md', w2)))
                       | Inl error \<Rightarrow> (Failed st (EngineFailure error), md', w1)))))"

definition execute_render ::
  "('eng, 's, 'd, 'e) engine_ops \<Rightarrow> ('d, 's, 'e) managed_document \<Rightarrow> render_demand \<Rightarrow> token \<Rightarrow> world \<Rightarrow>
   'e render_event \<times> ('d, 's, 'e) managed_document \<times> world" where
  "execute_render ops md demand operation w =
     execute_in_session md (rd_stamp demand) operation (tile_page (rd_key demand))
       (\<lambda>d. op_render ops d demand) (check_dimensions (rd_render_rect demand))
       (\<lambda>h picture. \<lparr>re_resource = h, re_output = picture\<rparr>) demand w"

definition execute_text ::
  "('eng, 's, 'd, 'e) engine_ops \<Rightarrow> ('d, 's, 'e) managed_document \<Rightarrow> text_demand \<Rightarrow> token \<Rightarrow> world \<Rightarrow>
   'e text_event \<times> ('d, 's, 'e) managed_document \<times> world" where
  "execute_text ops md demand operation w =
     execute_in_session md (td_stamp demand) operation (td_page demand)
       (\<lambda>d. op_extract_text ops d demand) (\<lambda>_. None)
       (\<lambda>h layer. \<lparr>tp_resource = h, tp_number = td_page demand, tp_layer = layer\<rparr>) demand w"

definition execute_preview ::
  "('eng, 's, 'd, 'e) engine_ops \<Rightarrow> ('d, 's, 'e) managed_document \<Rightarrow> preview_demand \<Rightarrow> token \<Rightarrow> world \<Rightarrow>
   'e preview_event \<times> ('d, 's, 'e) managed_document \<times> world" where
  "execute_preview ops md demand operation w =
     execute_in_session md (pd_stamp demand) operation (pd_page demand)
       (\<lambda>d. op_render_preview ops d demand) (check_dimensions (pd_region demand))
       (\<lambda>h picture. \<lparr>rp_resource = h, rp_page = pd_page demand, rp_image = picture\<rparr>) demand w"

definition process_open ::
  "('eng, 's, 'd, 'e) engine_ops \<Rightarrow> 'eng \<Rightarrow> document_id \<Rightarrow> 's \<Rightarrow> source \<Rightarrow> ('d, 's, 'e) managed_document \<Rightarrow>
   world \<Rightarrow> 'eng \<times> ('d, 's, 'e) managed_document \<times> world" where
  "process_open ops engine i src operation md w =
     (let md0 = md\<lparr>md_document := None, md_document_handle := None, md_descriptor := None\<rparr> in
      case manager_begin (md_sessions md0) w of
        (Inl e, m, w1) \<Rightarrow> (engine, push_event (EvOpenFailed i None (SessionFailure e)) (md0\<lparr>md_sessions := m\<rparr>), w1)
      | (Inr s, m, w1) \<Rightarrow>
          let md1 = md0\<lparr>md_sessions := m\<rparr>;
              gen = session_generation s w1;
              cancellation = token_combined (session_cancellation s w1) (source_token operation)
          in case op_open ops engine src cancellation w1 of (result, engine', w2) \<Rightarrow>
            (case result of
               Inr opened \<Rightarrow>
                 if token_is_cancelled cancellation w2 then (engine', push_event (EvOpenCancelled i gen) md1, w2)
                 else (case allocate_resource s w2 of
                     (Inr h, w3) \<Rightarrow>
                       (engine', push_event (EvOpened i s h (op_descriptor ops opened))
                          (md1\<lparr>md_document := Some opened, md_document_handle := Some h,
                               md_descriptor := Some (op_descriptor ops opened)\<rparr>), w3)
                   | (Inl e, w3) \<Rightarrow>
                       (engine', push_event (EvOpenFailed i (Some gen) (AllocationFailure e)) md1, w3))
             | Inl e \<Rightarrow>
                 if token_is_cancelled cancellation w2 then (engine', push_event (EvOpenCancelled i gen) md1, w2)
                 else (engine', push_event (EvOpenFailed i (Some gen) (EngineFailure e)) md1, w2)))"

definition process_work ::
  "('eng, 's, 'd, 'e) engine_ops \<Rightarrow> 'eng \<Rightarrow> document_id \<Rightarrow> 's pending_work \<Rightarrow> ('d, 's, 'e) managed_document \<Rightarrow>
   world \<Rightarrow> 'eng \<times> ('d, 's, 'e) managed_document \<times> world" where
  "process_work ops engine i p md w =
     (let operation = source_token (pw_cancellation p) in
      case pw_kind p of
        PendingOpen src \<Rightarrow> process_open ops engine i src (pw_cancellation p) md w
      | PendingEngine (RenderWork d) \<Rightarrow>
          (case execute_render ops md d operation w of (ev, md', w') \<Rightarrow> (engine, push_event (EvRendered i ev) md', w'))
      | PendingEngine (TextWork d) \<Rightarrow>
          (case execute_text ops md d operation w of (ev, md', w') \<Rightarrow> (engine, push_event (EvTextExtracted i ev) md', w'))
      | PendingEngine (PreviewWork d) \<Rightarrow>
          (case execute_preview ops md d operation w of (ev, md', w') \<Rightarrow> (engine, push_event (EvPreviewRendered i ev) md', w')))"

end
