(* ===== verification/EngineProps.thy ===== *)
theory EngineProps
  imports Engine SessionManager
begin

text \<open>
  The properties of the document runtime (\<open>PdfRuntime\<close> in
  \<open>crates/key-pdf-runtime/src/engine.rs\<close>): which results it publishes, that stale and cancelled
  work never reaches the engine, and the relation between the open document and the current session
  over every run of the runtime in a concurrent world.
\<close>

section \<open>The shared pipeline\<close>

lemma allocate_resource_facts:
  assumes "allocate_resource s w = (r, w')"
  shows "world_le w w'" and "wf_world w \<Longrightarrow> wf_world w'" and "flag w' = flag w"
    and "\<And>t. session_generation t w' = session_generation t w"
    and "\<And>t. session_is_cancelled t w' = session_is_cancelled t w"
    and "\<And>h. r = Inr h \<Longrightarrow> rh_generation h = session_generation s w"
proof -
  have w': "w' = snd (allocate_resource s w)" using assms by simp
  show "world_le w w'" "flag w' = flag w" "wf_world w \<Longrightarrow> wf_world w'"
    by (simp_all add: w' session_simps wf_allocate_resource)
  show "session_generation t w' = session_generation t w"
    "session_is_cancelled t w' = session_is_cancelled t w" for t
    by (simp_all add: w' session_simps session_generation_def)
  show "rh_generation h = session_generation s w" if "r = Inr h" for h
    using assms that by (auto simp: allocate_resource_def split: prod.splits option.splits)
qed

definition page_exists :: "document_descriptor option \<Rightarrow> nat \<Rightarrow> bool" where
  "page_exists desc page \<longleftrightarrow> (\<exists>d. desc = Some d \<and> page < page_count d)"

lemma validate_page_Inr [simp]: "page_exists desc page \<Longrightarrow> validate_page desc page = Inr ()"
  by (auto simp: page_exists_def validate_page_def not_le)

lemma validate_page_Inl: "\<not> page_exists desc page \<Longrightarrow> \<exists>e. validate_page desc page = Inl e"
  by (auto simp: page_exists_def validate_page_def not_le split: option.splits)

lemma validate_page_InrD: "validate_page desc page = Inr u \<Longrightarrow> page_exists desc page"
  by (auto simp: page_exists_def validate_page_def not_le split: option.splits if_splits)

lemma execute_demand_Ready:
  assumes "execute_demand s c st page desc doc call check wrap demand w = (Ready x r, doc', w')"
  obtains d d' out w1 h where "x = demand" and "page_exists desc page" and "doc = Some d"
    and "call d c w = (Inr out, d', w1)" and "\<not> token_is_cancelled c w1" and "check out = None"
    and "allocate_resource s w1 = (Inr h, w')" and "r = wrap h out" and "doc' = Some d'"
  using assms by (auto simp: execute_demand_def split: if_splits sum.splits option.splits prod.splits dest!: validate_page_InrD intro: that)

lemma execute_demand_cases:
  assumes "execute_demand s c st page desc doc call check wrap demand w = (ev, doc', w')"
  obtains (cancelled) "token_is_cancelled c w" and "ev = WorkCancelled st" and "doc' = doc" and "w' = w"
  | (refused) e where "\<not> token_is_cancelled c w" and "ev = Failed st e" and "doc' = doc" and "w' = w"
  | (interrupted) d r d' where "doc = Some d" and "call d c w = (r, d', w')" and "doc' = Some d'"
      and "token_is_cancelled c w'" and "ev = WorkCancelled st"
  | (failed) d r d' e where "doc = Some d" and "call d c w = (r, d', w')" and "doc' = Some d'"
      and "\<not> token_is_cancelled c w'" and "ev = Failed st e"
  | (allocated) d r d' w1 a where "doc = Some d" and "call d c w = (r, d', w1)" and "doc' = Some d'"
      and "\<not> token_is_cancelled c w1" and "allocate_resource s w1 = (a, w')"
      and "(\<exists>x. ev = Ready demand x) \<or> (\<exists>e. ev = Failed st e)"
proof (cases "token_is_cancelled c w \<or> \<not> page_exists desc page \<or> doc = None")
  case True
  have "token_is_cancelled c w \<and> ev = WorkCancelled st \<and> doc' = doc \<and> w' = w \<or>
      \<not> token_is_cancelled c w \<and> (\<exists>e. ev = Failed st e) \<and> doc' = doc \<and> w' = w"
    using True assms validate_page_Inl[of desc page]
    by (auto simp: execute_demand_def split: sum.splits if_splits option.splits dest: validate_page_InrD)
  then show thesis using cancelled refused by blast
next
  case False
  then obtain d r d' w1 where d: "doc = Some d" and call: "call d c w = (r, d', w1)"
    by (metis not_None_eq prod_cases3)
  have e: "\<not> token_is_cancelled c w" "page_exists desc page" using False by simp_all
  show thesis
  proof (cases "token_is_cancelled c w1")
    case True
    then show thesis using assms d call e interrupted by (simp add: execute_demand_def)
  next
    case on: False
    show thesis
    proof (cases "\<exists>out. r = Inr out \<and> check out = None")
      case True
      then show thesis
        using assms d call e on
        by (auto simp: execute_demand_def split: prod.splits sum.splits intro: allocated)
    next
      case False
      then show thesis
        using assms d call e on
        by (auto simp: execute_demand_def split: sum.splits option.splits intro: failed)
    qed
  qed
qed

lemma execute_demand_world:
  assumes "execute_demand s c st page desc doc call check wrap demand w = (ev, doc', w')" and "call_ok call"
  shows "world_le w w' \<and> (wf_world w \<longrightarrow> wf_world w') \<and> (doc' = None) = (doc = None)"
  using assms(1)
proof (cases rule: execute_demand_cases)
  case (allocated d r d' w1 a)
  then show ?thesis
    using call_okD[OF assms(2)] allocate_resource_facts(1,2)[OF allocated(5)] by (metis option.distinct(1) world_le_trans)
qed (use call_okD[OF assms(2)] in auto)

lemma execute_demand_uncancelled:
  assumes "execute_demand s c st page desc doc call check wrap demand w = (ev, doc', w')"
    and "ev \<noteq> WorkCancelled st"
  shows "\<not> token_is_cancelled c w'"
  using assms(1)
proof (cases rule: execute_demand_cases)
  case (allocated d r d' w1 a)
  then show ?thesis
    using allocate_resource_facts(3)[OF allocated(5)] by (simp add: token_is_cancelled_def)
qed (use assms(2) in simp_all)

lemma execute_demand_cancelled_before:
  "token_is_cancelled c w \<Longrightarrow>
   execute_demand s c st page desc doc call check wrap demand w = (WorkCancelled st, doc, w)"
  by (simp add: execute_demand_def)

lemma execute_demand_not_discarded:
  "execute_demand s c st page desc doc call check wrap demand w \<noteq> (Discarded x, doc', w')"
  by (simp add: execute_demand_def split: sum.splits option.splits prod.splits)

lemma execute_demand_stamp:
  assumes "execute_demand s c st page desc doc call check wrap demand w = (ev, doc', w')"
  shows "ev = WorkCancelled t \<Longrightarrow> t = st" and "ev = Failed t e \<Longrightarrow> t = st"
  using assms by (auto simp: execute_demand_def split: if_splits sum.splits option.splits prod.splits)

lemma composed_cancelled [simp]:
  "token_is_cancelled (composed_cancellation s operation w) w' \<longleftrightarrow>
     flag w' (ss_cancellation (session_at w s)) \<or> (\<exists>t. operation = Some t \<and> token_is_cancelled t w')"
  by (auto simp: composed_cancellation_def split: option.splits)

lemma session_for_Current:
  "session_for rt st w = Current s \<longleftrightarrow>
     active (rt_sessions rt) = Some s \<and> session_generation s w = st_generation st \<and>
     \<not> session_is_cancelled s w"
  by (auto simp: session_for_def manager_current_def split: option.splits)



lemmas inner_defs = render_inner_def extract_text_inner_def render_preview_inner_def

section \<open>Runs of a runtime\<close>

text \<open>
  A run starts with a new runtime and interleaves its operations with steps of other threads, which
  cancel, allocate identifiers or run other runtimes on the same world.
\<close>

inductive runtime_run ::
  "('eng, 'src, 'doc, 'err) engine_ops \<Rightarrow> ('eng, 'doc) pdf_runtime \<Rightarrow> world \<Rightarrow> bool" for ops where
  rt_init: "wf_world w \<Longrightarrow> runtime_run ops (runtime_new engine policy) w"
| rt_open: "runtime_run ops rt w \<Longrightarrow> open_inner ops rt src operation w = (r, rt', w') \<Longrightarrow> runtime_run ops rt' w'"
| rt_close: "runtime_run ops rt w \<Longrightarrow> runtime_close rt w = (r :: 'err document_event option, rt', w') \<Longrightarrow> runtime_run ops rt' w'"
| rt_render: "runtime_run ops rt w \<Longrightarrow> render_inner ops rt x operation w = (r, rt', w') \<Longrightarrow> runtime_run ops rt' w'"
| rt_text: "runtime_run ops rt w \<Longrightarrow> extract_text_inner ops rt y operation w = (r, rt', w') \<Longrightarrow> runtime_run ops rt' w'"
| rt_preview: "runtime_run ops rt w \<Longrightarrow> render_preview_inner ops rt z operation w = (r, rt', w') \<Longrightarrow> runtime_run ops rt' w'"
| rt_env: "runtime_run ops rt w \<Longrightarrow> world_le w w' \<Longrightarrow> wf_world w' \<Longrightarrow> runtime_run ops rt w'"

text \<open>A document is open exactly when its handle is, and the handle belongs to the active session.\<close>

definition document_owned :: "('eng, 'doc) pdf_runtime \<Rightarrow> world \<Rightarrow> bool" where
  "document_owned rt w \<longleftrightarrow>
     (rt_document rt = None \<longleftrightarrow> rt_document_handle rt = None) \<and>
     (\<forall>h. rt_document_handle rt = Some h \<longrightarrow>
        (\<exists>s. active (rt_sessions rt) = Some s \<and> session_owns s h w))"

definition runtime_inv :: "('eng, 'doc) pdf_runtime \<Rightarrow> world \<Rightarrow> bool" where
  "runtime_inv rt w \<longleftrightarrow> (\<exists>xs. manager_run (rt_sessions rt) w xs) \<and> document_owned rt w"

lemma runtime_inv_active:
  assumes "runtime_inv rt w"
  shows "wf_world w" and "active (rt_sessions rt) = Some s \<Longrightarrow> s < next_session w"
proof -
  obtain xs where "manager_inv (rt_sessions rt) w xs"
    using assms manager_run_inv by (auto simp: runtime_inv_def)
  then show "wf_world w" "active (rt_sessions rt) = Some s \<Longrightarrow> s < next_session w"
    by (auto simp: manager_inv_def)
qed

lemma runtime_inv_env:
  assumes inv: "runtime_inv rt w" and le: "world_le w w'" and wf: "wf_world w'"
  shows "runtime_inv rt w'"
proof -
  have "session_owns s h w'" if "active (rt_sessions rt) = Some s" "session_owns s h w" for s h
    using that world_le_generation[OF le runtime_inv_active(2)[OF inv that(1)]] by (simp add: session_owns_def)
  then show ?thesis
    using inv le wf unfolding runtime_inv_def document_owned_def by (metis run_env)
qed

lemma runtime_inv_document:
  assumes "runtime_inv rt w" and "(document = None) = (rt_document rt = None)"
  shows "runtime_inv (rt\<lparr>rt_document := document\<rparr>) w"
  using assms by (simp add: runtime_inv_def document_owned_def)

lemma on_current_world:
  assumes "execute_on_current (session_for rt st w) st doc w (\<lambda>s.
      execute_demand s (composed_cancellation s operation w) st page desc doc call check wrap demand w)
      = (ev, doc', w')"
    and "call_ok call"
  shows "world_le w w' \<and> (wf_world w \<longrightarrow> wf_world w') \<and> (doc' = None) = (doc = None)"
  using assms by (auto simp: execute_on_current_def dest: execute_demand_world split: session_lookup.splits)

lemma inner_world:
  assumes "engine_ok ops"
  shows "render_inner ops rt x operation w = (r, rt', w') \<Longrightarrow>
      \<exists>doc. rt' = rt\<lparr>rt_document := doc\<rparr> \<and> (doc = None) = (rt_document rt = None) \<and> world_le w w' \<and> (wf_world w \<longrightarrow> wf_world w')"
    and "extract_text_inner ops rt y operation w = (r', rt', w') \<Longrightarrow>
      \<exists>doc. rt' = rt\<lparr>rt_document := doc\<rparr> \<and> (doc = None) = (rt_document rt = None) \<and> world_le w w' \<and> (wf_world w \<longrightarrow> wf_world w')"
    and "render_preview_inner ops rt z operation w = (r'', rt', w') \<Longrightarrow>
      \<exists>doc. rt' = rt\<lparr>rt_document := doc\<rparr> \<and> (doc = None) = (rt_document rt = None) \<and> world_le w w' \<and> (wf_world w \<longrightarrow> wf_world w')"
  using assms unfolding engine_ok_def inner_defs Let_def
  by (auto split: prod.splits dest!: on_current_world)

lemma manager_begin_Inl: "manager_begin m w = (Inl e, m', w') \<Longrightarrow> m' = m \<and> w' = w \<and> next_generation m = 0"
  by (auto simp: manager_begin_def Let_def split: if_splits prod.splits)

lemma open_cases:
  assumes "open_inner ops rt src operation w = (r, rt', w')" and ok: "engine_ok ops"
  obtains (exhausted) "r = Inl GenerationsExhausted" and "w' = w"
      and "rt' = rt\<lparr>rt_document := None, rt_document_handle := None\<rparr>"
  | (opened) s m w1 d h where "manager_begin (rt_sessions rt) w = (Inr s, m, w1)" and "world_le w1 w'"
      and "rt_sessions rt' = m" and "wf_world w1 \<longrightarrow> wf_world w'"
      and "r = Inr (Opened (session_generation s w1) h (op_descriptor ops d))"
      and "rt_document rt' = Some d" and "rt_document_handle rt' = Some h" and "session_owns s h w'"
      and "\<not> token_is_cancelled (composed_cancellation s operation w1) w'"
  | (not_opened) s m w1 where "manager_begin (rt_sessions rt) w = (Inr s, m, w1)" and "world_le w1 w'"
      and "rt_sessions rt' = m" and "wf_world w1 \<longrightarrow> wf_world w'"
      and "r = Inr (OpenCancelled (session_generation s w1)) \<and>
             token_is_cancelled (composed_cancellation s operation w1) w' \<or>
           (\<exists>e. r = Inr (OpenFailed (session_generation s w1) e)) \<and>
             \<not> token_is_cancelled (composed_cancellation s operation w1) w'"
      and "rt_document rt' = None" and "rt_document_handle rt' = None"
proof -
  obtain b m w1 where b: "manager_begin (rt_sessions rt) w = (b, m, w1)" by (metis prod_cases3)
  show thesis
  proof (cases b)
    case (Inl e)
    then have "m = rt_sessions rt" "w1 = w" using manager_begin_Inl b by blast+
    then show thesis
      using assms(1) b Inl exhausted by (cases e) (simp add: open_inner_def Let_def)
  next
    case (Inr s)
    let ?c = "composed_cancellation s operation w1"
    obtain q engine w2 where q: "op_open ops (rt_engine rt) src ?c w1 = (q, engine, w2)" by (metis prod_cases3)
    have call: "world_le w1 w2" "wf_world w1 \<longrightarrow> wf_world w2"
      using ok q call_okD[of "\<lambda>e. op_open ops e src"] unfolding engine_ok_def by blast+
    note begun = b[unfolded Inr]
    show thesis
    proof (cases "\<exists>d. q = Inr d \<and> \<not> token_is_cancelled ?c w2")
      case False
      then show thesis
        using assms(1) begun q call
        by (intro not_opened[OF begun]) (auto simp: open_inner_def Let_def split: sum.splits if_splits)
    next
      case True
      then obtain d where d: "q = Inr d" "\<not> token_is_cancelled ?c w2" by blast
      obtain a w3 where a: "allocate_resource s w2 = (a, w3)" by fastforce
      note alloc = allocate_resource_facts[OF a]
      have w3: "\<not> token_is_cancelled ?c w3" using d alloc(3) by (simp add: token_is_cancelled_def)
      have le: "world_le w1 w3" "wf_world w1 \<longrightarrow> wf_world w3"
        using call alloc(1,2) world_le_trans by blast+
      show thesis
      proof (cases a)
        case (Inl e)
        then show thesis
          using assms(1) begun q d a le w3
          by (intro not_opened[OF begun]) (auto simp: open_inner_def Let_def simp del: composed_cancelled)
      next
        case (Inr h)
        have "session_owns s h w3" using alloc(4,6) Inr by (simp add: session_owns_def belongs_to_def)
        then show thesis
          using assms(1) begun q d a le w3 Inr
          by (intro opened[OF begun]) (auto simp: open_inner_def Let_def simp del: composed_cancelled)
      qed
    qed
  qed
qed

lemma runtime_inv_open:
  assumes inv: "runtime_inv rt w" and ok: "engine_ok ops"
    and step: "open_inner ops rt src operation w = (r, rt', w')"
  shows "runtime_inv rt' w'"
  using step ok
proof (cases rule: open_cases)
  case exhausted
  then show ?thesis using inv by (simp add: runtime_inv_def document_owned_def)
next
  case (opened s m w1 d h)
  note e = manager_begin_effect[OF opened(1)]
  have "wf_world w1" using e(4) runtime_inv_active(1)[OF inv] by blast
  moreover obtain xs where "manager_run m w1 xs"
    using inv run_begin[OF _ opened(1)] by (auto simp: runtime_inv_def)
  ultimately show ?thesis
    using opened e(2) run_env by (fastforce simp: runtime_inv_def document_owned_def)
next
  case (not_opened s m w1)
  have "wf_world w1" using manager_begin_effect(4)[OF not_opened(1)] runtime_inv_active(1)[OF inv] by blast
  moreover obtain xs where "manager_run m w1 xs"
    using inv run_begin[OF _ not_opened(1)] by (auto simp: runtime_inv_def)
  ultimately show ?thesis
    using not_opened run_env by (fastforce simp: runtime_inv_def document_owned_def)
qed

lemma runtime_inv_close:
  assumes "runtime_inv rt w" and "runtime_close rt w = (r, rt', w')"
  shows "runtime_inv rt' w'"
proof -
  obtain g m w1 where c: "manager_close (rt_sessions rt) w = (g, m, w1)" by (metis prod_cases3)
  have "rt' = rt\<lparr>rt_document := None, rt_document_handle := None, rt_sessions := m\<rparr>" "w' = w1"
    using assms(2) c by (auto simp: runtime_close_def)
  then show ?thesis
    using assms(1) c run_close by (fastforce simp: runtime_inv_def document_owned_def)
qed

lemma runtime_inv_inner:
  assumes "runtime_inv rt w"
    and "\<exists>doc. rt' = rt\<lparr>rt_document := doc\<rparr> \<and> (doc = None) = (rt_document rt = None) \<and> world_le w w' \<and> (wf_world w \<longrightarrow> wf_world w')"
  shows "runtime_inv rt' w'"
  using assms(2) runtime_inv_env[OF assms(1)] runtime_inv_active(1)[OF assms(1)]
  by (auto intro: runtime_inv_document)

lemma runtime_run_inv:
  assumes "runtime_run ops rt w" and ok: "engine_ok ops"
  shows "runtime_inv rt w"
  using assms(1)
proof (induction rule: runtime_run.induct)
  case (rt_init w engine policy)
  then show ?case
    using run_init by (auto simp: runtime_inv_def runtime_new_def document_owned_def)
next
  case (rt_open rt w src operation r rt' w')
  then show ?case using runtime_inv_open[OF _ ok] by metis
next
  case (rt_close rt w r rt' w')
  then show ?case using runtime_inv_close by metis
next
  case (rt_env rt w w')
  then show ?case using runtime_inv_env by blast
next
  case (rt_render rt w x operation r rt' w')
  show ?case by (rule runtime_inv_inner[OF rt_render(3) inner_world(1)[OF ok rt_render(2)]])
next
  case (rt_text rt w y operation r rt' w')
  show ?case by (rule runtime_inv_inner[OF rt_text(3) inner_world(2)[OF ok rt_text(2)]])
next
  case (rt_preview rt w z operation r rt' w')
  show ?case by (rule runtime_inv_inner[OF rt_preview(3) inner_world(3)[OF ok rt_preview(2)]])
qed

section \<open>Results\<close>

text \<open>What a \<open>Ready\<close> event of any kind guarantees about its session.\<close>

definition result_current ::
  "('eng, 'doc) pdf_runtime \<Rightarrow> demand_stamp \<Rightarrow> token option \<Rightarrow> resource_handle \<Rightarrow> world \<Rightarrow> bool" where
  "result_current rt st operation h w \<longleftrightarrow>
     (\<exists>s. active (rt_sessions rt) = Some s \<and> session_generation s w = st_generation st \<and>
        \<not> session_is_cancelled s w \<and> session_owns s h w) \<and>
     (case operation of None \<Rightarrow> True | Some t \<Rightarrow> \<not> token_is_cancelled t w)"

lemma on_current_Ready:
  assumes inv: "runtime_inv rt w" and ok: "call_ok call"
    and run: "execute_on_current (session_for rt st w) st (rt_document rt) w (\<lambda>s.
      execute_demand s (composed_cancellation s operation w) st page desc (rt_document rt) call check wrap demand w)
      = (Ready x r, doc', w')"
  obtains out h where "x = demand" and "page_exists desc page" and "check out = None" and "r = wrap h out"
    and "result_current rt st operation h w'"
proof -
  obtain s where cur: "session_for rt st w = Current s"
    and ex: "execute_demand s (composed_cancellation s operation w) st page desc (rt_document rt) call check wrap demand w
      = (Ready x r, doc', w')"
    using run by (auto simp: execute_on_current_def split: session_lookup.splits)
  note s = cur[unfolded session_for_Current]
  have low: "s < next_session w" using runtime_inv_active(2)[OF inv] s by blast
  have le: "world_le w w'" using execute_demand_world[OF ex ok] by blast
  have unc: "\<not> token_is_cancelled (composed_cancellation s operation w) w'"
    using execute_demand_uncancelled[OF ex] by simp
  obtain d d' out w1 h where d: "x = demand" "page_exists desc page" "check out = None" "r = wrap h out"
    and c: "call d (composed_cancellation s operation w) w = (Inr out, d', w1)"
    and a: "allocate_resource s w1 = (Inr h, w')"
    using execute_demand_Ready[OF ex] by metis
  have gen: "session_generation s w' = st_generation st"
    using world_le_generation[OF le low] s by simp
  have "session_owns s h w'"
    using allocate_resource_facts(4,6)[OF a] by (simp add: session_owns_def belongs_to_def)
  moreover have "ss_cancellation (session_at w' s) = ss_cancellation (session_at w s)"
    using le low by (simp add: world_le_def)
  ultimately have "result_current rt st operation h w'"
    using unc s gen by (auto simp: result_current_def split: option.splits)
  then show thesis using d that by blast
qed

text \<open>C2: A tile is published only for the demand it was rendered for, on a page of the open document,
  at exactly the demanded size, and only while the demand's generation is current: at that moment the
  active session has the stamp's generation, is not cancelled and owns the tile's handle, and the
  operation token is not cancelled, whatever other threads did during the engine call.\<close>

theorem ready_tile_is_current:
  assumes "runtime_run ops rt w" and "engine_ok ops"
    and "render_inner ops rt demand operation w = (Ready x tile, rt', w')"
  shows "x = demand \<and> page_exists (runtime_descriptor ops rt) (tile_page (rd_key demand)) \<and>
    ri_width (re_output tile) = px_width (rd_render_rect demand) \<and>
    ri_height (re_output tile) = px_height (rd_render_rect demand) \<and>
    result_current rt' (rd_stamp demand) operation (re_resource tile) w'"
proof -
  have inv: "runtime_inv rt w" using assms(1,2) by (rule runtime_run_inv)
  have call: "call_ok (\<lambda>d. op_render ops d demand)" using assms(2) by (simp add: engine_ok_def)
  obtain doc where rt': "rt' = rt\<lparr>rt_document := doc\<rparr>" using inner_world(1)[OF assms(2,3)] by blast
  obtain doc' where run: "execute_on_current (session_for rt (rd_stamp demand) w) (rd_stamp demand) (rt_document rt) w (\<lambda>s.
      execute_demand s (composed_cancellation s operation w) (rd_stamp demand) (tile_page (rd_key demand))
        (runtime_descriptor ops rt) (rt_document rt) (\<lambda>d. op_render ops d demand)
        (check_dimensions (rd_render_rect demand)) (\<lambda>h picture. \<lparr>re_resource = h, re_output = picture\<rparr>) demand w)
      = (Ready x tile, doc', w')"
    using assms(3) by (auto simp: render_inner_def Let_def split: prod.splits)
  obtain out h where o: "x = demand" "page_exists (runtime_descriptor ops rt) (tile_page (rd_key demand))"
    "check_dimensions (rd_render_rect demand) out = None" "tile = \<lparr>re_resource = h, re_output = out\<rparr>"
    "result_current rt (rd_stamp demand) operation h w'"
    by (rule on_current_Ready[OF inv call run])
  then show ?thesis by (auto simp: check_dimensions_def rt' result_current_def split: if_splits)
qed

lemma ready_text:
  assumes inv: "runtime_inv rt w" and ok: "engine_ok ops"
    and step: "extract_text_inner ops rt demand operation w = (Ready x text, rt', w')"
  shows "x = demand" and "page_exists (runtime_descriptor ops rt) (td_page demand)"
    and "tp_number text = td_page demand"
    and "result_current rt' (td_stamp demand) operation (tp_resource text) w'"
proof -
  have call: "call_ok (\<lambda>d. op_extract_text ops d demand)" using ok by (simp add: engine_ok_def)
  obtain doc where rt': "rt' = rt\<lparr>rt_document := doc\<rparr>" using inner_world(2)[OF ok step] by blast
  obtain doc' where run: "execute_on_current (session_for rt (td_stamp demand) w) (td_stamp demand) (rt_document rt) w (\<lambda>s.
      execute_demand s (composed_cancellation s operation w) (td_stamp demand) (td_page demand)
        (runtime_descriptor ops rt) (rt_document rt) (\<lambda>d. op_extract_text ops d demand) (\<lambda>_. None)
        (\<lambda>h layer. \<lparr>tp_resource = h, tp_number = td_page demand, tp_layer = layer\<rparr>) demand w)
      = (Ready x text, doc', w')"
    using step by (auto simp: extract_text_inner_def Let_def split: prod.splits)
  show "x = demand" "page_exists (runtime_descriptor ops rt) (td_page demand)" "tp_number text = td_page demand"
    "result_current rt' (td_stamp demand) operation (tp_resource text) w'"
    by (rule on_current_Ready[OF inv call run], simp add: rt' result_current_def)+
qed

lemma ready_preview:
  assumes inv: "runtime_inv rt w" and ok: "engine_ok ops"
    and step: "render_preview_inner ops rt demand operation w = (Ready x picture, rt', w')"
  shows "x = demand" and "page_exists (runtime_descriptor ops rt) (pd_page demand)"
    and "rp_page picture = pd_page demand"
    and "check_dimensions (pd_region demand) (rp_image picture) = None"
    and "result_current rt' (pd_stamp demand) operation (rp_resource picture) w'"
proof -
  have call: "call_ok (\<lambda>d. op_render_preview ops d demand)" using ok by (simp add: engine_ok_def)
  obtain doc where rt': "rt' = rt\<lparr>rt_document := doc\<rparr>" using inner_world(3)[OF ok step] by blast
  obtain doc' where run: "execute_on_current (session_for rt (pd_stamp demand) w) (pd_stamp demand) (rt_document rt) w (\<lambda>s.
      execute_demand s (composed_cancellation s operation w) (pd_stamp demand) (pd_page demand)
        (runtime_descriptor ops rt) (rt_document rt) (\<lambda>d. op_render_preview ops d demand)
        (check_dimensions (pd_region demand))
        (\<lambda>h picture. \<lparr>rp_resource = h, rp_page = pd_page demand, rp_image = picture\<rparr>) demand w)
      = (Ready x picture, doc', w')"
    using step by (auto simp: render_preview_inner_def Let_def split: prod.splits)
  show "x = demand" "page_exists (runtime_descriptor ops rt) (pd_page demand)" "rp_page picture = pd_page demand"
    "check_dimensions (pd_region demand) (rp_image picture) = None"
    "result_current rt' (pd_stamp demand) operation (rp_resource picture) w'"
    by (rule on_current_Ready[OF inv call run], simp add: rt' result_current_def)+
qed

text \<open>The same holds of the text of a page and of a preview: they are published for the demand
  they answer, with its page number, only while its generation is current; a preview has exactly
  the size of the demanded region.\<close>

theorem ready_text_and_preview_are_current:
  assumes "runtime_run ops rt w" and "engine_ok ops"
    and "extract_text_inner ops rt demand operation w = (Ready x text, rt1, w1)"
    and "render_preview_inner ops rt preview operation w = (Ready y picture, rt2, w2)"
  shows "x = demand \<and> page_exists (runtime_descriptor ops rt) (td_page demand) \<and>
    tp_number text = td_page demand \<and> result_current rt1 (td_stamp demand) operation (tp_resource text) w1 \<and>
    y = preview \<and> page_exists (runtime_descriptor ops rt) (pd_page preview) \<and>
    rp_page picture = pd_page preview \<and>
    ri_width (rp_image picture) = px_width (pd_region preview) \<and>
    ri_height (rp_image picture) = px_height (pd_region preview) \<and>
    result_current rt2 (pd_stamp preview) operation (rp_resource picture) w2"
  using ready_text[OF runtime_run_inv[OF assms(1,2)] assms(2,3)]
    ready_preview[OF runtime_run_inv[OF assms(1,2)] assms(2,4)]
  by (simp add: check_dimensions_def split: if_splits)

definition refused_event :: "('eng, 'doc) pdf_runtime \<Rightarrow> demand_stamp \<Rightarrow> world \<Rightarrow> ('d, 'r, 'e) work_event" where
  "refused_event rt st w =
     (if \<exists>s. active (rt_sessions rt) = Some s \<and> session_generation s w = st_generation st
      then WorkCancelled st else Discarded st)"

definition demand_live :: "('eng, 'doc) pdf_runtime \<Rightarrow> demand_stamp \<Rightarrow> token option \<Rightarrow> world \<Rightarrow> bool" where
  "demand_live rt st operation w \<longleftrightarrow>
     manager_is_current (rt_sessions rt) (st_generation st) w \<and>
     (case operation of None \<Rightarrow> True | Some t \<Rightarrow> \<not> token_is_cancelled t w)"

lemma on_current_refused:
  assumes "\<not> demand_live rt st operation w"
  shows "execute_on_current (session_for rt st w) st doc w (\<lambda>s.
      execute_demand s (composed_cancellation s operation w) st page desc doc call check wrap demand w)
      = (refused_event rt st w, doc, w)"
proof (cases "session_for rt st w")
  case (Current s)
  note cur = Current[unfolded session_for_Current]
  then have "token_is_cancelled (composed_cancellation s operation w) w"
    using assms by (auto simp: demand_live_def manager_is_current_def split: option.splits)
  then show ?thesis
    using Current cur by (simp add: execute_on_current_def execute_demand_cancelled_before refused_event_def
        del: composed_cancelled)
qed (auto simp: execute_on_current_def session_for_def manager_current_def refused_event_def
    split: option.splits if_splits)

text \<open>A demand whose generation is not current, or whose session or operation is already cancelled,
  never reaches the engine, for any engine whatsoever: the runtime, its document and the world are
  unchanged, and the event says whether the demand was stale or cancelled.\<close>

theorem stale_demands_never_reach_the_engine:
  "(\<not> demand_live rt (rd_stamp x) operation w \<longrightarrow>
      render_inner ops rt x operation w = (refused_event rt (rd_stamp x) w, rt, w)) \<and>
   (\<not> demand_live rt (td_stamp y) operation w \<longrightarrow>
      extract_text_inner ops rt y operation w = (refused_event rt (td_stamp y) w, rt, w)) \<and>
   (\<not> demand_live rt (pd_stamp z) operation w \<longrightarrow>
      render_preview_inner ops rt z operation w = (refused_event rt (pd_stamp z) w, rt, w))"
  by (simp_all add: inner_defs Let_def on_current_refused)

lemma on_current_live:
  assumes inv: "runtime_inv rt w" and ok: "call_ok call"
    and run: "execute_on_current (session_for rt st w) st doc w (\<lambda>s.
      execute_demand s (composed_cancellation s operation w) st page desc doc call check wrap demand w)
      = (ev, doc', w')"
    and ev: "ev \<noteq> WorkCancelled st" "ev \<noteq> Discarded st"
  shows "demand_live rt st operation w'"
proof -
  obtain s where cur: "session_for rt st w = Current s"
    and ex: "execute_demand s (composed_cancellation s operation w) st page desc doc call check wrap demand w
      = (ev, doc', w')"
    using run ev by (auto simp: execute_on_current_def split: session_lookup.splits)
  note s = cur[unfolded session_for_Current]
  have le: "world_le w w'" using execute_demand_world[OF ex ok] by blast
  have low: "s < next_session w" using runtime_inv_active(2)[OF inv] s by blast
  have "ss_cancellation (session_at w' s) = ss_cancellation (session_at w s)"
    using le low by (simp add: world_le_def)
  then show ?thesis
    using s execute_demand_uncancelled[OF ex ev(1)] world_le_generation[OF le low]
    by (auto simp: demand_live_def manager_is_current_def split: option.splits)
qed

text \<open>Cancellation always wins: a \<open>Ready\<close> or a \<open>Failed\<close> event, also one for an error of the
  engine, is reported only if at that moment the demand's generation is still current and neither its
  session nor its operation is cancelled; an error caused by a cancellation is never reported as a
  failure.\<close>

theorem failures_are_never_cancellations:
  assumes "runtime_run ops rt w" and "engine_ok ops"
    and "render_inner ops rt demand operation w = (ev, rt', w')"
    and "ev \<noteq> WorkCancelled (rd_stamp demand)" and "ev \<noteq> Discarded (rd_stamp demand)"
  shows "demand_live rt' (rd_stamp demand) operation w'"
proof -
  have call: "call_ok (\<lambda>d. op_render ops d demand)" using assms(2) by (simp add: engine_ok_def)
  obtain doc where rt': "rt' = rt\<lparr>rt_document := doc\<rparr>" using inner_world(1)[OF assms(2,3)] by blast
  obtain doc' where run: "execute_on_current (session_for rt (rd_stamp demand) w) (rd_stamp demand) (rt_document rt) w (\<lambda>s.
      execute_demand s (composed_cancellation s operation w) (rd_stamp demand) (tile_page (rd_key demand))
        (runtime_descriptor ops rt) (rt_document rt) (\<lambda>d. op_render ops d demand)
        (check_dimensions (rd_render_rect demand)) (\<lambda>h picture. \<lparr>re_resource = h, re_output = picture\<rparr>) demand w)
      = (ev, doc', w')"
    using assms(3) by (auto simp: render_inner_def Let_def split: prod.splits)
  show ?thesis
    using on_current_live[OF runtime_run_inv[OF assms(1,2)] call run assms(4,5)]
    by (simp add: rt' demand_live_def)
qed

text \<open>In every run of the runtime, under every interleaving with other threads: a document is open
  exactly when its handle is, the handle belongs to the active session, and every handle allocated
  under an earlier session is foreign to it.\<close>

theorem open_document_is_owned:
  assumes "runtime_run ops rt w" and "engine_ok ops"
  shows "document_owned rt w \<and> (\<exists>xs. manager_run (rt_sessions rt) w xs)"
  using runtime_run_inv[OF assms] by (simp add: runtime_inv_def)


text \<open>An image is accepted exactly when it is not empty, its rows hold their pixels and its buffer
  is \<open>stride * height\<close> bytes long, without a wrap-around in any product; every byte of every pixel
  of an accepted image then lies inside the buffer.\<close>

theorem raster_image_accepts_exactly:
  "((\<exists>i. raster_image_new width height stride fmt pixels = Inr i) \<longleftrightarrow>
      width \<noteq> 0 \<and> height \<noteq> 0 \<and> 4 * unat width \<le> unat stride \<and>
      length pixels = unat stride * unat height \<and> unat stride * unat height < 2 ^ 64) \<and>
   (\<forall>i x y b. raster_image_new width height stride fmt pixels = Inr i \<longrightarrow>
      x < unat (ri_width i) \<longrightarrow> y < unat (ri_height i) \<longrightarrow> b < 4 \<longrightarrow>
      y * unat (ri_stride i) + 4 * x + b < length (ri_pixels i))"
proof -
  have four: "unat (bytes_per_pixel fmt) = 4" by (simp add: bytes_per_pixel_def)
  have "unat width < 2 ^ 32" using unat_bound[of width] by simp
  then obtain row where row: "checked_mul (ucast width) (bytes_per_pixel fmt) = Some row" "unat row = 4 * unat width"
    by (cases "checked_mul (ucast width) (bytes_per_pixel fmt)")
      (auto simp: checked_mul_Some four, auto simp: checked_mul_def four split: if_splits)
  have new: "raster_image_new width height stride fmt pixels = Inr i \<longleftrightarrow>
      (width \<noteq> 0 \<and> height \<noteq> 0 \<and> 4 * unat width \<le> unat stride \<and>
       length pixels = unat stride * unat height \<and> unat stride * unat height < 2 ^ 64) \<and>
      i = \<lparr>ri_width = width, ri_height = height, ri_stride = stride, ri_format = fmt, ri_pixels = pixels\<rparr>" for i
  proof (cases "checked_mul stride (ucast height)")
    case None
    then have "\<not> unat stride * unat height < 2 ^ 64" by (simp add: checked_mul_def split: if_splits)
    then show ?thesis using None row by (simp add: raster_image_new_def)
  next
    case (Some n)
    then have "unat stride * unat height < 2 ^ 64" "unat n = unat stride * unat height"
      by (simp_all add: checked_mul_Some)
    then show ?thesis
      using Some row by (auto simp: raster_image_new_def word_less_nat_alt not_less)
  qed
  have inside: "y * st + 4 * x + b < st * h"
    if "x < wd" "y < h" "b < 4" "4 * wd \<le> st" for x y b st h wd :: nat
  proof -
    have "4 * x + b < st" using that by simp
    then have "y * st + (4 * x + b) < Suc y * st" by simp
    also have "\<dots> \<le> h * st" using that(2) by (intro mult_le_mono1) simp
    finally show ?thesis by (simp add: ac_simps)
  qed
  show ?thesis
    by (intro conjI allI impI) (simp_all add: new inside)
qed

section \<open>Witnesses\<close>

text \<open>A concrete engine with one one-page document, which answers every demand at the demanded size.\<close>

definition one_page :: document_descriptor where
  "one_page = \<lparr>dd_title = None, dd_pages = [\<lparr>ps_width = Fin 612, ps_height = Fin 792\<rparr>],
     dd_table_of_contents = [], dd_links = []\<rparr>"

definition blank :: "pixel_rect \<Rightarrow> raster_image" where
  "blank r = \<lparr>ri_width = px_width r, ri_height = px_height r, ri_stride = 4 * ucast (px_width r),
     ri_format = Bgra8Premultiplied, ri_pixels = []\<rparr>"

definition demo_engine :: "(unit, unit, unit, unit) engine_ops" where
  "demo_engine = \<lparr>op_capabilities = (\<lambda>_. \<lparr>cap_text = True, cap_previews = True, cap_outlines = False,
       cap_links = False, cap_forced_colors = False\<rparr>),
     op_open = (\<lambda>e s t w. (Inr (), e, w)), op_descriptor = (\<lambda>_. one_page),
     op_render = (\<lambda>d x t w. (Inr (blank (rd_render_rect x)), d, w)),
     op_extract_text = (\<lambda>d x t w. (Inr [], d, w)),
     op_render_preview = (\<lambda>d x t w. (Inr (blank (pd_region x)), d, w))\<rparr>"

lemma demo_engine_ok: "engine_ok demo_engine"
  by (simp add: engine_ok_def call_ok_def demo_engine_def)

definition demo_runtime :: "(unit, unit) pdf_runtime" where
  "demo_runtime = runtime_new () cache_policy_default"

definition demo_open :: "(session_error, unit document_event) rust_result \<times> (unit, unit) pdf_runtime \<times> world" where
  "demo_open = open_inner demo_engine demo_runtime () None initial_world"

abbreviation demo_rt :: "(unit, unit) pdf_runtime" where "demo_rt \<equiv> fst (snd demo_open)"
abbreviation demo_world :: world where "demo_world \<equiv> snd (snd demo_open)"

definition demo_stamp :: demand_stamp where
  "demo_stamp = \<lparr>st_generation = 1, st_request = 1, st_priority = VISIBLE, st_intent = Visible\<rparr>"

definition demo_rect :: pixel_rect where
  "demo_rect = \<lparr>px_x = 0, px_y = 0, px_width = 16, px_height = 8\<rparr>"

definition demo_render :: render_demand where
  "demo_render = \<lparr>rd_stamp = demo_stamp, rd_key = \<lparr>tile_page = 0,
       tile_raster = \<lparr>rs_width = 16, rs_height = 8\<rparr>, tile_column = 0, tile_row = 0\<rparr>,
     rd_core_rect = demo_rect, rd_render_rect = demo_rect, rd_color_mode = Original\<rparr>"

definition demo_text :: text_demand where
  "demo_text = \<lparr>td_stamp = demo_stamp, td_page = 0, td_purpose = VisibleLayer\<rparr>"

definition demo_preview :: preview_demand where
  "demo_preview = \<lparr>pd_stamp = demo_stamp, pd_page = 0, pd_raster = \<lparr>rs_width = 16, rs_height = 8\<rparr>,
     pd_region = demo_rect, pd_color_mode = Original\<rparr>"

lemmas demo_defs = demo_open_def demo_runtime_def runtime_new_def open_inner_def session_defs
  demo_engine_def one_page_def session_generation_def composed_cancellation_def
  session_cancellation_def source_token_def token_is_cancelled_def allocate_resource_def
  allocate_non_zero_def

lemma demo_open_eq: "demo_open =
    (Inr (Opened 1 \<lparr>rh_generation = 1, rh_id = 1\<rparr> one_page),
     \<lparr>rt_engine = (), rt_sessions = \<lparr>next_generation = 2, active = Some 0\<rparr>, rt_document = Some (),
      rt_document_handle = Some \<lparr>rh_generation = 1, rh_id = 1\<rparr>, rt_cache_policy = cache_policy_default\<rparr>,
     demo_world)"
  by (simp add: demo_defs Let_def)

lemma demo_world_facts:
  "next_session demo_world = 1" "flag demo_world 0 = False" "session_at demo_world 0 =
     \<lparr>ss_generation = 1, ss_cancellation = 0, ss_next_request = 1, ss_next_resource = 2\<rparr>"
  by (simp_all add: demo_defs Let_def)

lemma demo_run: "runtime_run demo_engine demo_rt demo_world"
  by (rule rt_open[OF rt_init[OF wf_initial_world], of demo_engine "()" cache_policy_default "()" None "fst demo_open"])
     (simp add: demo_open_def demo_runtime_def)

lemma demo_rt_eq: "demo_rt = \<lparr>rt_engine = (), rt_sessions = \<lparr>next_generation = 2, active = Some 0\<rparr>,
    rt_document = Some (), rt_document_handle = Some \<lparr>rh_generation = 1, rh_id = 1\<rparr>,
    rt_cache_policy = cache_policy_default\<rparr>"
  by (subst demo_open_eq) simp

lemmas demo_step_defs = Let_def demo_rt_eq session_for_def manager_current_def session_generation_def
  demo_world_facts execute_on_current_def execute_demand_def runtime_descriptor_def demo_engine_def
  one_page_def validate_page_def page_count_def demo_stamp_def composed_cancellation_def
  session_cancellation_def source_token_def token_is_cancelled_def check_dimensions_def blank_def
  allocate_resource_def allocate_non_zero_def checked_add_def

lemma demo_render_eq: "\<exists>tile rt' w'. render_inner demo_engine demo_rt demo_render None demo_world
    = (Ready demo_render tile, rt', w') \<and> rh_id (re_resource tile) = 2"
  by (simp add: render_inner_def demo_render_def demo_rect_def demo_step_defs)

theorem ready_tile_is_current_witness:
  "\<exists>tile rt' w'. render_inner demo_engine demo_rt demo_render None demo_world = (Ready demo_render tile, rt', w') \<and>
     ri_width (re_output tile) = 16 \<and> result_current rt' demo_stamp None (re_resource tile) w'"
  using demo_render_eq ready_tile_is_current[OF demo_run demo_engine_ok, of demo_render None demo_render]
  by (fastforce simp: demo_render_def demo_rect_def)

theorem failures_are_never_cancellations_witness:
  "\<exists>ev rt' w'. render_inner demo_engine demo_rt demo_render None demo_world = (ev, rt', w') \<and>
     demand_live rt' demo_stamp None w'"
  using demo_render_eq failures_are_never_cancellations[OF demo_run demo_engine_ok, of demo_render None]
  by (fastforce simp: demo_render_def)

lemma demo_text_eq: "\<exists>text rt' w'. extract_text_inner demo_engine demo_rt demo_text None demo_world
    = (Ready demo_text text, rt', w')"
  by (simp add: extract_text_inner_def demo_text_def demo_step_defs)

lemma demo_preview_eq: "\<exists>picture rt' w'. render_preview_inner demo_engine demo_rt demo_preview None demo_world
    = (Ready demo_preview picture, rt', w')"
  by (simp add: render_preview_inner_def demo_preview_def demo_rect_def demo_step_defs)

theorem ready_text_and_preview_are_current_witness:
  "\<exists>text rt1 w1 picture rt2 w2.
     extract_text_inner demo_engine demo_rt demo_text None demo_world = (Ready demo_text text, rt1, w1) \<and>
     render_preview_inner demo_engine demo_rt demo_preview None demo_world = (Ready demo_preview picture, rt2, w2) \<and>
     tp_number text = 0 \<and> ri_height (rp_image picture) = 8"
proof -
  obtain layer rt1 w1 picture rt2 w2 where
    1: "extract_text_inner demo_engine demo_rt demo_text None demo_world = (Ready demo_text layer, rt1, w1)" and
    2: "render_preview_inner demo_engine demo_rt demo_preview None demo_world = (Ready demo_preview picture, rt2, w2)"
    using demo_text_eq demo_preview_eq by blast
  show ?thesis
    using 1 2 ready_text_and_preview_are_current[OF demo_run demo_engine_ok 1 2]
    by (auto simp: demo_text_def demo_preview_def demo_rect_def)
qed

theorem stale_demands_never_reach_the_engine_witness:
  "render_inner demo_engine demo_rt (demo_render\<lparr>rd_stamp := demo_stamp\<lparr>st_generation := 7\<rparr>\<rparr>) None demo_world
     = (Discarded (demo_stamp\<lparr>st_generation := 7\<rparr>), demo_rt, demo_world)"
proof -
  let ?x = "demo_render\<lparr>rd_stamp := demo_stamp\<lparr>st_generation := 7\<rparr>\<rparr>"
  have "\<not> demand_live demo_rt (rd_stamp ?x) None demo_world"
    by (simp add: demand_live_def manager_is_current_def demo_rt_eq session_generation_def demo_world_facts)
  moreover have "refused_event demo_rt (rd_stamp ?x) demo_world = Discarded (rd_stamp ?x)"
    by (simp add: refused_event_def demo_rt_eq session_generation_def demo_world_facts)
  ultimately show ?thesis
    using stale_demands_never_reach_the_engine[of demo_rt ?x None demo_world demo_engine] by simp
qed

theorem open_document_is_owned_witness: "document_owned demo_rt demo_world"
  using open_document_is_owned[OF demo_run demo_engine_ok] by simp


theorem raster_image_accepts_exactly_witness:
  "\<exists>i. raster_image_new 2 1 8 Bgra8Premultiplied [0, 0, 0, 255, 0, 0, 0, 255] = Inr i \<and>
     0 * unat (ri_stride i) + 4 * 1 + 3 < length (ri_pixels i)"
proof -
  note t = raster_image_accepts_exactly[of 2 1 8 Bgra8Premultiplied "[0, 0, 0, 255, 0, 0, 0, 255]"]
  have "\<exists>i. raster_image_new 2 1 8 Bgra8Premultiplied [0, 0, 0, 255, 0, 0, 0, 255] = Inr i \<and>
      ri_width i = 2 \<and> ri_height i = 1"
    by (simp add: raster_image_new_def bytes_per_pixel_def checked_mul_def)
  then obtain i where i: "raster_image_new 2 1 8 Bgra8Premultiplied [0, 0, 0, 255, 0, 0, 0, 255] = Inr i"
    "ri_width i = 2" "ri_height i = 1" by blast
  show ?thesis using t i(1) conjunct2[OF t, rule_format, OF i(1), of 1 0 3] i(2,3) by auto
qed

end
