(* ===== verification/SupervisorSim.thy ===== *)
theory SupervisorSim
  imports Supervisor EngineProps
begin

text \<open>
  A managed document of the supervisor refines the document runtime: both execute demands and open
  documents in the same way, apart from three deliberate differences, which the abstraction makes
  explicit: the supervisor reports a demand of a cancelled session as discarded, it keeps the
  descriptor of the open document instead of asking the engine again, and its events carry the
  document identity. What is proved of the runtime carries over.
\<close>

section \<open>The abstraction\<close>

definition as_runtime :: "'eng \<Rightarrow> cache_policy \<Rightarrow> ('d, 's, 'e) managed_document \<Rightarrow> ('eng, 'd) pdf_runtime" where
  "as_runtime engine policy md = \<lparr>rt_engine = engine, rt_sessions = md_sessions md,
     rt_document = md_document md, rt_document_handle = md_document_handle md, rt_cache_policy = policy\<rparr>"

definition descriptor_cached :: "('eng, 's, 'd, 'e) engine_ops \<Rightarrow> ('d, 's, 'e) managed_document \<Rightarrow> bool" where
  "descriptor_cached ops md \<longleftrightarrow> md_descriptor md = map_option (op_descriptor ops) (md_document md)"

definition supervisor_view ::
  "('eng, 'd) pdf_runtime \<Rightarrow> demand_stamp \<Rightarrow> world \<Rightarrow> ('x, 'r, 'e) work_event \<Rightarrow> ('x, 'r, 'e) work_event" where
  "supervisor_view rt st w ev = (if session_for rt st w = SessionCancelled then Discarded st else ev)"

fun opened_event ::
  "document_id \<Rightarrow> ('eng, 'd) pdf_runtime \<Rightarrow> (session_error, 'e document_event) rust_result \<Rightarrow> 'e supervisor_event" where
  "opened_event i rt (Inl e) = EvOpenFailed i None (SessionFailure e)"
| "opened_event i rt (Inr (Opened g h d)) = EvOpened i (the (active (rt_sessions rt))) h d"
| "opened_event i rt (Inr (OpenCancelled g)) = EvOpenCancelled i g"
| "opened_event i rt (Inr (OpenFailed g e)) = EvOpenFailed i (Some g) e"
| "opened_event i rt (Inr (Closed g)) = EvClosed i (Some g)"

lemma as_runtime_simps [simp]:
  "rt_engine (as_runtime engine policy md) = engine"
  "rt_sessions (as_runtime engine policy md) = md_sessions md"
  "rt_document (as_runtime engine policy md) = md_document md"
  "rt_document_handle (as_runtime engine policy md) = md_document_handle md"
  by (simp_all add: as_runtime_def)

lemma as_runtime_document [simp]:
  "as_runtime engine policy (md\<lparr>md_document := doc\<rparr>) = (as_runtime engine policy md)\<lparr>rt_document := doc\<rparr>"
  by (simp add: as_runtime_def)

lemma as_runtime_frame [simp]:
  "as_runtime engine policy (push_event ev md) = as_runtime engine policy md"
  "as_runtime engine policy (md\<lparr>md_pending := pending\<rparr>) = as_runtime engine policy md"
  "as_runtime engine policy (md\<lparr>md_pending_events := evs\<rparr>) = as_runtime engine policy md"
  "as_runtime engine policy (md\<lparr>md_next_sequence := n\<rparr>) = as_runtime engine policy md"
  by (simp_all add: as_runtime_def push_event_def)

section \<open>The simulation\<close>

text \<open>The supervisor's own execution of a demand against that of the runtime.\<close>

lemma execute_in_session_demand:
  "execute_in_session md st operation page call check wrap demand w =
     (case current_session md (st_generation st) w of
        None \<Rightarrow> (Discarded st, md, w)
      | Some s \<Rightarrow>
          (case execute_demand s (token_combined (session_cancellation s w) operation) st page
                  (md_descriptor md) (md_document md) call check wrap demand w of
             (ev, document, w') \<Rightarrow> (ev, md\<lparr>md_document := document\<rparr>, w')))"
proof (cases "current_session md (st_generation st) w")
  case (Some s)
  show ?thesis
  proof (cases "md_document md")
    case None
    then have "md\<lparr>md_document := None\<rparr> = md" by (cases md) simp
    then show ?thesis using Some None
      by (simp add: execute_in_session_def execute_demand_def Let_def split: sum.split)
  next
    case (Some d)
    then have "md\<lparr>md_document := Some d\<rparr> = md" by (cases md) simp
    then show ?thesis using Some \<open>current_session _ _ _ = _\<close>
      by (simp add: execute_in_session_def execute_demand_def Let_def split: prod.split sum.split option.split)
  qed
qed (simp add: execute_in_session_def)

lemma execute_in_session_sim:
  "execute_in_session md st operation page call check wrap demand w =
     (case execute_on_current (session_for (as_runtime engine policy md) st w) st (md_document md) w (\<lambda>s.
        execute_demand s (composed_cancellation s (Some operation) w) st page (md_descriptor md)
          (md_document md) call check wrap demand w) of
      (ev, doc, w') \<Rightarrow> (supervisor_view (as_runtime engine policy md) st w ev, md\<lparr>md_document := doc\<rparr>, w'))"
  by (cases "active (md_sessions md)")
     (auto simp: execute_in_session_demand execute_on_current_def current_session_def session_for_def
       manager_current_def supervisor_view_def composed_cancellation_def
       split: prod.splits simp del: composed_cancelled)

lemma process_open_sim:
  "(case process_open ops eng i src c md w of
        (eng', md', w') \<Rightarrow> (md_pending_events md', as_runtime eng' p md', w')) =
       (case open_inner ops (as_runtime eng p md) src (Some (source_token c)) w of
          (r, rt', w') \<Rightarrow> (md_pending_events md @ [opened_event i rt' r], rt', w'))"
proof -
  obtain b m w1 where b: "manager_begin (md_sessions md) w = (b, m, w1)" by (metis prod_cases3)
  show ?thesis
  proof (cases b)
    case (Inl e)
    then show ?thesis
      by (simp add: process_open_def open_inner_def Let_def b as_runtime_def push_event_def)
  next
    case (Inr s)
    have "active m = Some s" using b Inr manager_begin_effect(2) by blast
    then show ?thesis
      by (simp add: process_open_def open_inner_def Let_def b Inr as_runtime_def push_event_def
          composed_cancellation_def split: prod.split sum.split)
  qed
qed

lemma managed_document_refines_runtime:
  assumes "descriptor_cached ops md"
  shows
    "(case execute_render ops md x operation w of (ev, md', w') \<Rightarrow> (ev, as_runtime eng p md', w')) =
       (case render_inner ops (as_runtime eng p md) x (Some operation) w of
          (ev, rt', w') \<Rightarrow> (supervisor_view (as_runtime eng p md) (rd_stamp x) w ev, rt', w')) \<and>
     (case execute_text ops md y operation w of (ev, md', w') \<Rightarrow> (ev, as_runtime eng p md', w')) =
       (case extract_text_inner ops (as_runtime eng p md) y (Some operation) w of
          (ev, rt', w') \<Rightarrow> (supervisor_view (as_runtime eng p md) (td_stamp y) w ev, rt', w')) \<and>
     (case execute_preview ops md z operation w of (ev, md', w') \<Rightarrow> (ev, as_runtime eng p md', w')) =
       (case render_preview_inner ops (as_runtime eng p md) z (Some operation) w of
          (ev, rt', w') \<Rightarrow> (supervisor_view (as_runtime eng p md) (pd_stamp z) w ev, rt', w'))"
proof -
  have desc: "md_descriptor md = runtime_descriptor ops (as_runtime eng p md)"
    using assms by (simp add: descriptor_cached_def runtime_descriptor_def)
  have demands:
    "(case execute_render ops md x operation w of (ev, md', w') \<Rightarrow> (ev, as_runtime eng p md', w')) =
       (case render_inner ops (as_runtime eng p md) x (Some operation) w of
          (ev, rt', w') \<Rightarrow> (supervisor_view (as_runtime eng p md) (rd_stamp x) w ev, rt', w'))"
    "(case execute_text ops md y operation w of (ev, md', w') \<Rightarrow> (ev, as_runtime eng p md', w')) =
       (case extract_text_inner ops (as_runtime eng p md) y (Some operation) w of
          (ev, rt', w') \<Rightarrow> (supervisor_view (as_runtime eng p md) (td_stamp y) w ev, rt', w'))"
    "(case execute_preview ops md z operation w of (ev, md', w') \<Rightarrow> (ev, as_runtime eng p md', w')) =
       (case render_preview_inner ops (as_runtime eng p md) z (Some operation) w of
          (ev, rt', w') \<Rightarrow> (supervisor_view (as_runtime eng p md) (pd_stamp z) w ev, rt', w'))"
    by (simp_all add: execute_render_def execute_text_def execute_preview_def inner_defs Let_def
        execute_in_session_sim[of _ _ _ _ _ _ _ _ _ eng p] desc split: prod.splits)
  show ?thesis by (intro conjI demands)
qed

end
