(* ===== verification/SupervisorOwner.thy ===== *)
theory SupervisorOwner
  imports Supervisor
begin

text \<open>
  The owner thread of the supervisor (\<open>run_owner\<close> and what it calls in
  \<open>crates/key-pdf-runtime/src/supervisor.rs\<close>). The routes that carry events to the clients are
  closures of the clients: a parameter, \<open>deliver\<close>, with a state of its own. What arrives on the
  command channel is an input of each iteration.
\<close>

section \<open>Commands and routes\<close>

datatype 's command =
    CmdAttach document_id
  | CmdOpen document_id 's source
  | CmdClose document_id
  | CmdReplace document_id work_class "work list" source
  | CmdCancelClass document_id work_class
  | CmdDetach document_id
  | CmdShutdown

datatype 'e route_answer = Delivered | RouteFull "'e supervisor_event" | RouteDisconnected

type_synonym ('e, 'r) routes = "document_id \<Rightarrow> 'e supervisor_event \<Rightarrow> 'r \<Rightarrow> 'e route_answer \<times> 'r"

text \<open>The documented duty of a route: a full route gives the original event back.\<close>

definition routes_ok :: "('e, 'r) routes \<Rightarrow> bool" where
  "routes_ok deliver \<longleftrightarrow> (\<forall>i ev ev' r r'. deliver i ev r = (RouteFull ev', r') \<longrightarrow> ev' = ev)"

record ('eng, 'd, 's, 'e) owner =
  ow_engine :: 'eng
  ow_capabilities :: engine_capabilities
  ow_policy :: supervisor_policy
  ow_documents :: "(document_id, ('d, 's, 'e) managed_document) hash_map"
  ow_rotation :: "document_id list"

definition owner_new :: "('eng, 's, 'd, 'e) engine_ops \<Rightarrow> 'eng \<Rightarrow> supervisor_policy \<Rightarrow> ('eng, 'd, 's, 'e) owner" where
  "owner_new ops engine policy = \<lparr>ow_engine = engine, ow_capabilities = op_capabilities ops engine,
     ow_policy = policy, ow_documents = [], ow_rotation = []\<rparr>"

section \<open>Accepting a command\<close>

definition set_document :: "document_id \<Rightarrow> ('d, 's, 'e) managed_document \<Rightarrow> ('eng, 'd, 's, 'e) owner \<Rightarrow> ('eng, 'd, 's, 'e) owner" where
  "set_document i md ow = ow\<lparr>ow_documents := hm_insert i md (ow_documents ow)\<rparr>"

text \<open>Removing a document drops it, which cancels its session and its work.\<close>

definition remove_document :: "document_id \<Rightarrow> ('eng, 'd, 's, 'e) owner \<Rightarrow> world \<Rightarrow> ('eng, 'd, 's, 'e) owner \<times> world" where
  "remove_document i ow w =
     (ow\<lparr>ow_documents := hm_remove i (ow_documents ow),
         ow_rotation := filter (\<lambda>j. j \<noteq> i) (ow_rotation ow)\<rparr>,
      (case map_of (ow_documents ow) i of None \<Rightarrow> w | Some md \<Rightarrow> snd (cancel_and_clear md w)))"

fun accept_command ::
  "'s command \<Rightarrow> ('eng, 'd, 's, 'e) owner \<Rightarrow> world \<Rightarrow> bool \<times> ('eng, 'd, 's, 'e) owner \<times> world" where
  "accept_command (CmdAttach i) ow w =
     (if map_of (ow_documents ow) i \<noteq> None then (True, ow, w)
      else (True,
            (set_document i (push_event (EvAttached i (ow_capabilities ow)) managed_new) ow)
              \<lparr>ow_rotation := ow_rotation ow @ [i]\<rparr>, w))"
| "accept_command (CmdOpen i src c) ow w =
     (case map_of (ow_documents ow) i of
        None \<Rightarrow> (True, ow, w)
      | Some md \<Rightarrow>
          (case cancel_and_clear md w of (md1, w1) \<Rightarrow>
             (case allocate_sequence md1 of (sq, md2) \<Rightarrow>
                (True, set_document i (md2\<lparr>md_pending := hm_insert OpenKey
                   \<lparr>pw_sequence = sq, pw_priority = INTERACTIVE, pw_class = None, pw_cancellation = c,
                    pw_kind = PendingOpen src\<rparr> (md_pending md2)\<rparr>) ow, w1))))"
| "accept_command (CmdClose i) ow w =
     (case map_of (ow_documents ow) i of
        None \<Rightarrow> (True, ow, w)
      | Some md \<Rightarrow>
          let gen = map_option (\<lambda>s. session_generation s w) (manager_current (md_sessions md)) in
          (case cancel_and_clear md w of (md1, w1) \<Rightarrow>
             (True, set_document i (push_event (EvClosed i gen) md1) ow, w1)))"
| "accept_command (CmdReplace i class xs c) ow w =
     (case map_of (ow_documents ow) i of
        None \<Rightarrow> (True, ow, w)
      | Some md \<Rightarrow>
          (case replace_class class xs c (max_pending_per_document (ow_policy ow)) md w of (n, md1, w1) \<Rightarrow>
             (True, set_document i (if 0 < n then push_event (EvWorkRejected i class n) md1 else md1) ow, w1)))"
| "accept_command (CmdCancelClass i class) ow w =
     (case map_of (ow_documents ow) i of
        None \<Rightarrow> (True, ow, w)
      | Some md \<Rightarrow> (case drop_class class md w of (md1, w1) \<Rightarrow> (True, set_document i md1 ow, w1)))"
| "accept_command (CmdDetach i) ow w = (case remove_document i ow w of (ow', w') \<Rightarrow> (True, ow', w'))"
| "accept_command CmdShutdown ow w = (False, ow, w)"

primrec drain_commands ::
  "'s command list \<Rightarrow> ('eng, 'd, 's, 'e) owner \<Rightarrow> world \<Rightarrow> bool \<times> ('eng, 'd, 's, 'e) owner \<times> world" where
  "drain_commands [] ow w = (True, ow, w)"
| "drain_commands (c # cs) ow w =
     (case accept_command c ow w of (go, ow1, w1) \<Rightarrow>
        if go then drain_commands cs ow1 w1 else (False, ow1, w1))"

section \<open>Delivering events\<close>

fun flush_events ::
  "('e, 'r) routes \<Rightarrow> document_id \<Rightarrow> 'e supervisor_event list \<Rightarrow> 'r \<Rightarrow> 'e supervisor_event list \<times> bool \<times> 'r" where
  "flush_events deliver i [] r = ([], False, r)"
| "flush_events deliver i (ev # evs) r =
     (case deliver i ev r of
        (Delivered, r') \<Rightarrow> flush_events deliver i evs r'
      | (RouteFull ev', r') \<Rightarrow> (ev' # evs, False, r')
      | (RouteDisconnected, r') \<Rightarrow> (evs, True, r'))"

fun flush_documents ::
  "('e, 'r) routes \<Rightarrow> (document_id \<times> ('d, 's, 'e) managed_document) list \<Rightarrow> 'r \<Rightarrow>
   (document_id \<times> ('d, 's, 'e) managed_document) list \<times> document_id list \<times> 'r" where
  "flush_documents deliver [] r = ([], [], r)"
| "flush_documents deliver ((i, md) # docs) r =
     (case flush_events deliver i (md_pending_events md) r of (evs, gone, r1) \<Rightarrow>
        (case flush_documents deliver docs r1 of (docs', ids, r2) \<Rightarrow>
           ((i, md\<lparr>md_pending_events := evs\<rparr>) # docs', (if gone then i # ids else ids), r2)))"

primrec remove_documents ::
  "document_id list \<Rightarrow> ('eng, 'd, 's, 'e) owner \<Rightarrow> world \<Rightarrow> ('eng, 'd, 's, 'e) owner \<times> world" where
  "remove_documents [] ow w = (ow, w)"
| "remove_documents (i # ids) ow w =
     (case remove_document i ow w of (ow1, w1) \<Rightarrow> remove_documents ids ow1 w1)"

definition flush_pending_events ::
  "('e, 'r) routes \<Rightarrow> ('eng, 'd, 's, 'e) owner \<Rightarrow> 'r \<Rightarrow> world \<Rightarrow> ('eng, 'd, 's, 'e) owner \<times> 'r \<times> world" where
  "flush_pending_events deliver ow r w =
     (case flush_documents deliver (ow_documents ow) r of (docs, ids, r') \<Rightarrow>
        (case remove_documents ids (ow\<lparr>ow_documents := docs\<rparr>) w of (ow', w') \<Rightarrow> (ow', r', w')))"

section \<open>Choosing and doing the next piece of work\<close>

definition runnable_priority :: "('eng, 'd, 's, 'e) owner \<Rightarrow> document_id \<Rightarrow> demand_priority option" where
  "runnable_priority ow i =
     (case map_of (ow_documents ow) i of
        None \<Rightarrow> None
      | Some md \<Rightarrow> if md_pending_events md = [] then highest_pending_priority md else None)"

fun rotate_find :: "nat \<Rightarrow> ('i \<Rightarrow> bool) \<Rightarrow> 'i list \<Rightarrow> 'i option \<times> 'i list" where
  "rotate_find 0 P rotation = (None, rotation)"
| "rotate_find (Suc n) P [] = (None, [])"
| "rotate_find (Suc n) P (i # rotation) =
     (if P i then (Some i, rotation @ [i]) else rotate_find n P (rotation @ [i]))"

definition next_runnable :: "('eng, 'd, 's, 'e) owner \<Rightarrow> document_id option \<times> document_id list" where
  "next_runnable ow =
     (case max_by_key (\<lambda>p. p) (List.map_filter (runnable_priority ow) (ow_rotation ow)) of
        None \<Rightarrow> (None, ow_rotation ow)
      | Some highest \<Rightarrow>
          rotate_find (length (ow_rotation ow)) (\<lambda>i. runnable_priority ow i = Some highest) (ow_rotation ow))"

definition serve ::
  "('eng, 's, 'd, 'e) engine_ops \<Rightarrow> document_id \<Rightarrow> ('eng, 'd, 's, 'e) owner \<Rightarrow> world \<Rightarrow> ('eng, 'd, 's, 'e) owner \<times> world" where
  "serve ops i ow w =
     (case map_of (ow_documents ow) i of
        None \<Rightarrow> (ow, w)
      | Some md \<Rightarrow>
          (case pop_pending md of
             (None, md1) \<Rightarrow> (set_document i md1 ow, w)
           | (Some p, md1) \<Rightarrow>
               (case process_work ops (ow_engine ow) i p md1 w of (engine, md2, w') \<Rightarrow>
                  ((set_document i md2 ow)\<lparr>ow_engine := engine\<rparr>, w'))))"

section \<open>The owner loop\<close>

text \<open>
  One iteration reads everything that waits on the channel (\<open>batch\<close>, and whether the channel was
  found disconnected after it); when there is no work it waits for one more command, or for nothing:
  the end of the retry interval or of the channel.
\<close>

record 's owner_input =
  in_batch :: "'s command list"
  in_disconnected :: bool
  in_idle :: "'s command option"

definition has_backpressured_events :: "('eng, 'd, 's, 'e) owner \<Rightarrow> bool" where
  "has_backpressured_events ow \<longleftrightarrow> list_ex (\<lambda>(_, md). md_pending_events md \<noteq> []) (ow_documents ow)"

definition owner_iteration ::
  "('eng, 's, 'd, 'e) engine_ops \<Rightarrow> ('e, 'r) routes \<Rightarrow> 's owner_input \<Rightarrow> ('eng, 'd, 's, 'e) owner \<Rightarrow> 'r \<Rightarrow> world \<Rightarrow>
   bool \<times> ('eng, 'd, 's, 'e) owner \<times> 'r \<times> world" where
  "owner_iteration ops deliver inp ow r w =
     (case drain_commands (in_batch inp) ow w of (go, ow1, w1) \<Rightarrow>
        if \<not> go \<or> in_disconnected inp then (False, ow1, r, w1)
        else case flush_pending_events deliver ow1 r w1 of (ow2, r2, w2) \<Rightarrow>
          (case next_runnable ow2 of
             (Some i, rotation) \<Rightarrow>
               (case serve ops i (ow2\<lparr>ow_rotation := rotation\<rparr>) w2 of (ow3, w3) \<Rightarrow> (True, ow3, r2, w3))
           | (None, rotation) \<Rightarrow>
               (let ow3 = ow2\<lparr>ow_rotation := rotation\<rparr> in
                case in_idle inp of
                  Some c \<Rightarrow> (case accept_command c ow3 w2 of (go', ow4, w4) \<Rightarrow> (go', ow4, r2, w4))
                | None \<Rightarrow> (has_backpressured_events ow3, ow3, r2, w2))))"

text \<open>When the loop ends the remaining documents are dropped.\<close>

primrec run_owner ::
  "('eng, 's, 'd, 'e) engine_ops \<Rightarrow> ('e, 'r) routes \<Rightarrow> 's owner_input list \<Rightarrow> ('eng, 'd, 's, 'e) owner \<Rightarrow> 'r \<Rightarrow> world \<Rightarrow>
   bool \<times> ('eng, 'd, 's, 'e) owner \<times> 'r \<times> world" where
  "run_owner ops deliver [] ow r w = (True, ow, r, w)"
| "run_owner ops deliver (inp # inps) ow r w =
     (case owner_iteration ops deliver inp ow r w of (go, ow1, r1, w1) \<Rightarrow>
        if go then run_owner ops deliver inps ow1 r1 w1
        else (case remove_documents (map fst (ow_documents ow1)) ow1 w1 of (ow2, w2) \<Rightarrow> (False, ow2, r1, w2)))"

section \<open>The clients\<close>

text \<open>
  \<open>EngineSupervisor\<close> and \<open>DocumentClient\<close> on the sending side: a command is appended to the
  channel unless the owner is gone; the cancellation takes effect at once, before the command is
  read.
\<close>

record 's channel =
  ch_commands :: "'s command list"
  ch_open :: bool

definition send :: "'s command \<Rightarrow> 's channel \<Rightarrow> (supervisor_send_error, unit) rust_result \<times> 's channel" where
  "send c ch = (if ch_open ch then (Inr (), ch\<lparr>ch_commands := ch_commands ch @ [c]\<rparr>) else (Inl Disconnected, ch))"

text \<open>\<open>attach_routed\<close>: the shared counter \<open>next_document\<close> is the first argument.\<close>

definition attach_routed ::
  "u64 \<Rightarrow> 's channel \<Rightarrow> (supervisor_send_error, document_id \<times> client_cancellations) rust_result \<times> u64 \<times> 's channel" where
  "attach_routed counter ch =
     (case allocate_non_zero counter of
        (None, n) \<Rightarrow> (Inl DocumentIdsExhausted, n, ch)
      | (Some i, n) \<Rightarrow>
          (case send (CmdAttach i) ch of
             (Inl e, ch') \<Rightarrow> (Inl e, n, ch')
           | (Inr _, ch') \<Rightarrow> (Inr (i, client_new), n, ch')))"

definition client_open ::
  "document_id \<Rightarrow> 's \<Rightarrow> client_cancellations \<Rightarrow> 's channel \<Rightarrow> world \<Rightarrow>
   (supervisor_send_error, unit) rust_result \<times> client_cancellations \<times> 's channel \<times> world" where
  "client_open i src cc ch w =
     (case replace_open cc w of (c, cc', w') \<Rightarrow>
        (case send (CmdOpen i src c) ch of (r, ch') \<Rightarrow> (r, cc', ch', w')))"

definition client_close ::
  "document_id \<Rightarrow> client_cancellations \<Rightarrow> 's channel \<Rightarrow> world \<Rightarrow>
   (supervisor_send_error, unit) rust_result \<times> client_cancellations \<times> 's channel \<times> world" where
  "client_close i cc ch w =
     (case client_cancel_all cc w of (cc', w') \<Rightarrow>
        (case send (CmdClose i) ch of (r, ch') \<Rightarrow> (r, cc', ch', w')))"

definition client_replace ::
  "document_id \<Rightarrow> work_class \<Rightarrow> work list \<Rightarrow> client_cancellations \<Rightarrow> 's channel \<Rightarrow> world \<Rightarrow>
   (supervisor_send_error, unit) rust_result \<times> client_cancellations \<times> 's channel \<times> world" where
  "client_replace i class xs cc ch w =
     (case client_replace_class class cc w of (c, cc', w') \<Rightarrow>
        (case send (CmdReplace i class xs c) ch of (r, ch') \<Rightarrow> (r, cc', ch', w')))"

definition replace_render_viewport ::
  "document_id \<Rightarrow> render_demand list \<Rightarrow> client_cancellations \<Rightarrow> 's channel \<Rightarrow> world \<Rightarrow>
   (supervisor_send_error, unit) rust_result \<times> client_cancellations \<times> 's channel \<times> world" where
  "replace_render_viewport i demands = client_replace i RenderViewport (map RenderWork demands)"

definition replace_preview ::
  "document_id \<Rightarrow> preview_demand option \<Rightarrow> client_cancellations \<Rightarrow> 's channel \<Rightarrow> world \<Rightarrow>
   (supervisor_send_error, unit) rust_result \<times> client_cancellations \<times> 's channel \<times> world" where
  "replace_preview i demand =
     client_replace i PreviewClass (case demand of None \<Rightarrow> [] | Some d \<Rightarrow> [PreviewWork d])"

definition replace_text ::
  "document_id \<Rightarrow> work_class \<Rightarrow> text_demand list \<Rightarrow> client_cancellations \<Rightarrow> 's channel \<Rightarrow> world \<Rightarrow>
   (supervisor_send_error, unit) rust_result \<times> client_cancellations \<times> 's channel \<times> world" where
  "replace_text i class demands cc ch w =
     (if class = RenderViewport \<or> class = PreviewClass then (Inl InvalidWorkClass, cc, ch, w)
      else client_replace i class (map TextWork demands) cc ch w)"

definition client_cancel ::
  "document_id \<Rightarrow> work_class \<Rightarrow> client_cancellations \<Rightarrow> 's channel \<Rightarrow> world \<Rightarrow>
   (supervisor_send_error, unit) rust_result \<times> client_cancellations \<times> 's channel \<times> world" where
  "client_cancel i class cc ch w =
     (case client_cancel_class class cc w of (cc', w') \<Rightarrow>
        (case send (CmdCancelClass i class) ch of (r, ch') \<Rightarrow> (r, cc', ch', w')))"

definition client_drop :: "document_id \<Rightarrow> client_cancellations \<Rightarrow> 's channel \<Rightarrow> world \<Rightarrow> 's channel \<times> world" where
  "client_drop i cc ch w = (snd (send (CmdDetach i) ch), snd (client_cancel_all cc w))"

end
