(* ===== verification/SupervisorInv.thy ===== *)
theory SupervisorInv
  imports SupervisorSim SupervisorOwner
begin

text \<open>
  The invariant of the supervisor: what holds of every managed document and of the owner's tables
  in every reachable state, and that each operation preserves it.
\<close>

section \<open>The bounded queue of a document\<close>

definition work_ok :: "work_key \<Rightarrow> 's pending_work \<Rightarrow> bool" where
  "work_ok k p \<longleftrightarrow>
     (case pw_kind p of
        PendingOpen _ \<Rightarrow> k = OpenKey \<and> pw_class p = None \<and> pw_priority p = INTERACTIVE
      | PendingEngine x \<Rightarrow> (\<exists>c. pw_class p = Some c \<and> k = work_key_of c x) \<and> pw_priority p = work_priority x)"

definition pending_ok :: "nat \<Rightarrow> (work_key, 's pending_work) hash_map \<Rightarrow> bool" where
  "pending_ok cap pending \<longleftrightarrow>
     hm_ok pending \<and> length pending \<le> cap \<and> (\<forall>(k, p) \<in> set pending. work_ok k p)"

lemma work_key_not_open [simp]: "work_key_of c x \<noteq> OpenKey"
  by (cases x) auto

lemma work_ok_open: "work_ok k p \<Longrightarrow> pw_class p = None \<longleftrightarrow> k = OpenKey"
  by (auto simp: work_ok_def split: pending_kind.splits)

lemma set_hm_insert: "set (hm_insert k v m) \<subseteq> insert (k, v) (set m)"
  unfolding hm_insert_def by (induction m) auto

lemma set_hm_remove: "set (hm_remove k m) \<subseteq> set m"
  unfolding hm_remove_def by (induction m) auto

lemma set_hm_remove_eq: "set (hm_remove k m) = {(j, v) \<in> set m. j \<noteq> k}"
  unfolding hm_remove_def by (induction m) auto

lemma length_hm_insert_le: "length (hm_insert k v m) \<le> Suc (length m)"
  unfolding hm_insert_def by (induction m) auto

text \<open>What the eviction loop does: it stops within the capacity or when only an \<open>Open\<close> is left, it
  removes lowest-ranked work first, and cancels exactly the sources of what it removes.\<close>

definition evicted_to ::
  "nat \<Rightarrow> (work_key, 's pending_work) hash_map \<Rightarrow> world \<Rightarrow> nat \<Rightarrow> (work_key, 's pending_work) hash_map \<Rightarrow> world \<Rightarrow> bool" where
  "evicted_to cap pending w n pending' w' \<longleftrightarrow>
     set pending' \<subseteq> set pending \<and> hm_ok pending' \<and> length pending = n + length pending' \<and>
     (length pending' \<le> cap \<or> fst ` set pending' \<subseteq> {OpenKey}) \<and>
     (\<forall>kp \<in> set pending - set pending'. fst kp \<noteq> OpenKey \<and> flag w' (pw_cancellation (snd kp)) \<and>
        (\<forall>jq \<in> set pending'. fst jq \<noteq> OpenKey \<longrightarrow> pending_rank kp \<le> pending_rank jq)) \<and>
     (\<forall>a. flag w' a \<longleftrightarrow> flag w a \<or> (\<exists>kp \<in> set pending - set pending'. a = pw_cancellation (snd kp))) \<and>
     fresh w' = fresh w \<and> next_session w' = next_session w \<and> session_at w' = session_at w"

lemma evicted_stop:
  "hm_ok pending \<Longrightarrow> length pending \<le> cap \<or> fst ` set pending \<subseteq> {OpenKey} \<Longrightarrow> evicted_to cap pending w 0 pending w"
  by (simp add: evicted_to_def)

lemma evicted_step:
  assumes ok: "hm_ok pending" and c: "eviction_candidate pending = Some (k, p)"
    and r: "evicted_to cap (hm_remove k pending) (snd (source_cancel (pw_cancellation p) w)) n pending' w'"
  shows "evicted_to cap pending w (Suc n) pending' w'"
proof -
  note e = eviction_candidate_Some[OF c]
  have at: "map_of pending k = Some p" using e(1) ok by (simp add: hm_ok_def)
  have "length pending \<noteq> 0" using e(1) by auto
  then have len: "length pending = Suc (length (hm_remove k pending))"
    using hm.length_remove[OF ok, of k] at by simp
  have split: "set pending = insert (k, p) (set (hm_remove k pending))"
    using e(1) ok by (auto simp: set_hm_remove_eq hm_ok_def dest: eq_key_imp_eq_value)
  have "(k, p) \<notin> set (hm_remove k pending)" by (simp add: set_hm_remove_eq)
  then have gone: "set pending - set pending' = insert (k, p) (set (hm_remove k pending) - set pending')"
    using r split by (auto simp: evicted_to_def)
  have low: "\<forall>jq \<in> set pending'. fst jq \<noteq> OpenKey \<longrightarrow> pending_rank (k, p) \<le> pending_rank jq"
    using r e(3) split by (fastforce simp: evicted_to_def)
  show ?thesis
    using r e(2) low len split unfolding evicted_to_def gone by (auto simp: source_cancel_simps) (simp_all add: source_cancel_def)
qed

lemma evict_over_spec:
  "hm_ok pending \<Longrightarrow> evict_over cap pending w = (n, pending', w') \<Longrightarrow> evicted_to cap pending w n pending' w'"
proof (induction cap pending w arbitrary: n pending' w' rule: evict_over.induct)
  case (1 cap pending w)
  show ?case
  proof (cases "length pending \<le> cap")
    case True
    then show ?thesis using "1.prems" by (subst (asm) evict_over.simps) (simp add: evicted_stop)
  next
    case big: False
    show ?thesis
    proof (cases "eviction_candidate pending")
      case None
      then have "fst ` set pending \<subseteq> {OpenKey}" by (auto simp: eviction_candidate_def filter_empty_conv)
      then show ?thesis using "1.prems" big None by (subst (asm) evict_over.simps) (simp add: evicted_stop)
    next
      case (Some kp)
      obtain k p where kp: "kp = (k, p)" by fastforce
      obtain n1 p1 w1 where r: "evict_over cap (hm_remove k pending) (snd (source_cancel (pw_cancellation p) w)) = (n1, p1, w1)"
        by (metis prod_cases3)
      have "n = Suc n1 \<and> pending' = p1 \<and> w' = w1"
        using "1.prems"(2) big Some kp r by (subst (asm) evict_over.simps) simp
      then show ?thesis
        using evicted_step[OF "1.prems"(1) Some[unfolded kp]] "1.IH"[OF big Some[unfolded kp] refl _ r] "1.prems"(1)
        by simp
    qed
  qed
qed

text \<open>Steps that only cancel.\<close>

definition only_cancels :: "world \<Rightarrow> world \<Rightarrow> bool" where
  "only_cancels w w' \<longleftrightarrow> fresh w' = fresh w \<and> next_session w' = next_session w \<and>
     session_at w' = session_at w \<and> (\<forall>a. flag w a \<longrightarrow> flag w' a)"

lemma only_cancels_refl [simp, intro]: "only_cancels w w"
  by (simp add: only_cancels_def)

lemma only_cancels_trans [trans]: "only_cancels u v \<Longrightarrow> only_cancels v w \<Longrightarrow> only_cancels u w"
  by (simp add: only_cancels_def)

lemma only_cancels_le: "only_cancels w w' \<Longrightarrow> world_le w w'"
  by (simp add: only_cancels_def world_le_def store_le_def)

lemma only_cancels_wf: "only_cancels w w' \<Longrightarrow> wf_world w \<Longrightarrow> wf_world w'"
  by (simp add: only_cancels_def wf_world_def)

lemma only_cancels_source [simp, intro]: "only_cancels w (snd (source_cancel a w))"
  by (simp add: only_cancels_def source_cancel_def)

lemma only_cancels_each [simp, intro]: "only_cancels w (cancel_each as w)"
  by (induction as arbitrary: w) (auto intro: only_cancels_trans)

lemma evicted_only_cancels: "evicted_to cap pending w n pending' w' \<Longrightarrow> only_cancels w w'"
  by (simp add: evicted_to_def only_cancels_def)

lemma only_cancels_close: "manager_close m w = (r, m', w') \<Longrightarrow> only_cancels w w'"
  by (auto simp: manager_close_def session_cancel_def split: option.splits)

lemma length_open_only: "hm_ok m \<Longrightarrow> fst ` set m \<subseteq> {k} \<Longrightarrow> length m \<le> 1"
  using hm.length_entries[of m] hm.dom_entries[of m] card_mono[of "{k}" "dom (map_of m)"] by simp

lemma admit_spec:
  assumes inv: "pending_ok cap (md_pending md)" and cap: "0 < cap"
    and step: "admit class c cap x md w = (n, md', w')"
  shows "pending_ok cap (md_pending md')" and "only_cancels w w'"
    and "md' = md\<lparr>md_pending := md_pending md', md_next_sequence := md_next_sequence md'\<rparr>"
    and "set (md_pending md') \<subseteq> set (md_pending md) \<union>
      {(work_key_of class x, \<lparr>pw_sequence = md_next_sequence md, pw_priority = work_priority x,
         pw_class = Some class, pw_cancellation = c, pw_kind = PendingEngine x\<rparr>)}"
proof -
  let ?k = "work_key_of class x"
  let ?p = "\<lparr>pw_sequence = md_next_sequence md, pw_priority = work_priority x,
         pw_class = Some class, pw_cancellation = c, pw_kind = PendingEngine x\<rparr>"
  let ?w1 = "case map_of (md_pending md) ?k of None \<Rightarrow> w | Some previous \<Rightarrow> snd (source_cancel (pw_cancellation previous) w)"
  obtain n1 pending w2 where r: "evict_over cap (hm_insert ?k ?p (md_pending md)) ?w1 = (n1, pending, w2)"
    by (metis prod_cases3)
  have out: "n = n1" "w' = w2" "md' = md\<lparr>md_next_sequence := max (md_next_sequence md + 1) 1, md_pending := pending\<rparr>"
    using step r by (auto simp: admit_def allocate_sequence_def Let_def)
  have ok: "hm_ok (md_pending md)" using inv by (simp add: pending_ok_def)
  have e: "evicted_to cap (hm_insert ?k ?p (md_pending md)) ?w1 n1 pending w2"
    by (rule evict_over_spec[OF _ r]) (simp add: ok)
  have sub: "set pending \<subseteq> insert (?k, ?p) (set (md_pending md))"
    using e set_hm_insert[of ?k ?p "md_pending md"] by (auto simp: evicted_to_def)
  have "length pending \<le> cap"
    using e cap length_open_only[of pending OpenKey] by (auto simp: evicted_to_def)
  moreover have "\<forall>(k, p) \<in> set pending. work_ok k p"
    using sub inv by (fastforce simp: pending_ok_def work_ok_def)
  ultimately show "pending_ok cap (md_pending md')"
    using e by (simp add: pending_ok_def evicted_to_def out)
  have "only_cancels w ?w1" by (simp split: option.split)
  then show "only_cancels w w'" using evicted_only_cancels[OF e] only_cancels_trans out by blast
  show "md' = md\<lparr>md_pending := md_pending md', md_next_sequence := md_next_sequence md'\<rparr>"
    by (simp add: out)
  show "set (md_pending md') \<subseteq> set (md_pending md) \<union> {(?k, ?p)}" using sub by (simp add: out)
qed

lemma admit_all_spec:
  assumes "pending_ok cap (md_pending md)" and cap: "0 < cap"
    and "admit_all class c cap xs md w = (n, md', w')"
  shows "pending_ok cap (md_pending md') \<and> only_cancels w w' \<and>
    md' = md\<lparr>md_pending := md_pending md', md_next_sequence := md_next_sequence md'\<rparr>"
  using assms(1,3)
proof (induction xs arbitrary: md w n)
  case Nil
  then show ?case by simp
next
  case (Cons x xs)
  obtain n1 md1 w1 where a: "admit class c cap x md w = (n1, md1, w1)" by (metis prod_cases3)
  obtain n2 where r: "admit_all class c cap xs md1 w1 = (n2, md', w')"
    using Cons.prems(2) a by (auto split: prod.splits)
  note s = admit_spec[OF Cons.prems(1) cap a]
  show ?case
    using Cons.IH[OF s(1) r] s(2,3) only_cancels_trans by (metis (no_types, lifting)
      managed_document.simps(13,14) managed_document.update_convs(6,7) managed_document.surjective)
qed

section \<open>The invariant of a document\<close>

definition md_inv :: "nat \<Rightarrow> ('d, 's, 'e) managed_document \<Rightarrow> world \<Rightarrow> bool" where
  "md_inv cap md w \<longleftrightarrow> pending_ok cap (md_pending md) \<and>
     runtime_inv (as_runtime () cache_policy_default md) w \<and> (md_descriptor md = None) = (md_document md = None)"

lemma runtime_inv_cong:
  "rt_sessions rt = rt_sessions rt' \<Longrightarrow> (rt_document rt = None) = (rt_document rt' = None) \<Longrightarrow>
   rt_document_handle rt = rt_document_handle rt' \<Longrightarrow> runtime_inv rt w = runtime_inv rt' w"
  by (simp add: runtime_inv_def document_owned_def)

lemma md_inv_env: "md_inv cap md w \<Longrightarrow> world_le w w' \<Longrightarrow> wf_world w' \<Longrightarrow> md_inv cap md w'"
  by (auto simp: md_inv_def intro: runtime_inv_env)

lemma md_inv_wf: "md_inv cap md w \<Longrightarrow> wf_world w"
  by (auto simp: md_inv_def intro: runtime_inv_active(1))

lemma md_inv_only_cancels: "md_inv cap md w \<Longrightarrow> only_cancels w w' \<Longrightarrow> md_inv cap md w'"
  by (blast intro: md_inv_env only_cancels_le only_cancels_wf md_inv_wf)

lemma md_inv_push [simp]: "md_inv cap (push_event ev md) w = md_inv cap md w"
  by (simp add: md_inv_def push_event_def)

lemma md_inv_events [simp]: "md_inv cap (md\<lparr>md_pending_events := evs\<rparr>) w = md_inv cap md w"
  by (simp add: md_inv_def)

lemma md_inv_pending:
  assumes "md_inv cap md w" and "pending_ok cap pending"
  shows "md_inv cap (md\<lparr>md_pending := pending, md_next_sequence := sq\<rparr>) w"
  using assms by (simp add: md_inv_def as_runtime_def)

lemma md_inv_pending':
  assumes "md_inv cap md w" and "pending_ok cap pending"
  shows "md_inv cap (md\<lparr>md_pending := pending\<rparr>) w"
  using assms by (simp add: md_inv_def as_runtime_def)

lemma md_inv_new: "wf_world w \<Longrightarrow> md_inv cap managed_new w"
  by (auto simp: md_inv_def managed_new_def pending_ok_def runtime_inv_def document_owned_def as_runtime_def
      intro: run_init)

lemma pending_ok_filter: "pending_ok cap pending \<Longrightarrow> pending_ok cap (filter P pending)"
  by (auto simp: pending_ok_def intro: order_trans[OF length_filter_le])

lemma pending_ok_remove: "pending_ok cap pending \<Longrightarrow> pending_ok cap (hm_remove k pending)"
  using set_hm_remove[of k pending] length_delete_le[of k pending] hm_ok_remove[of pending k]
  unfolding pending_ok_def hm_remove_def by auto

lemma md_inv_clear:
  assumes "md_inv cap md w" and "cancel_and_clear md w = (md', w')"
  shows "md_inv cap md' w'" and "only_cancels w w'" and "md_pending md' = []"
    and "md_document md' = None" and "active (md_sessions md') = None"
    and "\<And>kp. kp \<in> set (md_pending md) \<Longrightarrow> flag w' (pw_cancellation (snd kp))"
    and "\<And>s. active (md_sessions md) = Some s \<Longrightarrow> session_is_cancelled s w'"
proof -
  obtain r m w1 where c: "manager_close (md_sessions md) w = (r, m, w1)" by (metis prod_cases3)
  let ?ss = "map (pw_cancellation \<circ> snd) (md_pending md)"
  have md': "md' = md\<lparr>md_sessions := m, md_pending := [], md_document := None, md_document_handle := None,
      md_descriptor := None\<rparr>" and w': "w' = cancel_each ?ss w1"
    using assms(2) c by (auto simp: cancel_and_clear_def)
  note e = manager_close_effect[OF c]
  have on: "only_cancels w1 w'" by (simp add: w')
  show oc: "only_cancels w w'" using only_cancels_close[OF c] on only_cancels_trans by blast
  obtain xs where "manager_run (md_sessions md) w xs"
    using assms(1) by (auto simp: md_inv_def runtime_inv_def)
  then have "manager_run m w1 xs" using c run_close by blast
  then have "manager_run m w' xs"
    using run_env only_cancels_le[OF on] only_cancels_wf[OF oc] md_inv_wf[OF assms(1)] by blast
  then show "md_inv cap md' w'"
    by (auto simp: md_inv_def md' as_runtime_def runtime_inv_def document_owned_def pending_ok_def)
  show "md_pending md' = []" "md_document md' = None" "active (md_sessions md') = None"
    using e by (simp_all add: md')
  show "flag w' (pw_cancellation (snd kp))" if "kp \<in> set (md_pending md)" for kp
    using that by (simp add: w' cancel_each_simps)
  show "session_is_cancelled s w'" if "active (md_sessions md) = Some s" for s
    using e that on by (auto simp: only_cancels_def)
qed

lemma md_inv_drop:
  assumes "md_inv cap md w" and "drop_class class md w = (md', w')"
  shows "md_inv cap md' w'" and "only_cancels w w'"
proof -
  show "only_cancels w w'" using assms(2) by (auto simp: drop_class_def)
  then have "md_inv cap md w'" using assms(1) md_inv_only_cancels by blast
  then show "md_inv cap md' w'"
    using assms(2) by (auto simp: drop_class_def md_inv_def as_runtime_def pending_ok_filter)
qed

lemma md_inv_replace:
  assumes "md_inv cap md w" and cap: "0 < cap" and "replace_class class xs c cap md w = (n, md', w')"
  shows "md_inv cap md' w' \<and> only_cancels w w'"
proof -
  obtain md1 w1 where d: "drop_class class md w = (md1, w1)" by fastforce
  note i = md_inv_drop[OF assms(1) d]
  have a: "admit_all class c cap xs md1 w1 = (n, md', w')" using assms(3) d by (simp add: replace_class_def)
  have "pending_ok cap (md_pending md1)" using i by (simp add: md_inv_def)
  note s = admit_all_spec[OF this cap a]
  then have "md_inv cap (md1\<lparr>md_pending := md_pending md', md_next_sequence := md_next_sequence md'\<rparr>) w1"
    using md_inv_pending[OF i(1)] by blast
  then show ?thesis using s i(2) only_cancels_trans md_inv_only_cancels by metis
qed

section \<open>Work preserves it\<close>

lemma execute_in_session_inv:
  assumes inv: "md_inv cap md w" and ok: "call_ok call"
    and step: "execute_in_session md st operation page call check wrap demand w = (ev, md', w')"
  shows "md_inv cap md' w' \<and> world_le w w'"
proof -
  let ?rt = "as_runtime () cache_policy_default md"
  obtain doc where e: "execute_on_current (session_for ?rt st w) st (rt_document ?rt) w (\<lambda>s.
        execute_demand s (composed_cancellation s (Some operation) w) st page (md_descriptor md)
          (rt_document ?rt) call check wrap demand w) = (fst (execute_on_current (session_for ?rt st w) st (md_document md) w (\<lambda>s.
        execute_demand s (composed_cancellation s (Some operation) w) st page (md_descriptor md)
          (md_document md) call check wrap demand w)), doc, w')" and md': "md' = md\<lparr>md_document := doc\<rparr>"
    using step by (auto simp: execute_in_session_sim[of _ _ _ _ _ _ _ _ _ "()" cache_policy_default] split: prod.splits)
  note w = on_current_world[OF e ok]
  have "runtime_inv ?rt w'" using w inv by (auto simp: md_inv_def intro: runtime_inv_env runtime_inv_active(1))
  then have "runtime_inv (as_runtime () cache_policy_default md') w'"
    using w by (simp add: md' runtime_inv_document)
  then show ?thesis using inv w by (auto simp: md_inv_def md')
qed

lemma process_open_inv:
  assumes inv: "md_inv cap md w" and ok: "engine_ok ops"
    and step: "process_open ops engine i src c md w = (engine', md', w')"
  shows "md_inv cap md' w' \<and> world_le w w'"
proof -
  let ?rt = "as_runtime engine cache_policy_default md"
  obtain r rt' where o: "open_inner ops ?rt src (Some (source_token c)) w = (r, rt', w')"
    and rt': "rt' = as_runtime engine' cache_policy_default md'"
    using step process_open_sim[of cache_policy_default ops engine i src c md w] by (auto split: prod.splits)
  have "runtime_inv ?rt w"
    using inv runtime_inv_cong[of ?rt "as_runtime () cache_policy_default md"] by (simp add: md_inv_def)
  from runtime_inv_open[OF this ok o] have "runtime_inv (as_runtime () cache_policy_default md') w'"
    using runtime_inv_cong[of rt' "as_runtime () cache_policy_default md'"] by (simp add: rt')
  moreover have "md_pending md' = md_pending md \<and> (md_descriptor md' = None) = (md_document md' = None)"
    using step by (auto simp: process_open_def push_event_def Let_def split: prod.splits sum.splits if_splits)
  moreover have "world_le w w'"
    using o ok
  proof (cases rule: open_cases)
    case (opened s m w1 d h)
    then show ?thesis using manager_begin_effect(3)[OF opened(1)] world_le_trans by blast
  next
    case (not_opened s m w1)
    then show ?thesis using manager_begin_effect(3)[OF not_opened(1)] world_le_trans by blast
  qed simp
  ultimately show ?thesis using inv by (simp add: md_inv_def)
qed

lemma process_work_inv:
  assumes inv: "md_inv cap md w" and ok: "engine_ok ops"
    and step: "process_work ops engine i p md w = (engine', md', w')"
  shows "md_inv cap md' w' \<and> world_le w w'"
proof (cases "pw_kind p")
  case (PendingOpen src)
  then show ?thesis using step process_open_inv[OF inv ok] by (auto simp: process_work_def)
next
  case (PendingEngine x)
  have calls: "call_ok (\<lambda>d. op_render ops d a)" "call_ok (\<lambda>d. op_extract_text ops d b)"
    "call_ok (\<lambda>d. op_render_preview ops d c)" for a b c
    using ok by (simp_all add: engine_ok_def)
  show ?thesis
    using step PendingEngine
    by (cases x) (auto simp: process_work_def execute_render_def execute_text_def execute_preview_def Let_def
        split: prod.splits dest!: execute_in_session_inv[OF inv calls(1)] execute_in_session_inv[OF inv calls(2)]
          execute_in_session_inv[OF inv calls(3)])
qed

section \<open>The owner\<close>

definition owner_inv :: "('eng, 'd, 's, 'e) owner \<Rightarrow> world \<Rightarrow> bool" where
  "owner_inv ow w \<longleftrightarrow>
     0 < max_pending_per_document (ow_policy ow) \<and> wf_world w \<and>
     hm_ok (ow_documents ow) \<and> distinct (ow_rotation ow) \<and>
     set (ow_rotation ow) = dom (map_of (ow_documents ow)) \<and>
     (\<forall>i md. map_of (ow_documents ow) i = Some md \<longrightarrow> md_inv (max_pending_per_document (ow_policy ow)) md w)"

lemma owner_invI:
  assumes "0 < max_pending_per_document (ow_policy ow)" and "wf_world w" and "hm_ok (ow_documents ow)"
    and "distinct (ow_rotation ow)" and "set (ow_rotation ow) = dom (map_of (ow_documents ow))"
    and "\<And>i md. map_of (ow_documents ow) i = Some md \<Longrightarrow> md_inv (max_pending_per_document (ow_policy ow)) md w"
  shows "owner_inv ow w"
  using assms by (simp add: owner_inv_def)

lemma owner_inv_env: "owner_inv ow w \<Longrightarrow> world_le w w' \<Longrightarrow> wf_world w' \<Longrightarrow> owner_inv ow w'"
  unfolding owner_inv_def using md_inv_env by blast

lemma owner_inv_cancels: "owner_inv ow w \<Longrightarrow> only_cancels w w' \<Longrightarrow> owner_inv ow w'"
  by (rule owner_inv_env) (auto simp: owner_inv_def intro: only_cancels_le only_cancels_wf)

lemma owner_inv_document:
  "owner_inv ow w \<Longrightarrow> map_of (ow_documents ow) i = Some md \<Longrightarrow> md_inv (max_pending_per_document (ow_policy ow)) md w"
  by (simp add: owner_inv_def)

lemma owner_inv_set:
  assumes "owner_inv ow w" and "map_of (ow_documents ow) i \<noteq> None"
    and "md_inv (max_pending_per_document (ow_policy ow)) md w"
  shows "owner_inv (set_document i md ow) w"
  using assms by (auto simp: owner_inv_def set_document_def insert_absorb domI)

lemma owner_inv_engine [simp]: "owner_inv (ow\<lparr>ow_engine := e\<rparr>) w = owner_inv ow w"
  by (simp add: owner_inv_def)

lemma owner_inv_rotation:
  "owner_inv ow w \<Longrightarrow> distinct rotation \<Longrightarrow> set rotation = set (ow_rotation ow) \<Longrightarrow>
   owner_inv (ow\<lparr>ow_rotation := rotation\<rparr>) w"
  by (simp add: owner_inv_def)

lemma remove_document_inv:
  assumes inv: "owner_inv ow w" and step: "remove_document i ow w = (ow', w')"
  shows "owner_inv ow' w'" and "only_cancels w w'"
proof -
  have "only_cancels w (snd (cancel_and_clear md w))" if "map_of (ow_documents ow) i = Some md" for md
    using md_inv_clear(2)[OF owner_inv_document[OF inv that]] by (metis prod.collapse)
  then show on: "only_cancels w w'" using step by (auto simp: remove_document_def split: option.splits)
  have "owner_inv ow w'" using inv on by (rule owner_inv_cancels)
  moreover have "ow' = ow\<lparr>ow_documents := hm_remove i (ow_documents ow),
      ow_rotation := filter (\<lambda>j. j \<noteq> i) (ow_rotation ow)\<rparr>"
    using step by (simp add: remove_document_def)
  ultimately show "owner_inv ow' w'"
    by (intro owner_invI) (auto simp: owner_inv_def split: if_splits)
qed

lemma remove_documents_inv:
  "owner_inv ow w \<Longrightarrow> remove_documents ids ow w = (ow', w') \<Longrightarrow> owner_inv ow' w' \<and> only_cancels w w'"
proof (induction ids arbitrary: ow w)
  case (Cons i ids)
  obtain ow1 w1 where r: "remove_document i ow w = (ow1, w1)" by fastforce
  note i = remove_document_inv[OF Cons.prems(1) r]
  show ?case using Cons.IH[OF i(1)] Cons.prems(2) r i(2) only_cancels_trans by fastforce
qed simp

lemma accept_command_inv:
  assumes inv: "owner_inv ow w" and step: "accept_command c ow w = (go, ow', w')"
  shows "owner_inv ow' w' \<and> only_cancels w w'"
proof (cases c)
  case (CmdAttach i)
  show ?thesis
  proof (cases "map_of (ow_documents ow) i")
    case None
    then have "i \<notin> set (ow_rotation ow)" using inv by (auto simp: owner_inv_def)
    then show ?thesis
      using inv step CmdAttach None
      by (auto simp: owner_inv_def set_document_def md_inv_new split: if_splits)
  qed (use inv step CmdAttach in auto)
next
  case (CmdDetach i)
  then show ?thesis using step remove_document_inv[OF inv] by (auto split: prod.splits)
next
  case CmdShutdown
  then show ?thesis using step inv by simp
next
  case (CmdOpen i src a)
  show ?thesis
  proof (cases "map_of (ow_documents ow) i")
    case (Some md)
    obtain md1 w1 where c: "cancel_and_clear md w = (md1, w1)" by fastforce
    note e = md_inv_clear[OF owner_inv_document[OF inv Some] c]
    obtain sq md2 where q: "allocate_sequence md1 = (sq, md2)" by fastforce
    then have md2: "md2 = md1\<lparr>md_next_sequence := md_next_sequence md2\<rparr>" "md_pending md2 = []"
      using e(3) by (auto simp: allocate_sequence_def)
    let ?p = "\<lparr>pw_sequence = sq, pw_priority = INTERACTIVE, pw_class = None, pw_cancellation = a, pw_kind = PendingOpen src\<rparr>"
    have ok: "pending_ok (max_pending_per_document (ow_policy ow)) (hm_insert OpenKey ?p [])"
      using inv by (auto simp: pending_ok_def owner_inv_def work_ok_def hm_ok_def hm_insert_def)
    have "md_inv (max_pending_per_document (ow_policy ow)) (md1\<lparr>md_pending := hm_insert OpenKey ?p [],
        md_next_sequence := md_next_sequence md2\<rparr>) w1"
      by (rule md_inv_pending[OF e(1) ok])
    moreover have "md2\<lparr>md_pending := hm_insert OpenKey ?p (md_pending md2)\<rparr> =
        md1\<lparr>md_pending := hm_insert OpenKey ?p [], md_next_sequence := md_next_sequence md2\<rparr>"
      by (subst md2(1)) (simp add: md2(2))
    ultimately show ?thesis
      using step CmdOpen Some c q owner_inv_set[OF owner_inv_cancels[OF inv e(2)]] e(2) by auto
  qed (use inv step CmdOpen in auto)
next
  case (CmdClose i)
  show ?thesis
  proof (cases "map_of (ow_documents ow) i")
    case (Some md)
    obtain md1 w1 where c: "cancel_and_clear md w = (md1, w1)" by fastforce
    note e = md_inv_clear[OF owner_inv_document[OF inv Some] c]
    show ?thesis
      using step CmdClose Some c owner_inv_set[OF owner_inv_cancels[OF inv e(2)]] e(1,2) by (auto simp: Let_def)
  qed (use inv step CmdClose in auto)
next
  case (CmdReplace i cls xs a)
  show ?thesis
  proof (cases "map_of (ow_documents ow) i")
    case (Some md)
    let ?cap = "max_pending_per_document (ow_policy ow)"
    obtain n md1 w1 where r: "replace_class cls xs a ?cap md w = (n, md1, w1)" by (metis prod_cases3)
    have "0 < ?cap" using inv by (simp add: owner_inv_def)
    note e = md_inv_replace[OF owner_inv_document[OF inv Some] this r]
    then have "owner_inv (set_document i (if 0 < n then push_event (EvWorkRejected i cls n) md1 else md1) ow) w1"
      by (intro owner_inv_set[OF owner_inv_cancels[OF inv]]) (auto simp: Some)
    then show ?thesis using step CmdReplace Some r e by simp
  qed (use inv step CmdReplace in auto)
next
  case (CmdCancelClass i cls)
  show ?thesis
  proof (cases "map_of (ow_documents ow) i")
    case (Some md)
    obtain md1 w1 where d: "drop_class cls md w = (md1, w1)" by fastforce
    note e = md_inv_drop[OF owner_inv_document[OF inv Some] d]
    show ?thesis
      using step CmdCancelClass Some d owner_inv_set[OF owner_inv_cancels[OF inv e(2)]] e by auto
  qed (use inv step CmdCancelClass in auto)
qed

lemma flush_documents_spec:
  assumes "flush_documents deliver docs r = (docs', ids, r')"
  shows "map fst docs' = map fst docs"
    and "map_of docs' i = Some md' \<Longrightarrow> \<exists>md evs. map_of docs i = Some md \<and> md' = md\<lparr>md_pending_events := evs\<rparr>"
  using assms
proof (induction docs arbitrary: docs' ids r)
  case Nil
  { case 1 then show ?case by simp next case 2 then show ?case by simp }
next
  case (Cons d docs)
  obtain j md where d: "d = (j, md)" by fastforce
  { case 1 then show ?case using Cons.IH(1) d by (auto split: prod.splits)
  next
    case 2 then show ?case using Cons.IH(2) d by (auto split: prod.splits if_splits) }
qed

lemma flush_pending_events_inv:
  assumes inv: "owner_inv ow w" and step: "flush_pending_events deliver ow r w = (ow', r', w')"
  shows "owner_inv ow' w' \<and> only_cancels w w'"
proof -
  obtain docs ids r1 where f: "flush_documents deliver (ow_documents ow) r = (docs, ids, r1)" by (metis prod_cases3)
  have m: "remove_documents ids (ow\<lparr>ow_documents := docs\<rparr>) w = (ow', w')"
    using step f by (auto simp: flush_pending_events_def split: prod.splits)
  note k = flush_documents_spec[OF f]
  have keys: "dom (map_of docs) = dom (map_of (ow_documents ow))" and hm: "hm_ok docs"
    using inv k(1) by (auto simp: dom_map_of_conv_image_fst owner_inv_def hm_ok_def simp flip: set_map)
  have "owner_inv (ow\<lparr>ow_documents := docs\<rparr>) w"
    using inv keys hm by (intro owner_invI) (auto simp: owner_inv_def dest: k(2))
  then show ?thesis using remove_documents_inv m by blast
qed

lemma rotate_find_perm: "rotate_find n P rotation = (r, rotation') \<Longrightarrow> mset rotation' = mset rotation"
  by (induction n P rotation rule: rotate_find.induct) (auto split: if_splits)

lemma next_runnable_perm: "next_runnable ow = (r, rotation) \<Longrightarrow> mset rotation = mset (ow_rotation ow)"
  by (auto simp: next_runnable_def dest: rotate_find_perm split: option.splits)

lemma next_runnable_inv:
  assumes "owner_inv ow w" and "next_runnable ow = (r, rotation)"
  shows "owner_inv (ow\<lparr>ow_rotation := rotation\<rparr>) w"
  using owner_inv_rotation[OF assms(1)] next_runnable_perm[OF assms(2)] assms(1)
  by (metis mset_eq_imp_distinct_iff mset_eq_setD owner_inv_def)

lemma serve_inv:
  assumes inv: "owner_inv ow w" and ok: "engine_ok ops" and step: "serve ops i ow w = (ow', w')"
  shows "owner_inv ow' w' \<and> world_le w w'"
proof (cases "map_of (ow_documents ow) i")
  case None
  then show ?thesis using step inv by (simp add: serve_def)
next
  case (Some md)
  let ?cap = "max_pending_per_document (ow_policy ow)"
  note md = owner_inv_document[OF inv Some]
  obtain r md1 where p: "pop_pending md = (r, md1)" by fastforce
  have md1: "md_inv ?cap md1 w"
    using p md md_inv_pending'[OF md pending_ok_remove] by (auto simp: pop_pending_def md_inv_def split: option.splits)
  show ?thesis
  proof (cases r)
    case None
    then show ?thesis using step Some p md1 owner_inv_set[OF inv] by (auto simp: serve_def)
  next
    case (Some q)
    obtain e md2 w2 where w: "process_work ops (ow_engine ow) i q md1 w = (e, md2, w2)" by (metis prod_cases3)
    note i = process_work_inv[OF md1 ok w]
    have "owner_inv ow w2" using owner_inv_env[OF inv] i md_inv_wf by blast
    then have "owner_inv (set_document i md2 ow) w2" using owner_inv_set \<open>map_of (ow_documents ow) i = Some md\<close> i by blast
    then show ?thesis using step \<open>map_of (ow_documents ow) i = Some md\<close> p Some w i by (auto simp: serve_def)
  qed
qed

section \<open>Reachable states\<close>

text \<open>The owner starts without documents; then it accepts commands in any order, delivers events, picks
  and does work, while clients and engines act on the shared world.\<close>

inductive owner_run :: "('eng, 's, 'd, 'e) engine_ops \<Rightarrow> ('e, 'r) routes \<Rightarrow> ('eng, 'd, 's, 'e) owner \<Rightarrow> world \<Rightarrow> bool"
  for ops deliver where
  or_init: "wf_world w \<Longrightarrow> supervisor_policy_new pending events = Inr policy \<Longrightarrow>
      owner_run ops deliver (owner_new ops engine policy) w"
| or_command: "owner_run ops deliver ow w \<Longrightarrow> accept_command c ow w = (go, ow', w') \<Longrightarrow> owner_run ops deliver ow' w'"
| or_flush: "owner_run ops deliver ow w \<Longrightarrow> flush_pending_events deliver ow r w = (ow', r', w') \<Longrightarrow> owner_run ops deliver ow' w'"
| or_pick: "owner_run ops deliver ow w \<Longrightarrow> next_runnable ow = (i, rotation) \<Longrightarrow> owner_run ops deliver (ow\<lparr>ow_rotation := rotation\<rparr>) w"
| or_serve: "owner_run ops deliver ow w \<Longrightarrow> serve ops i ow w = (ow', w') \<Longrightarrow> owner_run ops deliver ow' w'"
| or_env: "owner_run ops deliver ow w \<Longrightarrow> world_le w w' \<Longrightarrow> wf_world w' \<Longrightarrow> owner_run ops deliver ow w'"

lemma owner_new_inv: "wf_world w \<Longrightarrow> supervisor_policy_new pending events = Inr policy \<Longrightarrow> owner_inv (owner_new ops engine policy) w"
  by (auto simp: owner_inv_def owner_new_def supervisor_policy_new_def split: if_splits)

lemma owner_run_inv:
  assumes "owner_run ops deliver ow w" and ok: "engine_ok ops"
  shows "owner_inv ow w"
  using assms(1)
proof (induction rule: owner_run.induct)
  case or_init
  then show ?case by (rule owner_new_inv)
next
  case (or_command ow w c go ow' w')
  show ?case using accept_command_inv[OF or_command(3,2)] by (rule conjunct1)
next
  case (or_flush ow w r ow' r' w')
  show ?case using flush_pending_events_inv[OF or_flush(3,2)] by (rule conjunct1)
next
  case (or_pick ow w i rotation)
  show ?case by (rule next_runnable_inv[OF or_pick(3,2)])
next
  case (or_serve ow w i ow' w')
  show ?case using serve_inv[OF or_serve(3) ok or_serve(2)] by (rule conjunct1)
next
  case (or_env ow w w')
  show ?case by (rule owner_inv_env[OF or_env(4,2,3)])
qed

text \<open>The iterations of the real loop stay among these states.\<close>

lemma drain_commands_run:
  "owner_run ops deliver ow w \<Longrightarrow> drain_commands cs ow w = (go, ow', w') \<Longrightarrow> owner_run ops deliver ow' w'"
proof (induction cs arbitrary: ow w)
  case (Cons c cs)
  obtain g ow1 w1 where a: "accept_command c ow w = (g, ow1, w1)" by (metis prod_cases3)
  have "owner_run ops deliver ow1 w1" using or_command[OF Cons.prems(1) a] .
  then show ?case using Cons.IH Cons.prems(2) a by (auto split: if_splits)
qed simp

lemma owner_iteration_run:
  assumes run: "owner_run ops deliver ow w" and step: "owner_iteration ops deliver inp ow r w = (go, ow', r', w')"
  shows "owner_run ops deliver ow' w'"
proof -
  obtain g ow1 w1 where d: "drain_commands (in_batch inp) ow w = (g, ow1, w1)" by (metis prod_cases3)
  note r1 = drain_commands_run[OF run d]
  obtain ow2 r2 w2 where f: "flush_pending_events deliver ow1 r w1 = (ow2, r2, w2)" by (metis prod_cases3)
  note r2 = or_flush[OF r1 f]
  obtain i rotation where n: "next_runnable ow2 = (i, rotation)" by fastforce
  note r3 = or_pick[OF r2 n]
  show ?thesis
    using step r1 r3 by (auto simp: owner_iteration_def d f n Let_def split: if_splits option.splits prod.splits
      intro: or_serve[OF r3] or_command[OF r3])
qed

end
