(* ===== verification/SupervisorProps.thy ===== *)
theory SupervisorProps
  imports SupervisorInv
begin

text \<open>
  The properties of the supervisor: bounded queues, fair scheduling by priority, loss-free delivery
  of events, the effect of replacing, closing and opening on other work, and the currency of what it
  publishes.
\<close>

section \<open>Bounds and scheduling\<close>

text \<open>C7: In every reachable state of the owner thread, whatever clients send and whatever the engine
  does: each document has at most \<open>max_pending_per_document\<close> pieces of work, at most one for each
  deduplication key, and the rotation lists every attached document exactly once.\<close>

theorem pending_work_is_bounded:
  assumes "owner_run ops deliver ow w" and "engine_ok ops"
    and "map_of (ow_documents ow) i = Some md"
  shows "length (md_pending md) \<le> max_pending_per_document (ow_policy ow) \<and>
    distinct (map fst (md_pending md)) \<and>
    distinct (ow_rotation ow) \<and> set (ow_rotation ow) = dom (map_of (ow_documents ow))"
  using owner_run_inv[OF assms(1,2)] assms(3)
  by (auto simp: owner_inv_def md_inv_def pending_ok_def hm_ok_def)

lemma rotate_find_Some:
  "rotate_find n P rotation = (Some i, rotation') \<Longrightarrow> n \<le> length rotation \<Longrightarrow>
   \<exists>xs ys. rotation = xs @ i # ys \<and> rotation' = ys @ xs @ [i] \<and> P i \<and> (\<forall>j \<in> set xs. \<not> P j)"
proof (induction n arbitrary: rotation)
  case (Suc n)
  then obtain j rest where r: "rotation = j # rest" by (cases rotation) auto
  show ?case
  proof (cases "P j")
    case True
    then show ?thesis using Suc.prems r by (intro exI[of _ "[]"] exI[of _ rest]) auto
  next
    case False
    have found: "rotate_find n P (rest @ [j]) = (Some i, rotation')" using Suc.prems(1) r False by simp
    obtain xs ys where x: "rest @ [j] = xs @ i # ys" "rotation' = ys @ xs @ [i]" "P i" "\<forall>k \<in> set xs. \<not> P k"
      using Suc.IH[OF found] Suc.prems(2) r by auto
    have "ys \<noteq> []" using x(1,3) False by (metis last_snoc)
    then obtain zs where ys: "ys = zs @ [j]" using x(1) by (metis append_butlast_last_id last.simps last_append last_snoc list.simps(3))
    then have "rest = xs @ i # zs" using x(1) by simp
    then show ?thesis using x ys r False by (intro exI[of _ "j # xs"] exI[of _ zs]) auto
  qed
qed simp

lemma rotate_find_None:
  "rotate_find n P rotation = (None, rotation') \<Longrightarrow> j \<in> set (take n rotation) \<Longrightarrow> n \<le> length rotation \<Longrightarrow> \<not> P j"
proof (induction n arbitrary: rotation)
  case (Suc n)
  then obtain k rest where r: "rotation = k # rest" by (cases rotation) auto
  have "\<not> P k" and n: "rotate_find n P (rest @ [k]) = (None, rotation')" using Suc.prems(1) r by (auto split: if_splits)
  moreover have "take n (rest @ [k]) = take n rest" using Suc.prems(3) r by simp
  ultimately show ?case using Suc.IH[OF n] Suc.prems(2,3) r by auto
qed simp

lemma map_filter_ne: "List.map_filter f xs \<noteq> [] \<longleftrightarrow> (\<exists>x \<in> set xs. f x \<noteq> None)"
  by (induction xs) (auto simp: map_filter_simps split: option.splits)

lemma map_filter_mem: "y \<in> set (List.map_filter f xs) \<longleftrightarrow> (\<exists>x \<in> set xs. f x = Some y)"
  by (induction xs) (auto simp: map_filter_simps split: option.splits)

lemma next_runnable_Some:
  assumes "next_runnable ow = (Some i, rotation)"
  obtains h xs ys where "runnable_priority ow i = Some h" and "ow_rotation ow = xs @ i # ys"
    and "rotation = ys @ xs @ [i]" and "\<forall>j \<in> set xs. runnable_priority ow j \<noteq> Some h"
    and "\<forall>j \<in> set (ow_rotation ow). case runnable_priority ow j of None \<Rightarrow> True | Some p \<Rightarrow> p \<le> h"
proof -
  let ?ps = "List.map_filter (runnable_priority ow) (ow_rotation ow)"
  obtain h where h: "max_by_key (\<lambda>p. p) ?ps = Some h"
    and f: "rotate_find (length (ow_rotation ow)) (\<lambda>i. runnable_priority ow i = Some h) (ow_rotation ow) = (Some i, rotation)"
    using assms by (auto simp: next_runnable_def split: option.splits)
  have "\<forall>j \<in> set (ow_rotation ow). case runnable_priority ow j of None \<Rightarrow> True | Some p \<Rightarrow> p \<le> h"
    using max_by_key_Some(2)[OF h] by (auto simp: map_filter_mem split: option.splits)
  then show thesis using rotate_find_Some[OF f] that by auto
qed

lemma next_runnable_None:
  "fst (next_runnable ow) = None \<longleftrightarrow> (\<forall>j \<in> set (ow_rotation ow). runnable_priority ow j = None)"
proof (cases "max_by_key (\<lambda>p. p) (List.map_filter (runnable_priority ow) (ow_rotation ow))")
  case None
  then have "List.map_filter (runnable_priority ow) (ow_rotation ow) = []" by (simp only: max_by_key_None)
  then have "\<forall>j \<in> set (ow_rotation ow). runnable_priority ow j = None" by (metis map_filter_ne)
  then show ?thesis using None by (simp add: next_runnable_def)
next
  case (Some h)
  obtain j where j: "j \<in> set (ow_rotation ow)" "runnable_priority ow j = Some h"
    using max_by_key_Some(1)[OF Some] by (auto simp: map_filter_mem)
  obtain r rotation where f: "rotate_find (length (ow_rotation ow)) (\<lambda>i. runnable_priority ow i = Some h) (ow_rotation ow) = (r, rotation)"
    by fastforce
  have "r \<noteq> None"
  proof
    assume "r = None"
    then show False using rotate_find_None[OF f[unfolded \<open>r = None\<close>], of j] j by simp
  qed
  then show ?thesis using j f by (auto simp: next_runnable_def Some)
qed

text \<open>C8: The document served next has the highest pending priority of all documents whose client
  keeps up, and a document with undelivered events is never served. Among equals the choice is fair:
  everyone who stood behind the chosen document, and everyone it overtook, stands before it afterwards,
  and it overtook only documents without work of that priority.\<close>

theorem next_runnable_is_fair:
  assumes "next_runnable ow = (Some i, rotation)"
  shows "\<exists>h md xs ys. map_of (ow_documents ow) i = Some md \<and> md_pending_events md = [] \<and>
    highest_pending_priority md = Some h \<and>
    ow_rotation ow = xs @ i # ys \<and> rotation = ys @ xs @ [i] \<and>
    (\<forall>j \<in> set xs. runnable_priority ow j \<noteq> Some h) \<and>
    (\<forall>j \<in> set (ow_rotation ow). case runnable_priority ow j of None \<Rightarrow> True | Some p \<Rightarrow> p \<le> h)"
proof -
  obtain h xs ys where n: "runnable_priority ow i = Some h" "ow_rotation ow = xs @ i # ys"
    "rotation = ys @ xs @ [i]" "\<forall>j \<in> set xs. runnable_priority ow j \<noteq> Some h"
    "\<forall>j \<in> set (ow_rotation ow). case runnable_priority ow j of None \<Rightarrow> True | Some p \<Rightarrow> p \<le> h"
    by (rule next_runnable_Some[OF assms])
  moreover obtain md where "map_of (ow_documents ow) i = Some md" "md_pending_events md = []"
    "highest_pending_priority md = Some h"
    using n(1) by (auto simp: runnable_priority_def split: option.splits if_splits)
  ultimately show ?thesis by blast
qed

definition total_pending :: "('eng, 'd, 's, 'e) owner \<Rightarrow> nat" where
  "total_pending ow = sum_list (map (\<lambda>(_, md). length (md_pending md)) (ow_documents ow))"

lemma sum_list_hm_insert:
  "distinct (map fst m) \<Longrightarrow> map_of m k = Some v \<Longrightarrow>
   sum_list (map (\<lambda>(_, v). f v) (hm_insert k u m)) + f v = sum_list (map (\<lambda>(_, v). f v) m) + (f u :: nat)"
  unfolding hm_insert_def by (induction m) (auto simp: map_of_eq_None_iff[symmetric] update_nonempty split: if_splits)

lemma process_work_pending:
  "process_work ops e i p md w = (e', md', w') \<Longrightarrow> md_pending md' = md_pending md"
  by (auto simp: process_work_def process_open_def push_event_def execute_render_def execute_text_def
      execute_preview_def execute_in_session_demand Let_def
      split: pending_kind.splits work.splits prod.splits sum.splits option.splits if_splits)

text \<open>A piece of work is done when the event it asks for was produced by carrying it out: an opening ends opened,
  cancelled or failed; a demand is executed, and its event names that demand. It is only discarded when no
  current session has its generation.\<close>

definition names_demand :: "'x \<Rightarrow> demand_stamp \<Rightarrow> ('x, 'r, 'e) work_event \<Rightarrow> bool" where
  "names_demand x st ev =
     (case ev of Ready y _ \<Rightarrow> y = x | WorkCancelled st' \<Rightarrow> st' = st | Discarded st' \<Rightarrow> st' = st | Failed st' _ \<Rightarrow> st' = st)"

definition work_done ::
  "('eng, 's, 'd, 'e) engine_ops \<Rightarrow> document_id \<Rightarrow> 's pending_work \<Rightarrow> ('d, 's, 'e) managed_document \<Rightarrow> world \<Rightarrow>
   'e supervisor_event \<Rightarrow> bool" where
  "work_done ops i p md w event =
     (let operation = source_token (pw_cancellation p);
          idle = (\<lambda>st. current_session md (st_generation st) w = None)
      in case pw_kind p of
        PendingOpen src \<Rightarrow> (\<exists>s h d. event = EvOpened i s h d) \<or> (\<exists>g. event = EvOpenCancelled i g) \<or> (\<exists>g e. event = EvOpenFailed i g e)
      | PendingEngine (RenderWork x) \<Rightarrow>
          (\<exists>ev. event = EvRendered i ev \<and> ev = fst (execute_render ops md x operation w) \<and> names_demand x (rd_stamp x) ev \<and>
             ((\<exists>st. ev = Discarded st) \<longleftrightarrow> idle (rd_stamp x)))
      | PendingEngine (TextWork x) \<Rightarrow>
          (\<exists>ev. event = EvTextExtracted i ev \<and> ev = fst (execute_text ops md x operation w) \<and> names_demand x (td_stamp x) ev \<and>
             ((\<exists>st. ev = Discarded st) \<longleftrightarrow> idle (td_stamp x)))
      | PendingEngine (PreviewWork x) \<Rightarrow>
          (\<exists>ev. event = EvPreviewRendered i ev \<and> ev = fst (execute_preview ops md x operation w) \<and> names_demand x (pd_stamp x) ev \<and>
             ((\<exists>st. ev = Discarded st) \<longleftrightarrow> idle (pd_stamp x))))"

lemma execute_in_session_event:
  assumes "execute_in_session md st operation page call check wrap x w = (ev, md', w')"
  shows "names_demand x st ev" and "(\<exists>st'. ev = Discarded st') \<longleftrightarrow> current_session md (st_generation st) w = None"
    and "md_pending md' = md_pending md" and "md_pending_events md' = md_pending_events md"
  using assms unfolding execute_in_session_def Let_def names_demand_def
  by (simp_all split: option.splits if_splits sum.splits prod.splits) auto

lemma process_work_done:
  assumes "process_work ops e i p md w = (e', md', w')"
  shows "\<exists>ev. work_done ops i p md w ev \<and> md_pending_events md' = md_pending_events md @ [ev]"
proof (cases "pw_kind p")
  case (PendingOpen src)
  then show ?thesis using assms
    by (auto simp: process_work_def process_open_def push_event_def work_done_def Let_def
        split: prod.splits sum.splits if_splits)
next
  case (PendingEngine x)
  show ?thesis
  proof (cases x)
    case (RenderWork d)
    obtain r md1 w1 where r: "execute_render ops md d (source_token (pw_cancellation p)) w = (r, md1, w1)" by (metis prod_cases3)
    note e = execute_in_session_event[OF r[unfolded execute_render_def]]
    show ?thesis using assms PendingEngine RenderWork r e
      by (intro exI[of _ "EvRendered i r"]) (auto simp: process_work_def push_event_def work_done_def Let_def)
  next
    case (TextWork d)
    obtain r md1 w1 where r: "execute_text ops md d (source_token (pw_cancellation p)) w = (r, md1, w1)" by (metis prod_cases3)
    note e = execute_in_session_event[OF r[unfolded execute_text_def]]
    show ?thesis using assms PendingEngine TextWork r e
      by (intro exI[of _ "EvTextExtracted i r"]) (auto simp: process_work_def push_event_def work_done_def Let_def)
  next
    case (PreviewWork d)
    obtain r md1 w1 where r: "execute_preview ops md d (source_token (pw_cancellation p)) w = (r, md1, w1)" by (metis prod_cases3)
    note e = execute_in_session_event[OF r[unfolded execute_preview_def]]
    show ?thesis using assms PendingEngine PreviewWork r e
      by (intro exI[of _ "EvPreviewRendered i r"]) (auto simp: process_work_def push_event_def work_done_def Let_def)
  qed
qed

text \<open>C30: Progress: whenever the owner picks a document it takes its most urgent piece of work out of the queue,
  the newest among equals, carries it out, and leaves exactly its event for the client; no other document
  and no other work changes. It picks none only if no client that keeps up has any work pending.\<close>

theorem serving_completes_one_work:
  assumes "owner_run ops deliver ow w" and "engine_ok ops"
  shows "(case next_runnable ow of
      (Some i, rotation) \<Rightarrow>
        (\<exists>md k p md' ev. map_of (ow_documents ow) i = Some md \<and> (k, p) \<in> set (md_pending md) \<and>
           (\<forall>kp \<in> set (md_pending md). pending_rank kp \<le> pending_rank (k, p)) \<and>
           map_of (ow_documents (fst (serve ops i (ow\<lparr>ow_rotation := rotation\<rparr>) w))) = (map_of (ow_documents ow))(i \<mapsto> md') \<and>
           md_pending md' = hm_remove k (md_pending md) \<and> md_pending_events md' = [ev] \<and>
           work_done ops i p (md\<lparr>md_pending := hm_remove k (md_pending md)\<rparr>) w ev) \<and>
        Suc (total_pending (fst (serve ops i (ow\<lparr>ow_rotation := rotation\<rparr>) w))) = total_pending ow
    | (None, _) \<Rightarrow>
        list_all (\<lambda>(_, md). md_pending_events md = [] \<longrightarrow> md_pending md = []) (ow_documents ow))"
proof -
  have inv: "owner_inv ow w" using assms by (rule owner_run_inv)
  obtain r rotation where n: "next_runnable ow = (r, rotation)" by fastforce
  show ?thesis
  proof (cases r)
    case None
    have "md_pending md = []" if "(i, md) \<in> set (ow_documents ow)" "md_pending_events md = []" for i md
    proof -
      have m: "map_of (ow_documents ow) i = Some md" using inv that(1) by (simp add: owner_inv_def hm_ok_def)
      then have "i \<in> set (ow_rotation ow)" using inv by (auto simp: owner_inv_def)
      then have "runnable_priority ow i = None" using next_runnable_None[of ow] n None by auto
      then show ?thesis using m that(2) by (simp add: runnable_priority_def highest_pending_priority_def)
    qed
    then show ?thesis using n None by (auto simp: list_all_iff)
  next
    case (Some i)
    obtain h where "runnable_priority ow i = Some h" using next_runnable_Some n Some by metis
    then obtain md where at: "map_of (ow_documents ow) i = Some md" and high: "highest_pending_priority md = Some h"
      and idle: "md_pending_events md = []"
      by (auto simp: runnable_priority_def split: option.splits if_splits)
    have "md_pending md \<noteq> []" using high by (auto simp: highest_pending_priority_def)
    note md = at this
    have ok: "hm_ok (md_pending md)" and dist: "distinct (map fst (ow_documents ow))"
      using owner_inv_document[OF inv md(1)] inv by (auto simp: md_inv_def pending_ok_def owner_inv_def hm_ok_def)
    obtain k p where kp: "max_by_key pending_rank (md_pending md) = Some (k, p)"
      using md(2) by (cases "max_by_key pending_rank (md_pending md)") auto
    have "map_of (md_pending md) k = Some p"
      using max_by_key_Some(1)[OF kp] ok by (simp add: hm_ok_def)
    then have len: "Suc (length (hm_remove k (md_pending md))) = length (md_pending md)"
      using hm.length_remove[OF ok, of k] md(2) by simp
    obtain e md' w' where w: "process_work ops (ow_engine ow) i p (md\<lparr>md_pending := hm_remove k (md_pending md)\<rparr>) w = (e, md', w')"
      by (metis prod_cases3)
    have sv: "fst (serve ops i (ow\<lparr>ow_rotation := rotation\<rparr>) w)
        = (set_document i md' (ow\<lparr>ow_rotation := rotation\<rparr>))\<lparr>ow_engine := e\<rparr>"
      using md(1) kp w by (simp add: serve_def pop_pending_def)
    obtain ev where ev: "work_done ops i p (md\<lparr>md_pending := hm_remove k (md_pending md)\<rparr>) w ev" "md_pending_events md' = [ev]"
      using process_work_done[OF w] idle by auto
    have "\<forall>kq \<in> set (md_pending md). pending_rank kq \<le> pending_rank (k, p)" "(k, p) \<in> set (md_pending md)"
      using max_by_key_Some(1,2)[OF kp] by auto
    moreover have "Suc (total_pending (fst (serve ops i (ow\<lparr>ow_rotation := rotation\<rparr>) w))) = total_pending ow"
      using len process_work_pending[OF w] sum_list_hm_insert[OF dist md(1), of "\<lambda>md. length (md_pending md)" md']
      by (simp add: sv total_pending_def set_document_def)
    moreover have "map_of (ow_documents (fst (serve ops i (ow\<lparr>ow_rotation := rotation\<rparr>) w))) = (map_of (ow_documents ow))(i \<mapsto> md')"
      by (simp add: sv set_document_def)
    moreover have "md_pending md' = hm_remove k (md_pending md)" using process_work_pending[OF w] by simp
    moreover have "next_runnable ow = (Some i, rotation)" using n Some by simp
    ultimately show ?thesis
      using ev md(1) by (simp only: prod.case option.case) blast
  qed
qed

section \<open>Delivery\<close>

lemma routes_okD: "routes_ok deliver \<Longrightarrow> deliver i ev r = (RouteFull ev', r') \<Longrightarrow> ev' = ev"
  unfolding routes_ok_def by blast

text \<open>The events a route accepts from a queue, in order.\<close>

fun accepted_events ::
  "('e, 'r) routes \<Rightarrow> document_id \<Rightarrow> 'e supervisor_event list \<Rightarrow> 'r \<Rightarrow> 'e supervisor_event list" where
  "accepted_events deliver i [] r = []"
| "accepted_events deliver i (ev # evs) r =
     (case deliver i ev r of (Delivered, r') \<Rightarrow> ev # accepted_events deliver i evs r' | _ \<Rightarrow> [])"

text \<open>Events are delivered in order, without loss, duplication or reordering: what the route accepts
  followed by what stays queued is exactly the queue as it was, unless the client has gone, and then
  only its own queue is given up.\<close>

theorem events_are_delivered_in_order:
  assumes "routes_ok deliver" and "flush_events deliver i evs r = (left, gone, r')"
  shows "(if gone then \<exists>lost. evs = accepted_events deliver i evs r @ lost # left
          else evs = accepted_events deliver i evs r @ left)"
  using assms(2)
proof (induction evs arbitrary: r)
  case (Cons ev evs)
  then show ?case
    by (cases "deliver i ev r"; cases "fst (deliver i ev r)") (auto dest: routes_okD[OF assms(1)] split: if_splits)
qed simp

section \<open>Replacing, closing and opening\<close>

definition batch_only :: "source \<Rightarrow> (work_key, 's pending_work) hash_map \<Rightarrow> bool" where
  "batch_only c pending \<longleftrightarrow> (\<forall>(k, p) \<in> set pending. k = OpenKey \<or> pw_cancellation p = c)"

lemma hm_ok_length: "hm_ok m \<Longrightarrow> length m = card (set m)"
  by (simp add: hm_ok_def distinct_map distinct_card)

lemma evicted_toD:
  assumes "evicted_to cap pending w n pending' w'"
  shows "kp \<in> set pending - set pending' \<Longrightarrow> fst kp \<noteq> OpenKey"
    and "kp \<in> set pending - set pending' \<Longrightarrow> flag w' (pw_cancellation (snd kp))"
    and "set pending' \<subseteq> set pending"
  using assms unfolding evicted_to_def by blast+

lemma admit_batch:
  assumes ok: "hm_ok (md_pending md)" and only: "batch_only c (md_pending md)"
    and step: "admit class c cap x md w = (n, md', w')"
  shows "hm_ok (md_pending md')" and "batch_only c (md_pending md')" and "only_cancels w w'"
    and "0 < n \<Longrightarrow> flag w' c" and "map_of (md_pending md) (work_key_of class x) \<noteq> None \<Longrightarrow> flag w' c"
    and "k = work_key_of class x \<or> map_of (md_pending md) k \<noteq> None \<Longrightarrow> map_of (md_pending md') k \<noteq> None \<or> flag w' c"
proof -
  let ?k = "work_key_of class x"
  let ?p = "\<lparr>pw_sequence = md_next_sequence md, pw_priority = work_priority x,
         pw_class = Some class, pw_cancellation = c, pw_kind = PendingEngine x\<rparr>"
  let ?w1 = "case map_of (md_pending md) ?k of None \<Rightarrow> w | Some previous \<Rightarrow> snd (source_cancel (pw_cancellation previous) w)"
  obtain n1 pending w2 where r: "evict_over cap (hm_insert ?k ?p (md_pending md)) ?w1 = (n1, pending, w2)"
    by (metis prod_cases3)
  have out: "n = n1" "w' = w2" "md_pending md' = pending"
    using step r by (auto simp: admit_def allocate_sequence_def Let_def)
  have ins: "hm_ok (hm_insert ?k ?p (md_pending md))" using ok by simp
  have e: "evicted_to cap (hm_insert ?k ?p (md_pending md)) ?w1 n pending w'"
    using evict_over_spec[OF ins r] out by simp
  then have ok': "hm_ok pending" and mono: "\<And>a. flag ?w1 a \<Longrightarrow> flag w' a" by (simp_all add: evicted_to_def)
  have only': "batch_only c (hm_insert ?k ?p (md_pending md))"
    using only set_hm_insert[of ?k ?p "md_pending md"] by (fastforce simp: batch_only_def)
  show "hm_ok (md_pending md')" using ok' out by simp
  show "batch_only c (md_pending md')" using only' evicted_toD(3)[OF e] out by (auto simp: batch_only_def)
  have "only_cancels w ?w1" by (simp split: option.split)
  then show "only_cancels w w'" using evicted_only_cancels[OF e] only_cancels_trans by blast
  have gone: "flag w' c" if "kp \<in> set (hm_insert ?k ?p (md_pending md)) - set pending" for kp
    using evicted_toD(1,2)[OF e that] only' that unfolding batch_only_def by (cases kp) auto
  show "flag w' c" if "0 < n"
  proof -
    have len: "length (hm_insert ?k ?p (md_pending md)) = n + length pending"
      and sub: "set pending \<subseteq> set (hm_insert ?k ?p (md_pending md))"
      using e by (simp_all add: evicted_to_def)
    have "card (set (hm_insert ?k ?p (md_pending md))) \<noteq> card (set pending)"
      using len that by (simp add: hm_ok_length[OF ins, symmetric] hm_ok_length[OF ok', symmetric])
    then have "set (hm_insert ?k ?p (md_pending md)) \<noteq> set pending" by metis
    then obtain kp where "kp \<in> set (hm_insert ?k ?p (md_pending md)) - set pending" using sub by blast
    then show ?thesis by (rule gone)
  qed
  show "flag w' c" if prev: "map_of (md_pending md) ?k \<noteq> None"
  proof -
    obtain q where q: "map_of (md_pending md) ?k = Some q" using prev by blast
    then have "pw_cancellation q = c" using only by (auto simp: batch_only_def dest!: map_of_SomeD)
    then have "flag ?w1 c" by (simp add: q source_cancel_simps)
    then show ?thesis by (rule mono)
  qed
  show "map_of (md_pending md') k \<noteq> None \<or> flag w' c" if k: "k = ?k \<or> map_of (md_pending md) k \<noteq> None"
  proof -
    have "map_of (hm_insert ?k ?p (md_pending md)) k \<noteq> None" using k by auto
    then obtain q where "(k, q) \<in> set (hm_insert ?k ?p (md_pending md))" by (metis map_of_SomeD not_None_eq)
    then show ?thesis using gone ok' by (cases "(k, q) \<in> set pending") (auto simp: out hm_ok_def)
  qed
qed

lemma admit_all_batch:
  assumes "hm_ok (md_pending md)" and "batch_only c (md_pending md)"
    and "admit_all class c cap xs md w = (n, md', w')"
  shows "batch_only c (md_pending md') \<and> only_cancels w w' \<and> (0 < n \<longrightarrow> flag w' c) \<and>
    (\<forall>x \<in> set xs. map_of (md_pending md) (work_key_of class x) \<noteq> None \<longrightarrow> flag w' c) \<and>
    (distinct (map (work_key_of class) xs) \<or> flag w' c)"
  using assms
proof (induction xs arbitrary: md w n)
  case (Cons x xs)
  obtain n1 md1 w1 where a: "admit class c cap x md w = (n1, md1, w1)" by (metis prod_cases3)
  obtain n2 where r: "admit_all class c cap xs md1 w1 = (n2, md', w')" and n: "n = n1 + n2"
    using Cons.prems(3) a by (auto split: prod.splits)
  note s = admit_batch[OF Cons.prems(1,2) a]
  note ih = Cons.IH[OF s(1,2) r]
  have mono: "flag w1 c \<Longrightarrow> flag w' c" using ih by (simp add: only_cancels_def)
  have later: "flag w' c" if "y \<in> set xs" "work_key_of class y = work_key_of class x \<or> map_of (md_pending md) (work_key_of class y) \<noteq> None" for y
    using s(6)[of "work_key_of class y"] ih mono that by blast
  have "flag w' c \<or> work_key_of class x \<notin> work_key_of class ` set xs" using later by fastforce
  then show ?case
    using ih s(3,4,5) mono later only_cancels_trans n by (auto simp: only_cancels_trans[OF s(3)])
qed simp

text \<open>Work whose token is cancelled never reaches the engine, in no world where what was cancelled stays so: neither
  the document nor the world is touched, and nothing is ready.\<close>

definition never_executed :: "('eng, 's, 'd, 'e) engine_ops \<Rightarrow> token \<Rightarrow> world \<Rightarrow> bool" where
  "never_executed ops t w \<longleftrightarrow>
     (\<forall>w' (md :: ('d, 's, 'e) managed_document) x y z. (\<forall>a. flag w a \<longrightarrow> flag w' a) \<longrightarrow>
        (\<exists>ev. execute_render ops md x t w' = (ev, md, w') \<and> (\<forall>d r. ev \<noteq> Ready d r)) \<and>
        (\<exists>ev. execute_text ops md y t w' = (ev, md, w') \<and> (\<forall>d r. ev \<noteq> Ready d r)) \<and>
        (\<exists>ev. execute_preview ops md z t w' = (ev, md, w') \<and> (\<forall>d r. ev \<noteq> Ready d r)))"

lemma cancelled_never_executed:
  assumes "token_is_cancelled t w"
  shows "never_executed ops t w"
proof -
  have "token_is_cancelled t w'" if "\<forall>a. flag w a \<longrightarrow> flag w' a" for w' :: world
    using assms that by (auto simp: token_is_cancelled_def list_ex_iff)
  then show ?thesis
    by (auto simp: never_executed_def execute_render_def execute_text_def execute_preview_def execute_in_session_def
        Let_def split: option.split)
qed

text \<open>C29: All work of one batch shares one cancellation source, and dropping any of it cancels that source. In a
  queue whose other work is only an opening (or older work of the same class, which the batch replaces), when a
  batch overflows the queue, or contains two demands with one deduplication key, every demand of the batch that
  is still queued is cancelled too, and executing it, then or later, never reaches the engine. (Next to work of
  another class an overflow may evict only that, and leave the batch alone.)\<close>

theorem overflow_cancels_the_whole_batch:
  assumes "pending_ok cap (md_pending md)"
    and "\<forall>kp \<in> set (md_pending md). fst kp = OpenKey \<or> pw_class (snd kp) = Some class"
    and "replace_class class xs c cap md w = (n, md', w')"
    and "0 < n \<or> \<not> distinct (map (work_key_of class) xs)"
    and "(k, p) \<in> set (md_pending md')" and "k \<noteq> OpenKey"
  shows "token_is_cancelled (source_token (pw_cancellation p)) w' \<and>
    never_executed ops (source_token (pw_cancellation p)) w'"
proof -
  obtain md1 w1 where d: "drop_class class md w = (md1, w1)" by fastforce
  have a: "admit_all class c cap xs md1 w1 = (n, md', w')" using assms(3) d by (simp add: replace_class_def)
  have "md_pending md1 = filter (\<lambda>(_, p). pw_class p \<noteq> Some class) (md_pending md)"
    using d by (auto simp: drop_class_def)
  then have "hm_ok (md_pending md1)" and "batch_only c (md_pending md1)"
    using assms(1,2) by (auto simp: pending_ok_def batch_only_def)
  note b = admit_all_batch[OF this a]
  then have "flag w' c" using assms(4) by blast
  moreover have "pw_cancellation p = c" using b assms(5,6) by (auto simp: batch_only_def)
  ultimately have "token_is_cancelled (source_token (pw_cancellation p)) w'" by simp
  then show ?thesis using cancelled_never_executed by blast
qed

lemma hm_insert_Nil: "hm_insert k v [] = [(k, v)]"
  by (simp add: hm_insert_def)

text \<open>Closing a document, or opening another source in it, takes effect on everything at once: every
  piece of pending work is cancelled and gone, the current session is cancelled, no document is open,
  and a demand that arrives later with any earlier generation is discarded without reaching the engine.
  After \<open>Open\<close> only the opening itself is pending.\<close>

theorem close_and_open_cancel_everything:
  assumes "owner_run ops deliver ow w" and "engine_ok ops"
    and "map_of (ow_documents ow) i = Some md"
    and "cmd = CmdClose i \<or> cmd = CmdOpen i src c"
    and "accept_command cmd ow w = (go, ow', w')" and "map_of (ow_documents ow') i = Some md'"
  shows "(\<forall>kp \<in> set (md_pending md). flag w' (pw_cancellation (snd kp))) \<and>
    (\<forall>s. active (md_sessions md) = Some s \<longrightarrow> session_is_cancelled s w') \<and>
    md_document md' = None \<and> fst ` set (md_pending md') \<subseteq> {OpenKey} \<and>
    execute_render ops md' x operation w'' = (Discarded (rd_stamp x), md', w'') \<and>
    execute_text ops md' y operation w'' = (Discarded (td_stamp y), md', w'') \<and>
    execute_preview ops md' z operation w'' = (Discarded (pd_stamp z), md', w'')"
proof -
  have inv: "owner_inv ow w" using assms(1,2) by (rule owner_run_inv)
  obtain md1 w1 where cl: "cancel_and_clear md w = (md1, w1)" by fastforce
  note e = md_inv_clear[OF owner_inv_document[OF inv assms(3)] cl]
  have "w' = w1 \<and> md_sessions md' = md_sessions md1 \<and> md_document md' = None \<and> fst ` set (md_pending md') \<subseteq> {OpenKey}"
    using assms(4)
  proof
    assume "cmd = CmdClose i"
    then show ?thesis using assms(3,5,6) cl e(3,4) by (auto simp: Let_def set_document_def push_event_def)
  next
    assume "cmd = CmdOpen i src c"
    then show ?thesis using assms(3,5,6) cl e(3,4)
      by (auto simp: Let_def set_document_def allocate_sequence_def hm_insert_Nil)
  qed
  then show ?thesis
    using e(5,6,7) by (simp add: execute_render_def execute_text_def execute_preview_def execute_in_session_demand
        current_session_def manager_current_def)
qed

section \<open>The refinement\<close>

text \<open>What \<open>EngineDocument::descriptor\<close> promises by handing out a reference: the engine does not change the
  descriptor of a document while it works on it.\<close>

definition descriptor_fixed :: "('eng, 's, 'd, 'e) engine_ops \<Rightarrow> bool" where
  "descriptor_fixed ops \<longleftrightarrow>
     (\<forall>d x t w. op_descriptor ops (fst (snd (op_render ops d x t w))) = op_descriptor ops d) \<and>
     (\<forall>d x t w. op_descriptor ops (fst (snd (op_extract_text ops d x t w))) = op_descriptor ops d) \<and>
     (\<forall>d x t w. op_descriptor ops (fst (snd (op_render_preview ops d x t w))) = op_descriptor ops d)"

definition all_cached :: "('eng, 's, 'd, 'e) engine_ops \<Rightarrow> ('eng, 'd, 's, 'e) owner \<Rightarrow> bool" where
  "all_cached ops ow \<longleftrightarrow> (\<forall>i md. map_of (ow_documents ow) i = Some md \<longrightarrow> descriptor_cached ops md)"

lemma cached_cong:
  "md_document md' = md_document md \<Longrightarrow> md_descriptor md' = md_descriptor md \<Longrightarrow> descriptor_cached ops md' = descriptor_cached ops md"
  by (simp add: descriptor_cached_def)

lemma set_document_cached: "all_cached ops ow \<Longrightarrow> descriptor_cached ops md \<Longrightarrow> all_cached ops (set_document i md ow)"
  by (simp add: all_cached_def set_document_def)

lemma push_cached [simp]: "descriptor_cached ops (push_event ev md) = descriptor_cached ops md"
  by (simp add: push_event_def descriptor_cached_def)

lemma new_cached [simp]: "descriptor_cached ops managed_new"
  by (simp add: managed_new_def descriptor_cached_def)

lemma clear_cached: "cancel_and_clear md w = (md', w') \<Longrightarrow> descriptor_cached ops md'"
  by (auto simp: cancel_and_clear_def descriptor_cached_def split: prod.splits)

lemma admit_frame:
  "admit class c cap x md w = (n, md', w') \<Longrightarrow> md_document md' = md_document md \<and> md_descriptor md' = md_descriptor md"
  by (auto simp: admit_def allocate_sequence_def Let_def split: prod.splits)

lemma admit_all_frame:
  "admit_all class c cap xs md w = (n, md', w') \<Longrightarrow> md_document md' = md_document md \<and> md_descriptor md' = md_descriptor md"
proof (induction xs arbitrary: md w n)
  case (Cons x xs)
  obtain m md1 w1 where a: "admit class c cap x md w = (m, md1, w1)" by (metis prod_cases3)
  show ?case using Cons.IH[of md1 w1] Cons.prems admit_frame[OF a] by (auto simp: a split: prod.splits)
qed simp

lemma replace_class_cached: "replace_class class xs c cap md w = (n, md', w') \<Longrightarrow> descriptor_cached ops md' = descriptor_cached ops md"
  by (rule cached_cong) (auto simp: replace_class_def drop_class_def dest!: admit_all_frame)

lemma remove_document_cached: "all_cached ops ow \<Longrightarrow> all_cached ops (fst (remove_document i ow w))"
  by (auto simp: all_cached_def remove_document_def)

lemma remove_documents_cached: "all_cached ops ow \<Longrightarrow> remove_documents ids ow w = (ow', w') \<Longrightarrow> all_cached ops ow'"
proof (induction ids arbitrary: ow w)
  case (Cons i ids)
  obtain ow1 w1 where r: "remove_document i ow w = (ow1, w1)" by fastforce
  then show ?case using Cons remove_document_cached[of ops ow i w] by auto
qed simp

lemma accept_command_cached:
  assumes "all_cached ops ow" "accept_command cmd ow w = (go, ow', w')"
  shows "all_cached ops ow'"
proof (cases cmd)
  case (CmdAttach i)
  have "all_cached ops (set_document i (push_event ev managed_new) ow)" for ev
    using assms(1) by (rule set_document_cached) simp
  then show ?thesis using assms CmdAttach by (auto simp: all_cached_def set_document_def split: if_splits)
next
  case (CmdOpen i src c)
  have "descriptor_cached ops (md\<lparr>md_next_sequence := n, md_pending := q\<rparr>)" if "cancel_and_clear md0 w = (md, w1)" for md md0 w1 n q
    using clear_cached[OF that] by (simp add: descriptor_cached_def)
  then show ?thesis using assms CmdOpen
    by (auto simp: allocate_sequence_def split: option.splits prod.splits intro!: set_document_cached)
next
  case (CmdClose i)
  then show ?thesis using assms
    by (auto simp: Let_def split: option.splits prod.splits intro!: set_document_cached dest: clear_cached)
next
  case (CmdReplace i cls xs c)
  show ?thesis
  proof (cases "map_of (ow_documents ow) i")
    case (Some md)
    then have "descriptor_cached ops md" using assms(1) by (simp add: all_cached_def)
    then show ?thesis using assms CmdReplace Some
      by (auto simp: replace_class_cached split: prod.splits if_splits intro!: set_document_cached)
  qed (use assms CmdReplace in simp)
next
  case (CmdCancelClass i cls)
  show ?thesis
  proof (cases "map_of (ow_documents ow) i")
    case (Some md)
    then have "descriptor_cached ops md" using assms(1) by (simp add: all_cached_def)
    then show ?thesis using assms CmdCancelClass Some
      by (auto simp: drop_class_def descriptor_cached_def intro!: set_document_cached)
  qed (use assms CmdCancelClass in simp)
next
  case (CmdDetach i)
  then show ?thesis using assms remove_document_cached[of ops ow i w] by (auto split: prod.splits)
qed (use assms in simp)

lemma execute_cached:
  assumes "descriptor_cached ops md" "\<And>d t w. op_descriptor ops (fst (snd (call d t w))) = op_descriptor ops d"
    and "execute_in_session md st operation page call check wrap x w = (ev, md', w')"
  shows "descriptor_cached ops md'"
proof (cases "md' = md")
  case False
  then obtain d t where "md_document md = Some d" "md' = md\<lparr>md_document := Some (fst (snd (call d t w)))\<rparr>"
    using assms(3) unfolding execute_in_session_def Let_def
    by (auto split: option.splits if_splits sum.splits prod.splits) (metis fst_conv snd_conv)+
  then show ?thesis using assms(1,2) by (simp add: descriptor_cached_def)
qed (use assms(1) in simp)

lemma process_work_cached:
  assumes c: "descriptor_cached ops md" and f: "descriptor_fixed ops" and p: "process_work ops e i p md w = (e', md', w')"
  shows "descriptor_cached ops md'"
proof (cases "pw_kind p")
  case (PendingOpen src)
  then show ?thesis using p
    by (auto simp: process_work_def process_open_def push_event_def descriptor_cached_def Let_def
        split: prod.splits sum.splits if_splits)
next
  case (PendingEngine x)
  note call = f[unfolded descriptor_fixed_def]
  show ?thesis
    using p PendingEngine call
    by (cases x) (auto simp: process_work_def execute_render_def execute_text_def execute_preview_def Let_def
      split: prod.splits elim!: execute_cached[OF c, rotated])
qed

lemma owner_run_cached:
  assumes "owner_run ops deliver ow w" and "descriptor_fixed ops"
  shows "all_cached ops ow"
  using assms(1)
proof (induction rule: owner_run.induct)
  case (or_init w pending events policy engine)
  then show ?case by (simp add: all_cached_def owner_new_def)
next
  case (or_command ow w c go ow' w')
  show ?case by (rule accept_command_cached[OF or_command(3,2)])
next
  case (or_flush ow w r ow' r' w')
  obtain docs ids r1 where f: "flush_documents deliver (ow_documents ow) r = (docs, ids, r1)" by (metis prod_cases3)
  have m: "remove_documents ids (ow\<lparr>ow_documents := docs\<rparr>) w = (ow', w')"
    using or_flush(2) f by (auto simp: flush_pending_events_def split: prod.splits)
  have "all_cached ops (ow\<lparr>ow_documents := docs\<rparr>)"
    unfolding all_cached_def
  proof (intro allI impI)
    fix j md'
    assume "map_of (ow_documents (ow\<lparr>ow_documents := docs\<rparr>)) j = Some md'"
    then obtain md evs where "map_of (ow_documents ow) j = Some md" "md' = md\<lparr>md_pending_events := evs\<rparr>"
      using flush_documents_spec(2)[OF f, of j md'] by auto
    then show "descriptor_cached ops md'" using or_flush(3) by (auto simp: all_cached_def descriptor_cached_def)
  qed
  then show ?case using remove_documents_cached m by blast
next
  case (or_pick ow w i rotation)
  then show ?case by (simp add: all_cached_def)
next
  case (or_serve ow w i ow' w')
  show ?case
  proof (cases "map_of (ow_documents ow) i")
    case (Some md)
    then have c: "descriptor_cached ops (md\<lparr>md_pending := q\<rparr>)" for q
      using or_serve(3) by (auto simp: all_cached_def descriptor_cached_def)
    from c[of "md_pending md"] have "descriptor_cached ops md" by simp
    then show ?thesis
      using or_serve(2,3) Some process_work_cached[OF c assms(2)]
      by (auto simp: serve_def pop_pending_def all_cached_def set_document_def split: option.splits prod.splits if_splits)
  qed (use or_serve in \<open>simp add: serve_def\<close>)
qed

text \<open>C6: The supervisor refines the document runtime, in every state the owner can reach, for an engine that
  does not change a document's descriptor: executing a render, text or preview demand on a managed document
  has exactly the effect and the result of the corresponding runtime operation with the work's token, although it
  looks at the descriptor it kept where the runtime asks the engine; only a demand of a cancelled session is
  discarded rather than cancelled. Opening a document has exactly the effect of the runtime's \<open>open\<close>, and
  appends its event.\<close>

theorem supervisor_refines_runtime:
  assumes "owner_run ops deliver ow w" and "descriptor_fixed ops" and "map_of (ow_documents ow) i = Some md"
  shows
    "(case execute_render ops md x operation w of (ev, md', w') \<Rightarrow> (ev, as_runtime eng p md', w')) =
       (case render_inner ops (as_runtime eng p md) x (Some operation) w of
          (ev, rt', w') \<Rightarrow> (supervisor_view (as_runtime eng p md) (rd_stamp x) w ev, rt', w')) \<and>
     (case execute_text ops md y operation w of (ev, md', w') \<Rightarrow> (ev, as_runtime eng p md', w')) =
       (case extract_text_inner ops (as_runtime eng p md) y (Some operation) w of
          (ev, rt', w') \<Rightarrow> (supervisor_view (as_runtime eng p md) (td_stamp y) w ev, rt', w')) \<and>
     (case execute_preview ops md z operation w of (ev, md', w') \<Rightarrow> (ev, as_runtime eng p md', w')) =
       (case render_preview_inner ops (as_runtime eng p md) z (Some operation) w of
          (ev, rt', w') \<Rightarrow> (supervisor_view (as_runtime eng p md) (pd_stamp z) w ev, rt', w')) \<and>
     (case process_open ops eng i src c md w of
        (eng', md', w') \<Rightarrow> (md_pending_events md', as_runtime eng' p md', w')) =
       (case open_inner ops (as_runtime eng p md) src (Some (source_token c)) w of
          (r, rt', w') \<Rightarrow> (md_pending_events md @ [opened_event i rt' r], rt', w'))"
proof -
  have "descriptor_cached ops md" using owner_run_cached[OF assms(1,2)] assms(3) by (simp add: all_cached_def)
  note demands = managed_document_refines_runtime[OF this, where x=x and y=y and z=z and operation=operation and w=w and eng=eng and p=p]
  show ?thesis
    by (intro conjI process_open_sim demands[THEN conjunct1] demands[THEN conjunct2, THEN conjunct1]
        demands[THEN conjunct2, THEN conjunct2])
qed

section \<open>What is published\<close>

lemma execute_in_session_Ready:
  assumes inv: "md_inv cap md w" and ok: "call_ok call"
    and step: "execute_in_session md st operation page call check wrap demand w = (Ready x r, md', w')"
  obtains out h where "x = demand" and "page_exists (md_descriptor md) page" and "check out = None" and "r = wrap h out"
    and "result_current (as_runtime () cache_policy_default md') st (Some operation) h w'"
proof -
  let ?rt = "as_runtime () cache_policy_default md"
  obtain ev doc where e: "execute_on_current (session_for ?rt st w) st (rt_document ?rt) w (\<lambda>s.
        execute_demand s (composed_cancellation s (Some operation) w) st page (md_descriptor md)
          (rt_document ?rt) call check wrap demand w) = (ev, doc, w')" and md': "md' = md\<lparr>md_document := doc\<rparr>"
    and ev: "supervisor_view ?rt st w ev = Ready x r"
    using step by (auto simp: execute_in_session_sim[of _ _ _ _ _ _ _ _ _ "()" cache_policy_default] split: prod.splits)
  have ready: "ev = Ready x r" using ev by (simp add: supervisor_view_def split: if_splits)
  have rinv: "runtime_inv ?rt w" using inv by (simp add: md_inv_def)
  have same: "result_current (as_runtime () cache_policy_default md') = result_current ?rt"
    by (intro ext) (simp add: result_current_def md')
  show thesis
    by (rule on_current_Ready[OF rinv ok e[unfolded ready]]) (rule that, simp_all add: same)
qed

text \<open>C3: What the supervisor publishes is current: a tile, a text page or a preview is reported ready only
  for the demand it answers, on a page of the open document, at the demanded size, while the active
  session of its document has the demand's generation and neither it nor the work has been cancelled.\<close>

theorem supervisor_publishes_current_results:
  assumes "owner_run ops deliver ow w" and "engine_ok ops"
    and "map_of (ow_documents ow) i = Some md"
  shows "(case execute_render ops md x operation w of
      (Ready d tile, md', w') \<Rightarrow> d = x \<and> page_exists (md_descriptor md) (tile_page (rd_key x)) \<and>
        ri_width (re_output tile) = px_width (rd_render_rect x) \<and> ri_height (re_output tile) = px_height (rd_render_rect x) \<and>
        result_current (as_runtime () cache_policy_default md') (rd_stamp x) (Some operation) (re_resource tile) w'
      | _ \<Rightarrow> True) \<and>
    (case execute_text ops md y operation w of
      (Ready d page, md', w') \<Rightarrow> d = y \<and> page_exists (md_descriptor md) (td_page y) \<and> tp_number page = td_page y \<and>
        result_current (as_runtime () cache_policy_default md') (td_stamp y) (Some operation) (tp_resource page) w'
      | _ \<Rightarrow> True) \<and>
    (case execute_preview ops md z operation w of
      (Ready d picture, md', w') \<Rightarrow> d = z \<and> page_exists (md_descriptor md) (pd_page z) \<and> rp_page picture = pd_page z \<and>
        ri_width (rp_image picture) = px_width (pd_region z) \<and> ri_height (rp_image picture) = px_height (pd_region z) \<and>
        result_current (as_runtime () cache_policy_default md') (pd_stamp z) (Some operation) (rp_resource picture) w'
      | _ \<Rightarrow> True)"
proof -
  have inv: "md_inv (max_pending_per_document (ow_policy ow)) md w"
    using owner_inv_document[OF owner_run_inv[OF assms(1,2)] assms(3)] .
  have calls: "call_ok (\<lambda>d. op_render ops d x)" "call_ok (\<lambda>d. op_extract_text ops d y)" "call_ok (\<lambda>d. op_render_preview ops d z)"
    using assms(2) by (simp_all add: engine_ok_def)
  show ?thesis
    by (auto simp: execute_render_def execute_text_def execute_preview_def check_dimensions_def
        split: prod.split work_event.split if_splits
        elim!: execute_in_session_Ready[OF inv calls(1)] execute_in_session_Ready[OF inv calls(2)]
          execute_in_session_Ready[OF inv calls(3)])
qed

text \<open>Attaching allocates document identities like every other allocator.\<close>

definition attach_step :: "u64 \<times> 's channel \<Rightarrow> document_id option \<times> u64 \<times> 's channel" where
  "attach_step s = (case attach_routed (fst s) (snd s) of
     (Inl _, n, ch) \<Rightarrow> (None, n, ch) | (Inr (i, _), n, ch) \<Rightarrow> (Some i, n, ch))"

interpretation documents: fresh_ids "attach_step :: u64 \<times> 's channel \<Rightarrow> _" "\<lambda>s. unat (fst s)" unat
proof unfold_locales
  fix s s' :: "u64 \<times> 's channel" and i
  assume "attach_step s = (Some i, s')"
  then show "unat (fst s) \<le> unat i \<and> unat i < unat (fst s')"
    by (auto simp: attach_step_def attach_routed_def allocate_non_zero_Some send_def split: prod.splits option.splits if_splits)
next
  fix s s' :: "u64 \<times> 's channel"
  assume "attach_step s = (None, s')"
  then show "unat (fst s) \<le> unat (fst s')"
    using allocate_non_zero_le[of "fst s"]
    by (auto simp: attach_step_def attach_routed_def split: prod.splits option.splits sum.splits)
qed

text \<open>No two documents of a process ever get the same identity, also across failed attachments and
  exhaustion of the counter.\<close>

theorem document_ids_never_repeat: "distinct (issue (attach_step :: u64 \<times> 's channel \<Rightarrow> _) n (counter, ch))"
  by (rule documents.issue_distinct)

section \<open>Witnesses\<close>

text \<open>One document is attached and opens its source; the route takes a given number of events.\<close>

definition demo_route :: "(unit, nat) routes" where
  "demo_route = (\<lambda>i ev n. if 0 < n then (Delivered, n - 1) else (RouteFull ev, n))"

definition demo_policy :: supervisor_policy where
  "demo_policy = \<lparr>max_pending_per_document = 1, event_channel_capacity = 1\<rparr>"

definition demo_w :: world where "demo_w = snd (source_new initial_world)"

abbreviation demo_owner :: "(unit, unit, unit, unit) owner" where
  "demo_owner \<equiv> owner_new demo_engine () demo_policy"

definition demo_attached :: "bool \<times> (unit, unit, unit, unit) owner \<times> world" where
  "demo_attached = accept_command (CmdAttach 1) demo_owner demo_w"

definition demo_opening :: "bool \<times> (unit, unit, unit, unit) owner \<times> world" where
  "demo_opening = accept_command (CmdOpen 1 () 0) (fst (snd demo_attached)) (snd (snd demo_attached))"

definition demo_flushed :: "(unit, unit, unit, unit) owner \<times> nat \<times> world" where
  "demo_flushed = flush_pending_events demo_route (fst (snd demo_opening)) 1 (snd (snd demo_opening))"

definition demo_served :: "(unit, unit, unit, unit) owner \<times> world" where
  "demo_served = serve demo_engine 1 (fst demo_flushed) (snd (snd demo_flushed))"

lemma wf_demo_w: "wf_world demo_w"
  by (simp add: demo_w_def wf_world_def initial_world_def source_new_def)

lemma demo_owner_runs:
  "owner_run demo_engine demo_route (fst (snd demo_attached)) (snd (snd demo_attached))"
  "owner_run demo_engine demo_route (fst (snd demo_opening)) (snd (snd demo_opening))"
  "owner_run demo_engine demo_route (fst demo_flushed) (snd (snd demo_flushed))"
  "owner_run demo_engine demo_route (fst demo_served) (snd demo_served)"
proof -
  have 0: "owner_run demo_engine demo_route demo_owner demo_w"
    by (rule or_init[OF wf_demo_w, of 1 1]) (simp add: supervisor_policy_new_def demo_policy_def)
  show 1: "owner_run demo_engine demo_route (fst (snd demo_attached)) (snd (snd demo_attached))"
    by (rule or_command[OF 0, of "CmdAttach 1" "fst demo_attached"]) (simp add: demo_attached_def)
  show 2: "owner_run demo_engine demo_route (fst (snd demo_opening)) (snd (snd demo_opening))"
    by (rule or_command[OF 1, of "CmdOpen 1 () 0" "fst demo_opening"]) (simp add: demo_opening_def)
  show 3: "owner_run demo_engine demo_route (fst demo_flushed) (snd (snd demo_flushed))"
    by (rule or_flush[OF 2, of 1 _ "fst (snd demo_flushed)"]) (simp add: demo_flushed_def)
  show "owner_run demo_engine demo_route (fst demo_served) (snd demo_served)"
    by (rule or_serve[OF 3, of 1]) (simp add: demo_served_def)
qed

lemmas demo_owner_defs = demo_attached_def demo_opening_def demo_flushed_def demo_served_def demo_w_def
  owner_new_def set_document_def push_event_def managed_new_def manager_new_def cancel_and_clear_def
  manager_close_def allocate_sequence_def hm_insert_def initial_world_def source_new_def

lemma demo_opening_eq:
  "ow_documents (fst (snd demo_opening)) = [(1, \<lparr>md_sessions = manager_new, md_document = None,
     md_document_handle = None, md_descriptor = None,
     md_pending_events = [EvAttached 1 (op_capabilities demo_engine ())],
     md_pending = [(OpenKey, \<lparr>pw_sequence = 1, pw_priority = INTERACTIVE, pw_class = None, pw_cancellation = 0,
       pw_kind = PendingOpen ()\<rparr>)], md_next_sequence = 2\<rparr>)]"
  "ow_rotation (fst (snd demo_opening)) = [1]" "snd (snd demo_opening) = demo_w"
  "ow_policy (fst (snd demo_opening)) = demo_policy" "ow_engine (fst (snd demo_opening)) = ()"
  by (simp_all add: demo_owner_defs)

lemma demo_flushed_eq:
  "ow_documents (fst demo_flushed) = [(1, \<lparr>md_sessions = manager_new, md_document = None,
     md_document_handle = None, md_descriptor = None, md_pending_events = [],
     md_pending = [(OpenKey, \<lparr>pw_sequence = 1, pw_priority = INTERACTIVE, pw_class = None, pw_cancellation = 0,
       pw_kind = PendingOpen ()\<rparr>)], md_next_sequence = 2\<rparr>)]"
  "ow_rotation (fst demo_flushed) = [1]" "snd (snd demo_flushed) = demo_w" "ow_engine (fst demo_flushed) = ()"
  by (simp_all add: demo_flushed_def flush_pending_events_def demo_opening_eq demo_route_def)

lemma demo_next: "next_runnable (fst demo_flushed) = (Some 1, [1])"
  by (simp add: next_runnable_def demo_flushed_eq map_filter_simps runnable_priority_def highest_pending_priority_def)

theorem pending_work_is_bounded_witness:
  "\<exists>md. map_of (ow_documents (fst (snd demo_opening))) 1 = Some md \<and> length (md_pending md) \<le> 1"
  using pending_work_is_bounded[OF demo_owner_runs(2) demo_engine_ok, of 1]
  by (simp add: demo_opening_eq demo_policy_def)

theorem next_runnable_is_fair_witness:
  "\<exists>md. map_of (ow_documents (fst demo_flushed)) 1 = Some md \<and> highest_pending_priority md \<noteq> None"
  using next_runnable_is_fair[OF demo_next] by force

theorem serving_completes_one_work_witness:
  "Suc (total_pending (fst (serve demo_engine 1 ((fst demo_flushed)\<lparr>ow_rotation := [1]\<rparr>) demo_w))) = 1"
  using serving_completes_one_work[OF demo_owner_runs(3) demo_engine_ok]
  by (simp add: demo_next demo_flushed_eq total_pending_def)

theorem events_are_delivered_in_order_witness:
  "[EvClosed 1 None, EvClosed 2 None] = accepted_events demo_route 1 [EvClosed 1 None, EvClosed 2 None] 1 @ [EvClosed 2 None]"
proof -
  have "routes_ok demo_route" by (auto simp: routes_ok_def demo_route_def)
  moreover have "flush_events demo_route 1 [EvClosed 1 None, EvClosed 2 None] 1 = ([EvClosed 2 None], False, 0)"
    by (simp add: demo_route_def)
  ultimately show ?thesis using events_are_delivered_in_order by fastforce
qed

definition demo_batch :: "work list" where
  "demo_batch = [RenderWork demo_render, RenderWork (demo_render\<lparr>rd_key := (rd_key demo_render)\<lparr>tile_column := 1\<rparr>\<rparr>)]"

theorem overflow_cancels_the_whole_batch_witness:
  "\<exists>n md' w' k p. replace_class RenderViewport demo_batch 0 1 (managed_new :: (unit, unit, unit) managed_document) demo_w
     = (n, md', w') \<and> (k, p) \<in> set (md_pending md') \<and> token_is_cancelled (source_token (pw_cancellation p)) w' \<and>
     never_executed demo_engine (source_token (pw_cancellation p)) w'"
proof -
  obtain n md' w' where r: "replace_class RenderViewport demo_batch 0 1 (managed_new :: (unit, unit, unit) managed_document) demo_w
     = (n, md', w')" and n: "0 < n" and m: "\<exists>k p. (k, p) \<in> set (md_pending md') \<and> k \<noteq> OpenKey"
    by (simp add: replace_class_def drop_class_def managed_new_def demo_batch_def admit_def allocate_sequence_def
        hm_insert_def hm_remove_def evict_over.simps eviction_candidate_def pending_rank_def demo_render_def Let_def)
  then obtain k p where kp: "(k, p) \<in> set (md_pending md')" "k \<noteq> OpenKey" by blast
  have "token_is_cancelled (source_token (pw_cancellation p)) w' \<and>
      never_executed demo_engine (source_token (pw_cancellation p)) w'"
    by (rule overflow_cancels_the_whole_batch[OF _ _ r _ kp])
       (simp_all add: managed_new_def pending_ok_def n)
  then show ?thesis using r kp by blast
qed

theorem close_and_open_cancel_everything_witness:
  "\<exists>md. map_of (ow_documents (fst (snd demo_opening))) 1 = Some md \<and>
     (\<forall>kp \<in> set (md_pending md). flag (snd (snd (accept_command (CmdClose 1) (fst (snd demo_opening)) demo_w))) (pw_cancellation (snd kp)))"
proof -
  obtain md where md: "map_of (ow_documents (fst (snd demo_opening))) 1 = Some md" by (simp add: demo_opening_eq)
  obtain go ow' w' where a: "accept_command (CmdClose 1) (fst (snd demo_opening)) demo_w = (go, ow', w')" by (metis prod_cases3)
  obtain md' where md': "map_of (ow_documents ow') 1 = Some md'"
    using a by (auto simp: demo_opening_eq cancel_and_clear_def manager_new_def manager_close_def set_document_def Let_def)
  show ?thesis
    using close_and_open_cancel_everything[OF demo_owner_runs(2) demo_engine_ok md _ a[folded demo_opening_eq(3)] md'] md a
    by (simp add: demo_opening_eq(3))
qed

lemma demo_served_eq: "\<exists>md. map_of (ow_documents (fst demo_served)) 1 = Some md \<and>
   (\<exists>d tile md' w'. execute_render demo_engine md demo_render [] (snd demo_served) = (Ready d tile, md', w'))"
  by (simp add: demo_served_def serve_def demo_flushed_eq pop_pending_def process_work_def process_open_def
      hm_remove_def hm_insert_def set_document_def push_event_def demo_w_def session_defs Let_def demo_engine_def one_page_def
      execute_render_def execute_in_session_demand current_session_def manager_current_def execute_demand_def
      validate_page_def page_count_def demo_render_def demo_stamp_def demo_rect_def check_dimensions_def blank_def
      allocate_resource_def allocate_non_zero_def token_is_cancelled_def token_combined_def session_cancellation_def
      source_token_def session_generation_def session_is_cancelled_def source_is_cancelled_def pending_rank_def)

theorem supervisor_publishes_current_results_witness:
  "\<exists>md d tile md' w'. map_of (ow_documents (fst demo_served)) 1 = Some md \<and>
     execute_render demo_engine md demo_render [] (snd demo_served) = (Ready d tile, md', w') \<and>
     ri_width (re_output tile) = 16"
proof -
  obtain md d tile md' w' where md: "map_of (ow_documents (fst demo_served)) 1 = Some md"
    and x: "execute_render demo_engine md demo_render [] (snd demo_served) = (Ready d tile, md', w')"
    using demo_served_eq by blast
  have "ri_width (re_output tile) = px_width (rd_render_rect demo_render)"
    using supervisor_publishes_current_results[OF demo_owner_runs(4) demo_engine_ok md, of demo_render "[]"] x by simp
  then show ?thesis using md x by (auto simp: demo_render_def demo_rect_def)
qed

lemma demo_descriptor_fixed: "descriptor_fixed demo_engine"
  by (simp add: descriptor_fixed_def demo_engine_def)

theorem supervisor_refines_runtime_witness:
  "\<exists>md d tile md' w'. map_of (ow_documents (fst demo_served)) 1 = Some md \<and>
     execute_render demo_engine md demo_render [] (snd demo_served) = (Ready d tile, md', w') \<and>
     render_inner demo_engine (as_runtime () cache_policy_default md) demo_render (Some []) (snd demo_served)
       = (Ready d tile, as_runtime () cache_policy_default md', w')"
proof -
  obtain md d tile md' w' where md: "map_of (ow_documents (fst demo_served)) 1 = Some md"
    and x: "execute_render demo_engine md demo_render [] (snd demo_served) = (Ready d tile, md', w')"
    using demo_served_eq by blast
  obtain ev rt' w'' where r: "render_inner demo_engine (as_runtime () cache_policy_default md) demo_render (Some []) (snd demo_served)
      = (ev, rt', w'')" by (metis prod_cases3)
  have "(Ready d tile, as_runtime () cache_policy_default md', w')
      = (supervisor_view (as_runtime () cache_policy_default md) (rd_stamp demo_render) (snd demo_served) ev, rt', w'')"
    using supervisor_refines_runtime[OF demo_owner_runs(4) demo_descriptor_fixed md, where x=demo_render and operation="[]" and eng="()" and p=cache_policy_default, THEN conjunct1]
    by (simp add: x r)
  then show ?thesis using md x r by (auto simp: supervisor_view_def split: if_splits)
qed

end
