(* ===== verification/Resources.thy ===== *)
theory Resources
  imports Prelude
begin

text \<open>
  The resource coordinator of the workspace, \<open>crates/key-workspace-core/src/resources.rs\<close>: a pure
  allocator that divides the budget of the process among its participants. The \<open>u64\<close> amounts are
  natural numbers here; where an operation of the code can leave 64 bits, its wrapping or saturating
  form is written out (the release build wraps).
\<close>

section \<open>Data\<close>

definition MIB :: nat where "MIB = 1024 * 1024"
definition GIB :: nat where "GIB = 1024 * MIB"

definition wrap64 :: "nat \<Rightarrow> nat" where "wrap64 n = n mod 2 ^ 64"
definition sat64 :: "nat \<Rightarrow> nat" where "sat64 n = min n (2 ^ 64 - 1)"

datatype resource_mode = Auto | Saver | Balanced | Performance

datatype activity_level =
    Suspended | BackgroundCold | BackgroundWarm | ForegroundVisible | ForegroundIdle | ForegroundInteractive

fun activity_weight :: "activity_level \<Rightarrow> nat" where
  "activity_weight Suspended = 0"
| "activity_weight BackgroundCold = 1"
| "activity_weight BackgroundWarm = 2"
| "activity_weight ForegroundVisible = 4"
| "activity_weight ForegroundIdle = 6"
| "activity_weight ForegroundInteractive = 8"

record resource_amount =
  cpu_memory_bytes :: nat
  gpu_memory_bytes :: nat
  worker_slots :: nat
  network_slots :: nat

definition no_resources :: resource_amount where
  "no_resources = \<lparr>cpu_memory_bytes = 0, gpu_memory_bytes = 0, worker_slots = 0, network_slots = 0\<rparr>"

record resource_profile =
  rp_minimum :: resource_amount
  rp_target :: resource_amount
  rp_weight :: u16
  rp_suspendable :: bool

definition resource_profile_new :: "resource_amount \<Rightarrow> resource_amount \<Rightarrow> resource_profile" where
  "resource_profile_new minimum target =
     \<lparr>rp_minimum = minimum, rp_target = target, rp_weight = 1, rp_suspendable = True\<rparr>"

type_synonym participant_id = u64

record participant_snapshot =
  ps_id :: participant_id
  ps_activity :: activity_level
  ps_profile :: resource_profile

record resource_allocation =
  al_id :: participant_id
  al_activity :: activity_level
  al_amount :: resource_amount

record system_resources =
  physical_memory_bytes :: nat
  logical_cpus :: u16
  low_power_mode :: bool

record allocation_plan =
  ap_requested_mode :: resource_mode
  ap_effective_mode :: resource_mode
  ap_budget :: resource_amount
  ap_allocations :: "resource_allocation list"

record resource_coordinator =
  co_mode :: resource_mode
  co_system :: system_resources

section \<open>Mode and budget\<close>

definition effective_mode :: "resource_mode \<Rightarrow> system_resources \<Rightarrow> resource_mode" where
  "effective_mode mode sys =
     (if mode \<noteq> Auto then mode
      else if low_power_mode sys \<or> physical_memory_bytes sys \<le> 8 * GIB \<or> logical_cpus sys \<le> 4 then Saver
      else if 24 * GIB \<le> physical_memory_bytes sys \<and> 8 \<le> logical_cpus sys then Performance
      else Balanced)"

definition clamp_nat :: "nat \<Rightarrow> nat \<Rightarrow> nat \<Rightarrow> nat" where
  "clamp_nat lo hi x = (if x < lo then lo else if hi < x then hi else x)"

text \<open>\<open>unreachable!\<close> in the \<open>Auto\<close> case: the result is an option.\<close>

definition budget_for :: "resource_mode \<Rightarrow> system_resources \<Rightarrow> resource_amount option" where
  "budget_for mode sys =
     (let mem = max (physical_memory_bytes sys) (2 * GIB); cpus = unat (max (logical_cpus sys) 1) in
      case mode of
        Auto \<Rightarrow> None
      | Saver \<Rightarrow> Some \<lparr>cpu_memory_bytes = clamp_nat (192 * MIB) (2 * GIB) (mem div 10),
          gpu_memory_bytes = clamp_nat (64 * MIB) (512 * MIB) (mem div 40),
          worker_slots = max (cpus div 4) 1, network_slots = 2\<rparr>
      | Balanced \<Rightarrow> Some \<lparr>cpu_memory_bytes = clamp_nat (384 * MIB) (6 * GIB) (mem div 5),
          gpu_memory_bytes = clamp_nat (128 * MIB) (1536 * MIB) (mem div 20),
          worker_slots = max (cpus div 2) 1, network_slots = 4\<rparr>
      | Performance \<Rightarrow> Some \<lparr>cpu_memory_bytes = clamp_nat (768 * MIB) (12 * GIB) (wrap64 (mem * 35) div 100),
          gpu_memory_bytes = clamp_nat (256 * MIB) (3 * GIB) (mem div 10),
          worker_slots = max (cpus - 1) 1, network_slots = 8\<rparr>)"

section \<open>Weighted capped distribution\<close>

text \<open>One round over the open indices; it ends early when the remaining budget is used up. The vectors
  have equal lengths and the indices are in range (\<open>allocate_dimension\<close> builds them so).\<close>

primrec grant_round ::
  "nat \<Rightarrow> nat \<Rightarrow> nat list \<Rightarrow> nat list \<Rightarrow> nat list \<Rightarrow> nat \<Rightarrow> nat list \<Rightarrow> nat \<times> nat list" where
  "grant_round remaining total_weight caps weights [] progressed out = (progressed, out)"
| "grant_round remaining total_weight caps weights (i # open) progressed out =
     (let capacity = caps ! i - out ! i;
          share = wrap64 (max (remaining * (weights ! i) div total_weight) 1);
          granted = min (min capacity share) (remaining - progressed);
          out' = out[i := sat64 (out ! i + granted)];
          progressed' = sat64 (progressed + granted)
      in if progressed' = remaining then (progressed', out')
         else grant_round remaining total_weight caps weights open progressed' out')"

function distribute_loop :: "nat \<Rightarrow> nat list \<Rightarrow> nat list \<Rightarrow> nat list \<Rightarrow> nat list \<Rightarrow> nat list" where
  "distribute_loop remaining caps weights open out =
     (if remaining = 0 \<or> open = [] then out
      else let total_weight = wrap64 (\<Sum>i\<leftarrow>open. weights ! i) in
        if total_weight = 0 then out
        else case grant_round remaining total_weight caps weights open 0 out of (progressed, out') \<Rightarrow>
          if progressed = 0 then out'
          else distribute_loop (remaining - progressed) caps weights (filter (\<lambda>i. out' ! i < caps ! i) open) out')"
  by pat_completeness auto
termination by (relation "measure (\<lambda>(remaining, _). remaining)") auto

declare distribute_loop.simps [simp del]

definition distribute :: "nat \<Rightarrow> nat list \<Rightarrow> nat list \<Rightarrow> nat list \<Rightarrow> nat list" where
  "distribute budget caps weights out =
     distribute_loop budget caps weights
       (filter (\<lambda>i. out ! i < caps ! i \<and> 0 < weights ! i) [0..<length caps]) out"

section \<open>One dimension\<close>

text \<open>Minimum, target and weight of a participant in one dimension.\<close>

definition is_suspended :: "participant_snapshot \<Rightarrow> bool" where
  "is_suspended p \<longleftrightarrow> ps_activity p = Suspended \<and> rp_suspendable (ps_profile p)"

definition minimum_of :: "(resource_amount \<Rightarrow> nat) \<Rightarrow> participant_snapshot \<Rightarrow> nat" where
  "minimum_of get p = (if is_suspended p then 0 else get (rp_minimum (ps_profile p)))"

definition target_of :: "(resource_amount \<Rightarrow> nat) \<Rightarrow> participant_snapshot \<Rightarrow> nat" where
  "target_of get p =
     (if is_suspended p then 0
      else if ps_activity p = Suspended then minimum_of get p
      else max (get (rp_target (ps_profile p))) (minimum_of get p))"

definition weight_of :: "participant_snapshot \<Rightarrow> nat" where
  "weight_of p =
     (if is_suspended p then 0
      else max (activity_weight (ps_activity p) * unat (max (rp_weight (ps_profile p)) 1)) 1)"

definition dimension_values :: "participant_snapshot list \<Rightarrow> nat \<Rightarrow> (resource_amount \<Rightarrow> nat) \<Rightarrow> nat list" where
  "dimension_values ps budget get =
     (let values = distribute budget (map (minimum_of get) ps) (map weight_of ps) (replicate (length ps) 0);
          used = wrap64 (sum_list values)
      in if used < budget then
           let gaps = map (\<lambda>(v, p). target_of get p - v) (zip values ps);
               weights = map (\<lambda>(p, gap). if 0 < gap then weight_of p else 0) (zip ps gaps);
               extras = distribute (budget - used) gaps weights (replicate (length values) 0)
           in map (\<lambda>(v, e). sat64 (v + e)) (zip values extras)
         else values)"

definition allocate_dimension ::
  "participant_snapshot list \<Rightarrow> nat \<Rightarrow> (resource_amount \<Rightarrow> nat) \<Rightarrow> (nat \<Rightarrow> resource_amount \<Rightarrow> resource_amount) \<Rightarrow>
   resource_allocation list \<Rightarrow> resource_allocation list" where
  "allocate_dimension ps budget get put output =
     (if budget = 0 \<or> ps = [] then output
      else map (\<lambda>(a, v). a\<lparr>al_amount := put v (al_amount a)\<rparr>) (zip output (dimension_values ps budget get)))"

section \<open>The plan\<close>

definition empty_allocation :: "participant_snapshot \<Rightarrow> resource_allocation" where
  "empty_allocation p = \<lparr>al_id = ps_id p, al_activity = ps_activity p, al_amount = no_resources\<rparr>"

definition plan_allocations :: "participant_snapshot list \<Rightarrow> resource_amount \<Rightarrow> resource_allocation list" where
  "plan_allocations ps b =
     allocate_dimension ps (network_slots b) network_slots (\<lambda>v a. a\<lparr>network_slots := v\<rparr>)
      (allocate_dimension ps (worker_slots b) worker_slots (\<lambda>v a. a\<lparr>worker_slots := v\<rparr>)
       (allocate_dimension ps (gpu_memory_bytes b) gpu_memory_bytes (\<lambda>v a. a\<lparr>gpu_memory_bytes := v\<rparr>)
        (allocate_dimension ps (cpu_memory_bytes b) cpu_memory_bytes (\<lambda>v a. a\<lparr>cpu_memory_bytes := v\<rparr>)
         (map empty_allocation ps))))"

definition coordinator_new :: "resource_mode \<Rightarrow> system_resources \<Rightarrow> resource_coordinator" where
  "coordinator_new mode sys = \<lparr>co_mode = mode, co_system = sys\<rparr>"

definition set_mode :: "resource_mode \<Rightarrow> resource_coordinator \<Rightarrow> resource_coordinator" where
  "set_mode mode c = c\<lparr>co_mode := mode\<rparr>"

definition set_system_resources :: "system_resources \<Rightarrow> resource_coordinator \<Rightarrow> resource_coordinator" where
  "set_system_resources sys c = c\<lparr>co_system := sys\<rparr>"

definition plan :: "resource_coordinator \<Rightarrow> participant_snapshot list \<Rightarrow> allocation_plan option" where
  "plan c ps =
     (let mode = effective_mode (co_mode c) (co_system c) in
      map_option (\<lambda>b. \<lparr>ap_requested_mode = co_mode c, ap_effective_mode = mode, ap_budget = b,
        ap_allocations = plan_allocations ps b\<rparr>) (budget_for mode (co_system c)))"

end
