(* ===== verification/Workspace.thy ===== *)
theory Workspace
  imports Resources Float32
begin

text \<open>
  The rest of \<open>crates/key-workspace-core\<close> that has behaviour: identities (\<open>ids.rs\<close>), the work
  requests of the scheduler domains (\<open>scheduler.rs\<close>), the placement of views in a window
  (\<open>layout.rs\<close>) and the registry of resource participants (\<open>resource_registry.rs\<close>).
\<close>

section \<open>Identities and work requests\<close>

type_synonym view_id = u64
type_synonym tab_id = u64
type_synonym work_id = u64
type_synonym generation = u64

definition generation_next :: "generation \<Rightarrow> generation" where
  "generation_next g = saturating_add g 1"

definition generation_is_current :: "generation \<Rightarrow> generation \<Rightarrow> bool" where
  "generation_is_current g current \<longleftrightarrow> g = current"

text \<open>\<open>IdGenerator::take\<close>: \<open>fetch_add\<close> wraps around.\<close>

definition id_take :: "u64 \<Rightarrow> u64 \<times> u64" where
  "id_take next = (next, next + 1)"

datatype scheduler_domain =
    PdfEngine | RenderUpload | Persistence | Network | Extension | MediaDecode | GeneralCpu | CustomDomain string

datatype work_request_priority =
    Maintenance | BackgroundWork | VisiblePrefetch | UserInitiated | InteractiveWork | Critical

record work_cost =
  cpu_micros :: u64
  memory_bytes :: u64
  io_bytes :: u64

record work_request =
  wr_id :: work_id
  wr_owner :: participant_id
  wr_generation :: generation
  wr_domain :: scheduler_domain
  wr_priority :: work_request_priority
  wr_estimated_cost :: work_cost
  wr_cancellable :: bool

definition work_is_stale :: "work_request \<Rightarrow> generation \<Rightarrow> bool" where
  "work_is_stale r current \<longleftrightarrow> \<not> generation_is_current (wr_generation r) current"

section \<open>Placement of views\<close>

datatype split_axis = Horizontal | Vertical

datatype content_placement =
    EmptyContent
  | ViewContent view_id
  | SplitContent split_axis f32 content_placement content_placement

text \<open>The visitor closure mutates what it captured: its state is passed along.\<close>

fun visit_views :: "(view_id \<Rightarrow> 's \<Rightarrow> 's) \<Rightarrow> content_placement \<Rightarrow> 's \<Rightarrow> 's" where
  "visit_views visit EmptyContent s = s"
| "visit_views visit (ViewContent v) s = visit v s"
| "visit_views visit (SplitContent axis ratio first second) s = visit_views visit second (visit_views visit first s)"

definition view_ids :: "content_placement \<Rightarrow> view_id list" where
  "view_ids c = visit_views (\<lambda>v views. views @ [v]) c []"

fun leaf_count :: "content_placement \<Rightarrow> nat" where
  "leaf_count EmptyContent = 0"
| "leaf_count (ViewContent v) = 1"
| "leaf_count (SplitContent axis ratio first second) = leaf_count first + leaf_count second"

definition contains_view :: "content_placement \<Rightarrow> view_id \<Rightarrow> bool" where
  "contains_view c needle = visit_views (\<lambda>v found. found \<or> v = needle) c False"

record tab_layout =
  tl_id :: tab_id
  tl_active_view :: view_id
  tl_content :: content_placement

definition tab_single :: "tab_id \<Rightarrow> view_id \<Rightarrow> tab_layout" where
  "tab_single i v = \<lparr>tl_id = i, tl_active_view = v, tl_content = ViewContent v\<rparr>"

definition RATIO_MIN :: f32 where "RATIO_MIN = round_f32 (1 / 10)"
definition RATIO_MAX :: f32 where "RATIO_MAX = round_f32 (9 / 10)"

fun is_view :: "content_placement \<Rightarrow> bool" where
  "is_view (ViewContent _) = True"
| "is_view _ = False"

definition shape_is_supported :: "content_placement \<Rightarrow> bool" where
  "shape_is_supported c =
     (case c of
        ViewContent _ \<Rightarrow> True
      | SplitContent _ ratio first second \<Rightarrow>
          is_finite ratio \<and> f32_le RATIO_MIN ratio \<and> f32_le ratio RATIO_MAX \<and> is_view first \<and> is_view second
      | EmptyContent \<Rightarrow> False)"

definition is_supported :: "tab_layout \<Rightarrow> bool" where
  "is_supported t =
     (let views = view_ids (tl_content t) in
      shape_is_supported (tl_content t) \<and> (length views = 1 \<or> length views = 2) \<and>
      length (remdups views) = length views \<and> tl_active_view t \<in> set views)"

definition split_pair ::
  "tab_id \<Rightarrow> split_axis \<Rightarrow> f32 \<Rightarrow> view_id \<Rightarrow> view_id \<Rightarrow> view_id \<Rightarrow> tab_layout option" where
  "split_pair i axis ratio first second active_view =
     (let layout = \<lparr>tl_id = i, tl_active_view = active_view,
        tl_content = SplitContent axis (f32_clamp ratio RATIO_MIN RATIO_MAX) (ViewContent first) (ViewContent second)\<rparr>
      in if is_supported layout then Some layout else None)"

section \<open>The registry of participants\<close>

record participant_record =
  pr_snapshot :: participant_snapshot
  pr_allocation :: "resource_allocation option"

record resource_registry =
  rr_participants :: "(participant_id \<times> participant_record) list"  \<comment> \<open>a \<open>BTreeMap\<close>\<close>
  rr_removed :: "participant_id list"

record allocation_change =
  ac_previous :: "resource_allocation option"
  ac_current :: resource_allocation

record reconciliation =
  rc_plan :: "allocation_plan option"
  rc_changed :: "allocation_change list"
  rc_removed :: "participant_id list"

definition registry_new :: resource_registry where
  "registry_new = \<lparr>rr_participants = [], rr_removed = []\<rparr>"

definition upsert :: "participant_snapshot \<Rightarrow> resource_registry \<Rightarrow> resource_registry" where
  "upsert p r =
     r\<lparr>rr_participants := bt_insert (ps_id p)
       (case map_of (rr_participants r) (ps_id p) of
          Some e \<Rightarrow> e\<lparr>pr_snapshot := p\<rparr>
        | None \<Rightarrow> \<lparr>pr_snapshot = p, pr_allocation = None\<rparr>) (rr_participants r)\<rparr>"

text \<open>\<open>get_mut\<close> and an update of the snapshot; the result says whether it changed.\<close>

definition update_snapshot ::
  "participant_id \<Rightarrow> (participant_snapshot \<Rightarrow> participant_snapshot) \<Rightarrow> resource_registry \<Rightarrow> bool \<times> resource_registry" where
  "update_snapshot i f r =
     (case map_of (rr_participants r) i of
        None \<Rightarrow> (False, r)
      | Some e \<Rightarrow> (pr_snapshot e \<noteq> f (pr_snapshot e),
          r\<lparr>rr_participants := bt_insert i (e\<lparr>pr_snapshot := f (pr_snapshot e)\<rparr>) (rr_participants r)\<rparr>))"

definition set_activity :: "participant_id \<Rightarrow> activity_level \<Rightarrow> resource_registry \<Rightarrow> bool \<times> resource_registry" where
  "set_activity i a = update_snapshot i (\<lambda>p. p\<lparr>ps_activity := a\<rparr>)"

definition set_profile :: "participant_id \<Rightarrow> resource_profile \<Rightarrow> resource_registry \<Rightarrow> bool \<times> resource_registry" where
  "set_profile i pr = update_snapshot i (\<lambda>p. p\<lparr>ps_profile := pr\<rparr>)"

definition registry_remove :: "participant_id \<Rightarrow> resource_registry \<Rightarrow> bool \<times> resource_registry" where
  "registry_remove i r =
     (if map_of (rr_participants r) i = None then (False, r)
      else (True, \<lparr>rr_participants = bt_remove i (rr_participants r), rr_removed = rr_removed r @ [i]\<rparr>))"

definition registry_snapshot :: "participant_id \<Rightarrow> resource_registry \<Rightarrow> participant_snapshot option" where
  "registry_snapshot i r = map_option pr_snapshot (map_of (rr_participants r) i)"

definition registry_allocation :: "participant_id \<Rightarrow> resource_registry \<Rightarrow> resource_allocation option" where
  "registry_allocation i r = Option.bind (map_of (rr_participants r) i) pr_allocation"

text \<open>The loop over the plan; \<open>None\<close> is the panic of \<open>expect\<close>.\<close>

fun apply_allocations ::
  "resource_allocation list \<Rightarrow> (participant_id \<times> participant_record) list \<Rightarrow>
   (allocation_change list \<times> (participant_id \<times> participant_record) list) option" where
  "apply_allocations [] m = Some ([], m)"
| "apply_allocations (a # as) m =
     (case map_of m (al_id a) of
        None \<Rightarrow> None
      | Some e \<Rightarrow>
          if pr_allocation e \<noteq> Some a then
            map_option (\<lambda>(changed, m'). (\<lparr>ac_previous = pr_allocation e, ac_current = a\<rparr> # changed, m'))
              (apply_allocations as (bt_insert (al_id a) (e\<lparr>pr_allocation := Some a\<rparr>) m))
          else apply_allocations as m)"

definition reconcile :: "resource_coordinator \<Rightarrow> resource_registry \<Rightarrow> (reconciliation \<times> resource_registry) option" where
  "reconcile c r =
     Option.bind (plan c (map (pr_snapshot \<circ> snd) (rr_participants r))) (\<lambda>pl.
       map_option (\<lambda>(changed, m).
           (\<lparr>rc_plan = Some pl, rc_changed = changed, rc_removed = rr_removed r\<rparr>,
            \<lparr>rr_participants = m, rr_removed = []\<rparr>))
         (apply_allocations (ap_allocations pl) (rr_participants r)))"

end
