(* ===== verification/ResourcesProps.thy ===== *)
theory ResourcesProps
  imports Resources
begin

text \<open>
  The properties of the resource allocator: it never exceeds the budget, no participant gets more than
  its target, minimums are met whenever they fit, and capacity is left unused only when every target
  is met.
\<close>

section \<open>One round\<close>

lemma share_bounds:
  assumes "w \<le> tw" and "0 < tw" and "r < 2 ^ 64"
  shows "wrap64 (max (r * w div tw) 1) = max (r * w div tw) 1"
proof -
  have "r * w div tw \<le> r * tw div tw" using assms(1) by (intro div_le_mono mult_le_mono2)
  then have "r * w div tw \<le> r" using assms(2) by simp
  then show ?thesis using assms(3) by (simp add: wrap64_def)
qed

definition round_ok :: "nat list \<Rightarrow> nat list \<Rightarrow> nat \<Rightarrow> nat list \<Rightarrow> nat list \<Rightarrow> bool" where
  "round_ok caps weights tw idx out \<longleftrightarrow> distinct idx \<and> 0 < tw \<and>
     (\<forall>i \<in> set idx. i < length out \<and> out ! i \<le> caps ! i \<and> caps ! i < 2 ^ 64 \<and> weights ! i \<le> tw)"

definition round_result :: "nat \<Rightarrow> nat list \<Rightarrow> nat list \<Rightarrow> nat \<Rightarrow> nat list \<Rightarrow> nat \<Rightarrow> nat list \<Rightarrow> bool" where
  "round_result r caps idx p out p' out' \<longleftrightarrow>
     length out' = length out \<and> p \<le> p' \<and> p' \<le> r \<and> sum_list out' = sum_list out + (p' - p) \<and>
     (\<forall>j. j \<notin> set idx \<longrightarrow> out' ! j = out ! j) \<and>
     (\<forall>i \<in> set idx. out ! i \<le> out' ! i \<and> out' ! i \<le> caps ! i) \<and>
     (p' = p \<longrightarrow> (\<forall>i \<in> set idx. out ! i = caps ! i))"

lemma round_result_Nil: "p \<le> r \<Longrightarrow> round_result r caps [] p out p out"
  by (simp add: round_result_def)

lemma round_result_stop:
  assumes "i < length out" and "out ! i + g \<le> caps ! i" and "p + g = r" and "0 < g"
    and "\<forall>j \<in> set idx. out ! j \<le> caps ! j" and "i \<notin> set idx"
  shows "round_result r caps (i # idx) p out (p + g) (out[i := out ! i + g])"
  using assms by (auto simp: round_result_def sum_list_update nth_list_update)

lemma round_result_Cons:
  assumes "i < length out" and "out ! i + g \<le> caps ! i" and "g = 0 \<Longrightarrow> out ! i = caps ! i"
    and r: "round_result r caps idx (p + g) (out[i := out ! i + g]) p' out'" and "i \<notin> set idx"
  shows "round_result r caps (i # idx) p out p' out'"
proof -
  have old: "out[i := out ! i + g] ! j = out ! j" if "j \<in> set idx" for j
    using that assms(5) by (metis nth_list_update_neq)
  have at: "out' ! i = out ! i + g" using r assms(1,5) by (simp add: round_result_def)
  have "out ! j = out' ! j" if "j \<notin> set (i # idx)" for j using that r by (simp add: round_result_def)
  moreover have "sum_list out' = sum_list out + (p' - p)"
    using r assms(1) by (simp add: round_result_def sum_list_update)
  ultimately show ?thesis
    using r old at assms(2,3) by (auto simp: round_result_def)
qed

lemma round_ok_Cons:
  "round_ok caps weights tw (i # idx) out \<Longrightarrow> x \<le> caps ! i \<Longrightarrow> round_ok caps weights tw idx (out[i := x])"
  by (auto simp: round_ok_def nth_list_update)

lemma grant_round_spec:
  assumes "round_ok caps weights tw idx out" and "r < 2 ^ 64" and "p < r"
    and "grant_round r tw caps weights idx p out = (p', out')"
  shows "round_result r caps idx p out p' out'"
  using assms(1,3,4)
proof (induction idx arbitrary: p out)
  case Nil
  then show ?case by (simp add: round_result_Nil)
next
  case (Cons i idx)
  have i: "i < length out" "out ! i \<le> caps ! i" "caps ! i < 2 ^ 64" "weights ! i \<le> tw" "0 < tw" "i \<notin> set idx"
    and rest: "\<forall>j \<in> set idx. out ! j \<le> caps ! j"
    using Cons.prems(1) by (auto simp: round_ok_def)
  define g where "g = min (min (caps ! i - out ! i) (max (r * (weights ! i) div tw) 1)) (r - p)"
  have g: "out ! i + g \<le> caps ! i" "p + g \<le> r" "g = 0 \<Longrightarrow> out ! i = caps ! i"
    using i(2) Cons.prems(2) by (auto simp: g_def)
  have sat: "sat64 (out ! i + g) = out ! i + g" "sat64 (p + g) = p + g"
    using g i(3) assms(2) by (auto simp: sat64_def)
  have step: "grant_round r tw caps weights (i # idx) p out =
      (if p + g = r then (p + g, out[i := out ! i + g])
       else grant_round r tw caps weights idx (p + g) (out[i := out ! i + g]))"
    unfolding grant_round.simps Let_def share_bounds[OF i(4,5) assms(2)] g_def[symmetric] sat ..
  show ?case
  proof (cases "p + g = r")
    case True
    then show ?thesis
      using step Cons.prems(2,3) round_result_stop[OF i(1) g(1) True _ rest i(6)] by simp
  next
    case False
    then have "round_result r caps idx (p + g) (out[i := out ! i + g]) p' out'"
      using step Cons.prems(3) g(2) by (intro Cons.IH[OF round_ok_Cons[OF Cons.prems(1) g(1)]]) simp_all
    then show ?thesis using round_result_Cons[OF i(1) g(1)] g(3) i(6) by blast
  qed
qed

section \<open>The loop\<close>

definition loop_ok :: "nat list \<Rightarrow> nat list \<Rightarrow> nat list \<Rightarrow> nat list \<Rightarrow> bool" where
  "loop_ok caps weights idx out \<longleftrightarrow> distinct idx \<and> (\<Sum>i\<leftarrow>idx. weights ! i) < 2 ^ 64 \<and>
     (\<forall>i \<in> set idx. i < length out \<and> out ! i < caps ! i \<and> caps ! i < 2 ^ 64 \<and> 0 < weights ! i)"

definition distributed :: "nat \<Rightarrow> nat list \<Rightarrow> nat list \<Rightarrow> nat list \<Rightarrow> nat list \<Rightarrow> bool" where
  "distributed r caps idx out out' \<longleftrightarrow>
     length out' = length out \<and> (\<forall>j. j \<notin> set idx \<longrightarrow> out' ! j = out ! j) \<and>
     (\<forall>i \<in> set idx. out ! i \<le> out' ! i \<and> out' ! i \<le> caps ! i) \<and>
     sum_list out' \<le> sum_list out + r \<and>
     (sum_list out' = sum_list out + r \<or> (\<forall>i \<in> set idx. out' ! i = caps ! i))"

lemma member_le_sum: "i \<in> set xs \<Longrightarrow> f i \<le> (\<Sum>x\<leftarrow>xs. (f x :: nat))"
  by (rule member_le_sum_list) simp_all

lemma sum_filter_le: "(\<Sum>i\<leftarrow>filter P xs. f i) \<le> (\<Sum>i\<leftarrow>xs. (f i :: nat))"
  by (induction xs) auto

lemma distributed_compose:
  assumes res: "round_result r caps idx 0 out p out1"
    and d: "distributed (r - p) caps (filter (\<lambda>i. out1 ! i < caps ! i) idx) out1 out2"
  shows "distributed r caps idx out out2"
proof -
  have at: "out1 ! i \<le> out2 ! i \<and> out2 ! i \<le> caps ! i" if "i \<in> set idx" for i
    using d res that by (cases "out1 ! i < caps ! i") (auto simp: distributed_def round_result_def)
  have full: "out2 ! i = caps ! i"
    if "\<forall>i \<in> set (filter (\<lambda>i. out1 ! i < caps ! i) idx). out2 ! i = caps ! i" "i \<in> set idx" for i
    using at[OF that(2)] that by (cases "out1 ! i < caps ! i") auto
  have le: "out ! i \<le> out2 ! i" if "i \<in> set idx" for i
    using at[OF that] res that by (auto simp: round_result_def intro: order_trans)
  have out: "out2 ! j = out ! j" if "j \<notin> set idx" for j
    using d res that by (simp add: distributed_def round_result_def)
  have sums: "sum_list out1 = sum_list out + p" "p \<le> r" "length out1 = length out"
    using res by (simp_all add: round_result_def)
  show ?thesis
    unfolding distributed_def
  proof (intro conjI allI ballI impI)
    show "sum_list out2 = sum_list out + r \<or> (\<forall>i \<in> set idx. out2 ! i = caps ! i)"
    proof (cases "sum_list out2 = sum_list out1 + (r - p)")
      case True
      then show ?thesis using sums by simp
    next
      case False
      then have "\<forall>i \<in> set (filter (\<lambda>i. out1 ! i < caps ! i) idx). out2 ! i = caps ! i"
        using d by (simp add: distributed_def)
      then show ?thesis using full by blast
    qed
    show "length out2 = length out" "sum_list out2 \<le> sum_list out + r"
      using d sums by (simp_all add: distributed_def)
  next
    fix j assume "j \<notin> set idx"
    then show "out2 ! j = out ! j" by (rule out)
  next
    fix i assume i: "i \<in> set idx"
    show "out ! i \<le> out2 ! i" by (rule le[OF i])
    show "out2 ! i \<le> caps ! i" using at[OF i] by (rule conjunct2)
  qed
qed

lemma distribute_loop_spec:
  "loop_ok caps weights idx out \<Longrightarrow> r < 2 ^ 64 \<Longrightarrow> distributed r caps idx out (distribute_loop r caps weights idx out)"
proof (induction r caps weights idx out rule: distribute_loop.induct)
  case (1 r caps weights idx out)
  let ?t = "\<Sum>i\<leftarrow>idx. weights ! i"
  show ?case
  proof (cases "r = 0 \<or> idx = []")
    case True
    then show ?thesis
      using "1.prems" by (subst distribute_loop.simps) (auto simp: distributed_def loop_ok_def)
  next
    case False
    have t: "wrap64 ?t = ?t" using "1.prems"(1) by (simp add: wrap64_def loop_ok_def)
    have pos: "0 < ?t"
    proof -
      obtain i where "i \<in> set idx" using False by (cases idx) auto
      then show ?thesis using "1.prems"(1) member_le_sum[of i idx "\<lambda>i. weights ! i"] by (fastforce simp: loop_ok_def)
    qed
    obtain p out1 where g: "grant_round r ?t caps weights idx 0 out = (p, out1)" by fastforce
    have ok: "round_ok caps weights ?t idx out"
      using "1.prems"(1) pos member_le_sum[of _ idx "\<lambda>i. weights ! i"] by (auto simp: round_ok_def loop_ok_def intro: less_imp_le)
    note res = grant_round_spec[OF ok "1.prems"(2) _ g, unfolded round_result_def]
    have p: "p \<noteq> 0"
    proof
      assume "p = 0"
      then have "\<forall>i \<in> set idx. out ! i = caps ! i" using res False by simp
      then show False using "1.prems"(1) False by (cases idx) (auto simp: loop_ok_def)
    qed
    let ?rest = "filter (\<lambda>i. out1 ! i < caps ! i) idx"
    have ok1: "loop_ok caps weights ?rest out1"
      using "1.prems"(1) res False sum_filter_le[of "\<lambda>i. weights ! i" "\<lambda>i. out1 ! i < caps ! i" idx]
      by (auto simp: loop_ok_def)
    have nz: "wrap64 ?t \<noteq> 0" using pos t by linarith
    have g': "(p, out1) = grant_round r (wrap64 ?t) caps weights idx 0 out" using g t by simp
    have less: "r - p < 2 ^ 64" using "1.prems"(2) by simp
    note ih = "1.IH"[OF False refl nz g' p ok1 less]
    have "distribute_loop r caps weights idx out = distribute_loop (r - p) caps weights ?rest out1"
      using False pos p by (subst distribute_loop.simps) (simp add: Let_def t g del: sum_list_eq_0_iff)
    moreover have "distributed r caps idx out (distribute_loop (r - p) caps weights ?rest out1)"
      using distributed_compose[OF grant_round_spec[OF ok "1.prems"(2) _ g] ih] False by simp
    ultimately show ?thesis by simp
  qed
qed

section \<open>One dimension\<close>

lemma distribute_spec:
  assumes caps: "\<forall>c \<in> set caps. c < 2 ^ 64" and len: "length weights = length caps"
    and sum: "sum_list weights < 2 ^ 64" and r: "r < 2 ^ 64"
    and out: "out = distribute r caps weights (replicate (length caps) 0)"
  shows "length out = length caps" and "sum_list out \<le> r"
    and "\<And>i. i < length caps \<Longrightarrow> out ! i \<le> caps ! i"
    and "sum_list out = r \<or> (\<forall>i < length caps. 0 < weights ! i \<longrightarrow> out ! i = caps ! i)"
proof -
  let ?zero = "replicate (length caps) (0::nat)"
  let ?idx = "filter (\<lambda>i. ?zero ! i < caps ! i \<and> 0 < weights ! i) [0..<length caps]"
  have "(\<Sum>i\<leftarrow>[0..<length caps]. weights ! i) = sum_list weights"
    using len by (metis map_nth)
  then have "loop_ok caps weights ?idx ?zero"
    using caps sum sum_filter_le[of "\<lambda>i. weights ! i" "\<lambda>i. ?zero ! i < caps ! i \<and> 0 < weights ! i" "[0..<length caps]"]
    by (auto simp: loop_ok_def)
  then have d: "distributed r caps ?idx ?zero out"
    using distribute_loop_spec r by (simp add: out distribute_def)
  have z: "sum_list ?zero = 0" by (simp add: sum_list_replicate)
  show "length out = length caps" "sum_list out \<le> r" using d z by (simp_all add: distributed_def)
  show le: "out ! i \<le> caps ! i" if "i < length caps" for i
    using d that by (cases "i \<in> set ?idx") (auto simp: distributed_def)
  have "out ! i = caps ! i" if "i < length caps" "0 < weights ! i" "\<forall>i \<in> set ?idx. out ! i = caps ! i" for i
    using that le[OF that(1)] by (cases "caps ! i = 0") auto
  then show "sum_list out = r \<or> (\<forall>i < length caps. 0 < weights ! i \<longrightarrow> out ! i = caps ! i)"
    using d z unfolding distributed_def by fastforce
qed

lemma pointwise_sum_eq:
  assumes "length v = length m" and "\<And>i. i < length m \<Longrightarrow> v ! i \<le> m ! i" and "sum_list m \<le> sum_list v"
  shows "v = (m :: nat list)"
  using assms
proof (induction v m rule: list_induct2)
  case (Cons x xs y ys)
  have le: "x \<le> y" "\<And>i. i < length ys \<Longrightarrow> xs ! i \<le> ys ! i"
    using Cons.prems(1)[of 0] Cons.prems(1)[of "Suc _"] by auto
  have "sum_list xs \<le> sum_list ys"
    using le(2) Cons.hyps by (auto simp: sum_list_sum_nth intro: sum_mono)
  then have "sum_list ys \<le> sum_list xs" "x = y" using Cons.prems(2) le(1) by simp_all
  then show ?case using Cons.IH le(2) by simp
qed simp

lemma pointwise_sum_le:
  assumes "length v = length m" and "\<And>i. i < length m \<Longrightarrow> v ! i \<le> (m ! i :: nat)"
  shows "sum_list v \<le> sum_list m"
  using assms by (auto simp: sum_list_sum_nth intro: sum_mono)

definition amounts_fit :: "(resource_amount \<Rightarrow> nat) \<Rightarrow> participant_snapshot list \<Rightarrow> bool" where
  "amounts_fit get ps \<longleftrightarrow> length ps < 2 ^ 45 \<and>
     (\<forall>p \<in> set ps. get (rp_minimum (ps_profile p)) < 2 ^ 64 \<and> get (rp_target (ps_profile p)) < 2 ^ 64)"

definition dimension_ok :: "participant_snapshot list \<Rightarrow> nat \<Rightarrow> (resource_amount \<Rightarrow> nat) \<Rightarrow> nat list \<Rightarrow> bool" where
  "dimension_ok ps budget get f \<longleftrightarrow>
     length f = length ps \<and> sum_list f \<le> budget \<and> (\<forall>i < length ps. f ! i \<le> target_of get (ps ! i)) \<and>
     (sum_list f = budget \<or> f = map (target_of get) ps) \<and>
     (sum_list (map (minimum_of get) ps) \<le> budget \<longrightarrow> (\<forall>i < length ps. minimum_of get (ps ! i) \<le> f ! i))"

lemma weight_of_bound: "weight_of p < 2 ^ 19"
proof -
  have "unat (max (rp_weight (ps_profile p)) 1) < 2 ^ 16" using unat_bound[of "max (rp_weight (ps_profile p)) 1"] by simp
  moreover have "activity_weight a \<le> 8" for a by (cases a) auto
  ultimately have "activity_weight (ps_activity p) * unat (max (rp_weight (ps_profile p)) 1) \<le> 8 * (2 ^ 16 - 1)"
    by (intro mult_le_mono) auto
  then show ?thesis by (auto simp: weight_of_def)
qed

lemma weights_fit: "amounts_fit get ps \<Longrightarrow> sum_list (map weight_of ps) < 2 ^ 64"
proof -
  assume fit: "amounts_fit get ps"
  have "sum_list (map weight_of ps) \<le> length ps * 2 ^ 19"
    by (induction ps) (use weight_of_bound in \<open>auto intro: add_mono less_imp_le\<close>)
  also have "\<dots> < 2 ^ 45 * 2 ^ 19" using fit by (intro mult_strict_right_mono) (auto simp: amounts_fit_def)
  finally show ?thesis by simp
qed

lemma minimum_le_target: "minimum_of get p \<le> target_of get p"
  by (auto simp: minimum_of_def target_of_def)

lemma target_pos_weight: "0 < target_of get p \<Longrightarrow> 0 < weight_of p"
  by (auto simp: target_of_def weight_of_def split: if_splits)

lemma target_bound: "amounts_fit get ps \<Longrightarrow> p \<in> set ps \<Longrightarrow> target_of get p < 2 ^ 64"
  by (auto simp: amounts_fit_def target_of_def minimum_of_def)

lemma first_pass:
  assumes fit: "amounts_fit get ps" and r: "budget < 2 ^ 64"
    and v: "v = distribute budget (map (minimum_of get) ps) (map weight_of ps) (replicate (length ps) 0)"
  shows "length v = length ps" and "sum_list v \<le> budget" and "\<And>i. i < length ps \<Longrightarrow> v ! i \<le> minimum_of get (ps ! i)"
    and "sum_list v = budget \<or> v = map (minimum_of get) ps"
proof -
  have "\<forall>c \<in> set (map (minimum_of get) ps). c < 2 ^ 64"
    using fit by (auto simp: amounts_fit_def minimum_of_def)
  note d = distribute_spec[OF this _ weights_fit[OF fit] r, of v] v
  show len: "length v = length ps" "sum_list v \<le> budget" and le: "\<And>i. i < length ps \<Longrightarrow> v ! i \<le> minimum_of get (ps ! i)"
    using d by auto
  have "v ! i = minimum_of get (ps ! i)" if "i < length ps" "sum_list v \<noteq> budget" for i
    using d(4) v that le[OF that(1)] minimum_le_target[of get "ps ! i"] target_pos_weight[of get "ps ! i"] by force
  then show "sum_list v = budget \<or> v = map (minimum_of get) ps"
    using len(1) by (auto intro: nth_equalityI)
qed

lemma second_pass:
  assumes fit: "amounts_fit get ps" and r: "rest < 2 ^ 64" and len: "length v = length ps"
    and le0: "\<forall>i < length ps. v ! i \<le> target_of get (ps ! i)"
    and gaps: "gaps = map (\<lambda>(v, p). target_of get p - v) (zip v ps)"
    and e: "e = distribute rest gaps (map (\<lambda>(p, gap). if 0 < gap then weight_of p else 0) (zip ps gaps)) (replicate (length v) 0)"
    and f: "f = map (\<lambda>(v, e). sat64 (v + e)) (zip v e)"
  shows "length f = length ps" and "\<And>i. i < length ps \<Longrightarrow> v ! i \<le> f ! i \<and> f ! i \<le> target_of get (ps ! i)"
    and "sum_list f \<le> sum_list v + rest" and "sum_list f = sum_list v + rest \<or> f = map (target_of get) ps"
proof -
  have le: "v ! i \<le> target_of get (ps ! i)" if "i < length ps" for i using le0 that by blast
  let ?w = "map (\<lambda>(p, gap). if 0 < gap then weight_of p else 0) (zip ps gaps)"
  have g: "length gaps = length ps" "\<And>i. i < length ps \<Longrightarrow> gaps ! i = target_of get (ps ! i) - v ! i"
    using len by (simp_all add: gaps)
  have caps: "\<forall>c \<in> set gaps. c < 2 ^ 64"
  proof
    fix c
    assume "c \<in> set gaps"
    then obtain i where i: "i < length ps" "c = target_of get (ps ! i) - v ! i" by (auto simp: in_set_conv_nth g)
    then have "target_of get (ps ! i) < 2 ^ 64" using target_bound[OF fit] by simp
    then show "c < 2 ^ 64" using i(2) by simp
  qed
  have "sum_list ?w \<le> sum_list (map weight_of ps)"
    using g(1) by (intro pointwise_sum_le) (auto split: prod.split)
  then have ws: "sum_list ?w < 2 ^ 64" using weights_fit[OF fit] by simp
  have "e = distribute rest gaps ?w (replicate (length gaps) 0)" using e g(1) len by simp
  note d = distribute_spec[OF caps _ ws r this]
  have le': "length e = length ps" "sum_list e \<le> rest" "\<And>i. i < length ps \<Longrightarrow> e ! i \<le> gaps ! i" using d g(1) by auto
  have at: "f ! i = v ! i + e ! i" if i: "i < length ps" for i
  proof -
    have "v ! i + e ! i \<le> target_of get (ps ! i)" using le[OF i] le'(3)[OF i] g(2)[OF i] by simp
    also have "\<dots> < 2 ^ 64" using target_bound[OF fit] i by simp
    finally show ?thesis using i len le'(1) by (simp add: f sat64_def)
  qed
  show lf: "length f = length ps" using len le'(1) by (simp add: f)
  show fb: "v ! i \<le> f ! i \<and> f ! i \<le> target_of get (ps ! i)" if "i < length ps" for i
    using at[OF that] le[OF that] le'(3)[OF that] g(2)[OF that] by simp
  have sum: "sum_list f = sum_list v + sum_list e"
    using at lf len le'(1) by (simp add: sum_list_sum_nth sum.distrib)
  then show "sum_list f \<le> sum_list v + rest" using le'(2) by simp
  have "f ! i = target_of get (ps ! i)" if i: "i < length ps" and ne: "sum_list e \<noteq> rest" for i
  proof (cases "gaps ! i = 0")
    case True
    then show ?thesis using at[OF i] le[OF i] le'(3)[OF i] g(2)[OF i] by simp
  next
    case False
    then have "0 < ?w ! i" using i g target_pos_weight[of get "ps ! i"] by auto
    then have "e ! i = gaps ! i" using d(4) ne i g(1) by auto
    then show ?thesis using at[OF i] le[OF i] g(2)[OF i] by simp
  qed
  then show "sum_list f = sum_list v + rest \<or> f = map (target_of get) ps"
    using sum lf by (auto intro: nth_equalityI)
qed

lemma dimension_values_ok:
  assumes fit: "amounts_fit get ps" and r: "budget < 2 ^ 64"
  shows "dimension_ok ps budget get (dimension_values ps budget get)"
proof -
  define v where "v = distribute budget (map (minimum_of get) ps) (map weight_of ps) (replicate (length ps) 0)"
  note a = first_pass[OF fit r v_def]
  have used: "wrap64 (sum_list v) = sum_list v" using a(2) r by (simp add: wrap64_def)
  have vt: "v ! i \<le> target_of get (ps ! i)" if "i < length ps" for i
    using a(3)[OF that] minimum_le_target order_trans by blast
  have keep: "v = map (minimum_of get) ps" if "sum_list (map (minimum_of get) ps) \<le> budget"
    using a(4) pointwise_sum_eq[of v "map (minimum_of get) ps"] a(1,3) that by auto
  show ?thesis
  proof (cases "sum_list v < budget")
    case False
    then have "dimension_values ps budget get = v" by (simp add: dimension_values_def v_def[symmetric] Let_def used)
    moreover have "sum_list v = budget" using False a(2) by simp
    ultimately show ?thesis using a(1) vt keep by (auto simp: dimension_ok_def)
  next
    case True
    define gaps where "gaps = map (\<lambda>(v, p). target_of get p - v) (zip v ps)"
    define e where "e = distribute (budget - sum_list v) gaps
      (map (\<lambda>(p, gap). if 0 < gap then weight_of p else 0) (zip ps gaps)) (replicate (length v) 0)"
    define f where "f = map (\<lambda>(v, e). sat64 (v + e)) (zip v e)"
    have vt': "\<forall>i < length ps. v ! i \<le> target_of get (ps ! i)" using vt by blast
    have "budget - sum_list v < 2 ^ 64" using r by simp
    note b = second_pass[OF fit this a(1) vt' gaps_def e_def f_def]
    have "dimension_values ps budget get = f"
      using True by (simp add: dimension_values_def v_def[symmetric] Let_def used gaps_def e_def f_def)
    moreover have "minimum_of get (ps ! i) \<le> f ! i"
      if "sum_list (map (minimum_of get) ps) \<le> budget" "i < length ps" for i
      using keep[OF that(1)] b(2)[OF that(2)] that(2) by simp
    ultimately show ?thesis using True b by (auto simp: dimension_ok_def)
  qed
qed

section \<open>The plan\<close>

definition dimensions :: "(resource_amount \<Rightarrow> nat) list" where
  "dimensions = [cpu_memory_bytes, gpu_memory_bytes, worker_slots, network_slots]"

definition in_dimension :: "(resource_amount \<Rightarrow> nat) \<Rightarrow> resource_allocation list \<Rightarrow> nat list" where
  "in_dimension get as = map (\<lambda>a. get (al_amount a)) as"

lemma allocate_dimension_get:
  assumes fit: "amounts_fit get ps" and r: "budget < 2 ^ 64" and len: "length out = length ps"
    and put: "\<And>v a. get (put v a) = v" and zero: "\<forall>a \<in> set out. get (al_amount a) = 0"
  shows "dimension_ok ps budget get (in_dimension get (allocate_dimension ps budget get put out))"
proof (cases "budget = 0 \<or> ps = []")
  case True
  have z: "in_dimension get out = replicate (length ps) 0"
    using zero len by (auto simp: in_dimension_def intro!: nth_equalityI)
  have "dimension_ok ps budget get (replicate (length ps) 0)"
    using True by (auto simp: dimension_ok_def sum_list_replicate)
  then show ?thesis using True z by (simp add: allocate_dimension_def)
next
  case False
  note ok = dimension_values_ok[OF fit r]
  then have "length (dimension_values ps budget get) = length out" using len by (simp add: dimension_ok_def)
  then have "in_dimension get (allocate_dimension ps budget get put out) = dimension_values ps budget get"
    using False put by (auto simp: in_dimension_def allocate_dimension_def intro!: nth_equalityI)
  then show ?thesis using ok by simp
qed

lemma allocate_dimension_frame:
  assumes fit: "amounts_fit get ps" and r: "budget < 2 ^ 64" and len: "length out = length ps"
  shows "length (allocate_dimension ps budget get put out) = length ps"
    and "map al_id (allocate_dimension ps budget get put out) = map al_id out"
    and "map al_activity (allocate_dimension ps budget get put out) = map al_activity out"
    and "(\<And>v a. h (put v a) = h a) \<Longrightarrow> in_dimension h (allocate_dimension ps budget get put out) = in_dimension h out"
proof -
  have l: "length (dimension_values ps budget get) = length out"
    using dimension_values_ok[OF fit r] len by (simp add: dimension_ok_def)
  show "length (allocate_dimension ps budget get put out) = length ps"
    "map al_id (allocate_dimension ps budget get put out) = map al_id out"
    "map al_activity (allocate_dimension ps budget get put out) = map al_activity out"
    using l len by (auto simp: allocate_dimension_def intro!: nth_equalityI)
  show "in_dimension h (allocate_dimension ps budget get put out) = in_dimension h out"
    if "\<And>v a. h (put v a) = h a"
    using l len that by (auto simp: allocate_dimension_def in_dimension_def intro!: nth_equalityI)
qed

lemma in_dimension_zero: "in_dimension h out = replicate n 0 \<Longrightarrow> \<forall>a \<in> set out. h (al_amount a) = 0"
  by (auto simp: in_dimension_def) (metis in_set_replicate imageI list.set_map)

lemma plan_allocations_ok:
  assumes fit: "\<forall>get \<in> set dimensions. amounts_fit get ps \<and> get b < 2 ^ 64"
  shows "\<forall>get \<in> set dimensions. dimension_ok ps (get b) get (in_dimension get (plan_allocations ps b))"
    and "map al_id (plan_allocations ps b) = map ps_id ps"
    and "map al_activity (plan_allocations ps b) = map ps_activity ps"
proof -
  let ?z = "replicate (length ps) 0"
  define a0 where "a0 = map empty_allocation ps"
  define a1 where "a1 = allocate_dimension ps (cpu_memory_bytes b) cpu_memory_bytes (\<lambda>v a. a\<lparr>cpu_memory_bytes := v\<rparr>) a0"
  define a2 where "a2 = allocate_dimension ps (gpu_memory_bytes b) gpu_memory_bytes (\<lambda>v a. a\<lparr>gpu_memory_bytes := v\<rparr>) a1"
  define a3 where "a3 = allocate_dimension ps (worker_slots b) worker_slots (\<lambda>v a. a\<lparr>worker_slots := v\<rparr>) a2"
  define a4 where "a4 = allocate_dimension ps (network_slots b) network_slots (\<lambda>v a. a\<lparr>network_slots := v\<rparr>) a3"
  have plan: "plan_allocations ps b = a4" by (simp add: plan_allocations_def a0_def a1_def a2_def a3_def a4_def)
  have f: "amounts_fit cpu_memory_bytes ps" "cpu_memory_bytes b < 2 ^ 64" "amounts_fit gpu_memory_bytes ps" "gpu_memory_bytes b < 2 ^ 64"
    "amounts_fit worker_slots ps" "worker_slots b < 2 ^ 64" "amounts_fit network_slots ps" "network_slots b < 2 ^ 64"
    using fit by (simp_all add: dimensions_def)
  have l0: "length a0 = length ps" by (simp add: a0_def)
  have z0: "in_dimension h a0 = ?z" if "h no_resources = 0" for h
    using that by (auto simp: in_dimension_def a0_def empty_allocation_def intro!: nth_equalityI)
  note s1 = allocate_dimension_frame[OF f(1,2) l0, where put = "\<lambda>v a. a\<lparr>cpu_memory_bytes := v\<rparr>", folded a1_def]
  note s2 = allocate_dimension_frame[OF f(3,4) s1(1), where put = "\<lambda>v a. a\<lparr>gpu_memory_bytes := v\<rparr>", folded a2_def]
  note s3 = allocate_dimension_frame[OF f(5,6) s2(1), where put = "\<lambda>v a. a\<lparr>worker_slots := v\<rparr>", folded a3_def]
  note s4 = allocate_dimension_frame[OF f(7,8) s3(1), where put = "\<lambda>v a. a\<lparr>network_slots := v\<rparr>", folded a4_def]
  have zero: "\<forall>a \<in> set a0. cpu_memory_bytes (al_amount a) = 0" "\<forall>a \<in> set a1. gpu_memory_bytes (al_amount a) = 0"
    "\<forall>a \<in> set a2. worker_slots (al_amount a) = 0" "\<forall>a \<in> set a3. network_slots (al_amount a) = 0"
    by (rule in_dimension_zero[of _ _ "length ps"]; simp add: s1(4) s2(4) s3(4) z0 no_resources_def)+
  have d1: "dimension_ok ps (cpu_memory_bytes b) cpu_memory_bytes (in_dimension cpu_memory_bytes a1)"
    unfolding a1_def by (rule allocate_dimension_get[OF f(1,2) l0 _ zero(1)]) simp
  have d2: "dimension_ok ps (gpu_memory_bytes b) gpu_memory_bytes (in_dimension gpu_memory_bytes a2)"
    unfolding a2_def by (rule allocate_dimension_get[OF f(3,4) s1(1) _ zero(2)]) simp
  have d3: "dimension_ok ps (worker_slots b) worker_slots (in_dimension worker_slots a3)"
    unfolding a3_def by (rule allocate_dimension_get[OF f(5,6) s2(1) _ zero(3)]) simp
  have d4: "dimension_ok ps (network_slots b) network_slots (in_dimension network_slots a4)"
    unfolding a4_def by (rule allocate_dimension_get[OF f(7,8) s3(1) _ zero(4)]) simp
  show "\<forall>get \<in> set dimensions. dimension_ok ps (get b) get (in_dimension get (plan_allocations ps b))"
    using d1 d2 d3 d4 by (simp add: plan dimensions_def s2(4) s3(4) s4(4))
  show "map al_id (plan_allocations ps b) = map ps_id ps" "map al_activity (plan_allocations ps b) = map ps_activity ps"
    by (simp_all add: plan s1 s2 s3 s4, simp_all add: a0_def empty_allocation_def)
qed

lemma budget_for_fits:
  "budget_for mode sys = Some b \<Longrightarrow> \<forall>get \<in> set dimensions. get b < 2 ^ 64"
proof -
  assume b: "budget_for mode sys = Some b"
  have c: "unat (max (logical_cpus sys) 1) < 2 ^ 16" using unat_bound[of "max (logical_cpus sys) 1"] by simp
  have "unat (max (logical_cpus sys) 1) div k < 2 ^ 64" for k
    by (rule le_less_trans[OF div_le_dividend]) (use c in simp)
  then show ?thesis
    using b c by (auto simp: budget_for_def dimensions_def clamp_nat_def GIB_def MIB_def Let_def split: resource_mode.splits)
qed

lemma plan_total: "\<exists>pl. plan c ps = Some pl"
  by (cases "effective_mode (co_mode c) (co_system c)")
     (auto simp: plan_def budget_for_def Let_def effective_mode_def split: if_splits)

text \<open>A plan exists for every requested mode and machine: the automatic mode is always resolved to a
  concrete one, and the concrete modes are honoured; its budget stays between fixed limits.\<close>

theorem plan_always_exists:
  "\<exists>pl. plan c ps = Some pl \<and> ap_requested_mode pl = co_mode c \<and> ap_effective_mode pl \<noteq> Auto \<and>
     (if co_mode c = Auto then True else ap_effective_mode pl = co_mode c) \<and>
     192 * MIB \<le> cpu_memory_bytes (ap_budget pl) \<and> cpu_memory_bytes (ap_budget pl) \<le> 12 * GIB \<and>
     64 * MIB \<le> gpu_memory_bytes (ap_budget pl) \<and> gpu_memory_bytes (ap_budget pl) \<le> 3 * GIB \<and>
     1 \<le> worker_slots (ap_budget pl) \<and> 2 \<le> network_slots (ap_budget pl)"
proof -
  have m: "effective_mode (co_mode c) (co_system c) \<noteq> Auto"
    "co_mode c \<noteq> Auto \<Longrightarrow> effective_mode (co_mode c) (co_system c) = co_mode c"
    by (auto simp: effective_mode_def)
  obtain b where b: "budget_for (effective_mode (co_mode c) (co_system c)) (co_system c) = Some b"
    using m(1) by (cases "effective_mode (co_mode c) (co_system c)") (auto simp: budget_for_def Let_def)
  then have "192 * MIB \<le> cpu_memory_bytes b \<and> cpu_memory_bytes b \<le> 12 * GIB \<and>
     64 * MIB \<le> gpu_memory_bytes b \<and> gpu_memory_bytes b \<le> 3 * GIB \<and> 1 \<le> worker_slots b \<and> 2 \<le> network_slots b"
    by (auto simp: budget_for_def clamp_nat_def GIB_def MIB_def Let_def split: resource_mode.splits)
  then show ?thesis using m b by (auto simp: plan_def Let_def)
qed

text \<open>C39: In each of the four dimensions the shares of a plan never add up to more than the budget and no
  participant gets more than its target; a suspended participant that may be suspended gets nothing at
  all. The allocations name exactly the participants, in their order.\<close>

theorem plan_stays_within_budget:
  assumes "plan c ps = Some pl" and "\<forall>get \<in> set dimensions. amounts_fit get ps"
  shows "map al_id (ap_allocations pl) = map ps_id ps \<and>
    (\<forall>get \<in> set dimensions.
       sum_list (in_dimension get (ap_allocations pl)) \<le> get (ap_budget pl) \<and>
       (\<forall>i < length ps. get (al_amount (ap_allocations pl ! i)) \<le> target_of get (ps ! i) \<and>
          (is_suspended (ps ! i) \<longrightarrow> get (al_amount (ap_allocations pl ! i)) = 0)))"
proof -
  obtain b where b: "budget_for (effective_mode (co_mode c) (co_system c)) (co_system c) = Some b"
    and pl: "ap_allocations pl = plan_allocations ps b" "ap_budget pl = b"
    using assms(1) by (auto simp: plan_def Let_def)
  have fit: "\<forall>get \<in> set dimensions. amounts_fit get ps \<and> get b < 2 ^ 64" using assms(2) budget_for_fits[OF b] by blast
  note ok = plan_allocations_ok[OF fit]
  have len: "length (plan_allocations ps b) = length ps" using ok(2) by (metis length_map)
  have "get (al_amount (plan_allocations ps b ! i)) \<le> target_of get (ps ! i)"
    if "get \<in> set dimensions" "i < length ps" for get i
    using ok(1) that len by (fastforce simp: dimension_ok_def in_dimension_def)
  then show ?thesis
    using ok by (fastforce simp: pl dimension_ok_def target_of_def)
qed

text \<open>C40: No capacity is wasted and no minimum is missed needlessly: in each dimension either the whole
  budget is handed out or every participant has its full target; and whenever the minimums of the
  participants fit into the budget together, everyone gets at least its minimum.\<close>

theorem plan_meets_minimums_and_wastes_nothing:
  assumes "plan c ps = Some pl" and "\<forall>get \<in> set dimensions. amounts_fit get ps" and "get \<in> set dimensions"
  shows "(sum_list (in_dimension get (ap_allocations pl)) = get (ap_budget pl) \<or>
      in_dimension get (ap_allocations pl) = map (target_of get) ps) \<and>
    (sum_list (map (minimum_of get) ps) \<le> get (ap_budget pl) \<longrightarrow>
      (\<forall>i < length ps. minimum_of get (ps ! i) \<le> in_dimension get (ap_allocations pl) ! i))"
proof -
  obtain b where b: "budget_for (effective_mode (co_mode c) (co_system c)) (co_system c) = Some b"
    and pl: "ap_allocations pl = plan_allocations ps b" "ap_budget pl = b"
    using assms(1) by (auto simp: plan_def Let_def)
  have fit: "\<forall>get \<in> set dimensions. amounts_fit get ps \<and> get b < 2 ^ 64" using assms(2) budget_for_fits[OF b] by blast
  show ?thesis using plan_allocations_ok(1)[OF fit] assms(3) by (auto simp: pl dimension_ok_def)
qed

section \<open>Witnesses\<close>

definition demo_amount :: "nat \<Rightarrow> resource_amount" where
  "demo_amount n = \<lparr>cpu_memory_bytes = n, gpu_memory_bytes = n, worker_slots = 1, network_slots = 0\<rparr>"

definition demo_participants :: "participant_snapshot list" where
  "demo_participants =
     [\<lparr>ps_id = 1, ps_activity = ForegroundInteractive, ps_profile = resource_profile_new (demo_amount 32) (demo_amount 256)\<rparr>,
      \<lparr>ps_id = 2, ps_activity = Suspended, ps_profile = resource_profile_new (demo_amount 32) (demo_amount 256)\<rparr>]"

definition demo_coordinator :: resource_coordinator where
  "demo_coordinator = coordinator_new Balanced
     \<lparr>physical_memory_bytes = 16 * GIB, logical_cpus = 8, low_power_mode = False\<rparr>"

lemma demo_fits: "\<forall>get \<in> set dimensions. amounts_fit get demo_participants"
  by (simp add: dimensions_def amounts_fit_def demo_participants_def resource_profile_new_def demo_amount_def)

theorem plan_stays_within_budget_witness:
  "\<exists>pl. plan demo_coordinator demo_participants = Some pl \<and> worker_slots (al_amount (ap_allocations pl ! 1)) = 0"
proof -
  obtain pl where pl: "plan demo_coordinator demo_participants = Some pl"
    by (auto simp: plan_def demo_coordinator_def coordinator_new_def effective_mode_def budget_for_def Let_def)
  have "worker_slots \<in> set dimensions" by (simp add: dimensions_def)
  moreover have "is_suspended (demo_participants ! 1)" "1 < length demo_participants"
    by (simp_all add: demo_participants_def is_suspended_def resource_profile_new_def)
  ultimately have "worker_slots (al_amount (ap_allocations pl ! 1)) = 0"
    using plan_stays_within_budget[OF pl demo_fits] by blast
  then show ?thesis using pl by blast
qed

theorem plan_meets_minimums_and_wastes_nothing_witness:
  "\<exists>pl. plan demo_coordinator demo_participants = Some pl \<and> 32 \<le> in_dimension cpu_memory_bytes (ap_allocations pl) ! 0"
proof -
  obtain b pl where pl: "plan demo_coordinator demo_participants = Some pl" and b: "ap_budget pl = b" "64 \<le> cpu_memory_bytes b"
    by (auto simp: plan_def demo_coordinator_def coordinator_new_def effective_mode_def budget_for_def Let_def clamp_nat_def GIB_def MIB_def)
  have "cpu_memory_bytes \<in> set dimensions" by (simp add: dimensions_def)
  moreover have "sum_list (map (minimum_of cpu_memory_bytes) demo_participants) \<le> cpu_memory_bytes (ap_budget pl)"
    "minimum_of cpu_memory_bytes (demo_participants ! 0) = 32" "0 < length demo_participants"
    using b by (simp_all add: demo_participants_def minimum_of_def is_suspended_def resource_profile_new_def demo_amount_def)
  ultimately have "32 \<le> in_dimension cpu_memory_bytes (ap_allocations pl) ! 0"
    using plan_meets_minimums_and_wastes_nothing[OF pl demo_fits] by metis
  then show ?thesis using pl by blast
qed

end
