(* ===== verification/WorkspaceProps.thy ===== *)
theory WorkspaceProps
  imports Workspace ResourcesProps
begin

text \<open>
  The properties of the workspace: which tab layouts are accepted, and that the registry of resource
  participants reports every change of an allocation and every removal exactly once.
\<close>

section \<open>Placement\<close>

lemma visit_views_append:
  "visit_views (\<lambda>v views. views @ [v]) c vs = vs @ visit_views (\<lambda>v views. views @ [v]) c []"
proof (induction c arbitrary: vs)
  case (SplitContent axis ratio first second)
  let ?V = "visit_views (\<lambda>v views. views @ [v])"
  have "?V second (?V first vs) = (vs @ ?V first []) @ ?V second []"
    using SplitContent.IH(1)[of vs] SplitContent.IH(2)[of "vs @ ?V first []"] by simp
  moreover have "?V second (?V first []) = ?V first [] @ ?V second []"
    by (rule SplitContent.IH(2))
  ultimately show ?case by simp
qed simp_all

lemma view_ids_simps [simp]:
  "view_ids EmptyContent = []"
  "view_ids (ViewContent v) = [v]"
  "view_ids (SplitContent axis ratio first second) = view_ids first @ view_ids second"
  unfolding view_ids_def by (simp_all, rule visit_views_append)

lemma visit_views_foldl: "visit_views visit c s = foldl (\<lambda>s v. visit v s) s (view_ids c)"
  by (induction c arbitrary: s) simp_all

lemma fold_found: "foldl (\<lambda>found v. found \<or> v = needle) b vs \<longleftrightarrow> b \<or> needle \<in> set vs"
  by (induction vs arbitrary: b) auto

text \<open>A placement tree shows each of its leaves exactly once, in order: the number of leaves is the
  number of listed views, and a view is found exactly when it is listed.\<close>

theorem placement_lists_every_view:
  "leaf_count c = length (view_ids c) \<and> contains_view c v = (v \<in> set (view_ids c)) \<and>
   visit_views visit c s = foldl (\<lambda>s v. visit v s) s (view_ids c)"
proof -
  have "leaf_count c = length (view_ids c)" by (induction c) simp_all
  then show ?thesis by (simp add: contains_view_def visit_views_foldl[of _ c] fold_found)
qed

lemma ratio_limits: "RATIO_MIN = Fin (13421773 / 134217728)" "RATIO_MAX = Fin (15099494 / 16777216)"
  by code_simp+

text \<open>A split tab is accepted exactly when its two views are different, the active view is one of them
  and the ratio is a number; every accepted layout is supported and its ratio, wherever the divider was
  dragged, lies between the binary32 values of 0.1 and 0.9.\<close>

theorem split_pair_accepts_exactly:
  "(split_pair i axis ratio first second active_view \<noteq> None \<longleftrightarrow>
      ratio \<noteq> NaN \<and> first \<noteq> second \<and> active_view \<in> {first, second}) \<and>
   (case split_pair i axis ratio first second active_view of
      None \<Rightarrow> True
    | Some t \<Rightarrow> is_supported t \<and> tl_id t = i \<and> tl_active_view t = active_view \<and> view_ids (tl_content t) = [first, second] \<and>
        (\<exists>r. tl_content t = SplitContent axis r (ViewContent first) (ViewContent second) \<and>
           is_finite r \<and> f32_le RATIO_MIN r \<and> f32_le r RATIO_MAX))"
proof -
  have "f32_le RATIO_MIN RATIO_MAX" "is_finite RATIO_MIN" "is_finite RATIO_MAX"
    by (simp_all add: ratio_limits f32_le_def)
  then have in_range: "is_finite (f32_clamp ratio RATIO_MIN RATIO_MAX) \<and> f32_le RATIO_MIN (f32_clamp ratio RATIO_MIN RATIO_MAX) \<and>
      f32_le (f32_clamp ratio RATIO_MIN RATIO_MAX) RATIO_MAX \<longleftrightarrow> ratio \<noteq> NaN"
    using f32_clamp_within[of ratio RATIO_MIN RATIO_MAX]
    by (cases "ratio = NaN") (auto simp: f32_clamp_def f32_le_def ratio_limits)
  have "is_supported \<lparr>tl_id = i, tl_active_view = active_view,
      tl_content = SplitContent axis (f32_clamp ratio RATIO_MIN RATIO_MAX) (ViewContent first) (ViewContent second)\<rparr> \<longleftrightarrow>
    ratio \<noteq> NaN \<and> first \<noteq> second \<and> active_view \<in> {first, second}"
    using in_range by (auto simp: is_supported_def shape_is_supported_def Let_def)
  then show ?thesis using in_range by (simp add: split_pair_def Let_def)
qed

section \<open>The registry\<close>

definition registry_inv :: "resource_registry \<Rightarrow> bool" where
  "registry_inv r \<longleftrightarrow> bt_ok (rr_participants r) \<and>
     (\<forall>k e. map_of (rr_participants r) k = Some e \<longrightarrow> ps_id (pr_snapshot e) = k)"

lemma registry_distinct: "registry_inv r \<Longrightarrow> distinct (map fst (rr_participants r))"
  unfolding registry_inv_def by (blast intro: bt_ok_distinct)

lemma registry_inv_new: "registry_inv registry_new"
  by (simp add: registry_inv_def registry_new_def bt_ok_def)

lemma registry_inv_insert:
  "registry_inv r \<Longrightarrow> ps_id (pr_snapshot e) = k \<Longrightarrow> registry_inv (r\<lparr>rr_participants := bt_insert k e (rr_participants r)\<rparr>)"
  by (auto simp: registry_inv_def map_of_bt_insert intro: bt_ok_insert)

lemma registry_inv_upsert: "registry_inv r \<Longrightarrow> registry_inv (upsert p r)"
  by (auto simp: upsert_def intro!: registry_inv_insert split: option.splits)

lemma registry_inv_update:
  "registry_inv r \<Longrightarrow> (\<And>p. ps_id (f p) = ps_id p) \<Longrightarrow> update_snapshot i f r = (b, r') \<Longrightarrow> registry_inv r'"
  by (auto simp: update_snapshot_def registry_inv_def[of r] split: option.splits intro!: registry_inv_insert)
     (auto simp: registry_inv_def)

lemma registry_inv_remove: "registry_inv r \<Longrightarrow> registry_remove i r = (b, r') \<Longrightarrow> registry_inv r'"
  by (auto simp: registry_remove_def registry_inv_def map_of_bt_remove bt_ok_remove split: if_splits)

text \<open>The allocator answers every participant, whatever the amounts.\<close>

lemma length_grant_round: "grant_round r tw caps weights idx p out = (p', out') \<Longrightarrow> length out' = length out"
  by (induction idx arbitrary: p out) (auto simp: Let_def split: if_splits)

lemma length_distribute_loop: "length (distribute_loop r caps weights idx out) = length out"
proof (induction r caps weights idx out rule: distribute_loop.induct)
  case (1 r caps weights idx out)
  show ?case
    using 1 by (subst distribute_loop.simps) (auto simp: Let_def length_grant_round split: prod.split)
qed

lemma length_dimension_values: "length (dimension_values ps budget get) = length ps"
  by (simp add: dimension_values_def distribute_def length_distribute_loop Let_def)

lemma allocate_dimension_ids:
  "length out = length ps \<Longrightarrow> length (allocate_dimension ps budget get put out) = length ps \<and>
   map al_id (allocate_dimension ps budget get put out) = map al_id out"
  by (auto simp: allocate_dimension_def length_dimension_values intro!: nth_equalityI)

lemma plan_ids: "plan c ps = Some pl \<Longrightarrow> map al_id (ap_allocations pl) = map ps_id ps"
  by (auto simp: plan_def plan_allocations_def allocate_dimension_ids empty_allocation_def Let_def)

section \<open>Reconciliation\<close>

definition with_allocations :: "resource_allocation list \<Rightarrow> participant_id \<Rightarrow> participant_record \<Rightarrow> participant_record" where
  "with_allocations as k e = (case map_of (map (\<lambda>a. (al_id a, a)) as) k of None \<Rightarrow> e | Some a \<Rightarrow> e\<lparr>pr_allocation := Some a\<rparr>)"

definition changes ::
  "resource_allocation list \<Rightarrow> (participant_id \<times> participant_record) list \<Rightarrow> allocation_change list" where
  "changes as m = map (\<lambda>a. \<lparr>ac_previous = pr_allocation (the (map_of m (al_id a))), ac_current = a\<rparr>)
     (filter (\<lambda>a. pr_allocation (the (map_of m (al_id a))) \<noteq> Some a) as)"

lemma snapshots_bt_insert:
  "bt_ok m \<Longrightarrow> map_of m k = Some e \<Longrightarrow> pr_snapshot e' = pr_snapshot e \<Longrightarrow>
   map (\<lambda>(k, e). (k, pr_snapshot e)) (bt_insert k e' m) = map (\<lambda>(k, e). (k, pr_snapshot e)) m"
proof (induction k e' m rule: bt_insert.induct)
  case (2 k v j u m)
  then show ?case
    by (auto simp: bt_ok_def split: if_splits dest!: map_of_SomeD)
qed simp

lemma bt_insert_same: "bt_ok m \<Longrightarrow> map_of m k = Some v \<Longrightarrow> bt_insert k v m = m"
  by (induction k v m rule: bt_insert.induct) (auto simp: bt_ok_def split: if_splits dest!: map_of_SomeD)

lemma changes_cong:
  "\<forall>a \<in> set as. map_of m (al_id a) = map_of m' (al_id a) \<Longrightarrow> changes as m = changes as m'"
  unfolding changes_def by (auto cong: filter_cong)

lemma apply_allocations_spec:
  assumes "bt_ok m" and "distinct (map al_id as)" and "set (map al_id as) \<subseteq> dom (map_of m)"
  shows "\<exists>m'. apply_allocations as m = Some (changes as m, m') \<and> bt_ok m' \<and>
    map (\<lambda>(k, e). (k, pr_snapshot e)) m' = map (\<lambda>(k, e). (k, pr_snapshot e)) m \<and>
    (\<forall>k. map_of m' k = map_option (with_allocations as k) (map_of m k))"
  using assms
proof (induction as arbitrary: m)
  case Nil
  then show ?case by (simp add: changes_def with_allocations_def option.map_ident)
next
  case (Cons a as)
  obtain e where e: "map_of m (al_id a) = Some e" using Cons.prems(3) by auto
  let ?e = "e\<lparr>pr_allocation := Some a\<rparr>"
  let ?m = "bt_insert (al_id a) ?e m"
  have m1: "bt_ok ?m" "map_of ?m = (map_of m)(al_id a \<mapsto> ?e)"
    using Cons.prems(1) by (simp_all add: bt_ok_insert map_of_bt_insert)
  have same: "?m = m" if "pr_allocation e = Some a"
  proof -
    have "?e = e" using that by simp
    then show ?thesis using Cons.prems(1) e
      by (metis bt_insert_same)
  qed
  have "distinct (map al_id as)" "set (map al_id as) \<subseteq> dom (map_of ?m)" and new: "al_id a \<notin> set (map al_id as)"
    using Cons.prems(2,3) by (auto simp: m1)
  from Cons.IH[OF m1(1) this(1,2)] obtain m' where ih: "apply_allocations as ?m = Some (changes as ?m, m')" "bt_ok m'"
    "map (\<lambda>(k, e). (k, pr_snapshot e)) m' = map (\<lambda>(k, e). (k, pr_snapshot e)) ?m"
    "\<And>k. map_of m' k = map_option (with_allocations as k) (map_of ?m k)" by blast
  have ch: "changes as ?m = changes as m" 
  proof (intro changes_cong ballI)
    fix x
    assume "x \<in> set as"
    then have "al_id x \<noteq> al_id a" using new by (metis image_eqI list.set_map)
    then show "map_of ?m (al_id x) = map_of m (al_id x)" by (simp add: m1)
  qed
  have "map_of (map (\<lambda>a. (al_id a, a)) as) (al_id a) = None" using new by (auto simp: map_of_eq_None_iff)
  then have "map_of m' k = map_option (with_allocations (a # as) k) (map_of m k)" for k
    using ih(4)[of k] e by (cases "map_of m k") (auto simp: m1 with_allocations_def)
  moreover have "apply_allocations (a # as) m = Some (changes (a # as) m, m')"
    using ih(1) e same by (cases "pr_allocation e = Some a") (auto simp: changes_def ch[unfolded changes_def])
  moreover have "map (\<lambda>(k, e). (k, pr_snapshot e)) m' = map (\<lambda>(k, e). (k, pr_snapshot e)) m"
    using ih(3) snapshots_bt_insert[OF Cons.prems(1) e, of ?e] by simp
  ultimately show ?case using ih(2) by blast
qed

inductive registry_run :: "resource_registry \<Rightarrow> bool" where
  rg_new: "registry_run registry_new"
| rg_upsert: "registry_run r \<Longrightarrow> registry_run (upsert p r)"
| rg_activity: "registry_run r \<Longrightarrow> set_activity i a r = (b, r') \<Longrightarrow> registry_run r'"
| rg_profile: "registry_run r \<Longrightarrow> set_profile i pr r = (b, r') \<Longrightarrow> registry_run r'"
| rg_remove: "registry_run r \<Longrightarrow> registry_remove i r = (b, r') \<Longrightarrow> registry_run r'"
| rg_reconcile: "registry_run r \<Longrightarrow> reconcile c r = Some (rec, r') \<Longrightarrow> registry_run r'"

lemma registered_ids:
  assumes "registry_inv r"
  shows "map (ps_id \<circ> (pr_snapshot \<circ> snd)) (rr_participants r) = map fst (rr_participants r)"
  using assms bt_ok_distinct by (force simp: registry_inv_def)

lemma reconcile_spec:
  assumes inv: "registry_inv r"
  shows "\<exists>pl r'. plan c (map (pr_snapshot \<circ> snd) (rr_participants r)) = Some pl \<and>
    reconcile c r = Some (\<lparr>rc_plan = Some pl, rc_changed = changes (ap_allocations pl) (rr_participants r),
      rc_removed = rr_removed r\<rparr>, r') \<and> rr_removed r' = [] \<and> registry_inv r' \<and>
    map (pr_snapshot \<circ> snd) (rr_participants r') = map (pr_snapshot \<circ> snd) (rr_participants r) \<and>
    map al_id (ap_allocations pl) = map fst (rr_participants r) \<and>
    (\<forall>k. map_of (rr_participants r') k = map_option (with_allocations (ap_allocations pl) k) (map_of (rr_participants r) k))"
proof -
  let ?m = "rr_participants r"
  have ok: "bt_ok ?m" using inv by (simp add: registry_inv_def)
  obtain pl where pl: "plan c (map (pr_snapshot \<circ> snd) ?m) = Some pl"
    using plan_total by blast
  have ids: "map al_id (ap_allocations pl) = map fst ?m"
    using plan_ids[OF pl] registered_ids[OF inv] by simp
  have "distinct (map al_id (ap_allocations pl))" "set (map al_id (ap_allocations pl)) \<subseteq> dom (map_of ?m)"
    using ids bt_ok_distinct[OF ok] by (simp_all add: dom_map_of_conv_image_fst)
  from apply_allocations_spec[OF ok this] obtain m' where m': "apply_allocations (ap_allocations pl) ?m = Some (changes (ap_allocations pl) ?m, m')"
    "bt_ok m'" "map (\<lambda>(k, e). (k, pr_snapshot e)) m' = map (\<lambda>(k, e). (k, pr_snapshot e)) ?m"
    "\<And>k. map_of m' k = map_option (with_allocations (ap_allocations pl) k) (map_of ?m k)" by blast
  have snaps: "map (pr_snapshot \<circ> snd) m' = map (pr_snapshot \<circ> snd) ?m"
    using arg_cong[OF m'(3), of "map snd"] by (simp add: comp_def case_prod_beta)
  have "registry_inv \<lparr>rr_participants = m', rr_removed = []\<rparr>"
    using inv m'(2,4) by (auto simp: registry_inv_def with_allocations_def split: option.splits)
  then show ?thesis
    using pl m' snaps ids by (intro exI[of _ pl] exI[of _ "\<lparr>rr_participants = m', rr_removed = []\<rparr>"]) (simp add: reconcile_def)
qed

lemma registry_run_inv: "registry_run r \<Longrightarrow> registry_inv r"
proof (induction rule: registry_run.induct)
  case rg_new
  then show ?case by (rule registry_inv_new)
next
  case (rg_upsert r p)
  then show ?case by (blast intro: registry_inv_upsert)
next
  case (rg_activity r i a b r')
  show ?case by (rule registry_inv_update[OF rg_activity(3) _ rg_activity(2)[unfolded set_activity_def]]) simp
next
  case (rg_profile r i pr b r')
  show ?case by (rule registry_inv_update[OF rg_profile(3) _ rg_profile(2)[unfolded set_profile_def]]) simp
next
  case (rg_remove r i b r')
  then show ?case by (blast intro: registry_inv_remove)
next
  case (rg_reconcile r c rec r')
  then show ?case using reconcile_spec[of r c] by auto
qed

text \<open>Reconciling never fails, whatever was registered, changed and removed before. It reports exactly the
  participants whose allocation differs from the one they had, with both, and exactly the removals since
  the last time; afterwards every participant holds its allocation of the plan.\<close>

theorem reconcile_reports_exactly_the_changes:
  assumes "registry_run r"
  shows "\<exists>rec r' pl. reconcile c r = Some (rec, r') \<and> rc_plan rec = Some pl \<and>
    rc_changed rec = changes (ap_allocations pl) (rr_participants r) \<and>
    rc_removed rec = rr_removed r \<and> rr_removed r' = [] \<and>
    map al_id (ap_allocations pl) = map fst (rr_participants r) \<and>
    (\<forall>a \<in> set (ap_allocations pl). registry_allocation (al_id a) r' = Some a)"
proof -
  have inv: "registry_inv r" using assms by (rule registry_run_inv)
  from reconcile_spec[OF inv, of c] obtain pl r' where r': "reconcile c r = Some (\<lparr>rc_plan = Some pl,
      rc_changed = changes (ap_allocations pl) (rr_participants r), rc_removed = rr_removed r\<rparr>, r')"
    "rr_removed r' = []" "map al_id (ap_allocations pl) = map fst (rr_participants r)"
    "\<And>k. map_of (rr_participants r') k = map_option (with_allocations (ap_allocations pl) k) (map_of (rr_participants r) k)"
    by blast
  have "registry_allocation (al_id a) r' = Some a" if a: "a \<in> set (ap_allocations pl)" for a
  proof -
    have "distinct (map al_id (ap_allocations pl))"
      using r'(3) registry_distinct[OF inv] by simp
    then have "map_of (map (\<lambda>a. (al_id a, a)) (ap_allocations pl)) (al_id a) = Some a"
      using a by (intro map_of_is_SomeI) (auto simp: comp_def)
    moreover have "al_id a \<in> fst ` set (rr_participants r)" using a r'(3) by (metis image_eqI list.set_map)
    ultimately show ?thesis
      using r'(4)[of "al_id a"] by (auto simp: registry_allocation_def with_allocations_def dom_map_of_conv_image_fst[symmetric])
  qed
  then show ?thesis using r' by auto
qed

text \<open>Reconciling is idempotent: done again with the same coordinator it finds the same plan, reports
  nothing and leaves the registry as it is.\<close>

theorem reconcile_is_idempotent:
  assumes "registry_run r" and "reconcile c r = Some (rec, r')"
  shows "reconcile c r' = Some (\<lparr>rc_plan = rc_plan rec, rc_changed = [], rc_removed = []\<rparr>, r')"
proof -
  have inv: "registry_inv r" using assms(1) by (rule registry_run_inv)
  from reconcile_spec[OF inv, of c] obtain pl where r: "plan c (map (pr_snapshot \<circ> snd) (rr_participants r)) = Some pl"
    "rc_plan rec = Some pl" "rr_removed r' = []" "registry_inv r'"
    "map (pr_snapshot \<circ> snd) (rr_participants r') = map (pr_snapshot \<circ> snd) (rr_participants r)"
    "map al_id (ap_allocations pl) = map fst (rr_participants r)"
    "\<And>k. map_of (rr_participants r') k = map_option (with_allocations (ap_allocations pl) k) (map_of (rr_participants r) k)"
    using assms(2) by auto
  have dist: "distinct (map al_id (ap_allocations pl))"
    using r(6) registry_distinct[OF inv] by simp
  have at: "\<exists>e. map_of (rr_participants r') (al_id a) = Some e \<and> pr_allocation e = Some a" if a: "a \<in> set (ap_allocations pl)" for a
  proof -
    have "map_of (map (\<lambda>a. (al_id a, a)) (ap_allocations pl)) (al_id a) = Some a"
      using a dist by (intro map_of_is_SomeI) (auto simp: comp_def)
    moreover have "al_id a \<in> fst ` set (rr_participants r)" using a r(6) by (metis image_eqI list.set_map)
    ultimately show ?thesis
      using r(7)[of "al_id a"] by (auto simp: with_allocations_def dom_map_of_conv_image_fst[symmetric])
  qed
  then have none: "changes (ap_allocations pl) (rr_participants r') = []"
    by (fastforce simp: changes_def filter_empty_conv)
  have keep: "apply_allocations as (rr_participants r') = Some ([], rr_participants r')"
    if "set as \<subseteq> set (ap_allocations pl)" for as
    using that
  proof (induction as)
    case (Cons a as)
    then show ?case using at[of a] by auto
  qed simp
  show ?thesis
    using r(1,2,3,5) keep[of "ap_allocations pl"] by (simp add: reconcile_def)
qed

section \<open>Witnesses\<close>

theorem reconcile_reports_exactly_the_changes_witness:
  "\<exists>rec r'. reconcile demo_coordinator (upsert (hd demo_participants) registry_new) = Some (rec, r') \<and> rr_removed r' = []"
  using reconcile_reports_exactly_the_changes[OF rg_upsert[OF rg_new], of demo_coordinator "hd demo_participants"] by blast

theorem reconcile_is_idempotent_witness:
  "\<exists>rec r'. reconcile demo_coordinator (upsert (hd demo_participants) registry_new) = Some (rec, r') \<and>
     (\<exists>rec'. reconcile demo_coordinator r' = Some (rec', r') \<and> rc_changed rec' = [])"
proof -
  have run: "registry_run (upsert (hd demo_participants) registry_new)" by (rule rg_upsert[OF rg_new])
  obtain rec r' where r: "reconcile demo_coordinator (upsert (hd demo_participants) registry_new) = Some (rec, r')"
    using reconcile_spec[OF registry_run_inv[OF run], of demo_coordinator] by blast
  show ?thesis using r reconcile_is_idempotent[OF run r] by auto
qed

end
