(* ===== verification/RustText.thy ===== *)
theory RustText
  imports Prelude
begin

text \<open>
  Rust text as the program's text handling sees it. A \<open>String\<close> is its UTF-8 bytes, a HOL
  \<open>string\<close> (a HOL \<open>char\<close> is one byte), so \<open>len\<close> is \<open>length\<close> and byte tests are tests on elements.
  Here are the methods of \<open>str\<close> that more than one component calls: trimming, ASCII case, splitting,
  decimal and hexadecimal numbers, and UTF-8 validation.
\<close>

section \<open>Bytes\<close>

definition byte :: "char \<Rightarrow> int" where
  "byte c = of_char c"

lemma byte_nat: "byte c = int (of_char c)"
  unfolding byte_def by (rule of_nat_of_char [symmetric])

lemma byte_less [simp]: "byte c < 256" "0 \<le> byte c"
  using of_char_of[of "of_char c :: int"] pos_mod_bound[of 256 "of_char c :: int"]
  by (simp_all add: byte_nat del: of_char_of)

lemma byte_char_of [simp]: "byte (char_of n) = n mod 256"
  by (simp add: byte_def)

lemma byte_inj: "byte a = byte b \<longleftrightarrow> a = b"
  by (simp add: byte_def)

definition is_ascii :: "char \<Rightarrow> bool" where
  "is_ascii c = (byte c < 128)"

definition is_ascii_digit :: "char \<Rightarrow> bool" where
  "is_ascii_digit c = (48 \<le> byte c \<and> byte c \<le> 57)"

definition is_ascii_alphanumeric :: "char \<Rightarrow> bool" where
  "is_ascii_alphanumeric c =
     (is_ascii_digit c \<or> 65 \<le> byte c \<and> byte c \<le> 90 \<or> 97 \<le> byte c \<and> byte c \<le> 122)"

text \<open>\<open>u8::is_ascii_whitespace\<close>: space, tab, line feed, form feed and carriage return.\<close>

definition is_ascii_whitespace :: "char \<Rightarrow> bool" where
  "is_ascii_whitespace c = (byte c \<in> {9, 10, 12, 13, 32})"

definition ascii_lower :: "char \<Rightarrow> char" where
  "ascii_lower c = (if 65 \<le> byte c \<and> byte c \<le> 90 then char_of (byte c + 32) else c)"

definition to_ascii_lowercase :: "string \<Rightarrow> string" where
  "to_ascii_lowercase s = map ascii_lower s"

definition eq_ignore_ascii_case :: "string \<Rightarrow> string \<Rightarrow> bool" where
  "eq_ignore_ascii_case s t = (to_ascii_lowercase s = to_ascii_lowercase t)"

lemma length_to_ascii_lowercase [simp]: "length (to_ascii_lowercase s) = length s"
  by (simp add: to_ascii_lowercase_def)

lemma ascii_lower_idem [simp]: "ascii_lower (ascii_lower c) = ascii_lower c"
  by (simp add: ascii_lower_def)

lemma to_ascii_lowercase_idem [simp]:
  "to_ascii_lowercase (to_ascii_lowercase s) = to_ascii_lowercase s"
  by (simp add: to_ascii_lowercase_def)

lemma to_ascii_lowercase_append [simp]:
  "to_ascii_lowercase (s @ t) = to_ascii_lowercase s @ to_ascii_lowercase t"
  by (simp add: to_ascii_lowercase_def)

section \<open>Prefixes, suffixes and splitting\<close>

definition starts_with :: "string \<Rightarrow> string \<Rightarrow> bool" where
  "starts_with p s = (take (length p) s = p)"

definition ends_with :: "string \<Rightarrow> string \<Rightarrow> bool" where
  "ends_with p s = (length p \<le> length s \<and> drop (length s - length p) s = p)"

lemma starts_with_iff: "starts_with p s \<longleftrightarrow> (\<exists>t. s = p @ t)"
  unfolding starts_with_def by (metis append_eq_conv_conj append_take_drop_id)

lemma ends_with_iff: "ends_with p s \<longleftrightarrow> (\<exists>t. s = t @ p)"
  unfolding ends_with_def
  by (metis append_take_drop_id append_eq_conv_conj diff_add_inverse2 le_add2 length_append)

text \<open>\<open>str::split_once\<close> at the first occurrence of a byte.\<close>

definition split_once :: "char \<Rightarrow> string \<Rightarrow> (string \<times> string) option" where
  "split_once c s =
     (let (a, b) = (takeWhile (\<lambda>x. x \<noteq> c) s, dropWhile (\<lambda>x. x \<noteq> c) s)
      in case b of [] \<Rightarrow> None | _ # r \<Rightarrow> Some (a, r))"

lemma split_once_Some:
  "split_once c s = Some (a, b) \<longleftrightarrow> s = a @ c # b \<and> c \<notin> set a"
proof
  assume *: "split_once c s = Some (a, b)"
  then obtain x where d: "dropWhile (\<lambda>x. x \<noteq> c) s = x # b" and a: "a = takeWhile (\<lambda>x. x \<noteq> c) s"
    by (auto simp: split_once_def split: list.splits)
  have "x = c" using hd_dropWhile[of "\<lambda>x. x \<noteq> c" s] d by simp
  moreover have "s = a @ x # b" using a d by (metis takeWhile_dropWhile_id)
  ultimately show "s = a @ c # b \<and> c \<notin> set a"
    using a by (auto dest: set_takeWhileD)
next
  assume *: "s = a @ c # b \<and> c \<notin> set a"
  have "takeWhile (\<lambda>x. x \<noteq> c) s = a" "dropWhile (\<lambda>x. x \<noteq> c) s = c # b"
    using * by (auto simp: takeWhile_append dropWhile_append)
  then show "split_once c s = Some (a, b)" by (simp add: split_once_def)
qed

lemma split_once_None: "split_once c s = None \<longleftrightarrow> c \<notin> set s"
proof -
  have "dropWhile (\<lambda>x. x \<noteq> c) s = [] \<longleftrightarrow> c \<notin> set s"
    unfolding dropWhile_eq_Nil_conv by blast
  then show ?thesis by (cases "dropWhile (\<lambda>x. x \<noteq> c) s") (simp_all add: split_once_def del: dropWhile_eq_Nil_conv)
qed

definition trim_end_matches :: "char \<Rightarrow> string \<Rightarrow> string" where
  "trim_end_matches c s = rev (dropWhile (\<lambda>x. x = c) (rev s))"

lemma trim_end_matches_last:
  "trim_end_matches c s = [] \<or> last (trim_end_matches c s) \<noteq> c"
proof (cases "dropWhile (\<lambda>x. x = c) (rev s)")
  case (Cons x xs)
  then have "x \<noteq> c" using hd_dropWhile[of "\<lambda>x. x = c" "rev s"] by simp
  then show ?thesis using Cons by (simp add: trim_end_matches_def)
qed (simp add: trim_end_matches_def)

text \<open>
  \<open>str::trim\<close> drops the code points with the Unicode property \<open>White_Space\<close>; these are their
  UTF-8 encodings. UTF-8 synchronises itself, so a byte suffix that is one of them is a code point.
\<close>

definition white_space :: "string list" where
  "white_space = map (map char_of)
     ([[9], [10], [11], [12], [13], [32], [194, 133], [194, 160], [225, 154, 128],
       [226, 128, 168], [226, 128, 169], [226, 128, 175], [226, 129, 159], [227, 128, 128]]
      @ map (\<lambda>i. [226, 128, 128 + i]) [0..10] :: int list list)"

lemma white_space_nonempty: "e \<in> set white_space \<Longrightarrow> e \<noteq> []"
  by (auto simp: white_space_def)

function trim_start_of :: "string list \<Rightarrow> string \<Rightarrow> string" where
  "trim_start_of ws s = (case find (\<lambda>e. e \<noteq> [] \<and> starts_with e s) ws of
     None \<Rightarrow> s | Some e \<Rightarrow> trim_start_of ws (drop (length e) s))"
  by pat_completeness auto
termination
proof (relation "measure (\<lambda>(ws, s). length s)")
  fix ws s e
  assume "find (\<lambda>e. e \<noteq> [] \<and> starts_with e s) ws = Some e"
  then have "e \<noteq> []" "starts_with e s" by (auto simp: find_Some_iff)
  then have "length e \<le> length s" "length s - length e < length s" by (auto simp: starts_with_iff)
  then show "((ws, drop (length e) s), (ws, s)) \<in> measure (\<lambda>(ws, s). length s)"
    by simp
qed simp

declare trim_start_of.simps [simp del]

definition trim :: "string \<Rightarrow> string" where
  "trim s = rev (trim_start_of (map rev white_space) (rev (trim_start_of white_space s)))"

section \<open>Numbers\<close>

definition digit_char :: "nat \<Rightarrow> char" where
  "digit_char d = char_of (if d < 10 then 48 + int d else 87 + int d)"

text \<open>The digits of a number in a radix, most significant first, with no leading zero.\<close>

fun radix_digits :: "nat \<Rightarrow> nat \<Rightarrow> string" where
  "radix_digits r n =
     (if n < r \<or> r < 2 then [digit_char n] else radix_digits r (n div r) @ [digit_char (n mod r)])"

declare radix_digits.simps [simp del]

definition show_nat :: "nat \<Rightarrow> string" where
  "show_nat n = radix_digits 10 n"

definition show_hex :: "nat \<Rightarrow> string" where
  "show_hex n = radix_digits 16 n"

text \<open>\<open>char::to_digit\<close>, radix 10 or 16.\<close>

definition to_digit :: "int \<Rightarrow> char \<Rightarrow> int option" where
  "to_digit r c =
     (let v = if is_ascii_digit c then Some (byte c - 48)
              else if 97 \<le> byte c \<and> byte c \<le> 122 then Some (byte c - 87)
              else if 65 \<le> byte c \<and> byte c \<le> 90 then Some (byte c - 55) else None
      in case v of None \<Rightarrow> None | Some d \<Rightarrow> if d < r then Some d else None)"

definition parse_digits :: "int \<Rightarrow> string \<Rightarrow> int option" where
  "parse_digits r s =
     (if s = [] then None
      else foldl (\<lambda>acc c. case (acc, to_digit r c) of
                    (Some a, Some d) \<Rightarrow> Some (a * r + d) | _ \<Rightarrow> None) (Some 0) s)"

text \<open>\<open>str::parse::<u64>\<close>: an optional plus sign, then decimal digits, failing on overflow.\<close>

definition parse_u64 :: "string \<Rightarrow> nat option" where
  "parse_u64 s =
     (let digits = (case s of c # r \<Rightarrow> if c = CHR ''+'' then r else s | [] \<Rightarrow> s)
      in case parse_digits 10 digits of
           None \<Rightarrow> None | Some n \<Rightarrow> if n < 2 ^ 64 then Some (nat n) else None)"

text \<open>\<open>usize\<close> sizes as numbers: the checked and the saturating sum of a 64-bit target. (The comparison is
  on integers so that it computes.)\<close>

definition checked_usize :: "nat \<Rightarrow> nat \<Rightarrow> nat option" where
  "checked_usize a b = (if int (a + b) < 2 ^ 64 then Some (a + b) else None)"

definition saturating_usize :: "nat \<Rightarrow> nat \<Rightarrow> nat" where
  "saturating_usize a b = (if int (a + b) < 2 ^ 64 then a + b else 2 ^ 64 - 1)"

lemma less_saturating_usize:
  assumes "int limit < 2 ^ 64 - 1"
  shows "limit < saturating_usize a b \<longleftrightarrow> limit < a + b"
  using assms by (auto simp: saturating_usize_def)

lemma to_digit_digit_char: "d < r \<Longrightarrow> r \<le> 36 \<Longrightarrow> to_digit (int r) (digit_char d) = Some (int d)"
  by (auto simp: to_digit_def digit_char_def is_ascii_digit_def Let_def)

lemma radix_digits_nonempty [simp]: "radix_digits r n \<noteq> []"
  by (subst radix_digits.simps) simp

lemma parse_digits_snoc:
  assumes "s \<noteq> []"
  shows "parse_digits r (s @ [c]) =
    (case (parse_digits r s, to_digit r c) of (Some a, Some d) \<Rightarrow> Some (a * r + d) | _ \<Rightarrow> None)"
  using assms by (simp add: parse_digits_def)

text \<open>What is printed in a radix is read back.\<close>

lemma parse_radix_digits:
  assumes "2 \<le> r" "r \<le> 36"
  shows "parse_digits (int r) (radix_digits r n) = Some (int n)"
proof (induction n rule: less_induct)
  case (less n)
  show ?case
  proof (cases "n < r")
    case True
    then show ?thesis
      using assms by (subst radix_digits.simps) (simp add: parse_digits_def to_digit_digit_char)
  next
    case False
    then have "n div r < n" using assms by (simp add: div_less_dividend)
    then have ih: "parse_digits (int r) (radix_digits r (n div r)) = Some (int (n div r))" by (rule less.IH)
    have "radix_digits r n = radix_digits r (n div r) @ [digit_char (n mod r)]"
      using False assms by (subst radix_digits.simps) simp
    moreover have "int (n div r) * int r + int (n mod r) = int n"
      by (metis div_mult_mod_eq of_nat_add of_nat_mult)
    ultimately show ?thesis
      using ih assms by (simp add: parse_digits_snoc to_digit_digit_char)
  qed
qed

lemma radix_digits_ascii:
  assumes "r \<le> 36" "2 \<le> r"
  shows "c \<in> set (radix_digits r n) \<Longrightarrow>
    48 \<le> byte c \<and> byte c \<le> 57 \<or> 97 \<le> byte c \<and> byte c \<le> 122"
proof (induction n rule: less_induct)
  case (less n)
  have d: "48 \<le> byte (digit_char d) \<and> byte (digit_char d) \<le> 57 \<or>
      97 \<le> byte (digit_char d) \<and> byte (digit_char d) \<le> 122" if "d < r" for d
    using that assms by (auto simp: digit_char_def)
  show ?case
  proof (cases "n < r")
    case True
    then show ?thesis using less.prems d[of n] by (subst (asm) radix_digits.simps) simp
  next
    case False
    then have "c \<in> set (radix_digits r (n div r)) \<or> c = digit_char (n mod r)"
      using less.prems assms by (subst (asm) radix_digits.simps) auto
    moreover have "n div r < n" using False assms by (simp add: div_less_dividend)
    ultimately show ?thesis using less.IH d[of "n mod r"] assms by auto
  qed
qed

section \<open>UTF-8\<close>

definition continuation :: "char \<Rightarrow> bool" where
  "continuation c = (128 \<le> byte c \<and> byte c < 192)"

text \<open>\<open>std::str::from_utf8\<close> accepts exactly the well-formed sequences of the Unicode standard.\<close>

function utf8_valid :: "string \<Rightarrow> bool" where
  "utf8_valid s = (case s of [] \<Rightarrow> True | a # t \<Rightarrow>
     if byte a < 128 then utf8_valid t
     else case t of [] \<Rightarrow> False | b # u \<Rightarrow>
       if 194 \<le> byte a \<and> byte a \<le> 223 then continuation b \<and> utf8_valid u
       else case u of [] \<Rightarrow> False | c # v \<Rightarrow>
         if 224 \<le> byte a \<and> byte a \<le> 239
         then continuation b \<and> continuation c \<and> (byte a = 224 \<longrightarrow> 160 \<le> byte b)
              \<and> (byte a = 237 \<longrightarrow> byte b < 160) \<and> utf8_valid v
         else case v of [] \<Rightarrow> False | d # z \<Rightarrow>
           240 \<le> byte a \<and> byte a \<le> 244 \<and> continuation b \<and> continuation c \<and> continuation d
           \<and> (byte a = 240 \<longrightarrow> 144 \<le> byte b) \<and> (byte a = 244 \<longrightarrow> byte b < 144) \<and> utf8_valid z)"
  by pat_completeness auto
termination by (relation "measure length") auto

declare utf8_valid.simps [simp del]

text \<open>\<open>chars().any(char::is_control)\<close>: the code points U+0000 to U+001F and U+007F to U+009F.\<close>

fun has_control :: "string \<Rightarrow> bool" where
  "has_control [] = False"
| "has_control (a # t) =
     (byte a < 32 \<or> byte a = 127
      \<or> byte a = 194 \<and> (case t of [] \<Rightarrow> False | b # _ \<Rightarrow> 128 \<le> byte b \<and> byte b < 160)
      \<or> has_control t)"

end
