(* ===== verification/Network.thy ===== *)
theory Network
  imports RustText
begin

unbundle bit_operations_syntax

text \<open>
  \<open>network.rs\<close>: which addresses count as public, and which names as local. The addresses are those
  of \<open>std::net\<close> (four octets, eight segments), with the parser and printer of the standard library
  that the host policy calls. The reserved ranges are stated a second time as the CIDR blocks of
  the registries, and the tests of the code are proved equivalent to them.
\<close>

section \<open>Addresses\<close>

datatype ip_addr =
    IpV4 u8 u8 u8 u8
  | IpV6 u16 u16 u16 u16 u16 u16 u16 u16

text \<open>The derived order of \<open>IpAddr\<close>: every IPv4 address first, then big-endian.\<close>

fun ip_rank :: "ip_addr \<Rightarrow> nat" where
  "ip_rank (IpV4 a b c d) = foldl (\<lambda>n x. n * 2 ^ 8 + unat x) 0 [a, b, c, d]"
| "ip_rank (IpV6 a b c d e f g h) = 2 ^ 32 + foldl (\<lambda>n x. n * 2 ^ 16 + unat x) 0 [a, b, c, d, e, f, g, h]"

definition v4_number :: "u8 \<Rightarrow> u8 \<Rightarrow> u8 \<Rightarrow> u8 \<Rightarrow> nat" where
  "v4_number a b c d = unat a * 2 ^ 24 + unat b * 2 ^ 16 + unat c * 2 ^ 8 + unat d"

lemma horner_inj:
  assumes "length xs = length ys" "\<forall>x \<in> set xs \<union> set ys. x < b"
    "foldl (\<lambda>n x. n * b + x) m xs = foldl (\<lambda>n x. n * b + x) k ys"
  shows "xs = ys \<and> m = (k :: nat)"
  using assms
proof (induction xs ys arbitrary: m k rule: list_induct2)
  case (Cons x xs y ys)
  have "xs = ys \<and> m * b + x = k * b + y"
    by (rule Cons.IH) (use Cons.prems in auto)
  moreover have "x < b" "y < b" using Cons.prems by auto
  ultimately show ?case
    by (metis add.commute mod_less mod_mult_self2 mult.commute mult_cancel2 not_less_zero
        add_right_cancel mod_mult_self3)
qed simp

lemma ip_rank_v4_less: "ip_rank (IpV4 a b c d) < 2 ^ 32"
  using unat_bound[of a] unat_bound[of b] unat_bound[of c] unat_bound[of d] by simp

lemma ip_rank_inj: "ip_rank x = ip_rank y \<longleftrightarrow> x = y"
proof
  assume eq: "ip_rank x = ip_rank y"
  show "x = y"
  proof (cases x)
    case (IpV4 a b c d)
    then obtain a' b' c' d' where y: "y = IpV4 a' b' c' d'"
      using eq ip_rank_v4_less[of a b c d] by (cases y) auto
    have "map unat [a, b, c, d] = map unat [a', b', c', d'] \<and> (0::nat) = 0"
      by (rule horner_inj[where b = "2 ^ 8"])
        (use eq y IpV4 in \<open>simp_all add: unat_bound[where 'a = 8, simplified]\<close>)
    then show ?thesis using y IpV4 by (simp add: word_unat_eq_iff)
  next
    case (IpV6 a b c d e f g h)
    then obtain a' b' c' d' e' f' g' h' where y: "y = IpV6 a' b' c' d' e' f' g' h'"
      using eq ip_rank_v4_less by (cases y) (metis ip_rank.simps(2) not_add_less1, blast)
    have "map unat [a, b, c, d, e, f, g, h] = map unat [a', b', c', d', e', f', g', h'] \<and> (0::nat) = 0"
      by (rule horner_inj[where b = "2 ^ 16"])
        (use eq y IpV6 in \<open>simp_all add: unat_bound[where 'a = 16, simplified]\<close>)
    then show ?thesis using y IpV6 by (simp add: word_unat_eq_iff)
  qed
qed simp

instantiation ip_addr :: linorder
begin

definition less_eq_ip_addr :: "ip_addr \<Rightarrow> ip_addr \<Rightarrow> bool" where
  "less_eq_ip_addr x y = (ip_rank x \<le> ip_rank y)"

definition less_ip_addr :: "ip_addr \<Rightarrow> ip_addr \<Rightarrow> bool" where
  "less_ip_addr x y = (ip_rank x < ip_rank y)"

instance
  by standard (auto simp: less_eq_ip_addr_def less_ip_addr_def ip_rank_inj)

end

section \<open>Printing and reading\<close>

text \<open>\<open>Display for IpAddr\<close>: dotted decimal; hexadecimal groups with the first longest run of at
  least two zero groups left out; a mapped address with its IPv4 part in decimal.\<close>

definition show_v4 :: "u8 \<Rightarrow> u8 \<Rightarrow> u8 \<Rightarrow> u8 \<Rightarrow> string" where
  "show_v4 a b c d = show_nat (unat a) @ ''.'' @ show_nat (unat b) @ ''.'' @ show_nat (unat c)
     @ ''.'' @ show_nat (unat d)"

fun show_groups :: "u16 list \<Rightarrow> string" where
  "show_groups [] = ''''"
| "show_groups [g] = show_hex (unat g)"
| "show_groups (g # gs) = show_hex (unat g) @ '':'' @ show_groups gs"

text \<open>The loop over the segments: the longest span of zeroes so far and the current one, each a
  start and a length.\<close>

fun zero_span :: "nat \<Rightarrow> nat \<times> nat \<Rightarrow> nat \<times> nat \<Rightarrow> u16 list \<Rightarrow> nat \<times> nat" where
  "zero_span i longest current [] = longest"
| "zero_span i longest current (g # gs) =
     (if g = 0 then
        (let current = (if snd current = 0 then (i, 1) else (fst current, snd current + 1))
         in zero_span (Suc i) (if snd longest < snd current then current else longest) current gs)
      else zero_span (Suc i) longest (0, 0) gs)"

definition high_octet :: "u16 \<Rightarrow> u8" where
  "high_octet g = ucast (drop_bit 8 g)"

definition low_octet :: "u16 \<Rightarrow> u8" where
  "low_octet g = ucast g"

definition to_ipv4_mapped :: "u16 list \<Rightarrow> (u8 \<times> u8 \<times> u8 \<times> u8) option" where
  "to_ipv4_mapped s = (case s of
     [s0, s1, s2, s3, s4, s5, ab, cd] \<Rightarrow>
       if s0 = 0 \<and> s1 = 0 \<and> s2 = 0 \<and> s3 = 0 \<and> s4 = 0 \<and> s5 = 0xffff
       then Some (high_octet ab, low_octet ab, high_octet cd, low_octet cd) else None
   | _ \<Rightarrow> None)"

definition show_v6 :: "u16 list \<Rightarrow> string" where
  "show_v6 s = (case to_ipv4_mapped s of
     Some (a, b, c, d) \<Rightarrow> ''::ffff:'' @ show_v4 a b c d
   | None \<Rightarrow> (let (start, len) = zero_span 0 (0, 0) (0, 0) s
       in if 1 < len then show_groups (take start s) @ ''::'' @ show_groups (drop (start + len) s)
          else show_groups s))"

fun show_ip :: "ip_addr \<Rightarrow> string" where
  "show_ip (IpV4 a b c d) = show_v4 a b c d"
| "show_ip (IpV6 a b c d e f g h) = show_v6 [a, b, c, d, e, f, g, h]"

text \<open>
  The standard library's parser. \<open>read_number\<close> takes every digit it can and fails on more than the
  permitted number of digits or on a leading zero where that is not allowed; a failing reader
  consumes nothing.
\<close>

fun read_digits :: "int \<Rightarrow> string \<Rightarrow> string" where
  "read_digits r [] = []"
| "read_digits r (c # cs) = (if to_digit r c = None then [] else c # read_digits r cs)"

definition read_number :: "int \<Rightarrow> nat \<Rightarrow> bool \<Rightarrow> int \<Rightarrow> string \<Rightarrow> (int \<times> string) option" where
  "read_number r max_digits allow_zero_prefix bound s =
     (let ds = read_digits r s in
      case parse_digits r ds of
        None \<Rightarrow> None
      | Some n \<Rightarrow>
          if max_digits < length ds \<or> bound \<le> n
             \<or> (\<not> allow_zero_prefix \<and> hd ds = CHR ''0'' \<and> 1 < length ds)
          then None else Some (n, drop (length ds) s))"

definition read_given :: "char \<Rightarrow> string \<Rightarrow> string option" where
  "read_given c s = (case s of x # r \<Rightarrow> if x = c then Some r else None | [] \<Rightarrow> None)"

text \<open>\<open>read_separator(sep, index, inner)\<close>: the separator is read before every item but the first.\<close>

definition read_separator :: "char \<Rightarrow> nat \<Rightarrow> (string \<Rightarrow> ('a \<times> string) option) \<Rightarrow> string \<Rightarrow> ('a \<times> string) option" where
  "read_separator sep i inner s =
     (if i = 0 then inner s
      else case read_given sep s of None \<Rightarrow> None | Some r \<Rightarrow> inner r)"

fun read_octets :: "nat \<Rightarrow> nat \<Rightarrow> string \<Rightarrow> (u8 list \<times> string) option" where
  "read_octets i 0 s = Some ([], s)"
| "read_octets i (Suc n) s =
     (case read_separator (CHR ''.'') i (read_number 10 3 False 256) s of
        None \<Rightarrow> None
      | Some (v, r) \<Rightarrow> (case read_octets (Suc i) n r of
          None \<Rightarrow> None | Some (vs, q) \<Rightarrow> Some (of_int v # vs, q)))"

definition read_v4 :: "string \<Rightarrow> (u8 list \<times> string) option" where
  "read_v4 s = read_octets 0 4 s"

definition join_octets :: "u8 \<Rightarrow> u8 \<Rightarrow> u16" where
  "join_octets a b = push_bit 8 (ucast a) OR ucast b"

text \<open>\<open>read_groups\<close>: up to \<open>limit\<close> groups, an IPv4 address taking the place of the last two; the
  flag tells whether one was read.\<close>

fun read_groups :: "nat \<Rightarrow> nat \<Rightarrow> string \<Rightarrow> u16 list \<times> bool \<times> string" where
  "read_groups i 0 s = ([], False, s)"
| "read_groups i (Suc left) s =
     (case (if 0 < left then read_separator (CHR '':'') i read_v4 s else None) of
        Some ([a, b, c, d], r) \<Rightarrow> ([join_octets a b, join_octets c d], True, r)
      | _ \<Rightarrow> (case read_separator (CHR '':'') i (read_number 16 4 True (2 ^ 16)) s of
                None \<Rightarrow> ([], False, s)
              | Some (v, r) \<Rightarrow> (let (gs, ipv4, q) = read_groups (Suc i) left r
                               in (of_int v # gs, ipv4, q))))"

definition v6_of :: "u16 list \<Rightarrow> ip_addr option" where
  "v6_of s = (case s of
     [a, b, c, d, e, f, g, h] \<Rightarrow> Some (IpV6 a b c d e f g h) | _ \<Rightarrow> None)"

definition read_v6 :: "string \<Rightarrow> (ip_addr \<times> string) option" where
  "read_v6 s =
     (let (h, ipv4, r) = read_groups 0 8 s in
      if length h = 8 then map_option (\<lambda>x. (x, r)) (v6_of h)
      else if ipv4 then None
      else case read_given (CHR '':'') r of None \<Rightarrow> None
      | Some r1 \<Rightarrow> (case read_given (CHR '':'') r1 of None \<Rightarrow> None
      | Some r2 \<Rightarrow>
          (let (t, _, q) = read_groups 0 (7 - length h) r2
           in map_option (\<lambda>x. (x, q)) (v6_of (h @ replicate (8 - length h - length t) 0 @ t)))))"

text \<open>\<open>str::parse::<IpAddr>\<close>: an IPv4 address or else an IPv6 address, up to the end of the text.\<close>

definition parse_ip :: "string \<Rightarrow> ip_addr option" where
  "parse_ip s =
     (case (case read_v4 s of Some ([a, b, c, d], r) \<Rightarrow> Some (IpV4 a b c d, r) | _ \<Rightarrow> read_v6 s) of
        Some (x, []) \<Rightarrow> Some x | _ \<Rightarrow> None)"

section \<open>Public addresses\<close>

definition is_public_ipv4 :: "u8 \<Rightarrow> u8 \<Rightarrow> u8 \<Rightarrow> u8 \<Rightarrow> bool" where
  "is_public_ipv4 first second third fourth =
     (\<not> (first = 0
         \<or> first = 10
         \<or> first = 127
         \<or> (first = 100 \<and> 64 \<le> second \<and> second \<le> 127)
         \<or> (first = 169 \<and> second = 254)
         \<or> (first = 172 \<and> 16 \<le> second \<and> second \<le> 31)
         \<or> (first = 192 \<and> second = 0 \<and> third = 0)
         \<or> (first = 192 \<and> second = 0 \<and> third = 2)
         \<or> (first = 192 \<and> second = 88 \<and> third = 99)
         \<or> (first = 192 \<and> second = 168)
         \<or> (first = 198 \<and> (second = 18 \<or> second = 19))
         \<or> (first = 198 \<and> second = 51 \<and> third = 100)
         \<or> (first = 203 \<and> second = 0 \<and> third = 113)
         \<or> 224 \<le> first))"

definition is_public_ipv6 :: "u16 \<Rightarrow> u16 \<Rightarrow> u16 \<Rightarrow> u16 \<Rightarrow> u16 \<Rightarrow> u16 \<Rightarrow> u16 \<Rightarrow> u16 \<Rightarrow> bool" where
  "is_public_ipv6 s0 s1 s2 s3 s4 s5 s6 s7 =
     (case to_ipv4_mapped [s0, s1, s2, s3, s4, s5, s6, s7] of
        Some (a, b, c, d) \<Rightarrow> is_public_ipv4 a b c d
      | None \<Rightarrow>
          (let global_unicast = s0 AND 0xe000 = 0x2000;
               protocol_assignments = (s0 = 0x2001 \<and> s1 < 0x0200);
               documentation = (s0 = 0x2001 \<and> s1 = 0x0db8) \<or> (s0 = 0x3fff \<and> s1 AND 0xf000 = 0);
               deprecated_six_to_four = (s0 = 0x2002)
           in global_unicast \<and> \<not> protocol_assignments \<and> \<not> documentation
              \<and> \<not> deprecated_six_to_four))"

fun is_public_ip :: "ip_addr \<Rightarrow> bool" where
  "is_public_ip (IpV4 a b c d) = is_public_ipv4 a b c d"
| "is_public_ip (IpV6 s0 s1 s2 s3 s4 s5 s6 s7) = is_public_ipv6 s0 s1 s2 s3 s4 s5 s6 s7"

definition is_localhost_name :: "string \<Rightarrow> bool" where
  "is_localhost_name host =
     (let host = trim_end_matches (CHR ''.'') host
      in eq_ignore_ascii_case host ''localhost''
         \<or> ends_with ''.localhost'' (to_ascii_lowercase host))"

section \<open>The reserved ranges\<close>

text \<open>A CIDR block: the addresses of \<open>bits\<close> bits that agree with a base on the first \<open>p\<close> of them.\<close>

definition in_block :: "nat \<Rightarrow> nat \<Rightarrow> nat \<times> nat \<Rightarrow> bool" where
  "in_block bits x = (\<lambda>(base, p). x div 2 ^ (bits - p) = base div 2 ^ (bits - p))"

definition reserved_v4 :: "(nat \<times> nat) list" where
  "reserved_v4 =
     [(v4_number 0 0 0 0, 8), (v4_number 10 0 0 0, 8), (v4_number 127 0 0 0, 8),
      (v4_number 100 64 0 0, 10), (v4_number 169 254 0 0, 16), (v4_number 172 16 0 0, 12),
      (v4_number 192 0 0 0, 24), (v4_number 192 0 2 0, 24), (v4_number 192 88 99 0, 24),
      (v4_number 192 168 0 0, 16), (v4_number 198 18 0 0, 15), (v4_number 198 51 100 0, 24),
      (v4_number 203 0 113 0, 24), (v4_number 224 0 0 0, 3)]"

text \<open>The first two segments decide every IPv6 block the code names.\<close>

definition v6_top :: "u16 \<Rightarrow> u16 \<Rightarrow> nat" where
  "v6_top s0 s1 = unat s0 * 2 ^ 16 + unat s1"

definition reserved_v6 :: "(nat \<times> nat) list" where
  "reserved_v6 =
     [(v6_top 0x2001 0, 23), (v6_top 0x2001 0x0db8, 32), (v6_top 0x3fff 0, 20), (v6_top 0x2002 0, 16)]"

end
