(* ===== verification/NetworkProps.thy ===== *)
theory NetworkProps
  imports Network
begin

text \<open>
  The address tests against the registries: the code's list of comparisons is membership in none of
  the reserved CIDR blocks, for IPv4 and for IPv6 outside the mapped range.
\<close>

section \<open>Blocks as arithmetic on the leading octets\<close>

lemma v4_blocks:
  fixes a b c d n :: nat
  assumes "b < 256" "c < 256" "d < 256" and n: "n = a * 16777216 + b * 65536 + c * 256 + d"
  shows "n div 16777216 = a" "n div 65536 = a * 256 + b" "n div 256 = (a * 256 + b) * 256 + c"
    "n div 4194304 = a * 4 + b div 64" "n div 1048576 = a * 16 + b div 16"
    "n div 131072 = a * 128 + b div 2" "n div 536870912 = a div 32"
proof -
  have "n = d + ((a * 256 + b) * 256 + c) * 256" unfolding n by (simp add: algebra_simps)
  then show 8: "n div 256 = (a * 256 + b) * 256 + c" using assms(3) by simp
  have "n div 65536 = n div 256 div 256" by (simp add: div_mult2_eq[symmetric])
  also have "\<dots> = a * 256 + b" unfolding 8 using assms(2) by simp
  finally show 16: "n div 65536 = a * 256 + b" .
  have "n div 16777216 = n div 65536 div 256" by (simp add: div_mult2_eq[symmetric])
  also have "\<dots> = a" unfolding 16 using assms(1) by simp
  finally show 24: "n div 16777216 = a" .
  have "n div 4194304 = n div 65536 div 64" by (simp add: div_mult2_eq[symmetric])
  also have "\<dots> = (b + (a * 4) * 64) div 64" unfolding 16 by (simp add: add.commute)
  finally show "n div 4194304 = a * 4 + b div 64" by simp
  have "n div 1048576 = n div 65536 div 16" by (simp add: div_mult2_eq[symmetric])
  also have "\<dots> = (b + (a * 16) * 16) div 16" unfolding 16 by (simp add: add.commute)
  finally show "n div 1048576 = a * 16 + b div 16" by simp
  have "n div 131072 = n div 65536 div 2" by (simp add: div_mult2_eq[symmetric])
  also have "\<dots> = (b + (a * 128) * 2) div 2" unfolding 16 by (simp add: add.commute)
  finally show "n div 131072 = a * 128 + b div 2" by simp
  have "n div 536870912 = n div 16777216 div 32" by (simp add: div_mult2_eq[symmetric])
  also have "\<dots> = a div 32" unfolding 24 ..
  finally show "n div 536870912 = a div 32" .
qed

lemma digits_eq:
  fixes x y u v k :: nat
  assumes "y < k" "v < k"
  shows "x * k + y = u * k + v \<longleftrightarrow> x = u \<and> y = v"
proof
  assume eq: "x * k + y = u * k + v"
  then have "(x * k + y) mod k = (u * k + v) mod k" by simp
  then have "y = v" using assms by simp
  then show "x = u \<and> y = v" using eq assms by simp
qed simp

lemma quotient_eq: "0 < k \<Longrightarrow> x div k = q \<longleftrightarrow> q * k \<le> x \<and> x < Suc q * k"
  for k x q :: nat
  by (metis div_less_iff_less_mult le_antisym less_Suc_eq_le less_eq_div_iff_mult_less_eq order_refl)

lemma v4_public_arith:
  fixes a b c :: nat
  assumes "a < 256" "b < 256" "c < 256"
  shows "(a = 0 \<or> a = 10 \<or> a = 127 \<or> a = 100 \<and> 64 \<le> b \<and> b \<le> 127 \<or> a = 169 \<and> b = 254
       \<or> a = 172 \<and> 16 \<le> b \<and> b \<le> 31 \<or> a = 192 \<and> b = 0 \<and> c = 0 \<or> a = 192 \<and> b = 0 \<and> c = 2
       \<or> a = 192 \<and> b = 88 \<and> c = 99 \<or> a = 192 \<and> b = 168 \<or> a = 198 \<and> (b = 18 \<or> b = 19)
       \<or> a = 198 \<and> b = 51 \<and> c = 100 \<or> a = 203 \<and> b = 0 \<and> c = 113 \<or> 224 \<le> a) \<longleftrightarrow>
     (a = 0 \<or> a = 10 \<or> a = 127 \<or> a * 4 + b div 64 = 401 \<or> a * 256 + b = 43518
       \<or> a * 16 + b div 16 = 2753 \<or> (a * 256 + b) * 256 + c = 12582912
       \<or> (a * 256 + b) * 256 + c = 12582914 \<or> (a * 256 + b) * 256 + c = 12605539
       \<or> a * 256 + b = 49320 \<or> a * 128 + b div 2 = 25353
       \<or> (a * 256 + b) * 256 + c = 12989284 \<or> (a * 256 + b) * 256 + c = 13303921 \<or> a div 32 = 7)"
proof -
  note split = digits_eq[where k = 256]
  have 1: "a * 4 + b div 64 = 401 \<longleftrightarrow> a = 100 \<and> 64 \<le> b \<and> b \<le> 127"
  proof -
    have "a * 4 + q = 401 \<longleftrightarrow> a = 100 \<and> q = 1" if "q < 4" for q
      using digits_eq[OF that, of 1 a 100] by simp
    moreover have "b div 64 < 4" using assms(2) by simp
    moreover have "b div 64 = 1 \<longleftrightarrow> 64 \<le> b \<and> b \<le> 127"
      using quotient_eq[of 64 b 1] by auto
    ultimately show ?thesis by blast
  qed
  have 2: "a * 16 + b div 16 = 2753 \<longleftrightarrow> a = 172 \<and> 16 \<le> b \<and> b \<le> 31"
  proof -
    have "a * 16 + q = 2753 \<longleftrightarrow> a = 172 \<and> q = 1" if "q < 16" for q
      using digits_eq[OF that, of 1 a 172] by simp
    moreover have "b div 16 < 16" using assms(2) by simp
    moreover have "b div 16 = 1 \<longleftrightarrow> 16 \<le> b \<and> b \<le> 31"
      using quotient_eq[of 16 b 1] by auto
    ultimately show ?thesis by blast
  qed
  have 3: "a * 128 + b div 2 = 25353 \<longleftrightarrow> a = 198 \<and> (b = 18 \<or> b = 19)"
  proof -
    have "a * 128 + q = 25353 \<longleftrightarrow> a = 198 \<and> q = 9" if "q < 128" for q
      using digits_eq[OF that, of 9 a 198] by simp
    moreover have "b div 2 < 128" using assms(2) by simp
    moreover have "b div 2 = 9 \<longleftrightarrow> b = 18 \<or> b = 19"
      using quotient_eq[of 2 b 9] by auto
    ultimately show ?thesis by blast
  qed
  have 4: "a div 32 = 7 \<longleftrightarrow> 224 \<le> a"
    using assms(1) quotient_eq[of 32 a 7] by auto
  have 5: "a * 256 + b = 43518 \<longleftrightarrow> a = 169 \<and> b = 254" using split[of b 254 a 169] assms by simp
  have 6: "a * 256 + b = 49320 \<longleftrightarrow> a = 192 \<and> b = 168" using split[of b 168 a 192] assms by simp
  have 7: "(a * 256 + b) * 256 + c = (u * 256 + v) * 256 + w \<longleftrightarrow> a = u \<and> b = v \<and> c = w"
    if "v < 256" "w < 256" for u v w
    using that assms split[of c w "a * 256 + b" "u * 256 + v"] split[of b v a u] by blast
  have 8: "(a * 256 + b) * 256 + c = 12582912 \<longleftrightarrow> a = 192 \<and> b = 0 \<and> c = 0"
    using 7[of 0 0 192] by simp
  have 9: "(a * 256 + b) * 256 + c = 12582914 \<longleftrightarrow> a = 192 \<and> b = 0 \<and> c = 2"
    using 7[of 0 2 192] by simp
  have 10: "(a * 256 + b) * 256 + c = 12605539 \<longleftrightarrow> a = 192 \<and> b = 88 \<and> c = 99"
    using 7[of 88 99 192] by simp
  have 11: "(a * 256 + b) * 256 + c = 12989284 \<longleftrightarrow> a = 198 \<and> b = 51 \<and> c = 100"
    using 7[of 51 100 198] by simp
  have 12: "(a * 256 + b) * 256 + c = 13303921 \<longleftrightarrow> a = 203 \<and> b = 0 \<and> c = 113"
    using 7[of 0 113 203] by simp
  show ?thesis
    unfolding 1 2 3 4 5 6 8 9 10 11 12 by blast
qed

lemma v4_number_div:
  "v4_number a b c d div 16777216 = unat a" "v4_number a b c d div 65536 = unat a * 256 + unat b"
  "v4_number a b c d div 256 = (unat a * 256 + unat b) * 256 + unat c"
  "v4_number a b c d div 4194304 = unat a * 4 + unat b div 64"
  "v4_number a b c d div 1048576 = unat a * 16 + unat b div 16"
  "v4_number a b c d div 131072 = unat a * 128 + unat b div 2"
  "v4_number a b c d div 536870912 = unat a div 32"
proof -
  have eq: "v4_number a b c d = unat a * 16777216 + unat b * 65536 + unat c * 256 + unat d"
    by (simp add: v4_number_def)
  have lt: "unat b < 256" "unat c < 256" "unat d < 256"
    using unat_bound[of b] unat_bound[of c] unat_bound[of d] by simp_all
  show
    "v4_number a b c d div 16777216 = unat a" "v4_number a b c d div 65536 = unat a * 256 + unat b"
    "v4_number a b c d div 256 = (unat a * 256 + unat b) * 256 + unat c"
    "v4_number a b c d div 4194304 = unat a * 4 + unat b div 64"
    "v4_number a b c d div 1048576 = unat a * 16 + unat b div 16"
    "v4_number a b c d div 131072 = unat a * 128 + unat b div 2"
    "v4_number a b c d div 536870912 = unat a div 32"
    by (fact v4_blocks[OF lt eq])+
qed

lemma reserved_v4_numbers:
  "reserved_v4 = [(0, 8), (167772160, 8), (2130706432, 8), (1681915904, 10), (2851995648, 16),
     (2886729728, 12), (3221225472, 24), (3221225984, 24), (3227017984, 24), (3232235520, 16),
     (3323068416, 15), (3325256704, 24), (3405803776, 24), (3758096384, 3)]"
  by (simp add: reserved_v4_def v4_number_def)

lemma public_ipv4_blocks:
  "is_public_ipv4 a b c d \<longleftrightarrow> \<not> (\<exists>blk \<in> set reserved_v4. in_block 32 (v4_number a b c d) blk)"
proof -
  have lt: "unat a < 256" "unat b < 256" "unat c < 256" "unat d < 256"
    using unat_bound[of a] unat_bound[of b] unat_bound[of c] unat_bound[of d] by simp_all
  have "(\<exists>blk \<in> set reserved_v4. in_block 32 (v4_number a b c d) blk) \<longleftrightarrow>
     (unat a = 0 \<or> unat a = 10 \<or> unat a = 127 \<or> unat a * 4 + unat b div 64 = 401
       \<or> unat a * 256 + unat b = 43518 \<or> unat a * 16 + unat b div 16 = 2753
       \<or> (unat a * 256 + unat b) * 256 + unat c = 12582912
       \<or> (unat a * 256 + unat b) * 256 + unat c = 12582914
       \<or> (unat a * 256 + unat b) * 256 + unat c = 12605539
       \<or> unat a * 256 + unat b = 49320 \<or> unat a * 128 + unat b div 2 = 25353
       \<or> (unat a * 256 + unat b) * 256 + unat c = 12989284
       \<or> (unat a * 256 + unat b) * 256 + unat c = 13303921 \<or> unat a div 32 = 7)"
    by (simp add: reserved_v4_numbers in_block_def v4_number_div)
  then show ?thesis
    unfolding is_public_ipv4_def
    using v4_public_arith[OF lt(1,2,3)] by (simp add: word_unat_eq_iff word_le_nat_alt)
qed

lemma v6_blocks:
  fixes a b :: nat
  assumes "b < 2 ^ 16"
  shows "(a * 2 ^ 16 + b) div 2 ^ 9 = a * 128 + b div 512" "(a * 2 ^ 16 + b) div 2 ^ 12 = a * 16 + b div 4096"
    "(a * 2 ^ 16 + b) div 2 ^ 16 = a"
  using assms by simp_all

lemma all_less_16: "(\<forall>n < 16. P n) \<longleftrightarrow> P 0 \<and> P 1 \<and> P 2 \<and> P 3 \<and> P 4 \<and> P 5 \<and> P 6 \<and> P 7
    \<and> P 8 \<and> P 9 \<and> P 10 \<and> P 11 \<and> P 12 \<and> P 13 \<and> P 14 \<and> P (15 :: nat)"
  by (simp add: numeral_eq_Suc All_less_Suc conj_ac)

lemma bit_eq_iff_16: "(v :: u16) = w \<longleftrightarrow>
    bit v 0 = bit w 0 \<and> bit v 1 = bit w 1 \<and> bit v 2 = bit w 2 \<and> bit v 3 = bit w 3
    \<and> bit v 4 = bit w 4 \<and> bit v 5 = bit w 5 \<and> bit v 6 = bit w 6 \<and> bit v 7 = bit w 7
    \<and> bit v 8 = bit w 8 \<and> bit v 9 = bit w 9 \<and> bit v 10 = bit w 10 \<and> bit v 11 = bit w 11
    \<and> bit v 12 = bit w 12 \<and> bit v 13 = bit w 13 \<and> bit v 14 = bit w 14 \<and> bit v 15 = bit w 15"
proof -
  have "v = w \<longleftrightarrow> (\<forall>n < 16. bit v n = bit w n)"
    using bit_word_eqI[of v w] by auto
  then show ?thesis unfolding all_less_16 .
qed

lemma and_e000: "(s AND 0xe000 = 0x2000) \<longleftrightarrow> unat (s :: u16) div 2 ^ 13 = 1"
proof -
  have hi: "\<not> bit s n" if "16 \<le> n" for n using that bit_imp_le_length[of s n] by auto
  have "(s AND 0xe000 = 0x2000) \<longleftrightarrow> bit s 13 \<and> \<not> bit s 14 \<and> \<not> bit s 15"
    by (simp add: bit_eq_iff_16 bit_simps)
  also have "\<dots> \<longleftrightarrow> drop_bit 13 s = 1"
    by (simp add: bit_eq_iff_16 bit_simps hi)
  also have "\<dots> \<longleftrightarrow> unat s div 2 ^ 13 = 1"
    by (simp add: word_unat_eq_iff unat_div drop_bit_eq_div)
  finally show ?thesis .
qed

lemma and_f000: "(s AND 0xf000 = 0) \<longleftrightarrow> unat (s :: u16) div 2 ^ 12 = 0"
proof -
  have hi: "\<not> bit s n" if "16 \<le> n" for n using that bit_imp_le_length[of s n] by auto
  have "(s AND 0xf000 = 0) \<longleftrightarrow> \<not> bit s 12 \<and> \<not> bit s 13 \<and> \<not> bit s 14 \<and> \<not> bit s 15"
    by (simp add: bit_eq_iff_16 bit_simps)
  also have "\<dots> \<longleftrightarrow> drop_bit 12 s = 0"
    by (simp add: bit_eq_iff_16 bit_simps hi)
  also have "\<dots> \<longleftrightarrow> unat s div 2 ^ 12 = 0"
    by (simp add: word_unat_eq_iff unat_div drop_bit_eq_div)
  finally show ?thesis .
qed

lemma public_ipv6_blocks:
  "is_public_ipv6 s0 s1 s2 s3 s4 s5 s6 s7 \<longleftrightarrow>
     (case to_ipv4_mapped [s0, s1, s2, s3, s4, s5, s6, s7] of
        Some (a, b, c, d) \<Rightarrow> is_public_ipv4 a b c d
      | None \<Rightarrow> in_block 32 (v6_top s0 s1) (v6_top 0x2000 0, 3)
          \<and> \<not> (\<exists>blk \<in> set reserved_v6. in_block 32 (v6_top s0 s1) blk))"
proof -
  define a b where "a = unat s0" "b = unat s1"
  have b: "b < 65536" unfolding a_b_def using unat_bound[of s1] by simp
  have n: "(a * 65536 + b) div 512 = a * 128 + b div 512" "(a * 65536 + b) div 4096 = a * 16 + b div 4096"
    "(a * 65536 + b) div 65536 = a" "(a * 65536 + b) div 536870912 = a div 8192"
  proof -
    have "a * 65536 + b = b + (a * 128) * 512" "a * 65536 + b = b + (a * 16) * 4096" by simp_all
    then show "(a * 65536 + b) div 512 = a * 128 + b div 512"
      "(a * 65536 + b) div 4096 = a * 16 + b div 4096" by simp_all
    show 16: "(a * 65536 + b) div 65536 = a" using b by simp
    have "(a * 65536 + b) div 536870912 = (a * 65536 + b) div 65536 div 8192"
      by (simp add: div_mult2_eq[symmetric])
    then show "(a * 65536 + b) div 536870912 = a div 8192" unfolding 16 .
  qed
  have 1: "a * 128 + b div 512 = 1048704 \<longleftrightarrow> a = 8193 \<and> b < 512"
    using digits_eq[of "b div 512" 128 0 a 8193] b quotient_eq[of 512 b 0] by simp
  have 2: "a * 16 + b div 4096 = 262128 \<longleftrightarrow> a = 16383 \<and> b div 4096 = 0"
    using digits_eq[of "b div 4096" 16 0 a 16383] b by simp
  have 3: "a * 65536 + b = 536939960 \<longleftrightarrow> a = 8193 \<and> b = 3512"
    using digits_eq[of b 65536 3512 a 8193] b by simp
  have "in_block 32 (v6_top s0 s1) (v6_top 0x2000 0, 3) \<longleftrightarrow> a div 8192 = 1"
    unfolding in_block_def v6_top_def by (simp add: n flip: a_b_def)
  moreover have "(\<exists>blk \<in> set reserved_v6. in_block 32 (v6_top s0 s1) blk) \<longleftrightarrow>
      a * 128 + b div 512 = 1048704 \<or> a * 65536 + b = 536939960 \<or> a * 16 + b div 4096 = 262128 \<or> a = 8194"
    unfolding reserved_v6_def in_block_def v6_top_def by (simp add: n flip: a_b_def)
  ultimately show ?thesis
    unfolding is_public_ipv6_def Let_def and_e000 and_f000 1 2 3
    by (auto simp: a_b_def word_unat_eq_iff word_less_nat_alt split: option.split)
qed

text \<open>C31: The address test of the network layer is exactly the complement of the reserved ranges: an
  IPv4 address is public iff it lies in none of the fourteen CIDR blocks (this network, private,
  shared, loopback, link local, the assignments and documentation blocks, 6to4 relay, benchmarking,
  multicast and above); a mapped IPv6 address is judged by its IPv4 address; any other IPv6 address
  is public iff it is in 2000::/3 and outside 2001::/23, 2001:db8::/32, 3fff::/20 and 2002::/16.\<close>

theorem public_is_outside_every_reserved_block:
  "is_public_ip (IpV4 a b c d) =
     (\<not> (\<exists>blk \<in> set reserved_v4. in_block 32 (v4_number a b c d) blk))
   \<and> is_public_ip (IpV6 s0 s1 s2 s3 s4 s5 s6 s7) =
     (case to_ipv4_mapped [s0, s1, s2, s3, s4, s5, s6, s7] of
        Some (a, b, c, d) \<Rightarrow> is_public_ip (IpV4 a b c d)
      | None \<Rightarrow> in_block 32 (v6_top s0 s1) (v6_top 0x2000 0, 3)
          \<and> \<not> (\<exists>blk \<in> set reserved_v6. in_block 32 (v6_top s0 s1) blk))"
  by (simp_all add: public_ipv4_blocks public_ipv6_blocks split: option.split)

end
