(* ===== verification/HttpPolicy.thy ===== *)
theory HttpPolicy
  imports Network
begin

text \<open>
  \<open>error.rs\<close> and \<open>policy.rs\<close>: the errors of the HTTP capability with their texts, and the immutable
  policy every hop is checked against (exact hosts, schemes, media types, limits). Sizes are
  \<open>usize\<close> values as numbers, durations are numbers of nanoseconds. The parser of the \<open>url\<close> crate
  (\<open>Host::parse\<close>) is the argument \<open>hp\<close> of what calls it.
\<close>

section \<open>Errors\<close>

type_synonym duration = nat

definition secs :: "nat \<Rightarrow> duration" where
  "secs n = n * 1000000000"

datatype timeout_stage = ResolveStage | ConnectStage | RequestStage

datatype http_error =
    InvalidPolicy string
  | InvalidRequest string
  | InvalidUrl string
  | SchemeDenied string
  | HostDenied string
  | LocalhostDenied string
  | AddressDenied ip_addr
  | ResolveFailed string
  | TimedOut timeout_stage
  | HttpCancelled
  | RequestTooLarge nat
  | ResponseHeadersTooLarge nat
  | ResponseTooLarge nat
  | ContentTypeMissing
  | ContentTypeDenied string
  | ContentEncodingDenied string
  | RedirectRejected string
  | ConcurrencyLimit nat
  | RateLimited duration
  | TransportFailed string
  | CacheFailed string
  | CacheQuotaExceeded string nat

text \<open>\<open>Debug for Duration\<close>: the largest unit with a non-zero integer part, then the fraction without
  trailing zeros.\<close>

fun fraction_digits :: "nat list \<Rightarrow> nat \<Rightarrow> string" where
  "fraction_digits [] f = ''''"
| "fraction_digits (d # ds) f =
     (if f = 0 then '''' else digit_char (f div d) # fraction_digits ds (f mod d))"

definition show_decimal :: "nat \<Rightarrow> nat \<Rightarrow> nat list \<Rightarrow> string" where
  "show_decimal n f divisors =
     show_nat n @ (if f = 0 then '''' else ''.'' @ fraction_digits divisors f)"

definition show_duration :: "duration \<Rightarrow> string" where
  "show_duration d =
     (if 1000000000 \<le> d
      then show_decimal (d div 1000000000) (d mod 1000000000)
             [100000000, 10000000, 1000000, 100000, 10000, 1000, 100, 10, 1] @ ''s''
      else if 1000000 \<le> d
      then show_decimal (d div 1000000) (d mod 1000000) [100000, 10000, 1000, 100, 10, 1] @ ''ms''
      else if 1000 \<le> d
      then show_decimal (d div 1000) (d mod 1000) [100, 10, 1] @ map char_of [194 :: int, 181] @ ''s''
      else show_decimal d 0 [1] @ ''ns'')"

fun show_stage :: "timeout_stage \<Rightarrow> string" where
  "show_stage ResolveStage = ''Resolve''"
| "show_stage ConnectStage = ''Connect''"
| "show_stage RequestStage = ''Request''"

definition quoted :: "string \<Rightarrow> string" where
  "quoted s = [CHR 0x60] @ s @ [CHR 0x60]"

fun show_http_error :: "http_error \<Rightarrow> string" where
  "show_http_error (InvalidPolicy m) = ''invalid HTTP policy: '' @ m"
| "show_http_error (InvalidRequest m) = ''invalid HTTP request: '' @ m"
| "show_http_error (InvalidUrl m) = ''invalid HTTP URL: '' @ m"
| "show_http_error (SchemeDenied s) = ''URL scheme '' @ quoted s @ '' is not allowed''"
| "show_http_error (HostDenied h) = ''host '' @ quoted h @ '' is not allowed''"
| "show_http_error (LocalhostDenied h) = ''local host '' @ quoted h @ '' is not allowed''"
| "show_http_error (AddressDenied a) = ''address '' @ quoted (show_ip a) @ '' is not publicly routable''"
| "show_http_error (ResolveFailed m) = ''host resolution failed: '' @ m"
| "show_http_error (TimedOut s) = ''HTTP '' @ show_stage s @ '' timed out''"
| "show_http_error HttpCancelled = ''HTTP operation was cancelled''"
| "show_http_error (RequestTooLarge l) = ''HTTP request exceeds its '' @ show_nat l @ ''-byte limit''"
| "show_http_error (ResponseHeadersTooLarge l) =
     ''HTTP response headers exceed their '' @ show_nat l @ ''-byte limit''"
| "show_http_error (ResponseTooLarge l) = ''HTTP response exceeds its '' @ show_nat l @ ''-byte limit''"
| "show_http_error ContentTypeMissing = ''HTTP response has no content type''"
| "show_http_error (ContentTypeDenied v) = ''HTTP response content type '' @ quoted v @ '' is not allowed''"
| "show_http_error (ContentEncodingDenied v) = ''HTTP response encoding '' @ quoted v @ '' is not allowed''"
| "show_http_error (RedirectRejected m) = ''HTTP redirect rejected: '' @ m"
| "show_http_error (ConcurrencyLimit l) = ''HTTP concurrency limit of '' @ show_nat l @ '' was reached''"
| "show_http_error (RateLimited d) = ''HTTP request rate limited for '' @ show_duration d"
| "show_http_error (TransportFailed m) = ''HTTP transport failed: '' @ m"
| "show_http_error (CacheFailed m) = ''document cache error: '' @ m"
| "show_http_error (CacheQuotaExceeded q l) =
     ''document cache '' @ q @ '' quota of '' @ show_nat l @ '' was exceeded''"

section \<open>Hosts\<close>

text \<open>\<open>url::Host\<close>.\<close>

datatype url_host =
    HostDomain string
  | HostIpv4 u8 u8 u8 u8
  | HostIpv6 u16 u16 u16 u16 u16 u16 u16 u16

definition HARD_MAX_REDIRECTS :: nat where "HARD_MAX_REDIRECTS = 10"
definition HARD_MAX_REQUEST_BYTES :: nat where "HARD_MAX_REQUEST_BYTES = 8 * 1024 * 1024"
definition HARD_MAX_RESPONSE_BYTES :: nat where "HARD_MAX_RESPONSE_BYTES = 64 * 1024 * 1024"
definition HARD_MAX_HEADER_BYTES :: nat where "HARD_MAX_HEADER_BYTES = 128 * 1024"
definition HARD_MAX_CONCURRENCY :: nat where "HARD_MAX_CONCURRENCY = 32"
definition HARD_MAX_REQUESTS_PER_WINDOW :: nat where "HARD_MAX_REQUESTS_PER_WINDOW = 10000"
definition HARD_MAX_TIMEOUT :: duration where "HARD_MAX_TIMEOUT = secs 120"
definition HARD_MAX_RATE_WINDOW :: duration where "HARD_MAX_RATE_WINDOW = secs (24 * 60 * 60)"

lemmas hard_limits = HARD_MAX_REDIRECTS_def HARD_MAX_REQUEST_BYTES_def HARD_MAX_RESPONSE_BYTES_def
  HARD_MAX_HEADER_BYTES_def HARD_MAX_CONCURRENCY_def HARD_MAX_REQUESTS_PER_WINDOW_def
  HARD_MAX_TIMEOUT_def HARD_MAX_RATE_WINDOW_def

definition canonical_host :: "(string \<Rightarrow> string + url_host) \<Rightarrow> string \<Rightarrow> http_error + string" where
  "canonical_host hp value =
     (let value = trim value in
      if value = [] \<or> (\<exists>c \<in> set value. is_ascii_whitespace c)
         \<or> (\<exists>c \<in> set value. c \<in> {CHR ''/'', CHR ''@'', CHR ''?'', CHR ''#''})
      then Inl (InvalidPolicy (''invalid exact host '' @ quoted value))
      else case parse_ip value of
        Some address \<Rightarrow> Inr (show_ip address)
      | None \<Rightarrow> (case hp value of
          Inl e \<Rightarrow> Inl (InvalidPolicy (''invalid exact host: '' @ e))
        | Inr host \<Rightarrow>
            (let canonical = (case host of
                   HostDomain domain \<Rightarrow> to_ascii_lowercase (trim_end_matches (CHR ''.'') domain)
                 | HostIpv4 a b c d \<Rightarrow> show_ip (IpV4 a b c d)
                 | HostIpv6 a b c d e f g h \<Rightarrow> show_ip (IpV6 a b c d e f g h))
             in if canonical = [] then Inl (InvalidPolicy ''host cannot be empty'')
                else Inr canonical)))"

type_synonym exact_host_allowlist = "string set"

fun allowlist_collect :: "(string \<Rightarrow> string + url_host) \<Rightarrow> exact_host_allowlist \<Rightarrow> string list
    \<Rightarrow> http_error + exact_host_allowlist" where
  "allowlist_collect hp normalized [] = Inr normalized"
| "allowlist_collect hp normalized (h # hs) =
     and_then (canonical_host hp h) (\<lambda>host.
       if is_localhost_name host
       then Inl (InvalidPolicy ''localhost cannot be granted network access'')
       else case parse_ip host of
         Some address \<Rightarrow>
           if \<not> is_public_ip address then Inl (AddressDenied address)
           else allowlist_collect hp (insert host normalized) hs
       | None \<Rightarrow> allowlist_collect hp (insert host normalized) hs)"

definition allowlist_new :: "(string \<Rightarrow> string + url_host) \<Rightarrow> string list \<Rightarrow> http_error + exact_host_allowlist" where
  "allowlist_new hp hosts =
     and_then (allowlist_collect hp {} hosts) (\<lambda>normalized.
       if normalized = {} then Inl (InvalidPolicy ''at least one exact host is required'')
       else Inr normalized)"

definition allowlist_allows :: "(string \<Rightarrow> string + url_host) \<Rightarrow> exact_host_allowlist \<Rightarrow> string \<Rightarrow> bool" where
  "allowlist_allows hp hosts host =
     (case canonical_host hp host of Inl _ \<Rightarrow> False | Inr host \<Rightarrow> host \<in> hosts)"

section \<open>Schemes and media types\<close>

datatype scheme_policy = HttpsOnly | HttpAndHttps

definition scheme_allows :: "scheme_policy \<Rightarrow> string \<Rightarrow> bool" where
  "scheme_allows policy scheme =
     (scheme = ''https'' \<or> (policy = HttpAndHttps \<and> scheme = ''http''))"

definition is_media_token :: "string \<Rightarrow> bool" where
  "is_media_token value =
     (value \<noteq> [] \<and> (\<forall>c \<in> set value. is_ascii_alphanumeric c \<or> c \<in> set ''!#$&^_.+-''))"

definition canonical_media_type :: "string \<Rightarrow> http_error + string" where
  "canonical_media_type value =
     (let value = to_ascii_lowercase (trim value);
          invalid = Inl (InvalidPolicy (''invalid media type '' @ quoted value))
      in case split_once (CHR ''/'') value of
           None \<Rightarrow> invalid
         | Some (category, subtype) \<Rightarrow>
             if \<not> is_media_token category \<or> \<not> is_media_token subtype \<or> CHR ''/'' \<in> set subtype
             then invalid else Inr value)"

datatype content_type_rule = RuleExact string | RuleType string | RuleSuffix string

definition rule_exact :: "string \<Rightarrow> http_error + content_type_rule" where
  "rule_exact value = and_then (canonical_media_type value) (\<lambda>v. Inr (RuleExact v))"

definition rule_type_wildcard :: "string \<Rightarrow> http_error + content_type_rule" where
  "rule_type_wildcard value =
     (let value = to_ascii_lowercase (trim value) in
      if \<not> is_media_token value
      then Inl (InvalidPolicy (''invalid content-type category '' @ quoted value))
      else Inr (RuleType value))"

definition rule_structured_suffix :: "string \<Rightarrow> http_error + content_type_rule" where
  "rule_structured_suffix value =
     (let value = to_ascii_lowercase (trim value) in
      if \<not> is_media_token value
      then Inl (InvalidPolicy (''invalid content-type suffix '' @ quoted value))
      else Inr (RuleSuffix value))"

fun rule_matches :: "content_type_rule \<Rightarrow> string \<Rightarrow> bool" where
  "rule_matches (RuleExact expected) media_type = (media_type = expected)"
| "rule_matches (RuleType expected) media_type =
     (case split_once (CHR ''/'') media_type of
        None \<Rightarrow> False | Some (category, _) \<Rightarrow> category = expected)"
| "rule_matches (RuleSuffix expected) media_type =
     (case split_once (CHR ''/'') media_type of
        None \<Rightarrow> False | Some (_, subtype) \<Rightarrow> ends_with (''+'' @ expected) subtype)"

record content_type_policy =
  ct_rules :: "content_type_rule list"
  ct_allow_missing :: bool

definition content_type_policy_new :: "content_type_rule list \<Rightarrow> bool \<Rightarrow> http_error + content_type_policy" where
  "content_type_policy_new rules allow_missing =
     (if rules = [] then Inl (InvalidPolicy ''at least one content-type rule is required'')
      else Inr \<lparr> ct_rules = rules, ct_allow_missing = allow_missing \<rparr>)"

definition content_type_policy_json :: content_type_policy where
  "content_type_policy_json =
     \<lparr> ct_rules = [RuleExact ''application/json'', RuleSuffix ''json''], ct_allow_missing = False \<rparr>"

definition content_type_validate :: "content_type_policy \<Rightarrow> string option \<Rightarrow> http_error + string option" where
  "content_type_validate policy value =
     (case value of
        None \<Rightarrow> if ct_allow_missing policy then Inr None else Inl ContentTypeMissing
      | Some value \<Rightarrow>
          and_then (canonical_media_type (takeWhile (\<lambda>c. c \<noteq> CHR '';'') value)) (\<lambda>media_type.
            if \<not> (\<exists>rule \<in> set (ct_rules policy). rule_matches rule media_type)
            then Inl (ContentTypeDenied media_type)
            else Inr (Some media_type)))"

section \<open>Limits\<close>

record rate_limit =
  rate_requests :: nat
  rate_window :: duration

definition rate_limit_new :: "nat \<Rightarrow> duration \<Rightarrow> http_error + rate_limit" where
  "rate_limit_new requests window =
     (if requests = 0 \<or> HARD_MAX_REQUESTS_PER_WINDOW < requests
      then Inl (InvalidPolicy (''rate limit must be between 1 and '' @ show_nat HARD_MAX_REQUESTS_PER_WINDOW))
      else if window = 0 \<or> HARD_MAX_RATE_WINDOW < window
      then Inl (InvalidPolicy (''rate window must be greater than zero and at most ''
             @ show_duration HARD_MAX_RATE_WINDOW))
      else Inr \<lparr> rate_requests = requests, rate_window = window \<rparr>)"

record http_limits =
  max_request_bytes :: nat
  max_response_header_bytes :: nat
  max_response_bytes :: nat
  max_redirects :: nat
  max_concurrent :: nat
  resolve_timeout :: duration
  connect_timeout :: duration
  request_timeout :: duration
  limits_rate :: rate_limit

definition http_limits_default :: http_limits where
  "http_limits_default =
     \<lparr> max_request_bytes = 256 * 1024,
       max_response_header_bytes = 32 * 1024,
       max_response_bytes = 4 * 1024 * 1024,
       max_redirects = 5,
       max_concurrent = 4,
       resolve_timeout = secs 4,
       connect_timeout = secs 4,
       request_timeout = secs 10,
       limits_rate = \<lparr> rate_requests = 30, rate_window = secs 60 \<rparr> \<rparr>"

definition validate_size :: "string \<Rightarrow> nat \<Rightarrow> nat \<Rightarrow> http_error + unit" where
  "validate_size name value maximum =
     (if value = 0 \<or> maximum < value
      then Inl (InvalidPolicy (name @ '' must be between 1 and '' @ show_nat maximum))
      else Inr ())"

definition validate_duration :: "string \<Rightarrow> duration \<Rightarrow> http_error + unit" where
  "validate_duration name value =
     (if value = 0 \<or> HARD_MAX_TIMEOUT < value
      then Inl (InvalidPolicy (name @ '' must be greater than zero and at most ''
             @ show_duration HARD_MAX_TIMEOUT))
      else Inr ())"

definition limits_validate :: "http_limits \<Rightarrow> http_error + unit" where
  "limits_validate l =
     and_then (validate_size ''request byte limit'' (max_request_bytes l) HARD_MAX_REQUEST_BYTES) (\<lambda>_.
     and_then (validate_size ''response header byte limit'' (max_response_header_bytes l) HARD_MAX_HEADER_BYTES) (\<lambda>_.
     and_then (validate_size ''response byte limit'' (max_response_bytes l) HARD_MAX_RESPONSE_BYTES) (\<lambda>_.
     if HARD_MAX_REDIRECTS < max_redirects l
     then Inl (InvalidPolicy (''redirect limit cannot exceed '' @ show_nat HARD_MAX_REDIRECTS))
     else if max_concurrent l = 0 \<or> HARD_MAX_CONCURRENCY < max_concurrent l
     then Inl (InvalidPolicy (''concurrency must be between 1 and '' @ show_nat HARD_MAX_CONCURRENCY))
     else
     and_then (validate_duration ''resolve timeout'' (resolve_timeout l)) (\<lambda>_.
     and_then (validate_duration ''connect timeout'' (connect_timeout l)) (\<lambda>_.
     and_then (validate_duration ''request timeout'' (request_timeout l)) (\<lambda>_.
     and_then (rate_limit_new (rate_requests (limits_rate l)) (rate_window (limits_rate l))) (\<lambda>_.
     Inr ())))))))"

section \<open>Policies\<close>

record http_policy =
  pol_hosts :: exact_host_allowlist
  pol_schemes :: scheme_policy
  pol_content_types :: content_type_policy
  pol_limits :: http_limits
  pol_downgrade :: bool

definition http_policy_new :: "exact_host_allowlist \<Rightarrow> content_type_policy \<Rightarrow> http_policy" where
  "http_policy_new hosts content_types =
     \<lparr> pol_hosts = hosts, pol_schemes = HttpsOnly, pol_content_types = content_types,
       pol_limits = http_limits_default, pol_downgrade = False \<rparr>"

definition with_schemes :: "scheme_policy \<Rightarrow> http_policy \<Rightarrow> http_policy" where
  "with_schemes schemes p = p\<lparr> pol_schemes := schemes \<rparr>"

definition with_limits :: "http_limits \<Rightarrow> http_policy \<Rightarrow> http_error + http_policy" where
  "with_limits limits p = and_then (limits_validate limits) (\<lambda>_. Inr (p\<lparr> pol_limits := limits \<rparr>))"

definition allowing_https_downgrade :: "bool \<Rightarrow> http_policy \<Rightarrow> http_policy" where
  "allowing_https_downgrade allow p = p\<lparr> pol_downgrade := allow \<rparr>"

text \<open>The policies a program can build: the fields are private, so only by these functions.\<close>

inductive built_policy :: "(string \<Rightarrow> string + url_host) \<Rightarrow> http_policy \<Rightarrow> bool" for hp where
  "allowlist_new hp hs = Inr hosts \<Longrightarrow> content_type_policy_new rules missing = Inr types \<Longrightarrow>
     built_policy hp (http_policy_new hosts types)"
| "allowlist_new hp hs = Inr hosts \<Longrightarrow>
     built_policy hp (http_policy_new hosts content_type_policy_json)"
| "built_policy hp p \<Longrightarrow> built_policy hp (with_schemes schemes p)"
| "built_policy hp p \<Longrightarrow> with_limits limits p = Inr q \<Longrightarrow> built_policy hp q"
| "built_policy hp p \<Longrightarrow> built_policy hp (allowing_https_downgrade allow p)"

section \<open>Lemmas\<close>

definition limits_ok :: "http_limits \<Rightarrow> bool" where
  "limits_ok l =
     (max_request_bytes l \<in> {1 .. HARD_MAX_REQUEST_BYTES}
      \<and> max_response_header_bytes l \<in> {1 .. HARD_MAX_HEADER_BYTES}
      \<and> max_response_bytes l \<in> {1 .. HARD_MAX_RESPONSE_BYTES}
      \<and> max_redirects l \<le> HARD_MAX_REDIRECTS
      \<and> max_concurrent l \<in> {1 .. HARD_MAX_CONCURRENCY}
      \<and> resolve_timeout l \<in> {1 .. HARD_MAX_TIMEOUT}
      \<and> connect_timeout l \<in> {1 .. HARD_MAX_TIMEOUT}
      \<and> request_timeout l \<in> {1 .. HARD_MAX_TIMEOUT}
      \<and> rate_requests (limits_rate l) \<in> {1 .. HARD_MAX_REQUESTS_PER_WINDOW}
      \<and> rate_window (limits_rate l) \<in> {1 .. HARD_MAX_RATE_WINDOW})"

lemma validate_size_iff [simp]: "validate_size n v m = Inr () \<longleftrightarrow> v \<in> {1 .. m}"
  by (auto simp: validate_size_def)

lemma validate_duration_iff [simp]: "validate_duration n v = Inr () \<longleftrightarrow> v \<in> {1 .. HARD_MAX_TIMEOUT}"
  by (auto simp: validate_duration_def)

lemma rate_limit_new_iff [simp]:
  "(\<exists>r. rate_limit_new n w = Inr r) \<longleftrightarrow>
     n \<in> {1 .. HARD_MAX_REQUESTS_PER_WINDOW} \<and> w \<in> {1 .. HARD_MAX_RATE_WINDOW}"
  by (auto simp: rate_limit_new_def)

lemma limits_validate_iff: "limits_validate l = Inr () \<longleftrightarrow> limits_ok l"
  by (simp add: limits_validate_def limits_ok_def and_then_Inr not_less conj_ac)

lemma limits_default_ok: "limits_ok http_limits_default"
  by (simp add: limits_ok_def http_limits_default_def hard_limits secs_def)

definition host_ok :: "string \<Rightarrow> bool" where
  "host_ok h = (\<not> is_localhost_name h \<and> (\<forall>a. parse_ip h = Some a \<longrightarrow> is_public_ip a))"

lemma allowlist_collect_Inr:
  "allowlist_collect hp acc hs = Inr a \<longleftrightarrow>
     (\<forall>h \<in> set hs. \<exists>c. canonical_host hp h = Inr c \<and> host_ok c)
     \<and> a = acc \<union> {c. \<exists>h \<in> set hs. canonical_host hp h = Inr c}"
proof (induction hs arbitrary: acc)
  case (Cons h hs)
  show ?case
  proof (cases "canonical_host hp h")
    case (Inr c)
    then have "allowlist_collect hp acc (h # hs) = Inr a \<longleftrightarrow>
        host_ok c \<and> allowlist_collect hp (insert c acc) hs = Inr a"
      by (auto simp: host_ok_def split: option.splits)
    also have "\<dots> \<longleftrightarrow> host_ok c \<and> (\<forall>h \<in> set hs. \<exists>c. canonical_host hp h = Inr c \<and> host_ok c)
        \<and> a = insert c acc \<union> {c. \<exists>h \<in> set hs. canonical_host hp h = Inr c}"
      unfolding Cons.IH by blast
    also have "insert c acc \<union> {c. \<exists>h \<in> set hs. canonical_host hp h = Inr c} =
        acc \<union> {c. \<exists>h \<in> set (h # hs). canonical_host hp h = Inr c}"
      using Inr by auto
    finally show ?thesis using Inr by auto
  qed simp
qed auto

lemma allowlist_new_Inr:
  "allowlist_new hp hs = Inr a \<longleftrightarrow>
     hs \<noteq> [] \<and> (\<forall>h \<in> set hs. \<exists>c. canonical_host hp h = Inr c \<and> host_ok c)
     \<and> a = {c. \<exists>h \<in> set hs. canonical_host hp h = Inr c}"
proof -
  have "allowlist_new hp hs = Inr a \<longleftrightarrow> allowlist_collect hp {} hs = Inr a \<and> a \<noteq> {}"
    by (auto simp: allowlist_new_def and_then_Inr)
  then show ?thesis
    unfolding allowlist_collect_Inr by (cases hs) auto
qed

lemma allowlist_host_ok: "allowlist_new hp hs = Inr a \<Longrightarrow> h \<in> a \<Longrightarrow> host_ok h"
  unfolding allowlist_new_Inr by force

lemma canonical_media_type_Inr:
  "canonical_media_type v = Inr m \<longleftrightarrow> m = to_ascii_lowercase (trim v) \<and>
     (\<exists>c s. m = c @ ''/'' @ s \<and> is_media_token c \<and> is_media_token s)"
proof -
  have slash: "\<not> is_media_token s" if "CHR ''/'' \<in> set s" for s
  proof
    assume "is_media_token s"
    then have "is_ascii_alphanumeric (CHR ''/'') \<or> CHR ''/'' \<in> set ''!#$&^_.+-''"
      using that by (auto simp: is_media_token_def)
    then show False by (simp add: is_ascii_alphanumeric_def is_ascii_digit_def byte_def)
  qed
  have "canonical_media_type v = Inr m \<longleftrightarrow> m = to_ascii_lowercase (trim v) \<and>
     (\<exists>c s. split_once (CHR ''/'') m = Some (c, s) \<and> is_media_token c \<and> is_media_token s)"
    using slash by (auto simp: canonical_media_type_def Let_def split: option.split if_splits)
  also have "\<dots> \<longleftrightarrow> m = to_ascii_lowercase (trim v) \<and>
     (\<exists>c s. m = c @ ''/'' @ s \<and> is_media_token c \<and> is_media_token s)"
    using slash by (auto simp: split_once_Some)
  finally show ?thesis .
qed

end
