(* ===== verification/HttpRequest.thy ===== *)
theory HttpRequest
  imports HttpPolicy
begin

text \<open>
  \<open>request.rs\<close> and the message types of \<open>transport.rs\<close>: validated request headers, requests with
  their builders, resolved endpoints, what a transport receives and returns, and responses. A URL is
  a value of the \<open>url\<close> crate: an element of a type variable, with the crate's functions in the record
  \<open>url_lib\<close>.
\<close>

section \<open>The interface of the url crate\<close>

text \<open>
  \<open>ul_host\<close> gives \<open>Url::host\<close> together with \<open>Url::host_str\<close>: the crate documents that one is present
  iff the other is, so the \<open>expect\<close> in \<open>resolve_endpoint\<close> never fails. \<open>ul_port\<close> is
  \<open>port_or_known_default\<close>, \<open>ul_no_fragment\<close> is \<open>set_fragment(None)\<close>.
\<close>

record 'u url_lib =
  ul_host_parse :: "string \<Rightarrow> string + url_host"
  ul_parse :: "string \<Rightarrow> string + 'u"
  ul_join :: "'u \<Rightarrow> string \<Rightarrow> string + 'u"
  ul_str :: "'u \<Rightarrow> string"
  ul_scheme :: "'u \<Rightarrow> string"
  ul_username :: "'u \<Rightarrow> string"
  ul_password :: "'u \<Rightarrow> string option"
  ul_host :: "'u \<Rightarrow> (url_host \<times> string) option"
  ul_port :: "'u \<Rightarrow> u16 option"
  ul_no_fragment :: "'u \<Rightarrow> 'u"

section \<open>Requests\<close>

datatype http_method = Get | Head | Post

record request_header =
  hd_name :: string
  hd_value :: string

definition is_header_name :: "string \<Rightarrow> bool" where
  "is_header_name value =
     (value \<noteq> [] \<and> (\<forall>c \<in> set value. is_ascii_alphanumeric c
        \<or> c \<in> set ''!#$%&*+-.^_|~'' \<or> c = CHR 0x27 \<or> c = CHR 0x60))"

definition is_transport_header :: "string \<Rightarrow> bool" where
  "is_transport_header name =
     (name \<in> set [''accept-encoding'', ''connection'', ''content-length'', ''host'', ''keep-alive'',
        ''proxy-authenticate'', ''proxy-authorization'', ''te'', ''trailer'', ''transfer-encoding'',
        ''upgrade''] \<or> starts_with ''proxy-'' name)"

definition forbidden_value_byte :: "char \<Rightarrow> bool" where
  "forbidden_value_byte c = ((\<not> is_ascii c \<or> byte c < 32) \<and> byte c \<noteq> 9 \<or> byte c = 127)"

definition request_header_new :: "string \<Rightarrow> string \<Rightarrow> http_error + request_header" where
  "request_header_new name value =
     (let name = to_ascii_lowercase (trim name) in
      if \<not> is_header_name name
      then Inl (InvalidRequest (''invalid header name '' @ quoted name))
      else if \<exists>c \<in> set value. forbidden_value_byte c
      then Inl (InvalidRequest (''header '' @ quoted name @ '' contains a forbidden control character''))
      else if is_transport_header name
      then Inl (InvalidRequest (''header '' @ quoted name @ '' is controlled by the HTTP host''))
      else Inr \<lparr> hd_name = name, hd_value = value \<rparr>)"

definition is_sensitive :: "request_header \<Rightarrow> bool" where
  "is_sensitive h = (hd_name h \<in> {''authorization'', ''cookie''})"

record 'u http_request =
  rq_method :: http_method
  rq_url :: 'u
  rq_headers :: "request_header list"
  rq_body :: string

definition http_request_new :: "'u url_lib \<Rightarrow> http_method \<Rightarrow> string \<Rightarrow> http_error + 'u http_request" where
  "http_request_new L m url =
     (case ul_parse L url of
        Inl e \<Rightarrow> Inl (InvalidUrl e)
      | Inr u \<Rightarrow> Inr \<lparr> rq_method = m, rq_url = u, rq_headers = [], rq_body = [] \<rparr>)"

definition http_request_get :: "'u url_lib \<Rightarrow> string \<Rightarrow> http_error + 'u http_request" where
  "http_request_get L url = http_request_new L Get url"

definition with_header :: "string \<Rightarrow> string \<Rightarrow> 'u http_request \<Rightarrow> http_error + 'u http_request" where
  "with_header name value r =
     and_then (request_header_new name value) (\<lambda>h. Inr (r\<lparr> rq_headers := rq_headers r @ [h] \<rparr>))"

definition with_body :: "string \<Rightarrow> 'u http_request \<Rightarrow> http_error + 'u http_request" where
  "with_body body r =
     (if rq_method r \<noteq> Post then Inl (InvalidRequest ''only POST requests may include a body'')
      else Inr (r\<lparr> rq_body := body \<rparr>))"

text \<open>The requests a program can build.\<close>

inductive built_request :: "'u url_lib \<Rightarrow> 'u http_request \<Rightarrow> bool" for L where
  "http_request_new L m url = Inr r \<Longrightarrow> built_request L r"
| "built_request L r \<Longrightarrow> with_header name value r = Inr r' \<Longrightarrow> built_request L r'"
| "built_request L r \<Longrightarrow> with_body body r = Inr r' \<Longrightarrow> built_request L r'"

section \<open>Messages of the trusted boundaries\<close>

record resolve_request =
  rs_host :: string
  rs_port :: u16
  rs_timeout :: duration

record resolved_endpoint =
  ep_host :: string
  ep_port :: u16
  ep_addresses :: "(ip_addr \<times> u16) list"

record 'u transport_request =
  tr_method :: http_method
  tr_url :: 'u
  tr_headers :: "request_header list"
  tr_body :: string
  tr_endpoint :: resolved_endpoint
  tr_connect_timeout :: duration
  tr_request_timeout :: duration

record transport_header =
  th_name :: string
  th_value :: string

record 'b transport_response =
  tp_status :: u16
  tp_headers :: "transport_header list"
  tp_body :: 'b

section \<open>Responses\<close>

record response_header =
  rh_name :: string
  rh_value :: string

definition value_str :: "response_header \<Rightarrow> string option" where
  "value_str h = (if utf8_valid (rh_value h) then Some (rh_value h) else None)"

record 'u http_response =
  rp_status :: u16
  rp_final_url :: 'u
  rp_content_type :: "string option"
  rp_headers :: "response_header list"
  rp_body :: string

definition response_header_find :: "'u http_response \<Rightarrow> string \<Rightarrow> response_header option" where
  "response_header_find r name = find (\<lambda>h. eq_ignore_ascii_case (rh_name h) name) (rp_headers r)"

section \<open>Lemmas\<close>

text \<open>A header that cannot break the framing of the message.\<close>

definition header_ok :: "request_header \<Rightarrow> bool" where
  "header_ok h =
     (is_header_name (hd_name h) \<and> to_ascii_lowercase (hd_name h) = hd_name h
      \<and> \<not> is_transport_header (hd_name h)
      \<and> (\<forall>c \<in> set (hd_value h). byte c = 9 \<or> 32 \<le> byte c \<and> byte c < 127))"

lemma forbidden_value_byte_iff:
  "\<not> forbidden_value_byte c \<longleftrightarrow> byte c = 9 \<or> 32 \<le> byte c \<and> byte c < 127"
  by (auto simp: forbidden_value_byte_def is_ascii_def)

lemma request_header_new_Inr:
  "request_header_new n v = Inr h \<longleftrightarrow>
     header_ok h \<and> h = \<lparr> hd_name = to_ascii_lowercase (trim n), hd_value = v \<rparr>"
  by (auto simp: request_header_new_def header_ok_def Let_def simp flip: forbidden_value_byte_iff)

definition request_ok :: "'u http_request \<Rightarrow> bool" where
  "request_ok r =
     ((\<forall>h \<in> set (rq_headers r). header_ok h) \<and> (rq_body r \<noteq> [] \<longrightarrow> rq_method r = Post))"

lemma built_request_ok: "built_request L r \<Longrightarrow> request_ok r"
proof (induction rule: built_request.induct)
  case (1 m url r)
  then show ?case by (auto simp: http_request_new_def request_ok_def split: sum.splits)
next
  case (2 r n v r')
  then show ?case by (auto simp: with_header_def and_then_Inr request_header_new_Inr request_ok_def)
next
  case (3 r body r')
  then show ?case by (auto simp: with_body_def request_ok_def split: if_splits)
qed

end
