(* ===== verification/HttpClient.thy ===== *)
theory HttpClient
  imports HttpRequest
begin

text \<open>
  \<open>client.rs\<close>: the bounded HTTP client. The resolver, the transport, the clock, the cancellation flag
  and the body streams are functions on a world of type \<open>'w\<close> that they may change at every call, so
  that whatever other threads and the network do between two steps is covered; the concurrency
  counter and the rate history shared by the clones of a client are the other two fields of the
  state. \<open>execute\<close> is the loop over the redirect hops, each hop in the order of the source.
\<close>

definition STREAM_CHUNK_BYTES :: nat where "STREAM_CHUNK_BYTES = 16 * 1024"

section \<open>State and effects\<close>

record 'w client_state =
  cl_active :: nat
  cl_history :: "duration list"
  cl_world :: 'w

type_synonym ('w, 'a) io = "'w client_state \<Rightarrow> (http_error + 'a) \<times> 'w client_state"

definition io_ret :: "'a \<Rightarrow> ('w, 'a) io" where
  "io_ret x = (\<lambda>s. (Inr x, s))"

definition io_fail :: "http_error \<Rightarrow> ('w, 'a) io" where
  "io_fail e = (\<lambda>s. (Inl e, s))"

definition io_result :: "http_error + 'a \<Rightarrow> ('w, 'a) io" where
  "io_result r = (\<lambda>s. (r, s))"

text \<open>The \<open>?\<close> operator between two effects.\<close>

definition io_then :: "('w, 'a) io \<Rightarrow> ('a \<Rightarrow> ('w, 'b) io) \<Rightarrow> ('w, 'b) io" where
  "io_then m f = (\<lambda>s. case m s of (Inl e, s') \<Rightarrow> (Inl e, s') | (Inr x, s') \<Rightarrow> f x s')"

text \<open>An effect of the world alone.\<close>

definition io_world :: "('w \<Rightarrow> (http_error + 'a) \<times> 'w) \<Rightarrow> ('w, 'a) io" where
  "io_world g = (\<lambda>s. let (r, w) = g (cl_world s) in (r, s\<lparr> cl_world := w \<rparr>))"

text \<open>
  The trusted boundaries. \<open>env_read\<close> is \<open>Read::read\<close> on a body stream: an error text or the bytes
  read, and the stream after it.
\<close>

record ('w, 'u, 'b) http_env =
  env_url :: "'u url_lib"
  env_resolve :: "resolve_request \<Rightarrow> 'w \<Rightarrow> (http_error + ip_addr list) \<times> 'w"
  env_transport :: "'u transport_request \<Rightarrow> 'w \<Rightarrow> (http_error + 'b transport_response) \<times> 'w"
  env_now :: "'w \<Rightarrow> duration \<times> 'w"
  env_cancelled :: "'w \<Rightarrow> bool \<times> 'w"
  env_read :: "'b \<Rightarrow> 'w \<Rightarrow> (string + string) \<times> 'b \<times> 'w"

definition check_cancelled :: "('w, 'u, 'b) http_env \<Rightarrow> ('w, unit) io" where
  "check_cancelled env =
     io_world (\<lambda>w. let (c, w') = env_cancelled env w in (if c then Inl HttpCancelled else Inr (), w'))"

section \<open>Concurrency and rate\<close>

text \<open>\<open>ActiveRequest::acquire\<close> and its \<open>Drop\<close>, on the counter.\<close>

definition active_acquire :: "nat \<Rightarrow> nat \<Rightarrow> (http_error + nat)" where
  "active_acquire limit active =
     (if active < limit then Inr (active + 1) else Inl (ConcurrencyLimit limit))"

definition active_release :: "nat \<Rightarrow> nat" where
  "active_release active = active - 1"

text \<open>\<open>acquire_rate_slot\<close>: expired instants leave the front of the history, then the window's
  allowance is checked.\<close>

definition rate_expire :: "duration \<Rightarrow> duration \<Rightarrow> duration list \<Rightarrow> duration list" where
  "rate_expire window now history = dropWhile (\<lambda>t. window \<le> now - t) history"

definition rate_slot :: "rate_limit \<Rightarrow> duration \<Rightarrow> duration list \<Rightarrow> (http_error + unit) \<times> duration list" where
  "rate_slot rate now history =
     (let history = rate_expire (rate_window rate) now history in
      if rate_requests rate \<le> length history
      then (Inl (RateLimited (case history of
                   [] \<Rightarrow> rate_window rate | t # _ \<Rightarrow> rate_window rate - (now - t))), history)
      else (Inr (), history @ [now]))"

definition acquire_rate_slot :: "('w, 'u, 'b) http_env \<Rightarrow> http_policy \<Rightarrow> ('w, unit) io" where
  "acquire_rate_slot env p = (\<lambda>s.
     let (now, w) = env_now env (cl_world s);
         (r, history) = rate_slot (limits_rate (pol_limits p)) now (cl_history s)
     in (r, s\<lparr> cl_world := w, cl_history := history \<rparr>))"

section \<open>Sizes and headers\<close>

fun method_bytes :: "http_method \<Rightarrow> nat" where
  "method_bytes Get = 3"
| "method_bytes Head = 4"
| "method_bytes Post = 4"

text \<open>Adding a list of sizes one after the other, \<open>None\<close> at the first overflow.\<close>

fun add_sizes :: "nat \<Rightarrow> nat list \<Rightarrow> nat option" where
  "add_sizes n [] = Some n"
| "add_sizes n (x # xs) = (case checked_usize n x of None \<Rightarrow> None | Some m \<Rightarrow> add_sizes m xs)"

definition validate_request_size :: "http_method \<Rightarrow> string \<Rightarrow> request_header list \<Rightarrow> string \<Rightarrow> nat
    \<Rightarrow> http_error + unit" where
  "validate_request_size m url headers body limit =
     (case add_sizes (method_bytes m) ([length url, length body]
         @ concat (map (\<lambda>h. [length (hd_name h), length (hd_value h), 4]) headers)) of
        None \<Rightarrow> Inl (RequestTooLarge limit)
      | Some bytes \<Rightarrow> if limit < bytes then Inl (RequestTooLarge limit) else Inr ())"

fun response_headers_fit :: "nat \<Rightarrow> nat \<Rightarrow> transport_header list \<Rightarrow> http_error + unit" where
  "response_headers_fit limit bytes [] = Inr ()"
| "response_headers_fit limit bytes (h # hs) =
     (if th_name h = [] \<or> \<not> (\<forall>c \<in> set (th_name h). is_ascii_alphanumeric c \<or> c = CHR ''-'')
      then Inl (TransportFailed ''response contains an invalid header name'')
      else case add_sizes bytes [length (th_name h), length (th_value h), 4] of
        None \<Rightarrow> Inl (ResponseHeadersTooLarge limit)
      | Some bytes \<Rightarrow>
          if limit < bytes then Inl (ResponseHeadersTooLarge limit)
          else response_headers_fit limit bytes hs)"

definition validate_response_headers :: "transport_header list \<Rightarrow> nat \<Rightarrow> http_error + transport_header list" where
  "validate_response_headers headers limit =
     and_then (response_headers_fit limit 0 headers) (\<lambda>_. Inr headers)"

definition unique_utf8_header :: "transport_header list \<Rightarrow> string \<Rightarrow> http_error + string option" where
  "unique_utf8_header headers name =
     (case filter (\<lambda>h. eq_ignore_ascii_case (th_name h) name) headers of
        [] \<Rightarrow> Inr None
      | [h] \<Rightarrow> if utf8_valid (th_value h) then Inr (Some (th_value h))
               else Inl (TransportFailed (''response '' @ quoted name @ '' header is not UTF-8''))
      | _ \<Rightarrow> Inl (TransportFailed (''response contains repeated '' @ quoted name @ '' headers'')))"

definition content_length :: "transport_header list \<Rightarrow> http_error + nat option" where
  "content_length headers =
     and_then (unique_utf8_header headers ''content-length'') (\<lambda>value.
       case value of
         None \<Rightarrow> Inr None
       | Some v \<Rightarrow> (case parse_u64 (trim v) of
           None \<Rightarrow> Inl (TransportFailed ''invalid Content-Length header'')
         | Some n \<Rightarrow> Inr (Some n)))"

definition validate_content_encoding :: "transport_header list \<Rightarrow> http_error + unit" where
  "validate_content_encoding headers =
     and_then (unique_utf8_header headers ''content-encoding'') (\<lambda>value.
       case value of
         None \<Rightarrow> Inr ()
       | Some v \<Rightarrow>
           (let v = trim v in
            if v \<noteq> [] \<and> \<not> eq_ignore_ascii_case v ''identity'' then Inl (ContentEncodingDenied v)
            else Inr ()))"

section \<open>URLs\<close>

fun canonical_url_host :: "(string \<Rightarrow> string + url_host) \<Rightarrow> url_host \<Rightarrow> http_error + string" where
  "canonical_url_host hp (HostDomain domain) = canonical_host hp domain"
| "canonical_url_host hp (HostIpv4 a b c d) = Inr (show_ip (IpV4 a b c d))"
| "canonical_url_host hp (HostIpv6 a b c d e f g h) = Inr (show_ip (IpV6 a b c d e f g h))"

definition redirect_loop_key :: "'u url_lib \<Rightarrow> 'u \<Rightarrow> string" where
  "redirect_loop_key L u = ul_str L (ul_no_fragment L u)"

definition is_redirect :: "u16 \<Rightarrow> bool" where
  "is_redirect status = (status \<in> {301, 302, 303, 307, 308})"

definition same_origin :: "'u url_lib \<Rightarrow> 'u \<Rightarrow> 'u \<Rightarrow> bool" where
  "same_origin L a b =
     (ul_scheme L a = ul_scheme L b \<and> map_option fst (ul_host L a) = map_option fst (ul_host L b)
      \<and> ul_port L a = ul_port L b)"

section \<open>One hop\<close>

definition resolve_endpoint :: "('w, 'u, 'b) http_env \<Rightarrow> http_policy \<Rightarrow> 'u \<Rightarrow> ('w, resolved_endpoint) io" where
  "resolve_endpoint env p url =
     (let L = env_url env; scheme = ul_scheme L url in
      if \<not> scheme_allows (pol_schemes p) scheme then io_fail (SchemeDenied scheme)
      else if ul_username L url \<noteq> [] \<or> ul_password L url \<noteq> None
      then io_fail (InvalidUrl ''embedded credentials are not allowed'')
      else case ul_host L url of None \<Rightarrow> io_fail (InvalidUrl ''URL has no host'')
      | Some (host, transport_host) \<Rightarrow>
      io_then (io_result (canonical_url_host (ul_host_parse L) host)) (\<lambda>canonical.
      if is_localhost_name canonical then io_fail (LocalhostDenied canonical)
      else if \<not> allowlist_allows (ul_host_parse L) (pol_hosts p) canonical
      then io_fail (HostDenied canonical)
      else case (case ul_port L url of Some port \<Rightarrow> if port \<noteq> 0 then Some port else None | None \<Rightarrow> None) of
        None \<Rightarrow> io_fail (InvalidUrl ''URL has no usable port'')
      | Some port \<Rightarrow>
      io_then (case host of
          HostDomain _ \<Rightarrow> io_world (env_resolve env
             \<lparr> rs_host = canonical, rs_port = port, rs_timeout = resolve_timeout (pol_limits p) \<rparr>)
        | HostIpv4 a b c d \<Rightarrow> io_ret [IpV4 a b c d]
        | HostIpv6 a b c d e f g h \<Rightarrow> io_ret [IpV6 a b c d e f g h]) (\<lambda>addresses.
      io_then (check_cancelled env) (\<lambda>_.
      if addresses = [] then io_fail (ResolveFailed ''host resolved to no addresses'')
      else
        (let addresses = remdups_adj (sort addresses) in
         case find (\<lambda>a. \<not> is_public_ip a) addresses of
           Some a \<Rightarrow> io_fail (AddressDenied a)
         | None \<Rightarrow> io_ret \<lparr> ep_host = transport_host, ep_port = port,
                      ep_addresses = map (\<lambda>a. (a, port)) addresses \<rparr>)))))"

text \<open>From the size check to the validated response headers, without the loop check.\<close>

definition exchange :: "('w, 'u, 'b) http_env \<Rightarrow> http_policy \<Rightarrow> 'u http_request
    \<Rightarrow> ('w, 'b transport_response \<times> transport_header list) io" where
  "exchange env p r =
     io_then (acquire_rate_slot env p) (\<lambda>_.
     io_then (resolve_endpoint env p (rq_url r)) (\<lambda>endpoint.
     io_then (io_world (env_transport env
        \<lparr> tr_method = rq_method r, tr_url = rq_url r, tr_headers = rq_headers r, tr_body = rq_body r,
          tr_endpoint = endpoint, tr_connect_timeout = connect_timeout (pol_limits p),
          tr_request_timeout = request_timeout (pol_limits p) \<rparr>)) (\<lambda>response.
     io_then (check_cancelled env) (\<lambda>_.
     io_then (io_result (validate_response_headers (tp_headers response)
        (max_response_header_bytes (pol_limits p)))) (\<lambda>headers.
     io_ret (response, headers))))))"

text \<open>The request of the next hop: across origins the sensitive headers go; a redirect that turns the
  method into GET drops the body and the headers that describe it.\<close>

definition redirected :: "'u url_lib \<Rightarrow> u16 \<Rightarrow> 'u \<Rightarrow> 'u http_request \<Rightarrow> 'u http_request" where
  "redirected L status next_url r =
     (let r = (if \<not> same_origin L (rq_url r) next_url
               then r\<lparr> rq_headers := filter (\<lambda>h. \<not> is_sensitive h) (rq_headers r) \<rparr> else r);
          r = (if status = 303 \<or> (status \<in> {301, 302} \<and> rq_method r = Post)
               then r\<lparr> rq_method := Get, rq_body := [],
                       rq_headers := filter (\<lambda>h. hd_name h \<notin> {''content-type'', ''content-language'',
                                               ''content-location''}) (rq_headers r) \<rparr>
               else r)
      in r\<lparr> rq_url := next_url \<rparr>)"


definition redirect_request :: "'u url_lib \<Rightarrow> http_policy \<Rightarrow> u16 \<Rightarrow> transport_header list \<Rightarrow> 'u http_request
    \<Rightarrow> http_error + 'u http_request" where
  "redirect_request L p status headers r =
     and_then (unique_utf8_header headers ''location'') (\<lambda>value.
     case value of
       None \<Rightarrow> Inl (RedirectRejected ''missing Location header'')
     | Some location \<Rightarrow>
     (case ul_join L (rq_url r) location of
       Inl e \<Rightarrow> Inl (RedirectRejected e)
     | Inr next_url \<Rightarrow>
     if ul_scheme L (rq_url r) = ''https'' \<and> ul_scheme L next_url = ''http'' \<and> \<not> pol_downgrade p
     then Inl (RedirectRejected ''HTTPS-to-HTTP downgrade is disabled'')
     else Inr (redirected L status next_url r)))"

section \<open>The body\<close>

text \<open>
  \<open>read_bounded\<close>. Every turn but the last appends at least one byte and the total stays within the
  limit, so the loop ends whatever the stream delivers. (\<open>saturating_add\<close> of two lengths that fit in
  memory is their sum.)
\<close>

function read_bounded :: "('w, 'u, 'b) http_env \<Rightarrow> nat \<Rightarrow> string \<Rightarrow> 'b \<Rightarrow> ('w, string) io" where
  "read_bounded env limit output body s =
     (case check_cancelled env s of
        (Inl e, s') \<Rightarrow> (Inl e, s')
      | (Inr _, s') \<Rightarrow>
          (let (got, body', w) = env_read env body (cl_world s'); s'' = s'\<lparr> cl_world := w \<rparr> in
           case got of
             Inl e \<Rightarrow> (Inl (TransportFailed e), s'')
           | Inr chunk \<Rightarrow>
               if chunk = [] then io_then (check_cancelled env) (\<lambda>_. io_ret output) s''
               else if limit < length output + length chunk then (Inl (ResponseTooLarge limit), s'')
               else read_bounded env limit (output @ chunk) body' s''))"
  by pat_completeness auto
termination
  by (relation "measure (\<lambda>(env, limit, output, body, s). limit - length output)")
    (auto simp: neq_Nil_conv)

declare read_bounded.simps [simp del]

definition finish_response :: "('w, 'u, 'b) http_env \<Rightarrow> http_policy \<Rightarrow> 'u http_request
    \<Rightarrow> 'b transport_response \<Rightarrow> transport_header list \<Rightarrow> ('w, 'u http_response) io" where
  "finish_response env p r response headers =
     io_then (io_result (validate_content_encoding headers)) (\<lambda>_.
     io_then (io_result (content_length headers)) (\<lambda>declared.
     if (case declared of None \<Rightarrow> False | Some n \<Rightarrow> max_response_bytes (pol_limits p) < n)
     then io_fail (ResponseTooLarge (max_response_bytes (pol_limits p)))
     else
     io_then (io_result (and_then (unique_utf8_header headers ''content-type'')
        (content_type_validate (pol_content_types p)))) (\<lambda>content_type.
     io_then (if rq_method r = Head then io_ret []
              else read_bounded env (max_response_bytes (pol_limits p)) [] (tp_body response)) (\<lambda>body.
     io_ret \<lparr> rp_status = tp_status response, rp_final_url = rq_url r, rp_content_type = content_type,
       rp_headers = map (\<lambda>h. \<lparr> rh_name = th_name h, rh_value = th_value h \<rparr>) headers,
       rp_body = body \<rparr>))))"

section \<open>The redirect loop\<close>

text \<open>\<open>for redirect_count in 0..=max_redirects\<close>: \<open>turns\<close> is the number of turns left.\<close>

primrec hops :: "('w, 'u, 'b) http_env \<Rightarrow> http_policy \<Rightarrow> nat \<Rightarrow> nat \<Rightarrow> string set \<Rightarrow> 'u http_request
    \<Rightarrow> ('w, 'u http_response) io" where
  "hops env p 0 redirect_count visited r = io_fail (RedirectRejected ''redirect state was exhausted'')"
| "hops env p (Suc turns) redirect_count visited r =
     io_then (check_cancelled env) (\<lambda>_.
     io_then (io_result (validate_request_size (rq_method r) (ul_str (env_url env) (rq_url r))
        (rq_headers r) (rq_body r) (max_request_bytes (pol_limits p)))) (\<lambda>_.
     if redirect_loop_key (env_url env) (rq_url r) \<in> visited
     then io_fail (RedirectRejected ''redirect loop detected'')
     else
     io_then (exchange env p r) (\<lambda>(response, headers).
     if is_redirect (tp_status response) then
       if redirect_count = max_redirects (pol_limits p)
       then io_fail (RedirectRejected (''more than '' @ show_nat (max_redirects (pol_limits p)) @ '' hops''))
       else
       io_then (io_result (redirect_request (env_url env) p (tp_status response) headers r)) (\<lambda>r'.
       hops env p turns (redirect_count + 1)
         (insert (redirect_loop_key (env_url env) (rq_url r)) visited) r')
     else finish_response env p r response headers)))"

definition execute_hops :: "('w, 'u, 'b) http_env \<Rightarrow> http_policy \<Rightarrow> 'u http_request \<Rightarrow> ('w, 'u http_response) io" where
  "execute_hops env p r = hops env p (max_redirects (pol_limits p) + 1) 0 {} r"

text \<open>\<open>execute\<close>: the guard of the concurrency counter is dropped on every way out.\<close>

definition execute :: "('w, 'u, 'b) http_env \<Rightarrow> http_policy \<Rightarrow> 'u http_request \<Rightarrow> ('w, 'u http_response) io" where
  "execute env p r =
     io_then (check_cancelled env) (\<lambda>_. (\<lambda>s.
       case active_acquire (max_concurrent (pol_limits p)) (cl_active s) of
         Inl e \<Rightarrow> (Inl e, s)
       | Inr n \<Rightarrow>
           (let (result, s') = execute_hops env p r (s\<lparr> cl_active := n \<rparr>)
            in (result, s'\<lparr> cl_active := active_release (cl_active s') \<rparr>))))"

section \<open>Lemmas\<close>

lemma io_then_simps [simp]:
  "io_then (io_ret x) f = f x"
  "io_then (io_fail e) f = io_fail e"
  "io_then (io_result (Inl e)) f = io_fail e"
  "io_then (io_result (Inr x)) f = f x"
  by (simp_all add: io_then_def io_ret_def io_fail_def io_result_def)

lemma io_then_cong:
  assumes "m = m'" and "\<And>x s s'. m s = (Inr x, s') \<Longrightarrow> f x s' = g x s'"
  shows "io_then m f = io_then m' g"
  using assms by (auto simp: io_then_def fun_eq_iff split: sum.split prod.split)

lemma io_then_Inr:
  "io_then m f s = (Inr y, s'') \<longleftrightarrow> (\<exists>x s'. m s = (Inr x, s') \<and> f x s' = (Inr y, s''))"
  by (auto simp: io_then_def split: sum.splits prod.splits)

lemma io_fail_Inr [simp]: "io_fail e s \<noteq> (Inr x, s')"
  by (simp add: io_fail_def)

lemma io_result_Inr [simp]: "io_result r s = (Inr x, s') \<longleftrightarrow> r = Inr x \<and> s' = s"
  by (auto simp: io_result_def)

lemma io_ret_Inr [simp]: "io_ret x s = (Inr y, s') \<longleftrightarrow> y = x \<and> s' = s"
  by (auto simp: io_ret_def)

end
