(* ===== verification/HttpProps.thy ===== *)
theory HttpProps
  imports HttpClient
begin

text \<open>
  What the HTTP capability guarantees. The main theorem puts a guard in front of the resolver and of
  the transport that refuses everything the policy does not allow, and shows that the guard changes
  nothing: the client never lets them see such a request, on any hop and whatever they answer.
\<close>

section \<open>What a hop may look like\<close>

definition host_granted :: "'u url_lib \<Rightarrow> http_policy \<Rightarrow> 'u \<Rightarrow> bool" where
  "host_granted L p u =
     (case ul_host L u of None \<Rightarrow> False
      | Some (host, _) \<Rightarrow> (case canonical_url_host (ul_host_parse L) host of
          Inl _ \<Rightarrow> False
        | Inr c \<Rightarrow> \<not> is_localhost_name c \<and> allowlist_allows (ul_host_parse L) (pol_hosts p) c))"

definition url_granted :: "'u url_lib \<Rightarrow> http_policy \<Rightarrow> 'u \<Rightarrow> bool" where
  "url_granted L p u =
     (scheme_allows (pol_schemes p) (ul_scheme L u) \<and> ul_username L u = [] \<and> ul_password L u = None
      \<and> host_granted L p u \<and> (case ul_port L u of None \<Rightarrow> False | Some n \<Rightarrow> n \<noteq> 0))"

definition endpoint_public :: "'u url_lib \<Rightarrow> 'u \<Rightarrow> resolved_endpoint \<Rightarrow> bool" where
  "endpoint_public L u ep =
     (ep_addresses ep \<noteq> [] \<and> distinct (ep_addresses ep)
      \<and> (\<forall>(a, n) \<in> set (ep_addresses ep). is_public_ip a \<and> ul_port L u = Some n))"

text \<open>What may have become of the caller's request on the way.\<close>

definition carried :: "'u url_lib \<Rightarrow> http_policy \<Rightarrow> 'u http_request \<Rightarrow> 'u http_request \<Rightarrow> bool" where
  "carried L p original r =
     (set (rq_headers r) \<subseteq> set (rq_headers original)
      \<and> (\<not> same_origin L (rq_url original) (rq_url r) \<longrightarrow> (\<forall>h \<in> set (rq_headers r). \<not> is_sensitive h))
      \<and> (ul_scheme L (rq_url original) = ''https'' \<and> \<not> pol_downgrade p
           \<longrightarrow> ul_scheme L (rq_url r) \<noteq> ''http'')
      \<and> (rq_method r = rq_method original \<and> rq_body r = rq_body original
         \<or> rq_method r = Get \<and> rq_body r = []))"

definition hop_allowed :: "'u url_lib \<Rightarrow> http_policy \<Rightarrow> 'u http_request \<Rightarrow> 'u transport_request \<Rightarrow> bool" where
  "hop_allowed L p original t =
     (url_granted L p (tr_url t) \<and> endpoint_public L (tr_url t) (tr_endpoint t)
      \<and> validate_request_size (tr_method t) (ul_str L (tr_url t)) (tr_headers t) (tr_body t)
          (max_request_bytes (pol_limits p)) = Inr ()
      \<and> carried L p original \<lparr> rq_method = tr_method t, rq_url = tr_url t,
          rq_headers = tr_headers t, rq_body = tr_body t \<rparr>)"

definition lookup_allowed :: "'u url_lib \<Rightarrow> http_policy \<Rightarrow> resolve_request \<Rightarrow> bool" where
  "lookup_allowed L p q =
     (\<not> is_localhost_name (rs_host q) \<and> rs_port q \<noteq> 0
      \<and> allowlist_allows (ul_host_parse L) (pol_hosts p) (rs_host q))"

text \<open>The guard in front of the two boundaries.\<close>

definition guarded :: "('w, 'u, 'b) http_env \<Rightarrow> http_policy \<Rightarrow> 'u http_request \<Rightarrow> ('w, 'u, 'b) http_env" where
  "guarded env p original = env\<lparr>
     env_transport := (\<lambda>t w. if hop_allowed (env_url env) p original t then env_transport env t w
                             else (Inl (TransportFailed ''refused''), w)),
     env_resolve := (\<lambda>q w. if lookup_allowed (env_url env) p q then env_resolve env q w
                           else (Inl (TransportFailed ''refused''), w)) \<rparr>"

lemma guarded_simps [simp]:
  "env_url (guarded env p r) = env_url env"
  "env_now (guarded env p r) = env_now env"
  "env_cancelled (guarded env p r) = env_cancelled env"
  "env_read (guarded env p r) = env_read env"
  by (simp_all add: guarded_def)

lemma check_cancelled_guarded [simp]: "check_cancelled (guarded env p r) = check_cancelled env"
  by (simp add: check_cancelled_def)

lemma acquire_rate_slot_guarded [simp]:
  "acquire_rate_slot (guarded env p r) q = acquire_rate_slot env q"
  by (simp add: acquire_rate_slot_def)

lemma read_bounded_env:
  assumes "env_cancelled e1 = env_cancelled e2" "env_read e1 = env_read e2"
  shows "read_bounded e1 limit out b s = read_bounded e2 limit out b s"
  using assms
proof (induction e1 limit out b s rule: read_bounded.induct)
  case (1 e1 limit out b s)
  have "check_cancelled e1 = check_cancelled e2" using 1 by (simp add: check_cancelled_def)
  then show ?case
    using 1 by (subst (1 2) read_bounded.simps) (auto simp: Let_def split: sum.split prod.split)
qed

lemma read_bounded_guarded [simp]:
  "read_bounded (guarded env p r) limit out b = read_bounded env limit out b"
  by (rule ext) (rule read_bounded_env; simp)

lemma finish_response_guarded [simp]:
  "finish_response (guarded env p r) q r' response headers = finish_response env q r' response headers"
  unfolding finish_response_def read_bounded_guarded ..

section \<open>One hop is allowed\<close>

lemma sorted_distinct_adj: "sorted xs \<Longrightarrow> distinct_adj xs \<Longrightarrow> distinct xs"
  for xs :: "'x::linorder list"
proof (induction xs rule: induct_list012)
  case (3 x y zs)
  then have "x < y" "\<forall>z \<in> set (y # zs). y \<le> z" by auto
  then have "x \<notin> set (y # zs)" by force
  then show ?case using 3 by auto
qed simp_all

lemma distinct_remdups_adj_sort: "distinct (remdups_adj (sort xs))" for xs :: "'x::linorder list"
  by (rule sorted_distinct_adj) simp_all

lemma sort_Nil_iff: "sort xs = [] \<longleftrightarrow> xs = []" for xs :: "'x::linorder list"
  by (metis length_0_conv length_sort)

lemma resolve_endpoint_Inr:
  assumes "resolve_endpoint env p u s = (Inr ep, s')"
  shows "url_granted (env_url env) p u \<and> endpoint_public (env_url env) u ep"
  using assms
  by (auto simp: resolve_endpoint_def Let_def io_then_Inr url_granted_def host_granted_def
      endpoint_public_def find_None_iff distinct_map distinct_remdups_adj_sort sort_Nil_iff inj_on_def
      split: if_splits option.splits prod.splits)

lemma resolve_endpoint_guarded [simp]:
  "resolve_endpoint (guarded env p original) p u = resolve_endpoint env p u"
proof -
  let ?g = "guarded env p original"
  have look: "io_world (env_resolve ?g \<lparr> rs_host = c, rs_port = n, rs_timeout = t \<rparr>) =
      io_world (env_resolve env \<lparr> rs_host = c, rs_port = n, rs_timeout = t \<rparr>)"
    if "\<not> is_localhost_name c" "allowlist_allows (ul_host_parse (env_url env)) (pol_hosts p) c" "n \<noteq> 0"
    for c n t
    using that by (simp add: guarded_def lookup_allowed_def io_world_def)
  show ?thesis
    unfolding resolve_endpoint_def Let_def guarded_simps
    by (auto intro!: io_then_cong if_cong simp: look split: option.split url_host.split)
qed

lemma exchange_guarded:
  fixes env :: "('w, 'u, 'b) http_env"
  assumes "carried (env_url env) p original r"
    and "validate_request_size (rq_method r) (ul_str (env_url env) (rq_url r)) (rq_headers r) (rq_body r)
      (max_request_bytes (pol_limits p)) = Inr ()"
  shows "exchange (guarded env p original) p r = exchange env p r"
proof -
  have send: "io_world (env_transport (guarded env p original)
        \<lparr> tr_method = rq_method r, tr_url = rq_url r, tr_headers = rq_headers r, tr_body = rq_body r,
          tr_endpoint = ep, tr_connect_timeout = a, tr_request_timeout = b \<rparr>) =
      io_world (env_transport env
        \<lparr> tr_method = rq_method r, tr_url = rq_url r, tr_headers = rq_headers r, tr_body = rq_body r,
          tr_endpoint = ep, tr_connect_timeout = a, tr_request_timeout = b \<rparr>)"
    if "url_granted (env_url env) p (rq_url r)" "endpoint_public (env_url env) (rq_url r) ep" for ep a b
    using assms that by (simp add: guarded_def hop_allowed_def io_world_def carried_def)
  show ?thesis
    unfolding exchange_def check_cancelled_guarded acquire_rate_slot_guarded resolve_endpoint_guarded
  proof (rule io_then_cong[OF refl], rule fun_cong[OF io_then_cong[OF refl]])
    fix ep s s'
    assume "resolve_endpoint env p (rq_url r) s = (Inr ep, s')"
    then have "url_granted (env_url env) p (rq_url r)" "endpoint_public (env_url env) (rq_url r) ep"
      by (simp_all add: resolve_endpoint_Inr)
    note sent = send[OF this]
    show "io_then (io_world (env_transport (guarded env p original)
        \<lparr> tr_method = rq_method r, tr_url = rq_url r, tr_headers = rq_headers r, tr_body = rq_body r,
          tr_endpoint = ep, tr_connect_timeout = connect_timeout (pol_limits p),
          tr_request_timeout = request_timeout (pol_limits p) \<rparr>)) f s' =
      io_then (io_world (env_transport env
        \<lparr> tr_method = rq_method r, tr_url = rq_url r, tr_headers = rq_headers r, tr_body = rq_body r,
          tr_endpoint = ep, tr_connect_timeout = connect_timeout (pol_limits p),
          tr_request_timeout = request_timeout (pol_limits p) \<rparr>)) f s'" for f :: "_ \<Rightarrow> ('w, 'd) io"
      unfolding sent ..
  qed
qed

lemma exchange_granted:
  assumes "exchange env p r s = (Inr x, s')"
  shows "url_granted (env_url env) p (rq_url r)"
  using assms by (auto simp: exchange_def io_then_Inr dest!: resolve_endpoint_Inr)

section \<open>Redirects keep the request in bounds\<close>

lemma carried_refl: "carried L p r r"
  by (simp add: carried_def same_origin_def)

lemma redirect_request_Inr:
  "redirect_request L p status headers r = Inr r' \<longleftrightarrow>
     (\<exists>location u. unique_utf8_header headers ''location'' = Inr (Some location)
        \<and> ul_join L (rq_url r) location = Inr u
        \<and> \<not> (ul_scheme L (rq_url r) = ''https'' \<and> ul_scheme L u = ''http'' \<and> \<not> pol_downgrade p)
        \<and> r' = redirected L status u r)"
proof (cases "unique_utf8_header headers ''location''")
  case (Inr found)
  show ?thesis
  proof (cases found)
    case (Some location)
    then show ?thesis
      using Inr by (cases "ul_join L (rq_url r) location") (auto simp: redirect_request_def)
  qed (use Inr in \<open>simp add: redirect_request_def\<close>)
qed (simp add: redirect_request_def)

lemma redirected_url: "rq_url (redirected L status u r) = u"
  by (simp add: redirected_def Let_def)

lemma redirected_headers:
  "set (rq_headers (redirected L status u r)) \<subseteq> set (rq_headers r)"
  "\<not> same_origin L (rq_url r) u \<Longrightarrow> \<forall>h \<in> set (rq_headers (redirected L status u r)). \<not> is_sensitive h"
  by (auto simp: redirected_def Let_def)

lemma redirected_method:
  "rq_method (redirected L status u r) = rq_method r \<and> rq_body (redirected L status u r) = rq_body r
   \<or> rq_method (redirected L status u r) = Get \<and> rq_body (redirected L status u r) = []"
  by (simp add: redirected_def Let_def)

lemma carried_redirect:
  assumes c: "carried L p original r" and g: "url_granted L p (rq_url r)"
    and next_hop: "redirect_request L p status headers r = Inr r'"
  shows "carried L p original r'"
proof -
  obtain u where u: "\<not> (ul_scheme L (rq_url r) = ''https'' \<and> ul_scheme L u = ''http''
      \<and> \<not> pol_downgrade p)" and r': "r' = redirected L status u r"
    using next_hop unfolding redirect_request_Inr by blast
  note moved = redirected_url[where L = L and status = status and u = u and r = r]
    redirected_headers[where L = L and status = status and u = u and r = r]
    redirected_method[where L = L and status = status and u = u and r = r]
  have "\<forall>h \<in> set (rq_headers r'). \<not> is_sensitive h" if "\<not> same_origin L (rq_url original) u"
  proof (cases "same_origin L (rq_url r) u")
    case True
    then have "\<not> same_origin L (rq_url original) (rq_url r)"
      using that by (auto simp: same_origin_def)
    then show ?thesis using c moved(2) unfolding carried_def r' by blast
  qed (use moved(3) in \<open>simp add: r'\<close>)
  moreover have "ul_scheme L u \<noteq> ''http''"
    if "ul_scheme L (rq_url original) = ''https''" "\<not> pol_downgrade p"
  proof -
    have "ul_scheme L (rq_url r) \<noteq> ''http''" using c that by (simp add: carried_def)
    moreover have "scheme_allows (pol_schemes p) (ul_scheme L (rq_url r))"
      using g by (simp add: url_granted_def)
    ultimately show ?thesis using u that(2) by (auto simp: scheme_allows_def)
  qed
  ultimately show ?thesis using c moved unfolding carried_def r' by auto
qed

lemma hops_guarded:
  fixes env :: "('w, 'u, 'b) http_env"
  assumes "carried (env_url env) p original r"
  shows "hops (guarded env p original) p turns rc visited r = hops env p turns rc visited r"
  using assms
proof (induction turns arbitrary: rc visited r)
  case (Suc turns)
  have next_hop: "hops (guarded env p original) p turns k v r' = hops env p turns k v r'"
    if "exchange env p r s = (Inr x, s')" "redirect_request (env_url env) p st hs r = Inr r'"
    for k v r' x s s' st hs
    using Suc.IH[OF carried_redirect[OF Suc.prems exchange_granted[OF that(1)] that(2)]] .
  let ?g = "guarded env p original"
  let ?after = "\<lambda>e. \<lambda>(response, headers).
    if is_redirect (tp_status response) then
      if rc = max_redirects (pol_limits p)
      then io_fail (RedirectRejected (''more than '' @ show_nat (max_redirects (pol_limits p)) @ '' hops''))
      else io_then (io_result (redirect_request (env_url env) p (tp_status response) headers r))
        (hops e p turns (rc + 1) (insert (redirect_loop_key (env_url env) (rq_url r)) visited))
    else finish_response env p r response headers"
  have after: "io_then (exchange env p r) (?after ?g) = io_then (exchange env p r) (?after env)"
  proof (rule io_then_cong[OF refl])
    fix x s s'
    assume ex: "exchange env p r s = (Inr x, s')"
    obtain response headers where x: "x = (response, headers)" by force
    have "io_then (io_result (redirect_request (env_url env) p (tp_status response) headers r)) (hops ?g p turns k v) =
        io_then (io_result (redirect_request (env_url env) p (tp_status response) headers r)) (hops env p turns k v)"
      for k v
      using next_hop[OF ex]
      by (cases "redirect_request (env_url env) p (tp_status response) headers r") simp_all
    then show "?after ?g x s' = ?after env x s'" unfolding x prod.case by presburger
  qed
  show ?case
    unfolding hops.simps guarded_simps check_cancelled_guarded finish_response_guarded
  proof (rule io_then_cong[OF refl], rule fun_cong[OF io_then_cong[OF refl]])
    fix x :: unit and s s' :: "'w client_state"
    assume "io_result (validate_request_size (rq_method r) (ul_str (env_url env) (rq_url r))
      (rq_headers r) (rq_body r) (max_request_bytes (pol_limits p))) s = (Inr x, s')"
    then have "exchange ?g p r = exchange env p r"
      by (intro exchange_guarded Suc.prems) simp
    then show "(if redirect_loop_key (env_url env) (rq_url r) \<in> visited
       then io_fail (RedirectRejected ''redirect loop detected'') else io_then (exchange ?g p r) (?after ?g)) s' =
      (if redirect_loop_key (env_url env) (rq_url r) \<in> visited
       then io_fail (RedirectRejected ''redirect loop detected'') else io_then (exchange env p r) (?after env)) s'"
      using after by presburger
  qed
qed simp

text \<open>C1: Whatever the resolver and the transport answer, the client hands the transport only requests that the
  policy allows. A guard that refuses every transport request outside \<open>hop_allowed\<close> and every lookup
  outside \<open>lookup_allowed\<close> changes nothing of \<open>execute\<close>, neither its result nor its effects. An allowed
  request has a granted scheme and exact host that is not local, no credentials, a size within
  budget, and distinct addresses that are all public; its headers are the caller's, with no
  \<open>authorization\<close> or \<open>cookie\<close> once the origin differs from the caller's URL; an HTTPS request never
  becomes HTTP unless the policy says so; and the method and body are the caller's or those of a
  bodiless GET.\<close>

theorem transport_sees_only_allowed_hops:
  "execute (guarded env p r) p r = execute env p r"
  unfolding execute_def execute_hops_def check_cancelled_guarded
    hops_guarded[OF carried_refl] ..

section \<open>What a caller receives\<close>

lemma check_cancelled_Inr: "check_cancelled env s = (Inr x, s') \<Longrightarrow>
    cl_active s' = cl_active s \<and> cl_history s' = cl_history s"
  by (auto simp: check_cancelled_def io_world_def Let_def split: prod.splits)

lemma read_bounded_length:
  "read_bounded env limit out b s = (Inr bytes, s') \<Longrightarrow> length out \<le> limit \<Longrightarrow> length bytes \<le> limit"
proof (induction "limit - length out" arbitrary: out b s rule: less_induct)
  case less
  from less.prems(1) obtain s1 chunk b' w where step: "env_read env b (cl_world s1) = (Inr chunk, b', w)"
    and rest: "if chunk = [] then bytes = out
      else \<not> limit < length out + length chunk
        \<and> read_bounded env limit (out @ chunk) b' (s1\<lparr> cl_world := w \<rparr>) = (Inr bytes, s')"
    by (subst (asm) read_bounded.simps)
      (auto simp: Let_def io_then_Inr split: sum.splits prod.splits if_splits)
  show ?case
  proof (cases "chunk = []")
    case False
    then have "limit - length (out @ chunk) < limit - length out"
      using rest by (auto simp: neq_Nil_conv)
    then show ?thesis using less.hyps[of "out @ chunk" b' "s1\<lparr> cl_world := w \<rparr>"] rest False by simp
  qed (use rest less.prems in simp)
qed

lemma add_sizes_Some: "add_sizes n xs = Some m \<Longrightarrow> m = n + sum_list xs"
  by (induction xs arbitrary: n) (fastforce simp: checked_usize_def split: option.splits if_splits)+

definition header_bytes :: "transport_header list \<Rightarrow> nat" where
  "header_bytes hs = sum_list (map (\<lambda>h. length (th_name h) + length (th_value h) + 4) hs)"

lemma response_headers_fit_bound:
  "response_headers_fit limit n hs = Inr () \<Longrightarrow> n \<le> limit \<Longrightarrow> n + header_bytes hs \<le> limit"
proof (induction hs arbitrary: n)
  case (Cons h hs)
  then obtain m where "add_sizes n [length (th_name h), length (th_value h), 4] = Some m"
    "m \<le> limit" "response_headers_fit limit m hs = Inr ()"
    by (auto split: if_splits option.splits)
  moreover from this(1) have "m = n + (length (th_name h) + length (th_value h) + 4)"
    using add_sizes_Some by fastforce
  ultimately show ?case using Cons.IH[of m] by (simp add: header_bytes_def)
qed (simp add: header_bytes_def)

lemma exchange_headers:
  assumes "exchange env p r s = (Inr (response, headers), s')"
  shows "header_bytes headers \<le> max_response_header_bytes (pol_limits p)"
  using assms response_headers_fit_bound[of _ 0]
  by (auto simp: exchange_def io_then_Inr validate_response_headers_def and_then_Inr)

lemma hops_Inr:
  "hops env p turns rc visited r s = (Inr resp, s') \<Longrightarrow>
     \<exists>r' response headers s1 s2. exchange env p r' s1 = (Inr (response, headers), s2)
       \<and> \<not> is_redirect (tp_status response) \<and> finish_response env p r' response headers s2 = (Inr resp, s')"
proof (induction turns arbitrary: rc visited r s)
  case (Suc turns)
  then obtain s1 response headers s2 where ex: "exchange env p r s1 = (Inr (response, headers), s2)"
    and rest: "(if is_redirect (tp_status response) then
        if rc = max_redirects (pol_limits p)
        then io_fail (RedirectRejected (''more than '' @ show_nat (max_redirects (pol_limits p)) @ '' hops''))
        else io_then (io_result (redirect_request (env_url env) p (tp_status response) headers r)) (\<lambda>r'.
          hops env p turns (rc + 1) (insert (redirect_loop_key (env_url env) (rq_url r)) visited) r')
      else finish_response env p r response headers) s2 = (Inr resp, s')"
    by (auto simp: io_then_Inr split: if_splits prod.splits)
  show ?case
  proof (cases "is_redirect (tp_status response)")
    case True
    then obtain r' where "hops env p turns (rc + 1)
        (insert (redirect_loop_key (env_url env) (rq_url r)) visited) r' s2 = (Inr resp, s')"
      using rest by (auto simp: io_then_Inr split: if_splits)
    then show ?thesis by (rule Suc.IH)
  next
    case False
    then show ?thesis
      using ex rest
      by (intro exI[of _ r] exI[of _ response] exI[of _ headers] exI[of _ s1] exI[of _ s2]) simp
  qed
qed simp

lemma content_type_validate_Inr:
  "content_type_validate c v = Inr m \<Longrightarrow>
     (case m of None \<Rightarrow> ct_allow_missing c | Some t \<Rightarrow> \<exists>rule \<in> set (ct_rules c). rule_matches rule t)"
  by (auto simp: content_type_validate_def and_then_Inr split: option.splits if_splits)

lemma finish_response_Inr:
  assumes "finish_response env p r response headers s = (Inr resp, s')"
  shows "rp_status resp = tp_status response" "rp_final_url resp = rq_url r"
    "rp_headers resp = map (\<lambda>h. \<lparr> rh_name = th_name h, rh_value = th_value h \<rparr>) headers"
    "length (rp_body resp) \<le> max_response_bytes (pol_limits p)"
    "case rp_content_type resp of None \<Rightarrow> ct_allow_missing (pol_content_types p)
     | Some t \<Rightarrow> \<exists>rule \<in> set (ct_rules (pol_content_types p)). rule_matches rule t"
  using assms
  by (auto simp: finish_response_def io_then_Inr and_then_Inr split: if_splits
      dest!: read_bounded_length dest: content_type_validate_Inr)

lemma execute_Inr:
  assumes "execute env p r s = (Inr resp, s')"
  shows "\<exists>s1 s2. execute_hops env p r s1 = (Inr resp, s2)"
proof -
  from assms obtain s0 where s0: "(case active_acquire (max_concurrent (pol_limits p)) (cl_active s0) of
        Inl e \<Rightarrow> (Inl e, s0)
      | Inr n \<Rightarrow> (let (result, s') = execute_hops env p r (s0\<lparr> cl_active := n \<rparr>)
                 in (result, s'\<lparr> cl_active := active_release (cl_active s') \<rparr>))) = (Inr resp, s')"
    unfolding execute_def io_then_Inr by blast
  then obtain n where "active_acquire (max_concurrent (pol_limits p)) (cl_active s0) = Inr n"
    by (auto split: sum.splits)
  then show ?thesis
    using s0 by (cases "execute_hops env p r (s0\<lparr> cl_active := n \<rparr>)") auto
qed

text \<open>C33: A response that reaches the caller has passed the policy: the body and the headers are
  within their byte budgets, the status is not a redirect, the media type is matched by a rule of the
  policy (or was missing where that is allowed), and the URL it came from is one the policy grants.\<close>

theorem accepted_response_is_within_policy:
  assumes "execute env p r s = (Inr resp, s')"
  shows "length (rp_body resp) \<le> max_response_bytes (pol_limits p)
    \<and> sum_list (map (\<lambda>h. length (rh_name h) + length (rh_value h) + 4) (rp_headers resp))
        \<le> max_response_header_bytes (pol_limits p)
    \<and> \<not> is_redirect (rp_status resp)
    \<and> (case rp_content_type resp of None \<Rightarrow> ct_allow_missing (pol_content_types p)
       | Some t \<Rightarrow> \<exists>rule \<in> set (ct_rules (pol_content_types p)). rule_matches rule t)
    \<and> url_granted (env_url env) p (rp_final_url resp)"
proof -
  obtain s0 s3 where "execute_hops env p r s0 = (Inr resp, s3)" using execute_Inr[OF assms] by blast
  then obtain r' response headers s1 s2 where
    ex: "exchange env p r' s1 = (Inr (response, headers), s2)" and
    final: "\<not> is_redirect (tp_status response)" "finish_response env p r' response headers s2 = (Inr resp, s3)"
    using hops_Inr unfolding execute_hops_def by blast
  have "sum_list (map (\<lambda>h. length (rh_name h) + length (rh_value h) + 4) (rp_headers resp)) = header_bytes headers"
    unfolding finish_response_Inr(3)[OF final(2)] header_bytes_def map_map comp_def by simp
  then show ?thesis
    using exchange_headers[OF ex] exchange_granted[OF ex] finish_response_Inr[OF final(2)] final(1) by simp
qed

text \<open>A small setting for the examples: a URL is its scheme and its host, the world counts the calls of
  the transport, and every answer is an empty document without headers.\<close>

definition sample_urls :: "(string \<times> string) url_lib" where
  "sample_urls = \<lparr> ul_host_parse = (\<lambda>h. Inr (HostDomain h)), ul_parse = (\<lambda>u. Inr (''https'', u)),
     ul_join = (\<lambda>u l. Inr (fst u, l)), ul_str = (\<lambda>u. fst u @ ''://'' @ snd u), ul_scheme = fst,
     ul_username = (\<lambda>_. []), ul_password = (\<lambda>_. None),
     ul_host = (\<lambda>u. Some (HostDomain (snd u), snd u)), ul_port = (\<lambda>_. Some 443),
     ul_no_fragment = (\<lambda>u. u) \<rparr>"

definition sample_env :: "(nat, string \<times> string, unit) http_env" where
  "sample_env = \<lparr> env_url = sample_urls, env_resolve = (\<lambda>_ w. (Inr [IpV4 93 184 216 34], w)),
     env_transport = (\<lambda>_ w. (Inr \<lparr> tp_status = 200, tp_headers = [], tp_body = () \<rparr>, w + 1)),
     env_now = (\<lambda>w. (0, w)), env_cancelled = (\<lambda>w. (False, w)), env_read = (\<lambda>_ w. (Inr [], (), w)) \<rparr>"

definition sample_policy :: http_policy where
  "sample_policy = \<lparr> pol_hosts = {''a.org''}, pol_schemes = HttpsOnly,
     pol_content_types = \<lparr> ct_rules = [RuleType ''image''], ct_allow_missing = True \<rparr>,
     pol_limits = \<lparr> max_request_bytes = 60, max_response_header_bytes = 20, max_response_bytes = 30,
       max_redirects = 2, max_concurrent = 1, resolve_timeout = 1, connect_timeout = 1,
       request_timeout = 1, limits_rate = \<lparr> rate_requests = 3, rate_window = 9 \<rparr> \<rparr>,
     pol_downgrade = False \<rparr>"

definition sample_request :: "(string \<times> string) http_request" where
  "sample_request = \<lparr> rq_method = Get, rq_url = (''https'', ''a.org''), rq_headers = [], rq_body = [] \<rparr>"

definition sample_state :: "nat client_state" where
  "sample_state = \<lparr> cl_active = 0, cl_history = [], cl_world = 0 \<rparr>"

lemma sample_host: "canonical_host (\<lambda>h. Inr (HostDomain h)) ''a.org'' = Inr ''a.org''"
  by code_simp

lemma sample_local: "\<not> is_localhost_name ''a.org''"
  by code_simp

lemma sample_address: "is_public_ipv4 93 184 216 34"
  by code_simp

lemma sample_fields [simp]:
  "env_url sample_env = sample_urls"
  "env_resolve sample_env = (\<lambda>_ w. (Inr [IpV4 93 184 216 34], w))"
  "env_transport sample_env = (\<lambda>_ w. (Inr \<lparr> tp_status = 200, tp_headers = [], tp_body = () \<rparr>, w + 1))"
  "env_now sample_env = (\<lambda>w. (0, w))"
  "env_read sample_env = (\<lambda>_ w. (Inr [], (), w))"
  "ul_host_parse sample_urls = (\<lambda>h. Inr (HostDomain h))"
  "ul_str sample_urls = (\<lambda>u. fst u @ ''://'' @ snd u)" "ul_scheme sample_urls = fst"
  "ul_username sample_urls = (\<lambda>_. [])" "ul_password sample_urls = (\<lambda>_. None)"
  "ul_host sample_urls = (\<lambda>u. Some (HostDomain (snd u), snd u))"
  "ul_port sample_urls = (\<lambda>_. Some 443)"
  "pol_schemes sample_policy = HttpsOnly" "pol_hosts sample_policy = {''a.org''}"
  "max_redirects (pol_limits sample_policy) = 2" "max_concurrent (pol_limits sample_policy) = 1"
  "max_request_bytes (pol_limits sample_policy) = 60"
  "limits_rate (pol_limits sample_policy) = \<lparr> rate_requests = 3, rate_window = 9 \<rparr>"
  "ct_allow_missing (pol_content_types sample_policy)"
  by (simp_all add: sample_env_def sample_urls_def sample_policy_def)

lemma sample_not_cancelled [simp]: "check_cancelled sample_env = io_ret ()"
  by (simp add: check_cancelled_def io_world_def io_ret_def sample_env_def fun_eq_iff)

lemma io_world_pure [simp]: "io_world (\<lambda>w. (r, w)) = io_result r"
  by (simp add: io_world_def io_result_def)

lemma sample_endpoint: "resolve_endpoint sample_env sample_policy (''https'', ''a.org'') =
   io_ret \<lparr> ep_host = ''a.org'', ep_port = 443, ep_addresses = [(IpV4 93 184 216 34, 443)] \<rparr>"
  by (simp add: resolve_endpoint_def scheme_allows_def sample_host sample_local sample_address
      allowlist_allows_def)

lemma sample_run: "execute sample_env sample_policy sample_request sample_state =
   (Inr \<lparr> rp_status = 200, rp_final_url = (''https'', ''a.org''), rp_content_type = None,
      rp_headers = [], rp_body = [] \<rparr>, \<lparr> cl_active = 0, cl_history = [0], cl_world = 1 \<rparr>)"
proof -
  have size_ok: "validate_request_size Get ''https://a.org'' [] [] 60 = Inr ()"
    by code_simp
  have no_redirect: "\<not> is_redirect 200" by code_simp
  have ex: "exchange sample_env sample_policy sample_request s =
      (Inr (\<lparr> tp_status = 200, tp_headers = [], tp_body = () \<rparr>, []),
       s\<lparr> cl_history := [0], cl_world := cl_world s + 1 \<rparr>)" if "cl_history s = []" for s
    using that
    by (simp add: exchange_def sample_endpoint sample_request_def validate_response_headers_def)
      (simp add: io_then_def acquire_rate_slot_def io_world_def io_ret_def io_result_def
        rate_slot_def rate_expire_def)
  have fin: "finish_response sample_env sample_policy sample_request
      \<lparr> tp_status = 200, tp_headers = [], tp_body = () \<rparr> [] s =
      (Inr \<lparr> rp_status = 200, rp_final_url = (''https'', ''a.org''), rp_content_type = None,
         rp_headers = [], rp_body = [] \<rparr>, s)" for s
    by (simp add: finish_response_def validate_content_encoding_def unique_utf8_header_def
        content_length_def content_type_validate_def sample_request_def)
      (simp add: read_bounded.simps io_ret_def io_then_def)
  have "execute_hops sample_env sample_policy sample_request (sample_state\<lparr> cl_active := 1 \<rparr>) =
     (Inr \<lparr> rp_status = 200, rp_final_url = (''https'', ''a.org''), rp_content_type = None,
      rp_headers = [], rp_body = [] \<rparr>, \<lparr> cl_active = 1, cl_history = [0], cl_world = 1 \<rparr>)"
    using ex[of "sample_state\<lparr> cl_active := 1 \<rparr>"] size_ok no_redirect
    by (simp add: execute_hops_def numeral_2_eq_2 sample_request_def[THEN arg_cong, of rq_url]
        sample_request_def[THEN arg_cong, of rq_method] sample_request_def[THEN arg_cong, of rq_headers]
        sample_request_def[THEN arg_cong, of rq_body])
      (simp add: io_then_def fin sample_state_def)
  then show ?thesis
    by (simp add: execute_def active_acquire_def active_release_def sample_state_def)
qed

theorem accepted_response_is_within_policy_witness:
  "rp_final_url (the (case execute sample_env sample_policy sample_request sample_state of
     (Inr resp, _) \<Rightarrow> Some resp | _ \<Rightarrow> None)) = (''https'', ''a.org'')
   \<and> url_granted sample_urls sample_policy (''https'', ''a.org'')"
  using accepted_response_is_within_policy[OF sample_run] sample_run by simp

section \<open>What a call costs\<close>

text \<open>A quantity of the state that an effect never lowers and raises by at most \<open>k\<close>.\<close>

definition tracks :: "('w client_state \<Rightarrow> nat) \<Rightarrow> nat \<Rightarrow> ('w, 'a) io \<Rightarrow> bool" where
  "tracks phi k m = (\<forall>s. phi s \<le> phi (snd (m s)) \<and> phi (snd (m s)) \<le> phi s + k)"

lemma tracksI: "(\<And>s. phi s \<le> phi (snd (m s)) \<and> phi (snd (m s)) \<le> phi s + k) \<Longrightarrow> tracks phi k m"
  by (simp add: tracks_def)

lemma tracksD: "tracks phi k m \<Longrightarrow> m s = (r, s') \<Longrightarrow> phi s \<le> phi s' \<and> phi s' \<le> phi s + k"
  unfolding tracks_def by (metis snd_conv)

lemma tracks_pure [intro]: "tracks phi k (io_ret x)" "tracks phi k (io_fail e)" "tracks phi k (io_result r)"
  by (simp_all add: tracks_def io_ret_def io_fail_def io_result_def)

lemma tracks_mono: "tracks phi k m \<Longrightarrow> k \<le> l \<Longrightarrow> tracks phi l m"
  unfolding tracks_def by (meson add_left_mono order_trans)

lemma tracks_then:
  assumes "tracks phi k m" "\<And>x. tracks phi l (f x)"
  shows "tracks phi (k + l) (io_then m f)"
proof (rule tracksI)
  fix s
  obtain r s' where m: "m s = (r, s')" by force
  note km = tracksD[OF assms(1) m]
  show "phi s \<le> phi (snd (io_then m f s)) \<and> phi (snd (io_then m f s)) \<le> phi s + (k + l)"
  proof (cases r)
    case (Inl e)
    then show ?thesis using km m by (simp add: io_then_def)
  next
    case (Inr x)
    then have eq: "io_then m f s = f x s'" using m by (simp add: io_then_def)
    obtain r2 s2 where "f x s' = (r2, s2)" by force
    then show ?thesis using tracksD[OF assms(2)[of x], of s' r2 s2] km by (simp add: eq)
  qed
qed

lemma tracks_then_0: "tracks phi 0 m \<Longrightarrow> (\<And>x. tracks phi l (f x)) \<Longrightarrow> tracks phi l (io_then m f)"
  using tracks_then[of phi 0 m l f] by simp

text \<open>What the parts of the state that a client counts need from its boundaries.\<close>

locale boundary_potential =
  fixes env :: "('w, 'u, 'b) http_env" and phi :: "'w client_state \<Rightarrow> nat" and cost :: nat
  assumes resolve: "tracks phi 0 (io_world (env_resolve env q))"
    and transport: "tracks phi cost (io_world (env_transport env t))"
    and cancelled: "tracks phi 0 (check_cancelled env)"
    and slot: "tracks phi 0 (acquire_rate_slot env p)"
    and stream: "phi (s\<lparr> cl_world := snd (snd (env_read env b (cl_world s))) \<rparr>) = phi s"
begin

lemma endpoint: "tracks phi 0 (resolve_endpoint env p u)"
  unfolding resolve_endpoint_def Let_def
  by (auto intro!: tracks_then_0 resolve cancelled tracks_pure split: option.split url_host.split)

lemma exchange: "tracks phi cost (exchange env p r)"
proof -
  have "tracks phi (0 + (0 + (cost + 0))) (exchange env p r)"
    unfolding exchange_def
    by (intro tracks_then slot endpoint transport tracks_then_0[OF cancelled] tracks_then_0 tracks_pure)
  then show ?thesis by simp
qed

lemma read: "tracks phi 0 (read_bounded env limit out b)"
proof (rule tracksI)
  fix s
  have "phi (snd (read_bounded env limit out b s)) = phi s"
  proof (induction "limit - length out" arbitrary: out b s rule: less_induct)
    case less
    obtain r s1 where c: "check_cancelled env s = (r, s1)" by force
    obtain got b' w where g: "env_read env b (cl_world s1) = (got, b', w)" by (metis prod.collapse)
    have 1: "phi s1 = phi s" using tracksD[OF cancelled c] by simp
    have 2: "phi (s1\<lparr> cl_world := w \<rparr>) = phi s1" using stream[where s = s1 and b = b] g by simp
    have 3: "phi (snd (io_then (check_cancelled env) (\<lambda>_. io_ret out) s2)) = phi s2" for s2
      using tracks_then_0[OF cancelled, of 0 "\<lambda>_. io_ret out"] unfolding tracks_def
      by (metis add_0_right le_antisym tracks_def tracks_pure(1))
    have 4: "phi (snd (read_bounded env limit (out @ chunk) b' (s1\<lparr> cl_world := w \<rparr>))) = phi (s1\<lparr> cl_world := w \<rparr>)"
      if "chunk \<noteq> []" "\<not> limit < length out + length chunk" for chunk
      using that by (intro less.hyps) (auto simp: neq_Nil_conv)
    show ?case
      by (subst read_bounded.simps) (auto simp: Let_def c g 1 2 3 4 split: sum.split)
  qed
  then show "phi s \<le> phi (snd (read_bounded env limit out b s))
      \<and> phi (snd (read_bounded env limit out b s)) \<le> phi s + 0" by simp
qed

lemma finish: "tracks phi 0 (finish_response env p r response headers)"
  unfolding finish_response_def by (auto intro!: tracks_then_0 read tracks_pure)

lemma turns: "tracks phi (turns * cost) (hops env p turns rc visited r)"
proof (induction turns arbitrary: rc visited r)
  case (Suc turns)
  have after: "tracks phi (cost + turns * cost) (io_then (exchange env p r) f)"
    if "\<And>x. tracks phi (turns * cost) (f x)" for f :: "_ \<Rightarrow> ('w, 'u http_response) io"
    using tracks_then[OF exchange that] .
  show ?case
    using Suc.IH
    by (auto intro!: tracks_then_0 cancelled after tracks_pure intro: tracks_mono[OF finish] split: prod.split)
qed auto

lemma hops: "tracks phi ((max_redirects (pol_limits p) + 1) * cost) (execute_hops env p r)"
  unfolding execute_hops_def by (rule turns)

end

text \<open>The concurrency counter moves only in \<open>execute\<close> itself.\<close>

interpretation active: boundary_potential env cl_active 0 for env
  by unfold_locales
    (auto simp: tracks_def io_world_def check_cancelled_def acquire_rate_slot_def Let_def split: prod.split)

text \<open>C34: The concurrency slot of a call is released on every way out, errors and cancellation included:
  the counter is after the call what it was before it. A call gets a response only if a slot was free.\<close>

theorem execute_releases_its_slot:
  "cl_active (snd (execute env p r s)) = cl_active s
   \<and> (fst (execute env p r s) = Inr resp \<longrightarrow> cl_active s < max_concurrent (pol_limits p))"
proof -
  obtain c s1 where c: "check_cancelled env s = (c, s1)" by force
  have 1: "cl_active s1 = cl_active s" using tracksD[OF active.cancelled c] by simp
  obtain res s2 where h: "execute_hops env p r (s1\<lparr> cl_active := Suc (cl_active s) \<rparr>) = (res, s2)" by force
  have "tracks cl_active 0 (execute_hops env p r)" using active.hops[of p env r] by simp
  from tracksD[OF this h] have 2: "cl_active s2 = cl_active s + 1" by simp
  show ?thesis
    by (cases c) (auto simp: execute_def io_then_def c 1 h 2 active_acquire_def active_release_def)
qed

theorem execute_releases_its_slot_witness:
  "cl_active (snd (execute sample_env sample_policy sample_request sample_state)) = 0
   \<and> cl_active sample_state < max_concurrent (pol_limits sample_policy)"
  using execute_releases_its_slot[of sample_env sample_policy sample_request sample_state] sample_run
  by (simp add: sample_state_def)

text \<open>A call reaches the transport at most once more than the policy has redirects: for every quantity
  of the world that one transport call raises by at most one and that the resolver, the clock, the
  cancellation flag and the body streams leave alone, the whole call raises it by at most
  \<open>max_redirects + 1\<close>.\<close>

theorem transport_calls_are_bounded:
  assumes "\<And>t w. c w \<le> c (snd (env_transport env t w)) \<and> c (snd (env_transport env t w)) \<le> c w + 1"
    and "\<And>q w. c (snd (env_resolve env q w)) = c w" and "\<And>w. c (snd (env_now env w)) = c w"
    and "\<And>w. c (snd (env_cancelled env w)) = c w" and "\<And>b w. c (snd (snd (env_read env b w))) = c w"
  shows "c (cl_world (snd (execute env p r s))) \<le> c (cl_world s) + (max_redirects (pol_limits p) + 1)"
proof -
  let ?phi = "\<lambda>s. c (cl_world s)"
  have pot: "boundary_potential env ?phi 1"
  proof
    show "tracks ?phi 0 (io_world (env_resolve env q))" for q
      by (rule tracksI) (simp add: io_world_def Let_def assms(2) case_prod_beta)
    show "tracks ?phi 1 (io_world (env_transport env t))" for t
      by (rule tracksI) (use assms(1)[of _ t] in \<open>simp add: io_world_def case_prod_beta\<close>)
    show "tracks ?phi 0 (check_cancelled env)"
      by (rule tracksI) (simp add: check_cancelled_def io_world_def Let_def assms(4) case_prod_beta)
    show "tracks ?phi 0 (acquire_rate_slot env q)" for q
      by (rule tracksI) (simp add: acquire_rate_slot_def Let_def assms(3) case_prod_beta)
    show "?phi (s\<lparr> cl_world := snd (snd (env_read env b (cl_world s))) \<rparr>) = ?phi s" for s b
      by (simp add: assms(5))
  qed
  obtain r1 s1 where c: "check_cancelled env s = (r1, s1)" by force
  have 1: "c (cl_world s1) = c (cl_world s)"
    using tracksD[OF boundary_potential.cancelled[OF pot] c] by simp
  obtain r2 s2 where h: "execute_hops env p r (s1\<lparr> cl_active := Suc (cl_active s1) \<rparr>) = (r2, s2)" by force
  have "c (cl_world s2) \<le> c (cl_world s1) + (max_redirects (pol_limits p) + 1)"
    using tracksD[OF boundary_potential.hops[OF pot] h] by simp
  then show ?thesis
    by (cases r1) (auto simp: execute_def io_then_def c 1 h active_acquire_def)
qed

theorem transport_calls_are_bounded_witness:
  "cl_world (snd (execute sample_env sample_policy sample_request sample_state)) \<le> 0 + (2 + 1)
   \<and> cl_world (snd (execute sample_env sample_policy sample_request sample_state)) = 1"
  using transport_calls_are_bounded[of "\<lambda>w. w" sample_env sample_policy sample_request sample_state]
    sample_run
  by (simp add: sample_state_def sample_env_def)

section \<open>The rate window\<close>

text \<open>The instants admitted by a run of \<open>acquire_rate_slot\<close> at the given clock readings.\<close>

fun rate_run :: "rate_limit \<Rightarrow> duration list \<Rightarrow> duration list \<Rightarrow> duration list" where
  "rate_run rate history [] = []"
| "rate_run rate history (now # ts) =
     (case rate_slot rate now history of
        (Inl _, history) \<Rightarrow> rate_run rate history ts
      | (Inr _, history) \<Rightarrow> now # rate_run rate history ts)"

definition in_window :: "duration \<Rightarrow> duration \<Rightarrow> duration list \<Rightarrow> duration list" where
  "in_window window t ts = filter (\<lambda>x. t \<le> x \<and> x < t + window) ts"

lemma dropWhile_sorted:
  fixes xs :: "nat list"
  assumes "sorted xs" "\<forall>x \<in> set xs. x \<le> now"
  shows "rate_expire window now xs = filter (\<lambda>x. now < x + window) xs"
  using assms
proof (induction xs)
  case (Cons x xs)
  show ?case
  proof (cases "window \<le> now - x")
    case True
    then show ?thesis using Cons by (auto simp: rate_expire_def)
  next
    case False
    then have "\<forall>y \<in> set (x # xs). now < y + window" using Cons.prems by force
    then show ?thesis using False by (simp add: rate_expire_def)
  qed
qed (simp add: rate_expire_def)

text \<open>The invariant of a run: the history holds the admitted instants still in the window, and no
  window of any position holds more than the allowance.\<close>

definition rate_inv :: "rate_limit \<Rightarrow> duration \<Rightarrow> duration list \<Rightarrow> duration list \<Rightarrow> bool" where
  "rate_inv rate now admitted history =
     (sorted admitted \<and> (\<forall>x \<in> set admitted. x \<le> now)
      \<and> (\<exists>old. admitted = old @ history \<and> (\<forall>x \<in> set old. x + rate_window rate \<le> now))
      \<and> (\<forall>t. length (in_window (rate_window rate) t admitted) \<le> rate_requests rate))"

lemma rate_inv_step:
  assumes inv: "rate_inv rate before admitted history" and now: "before \<le> now"
    and slot: "rate_slot rate now history = (r, history')"
  shows "rate_inv rate now (admitted @ (case r of Inl _ \<Rightarrow> [] | Inr _ \<Rightarrow> [now])) history'"
proof -
  let ?w = "rate_window rate" and ?h = "filter (\<lambda>x. now < x + rate_window rate) history"
  obtain old where adm: "admitted = old @ history" and old: "\<forall>x \<in> set old. x + ?w \<le> before"
    and srt: "sorted admitted" and le: "\<forall>x \<in> set admitted. x \<le> before"
    and few: "\<And>t. length (in_window ?w t admitted) \<le> rate_requests rate"
    using inv by (auto simp: rate_inv_def)
  have keep: "rate_expire ?w now history = ?h"
    using adm srt le now by (intro dropWhile_sorted) (auto simp: sorted_append intro: order_trans)
  obtain gone where hist: "history = gone @ ?h" "\<forall>x \<in> set gone. x + ?w \<le> now"
    using takeWhile_dropWhile_id[of "\<lambda>t. ?w \<le> now - t" history] keep[unfolded rate_expire_def]
  proof -
    have "\<forall>x \<in> set (takeWhile (\<lambda>t. ?w \<le> now - t) history). x + ?w \<le> now"
      using adm le now by (auto dest!: set_takeWhileD) force
    then show thesis
      using that[of "takeWhile (\<lambda>t. ?w \<le> now - t) history"]
        takeWhile_dropWhile_id[of "\<lambda>t. ?w \<le> now - t" history] keep[unfolded rate_expire_def] by simp
  qed
  have old': "\<exists>old. admitted @ xs = old @ (?h @ xs) \<and> (\<forall>x \<in> set old. x + ?w \<le> now)" for xs
    using adm hist old now by (intro exI[of _ "old @ gone"]) force
  show ?thesis
  proof (cases "rate_requests rate \<le> length ?h")
    case True
    then have "r \<noteq> Inr ()" "history' = ?h" using slot keep by (auto simp: rate_slot_def Let_def)
    then show ?thesis
      using old'[of "[]"] srt le now few by (cases r) (auto simp: rate_inv_def)
  next
    case False
    then have r: "r = Inr ()" "history' = ?h @ [now]" using slot keep by (auto simp: rate_slot_def Let_def)
    have "length (in_window ?w t (admitted @ [now])) \<le> rate_requests rate" for t
    proof (cases "now < t + ?w \<and> t \<le> now")
      case True
      have "in_window ?w t admitted = in_window ?w t ?h"
      proof -
        obtain o2 where o2: "admitted = o2 @ ?h" "\<forall>x \<in> set o2. x + ?w \<le> now" using old'[of "[]"] by auto
        have "in_window ?w t o2 = []" using o2(2) True by (auto simp: in_window_def filter_empty_conv)
        then show ?thesis using o2(1) by (metis append_Nil filter_append in_window_def)
      qed
      then have "length (in_window ?w t admitted) \<le> length ?h"
        by (simp only: in_window_def length_filter_le)
      then show ?thesis using False True by (simp add: in_window_def)
    next
      case False
      then have "in_window ?w t (admitted @ [now]) = in_window ?w t admitted"
        by (auto simp: in_window_def)
      then show ?thesis using few by simp
    qed
    then show ?thesis
      using old'[of "[now]"] srt le now r by (auto simp: rate_inv_def sorted_append)
  qed
qed

lemma rate_run_inv:
  "rate_inv rate before admitted history \<Longrightarrow> sorted (before # ts) \<Longrightarrow>
     length (in_window (rate_window rate) t (admitted @ rate_run rate history ts)) \<le> rate_requests rate"
proof (induction ts arbitrary: before admitted history)
  case (Cons now ts)
  obtain r history' where slot: "rate_slot rate now history = (r, history')" by force
  have "rate_inv rate now (admitted @ (case r of Inl _ \<Rightarrow> [] | Inr _ \<Rightarrow> [now])) history'"
    by (rule rate_inv_step[OF Cons.prems(1) _ slot]) (use Cons.prems(2) in simp)
  from Cons.IH[OF this] show ?case using Cons.prems(2) slot by (cases r) simp_all
qed (simp add: rate_inv_def)

text \<open>C32: The rate limiter is a true sliding window: over any sequence of attempts at non-decreasing clock
  readings, every interval as long as the window, wherever it starts, contains at most the allowed
  number of admitted attempts.\<close>

theorem every_window_respects_the_rate:
  assumes "sorted ts"
  shows "length (in_window (rate_window rate) t (rate_run rate [] ts)) \<le> rate_requests rate"
proof -
  have "rate_inv rate 0 [] []" by (simp add: rate_inv_def in_window_def)
  from rate_run_inv[OF this, of ts t] show ?thesis using assms by simp
qed

theorem every_window_respects_the_rate_witness:
  "rate_run \<lparr> rate_requests = 2, rate_window = 10 \<rparr> [] [0, 1, 5, 10, 10, 11] = [0, 1, 10, 11]
   \<and> length (in_window 10 1 [0, 1, 10, 11 :: nat]) \<le> 2"
proof -
  have "rate_run \<lparr> rate_requests = 2, rate_window = 10 \<rparr> [] [0, 1, 5, 10, 10, 11] = [0, 1, 10, 11]"
    by code_simp
  then show ?thesis
    using every_window_respects_the_rate[of "[0, 1, 5, 10, 10, 11]" "\<lparr> rate_requests = 2, rate_window = 10 \<rparr>" 1]
    by simp
qed

section \<open>Policies and requests\<close>

text \<open>A request header is accepted exactly if its trimmed, lowercased name is a token that is not
  reserved to the transport (no framing, hop-by-hop or proxy header) and its value has only tabs and
  printable ASCII, so that no header can break the framing of the message; the stored name is
  lowercase, the value unchanged. Of a request that was built only POST has a body.\<close>

theorem requests_cannot_break_framing:
  "(request_header_new n v = Inr h) =
     (is_header_name (to_ascii_lowercase (trim n)) \<and> \<not> is_transport_header (to_ascii_lowercase (trim n))
      \<and> (\<forall>c \<in> set v. byte c = 9 \<or> 32 \<le> byte c \<and> byte c < 127)
      \<and> h = \<lparr> hd_name = to_ascii_lowercase (trim n), hd_value = v \<rparr>)
   \<and> (built_request L r \<longrightarrow> (\<forall>g \<in> set (rq_headers r). header_ok g) \<and> (rq_body r \<noteq> [] \<longrightarrow> rq_method r = Post))"
  using built_request_ok[of L r] unfolding request_header_new_Inr
  by (auto simp: header_ok_def request_ok_def)

theorem requests_cannot_break_framing_witness:
  "header_ok \<lparr> hd_name = ''accept'', hd_value = ''*/*'' \<rparr>"
proof -
  define r where "r = \<lparr> rq_method = Get, rq_url = (''https'', ''a.org''), rq_headers = [], rq_body = [] \<rparr>"
  have new: "http_request_new sample_urls Get ''a.org'' = Inr r"
    by (simp add: http_request_new_def sample_urls_def r_def)
  have hdr: "request_header_new ''Accept'' ''*/*'' = Inr \<lparr> hd_name = ''accept'', hd_value = ''*/*'' \<rparr>"
    by code_simp
  have "built_request sample_urls (r\<lparr> rq_headers := [\<lparr> hd_name = ''accept'', hd_value = ''*/*'' \<rparr>] \<rparr>)"
    by (rule built_request.intros(2)[OF built_request.intros(1)[OF new], of "''Accept''" "''*/*''"])
      (simp add: with_header_def hdr r_def)
  then show ?thesis
    using requests_cannot_break_framing[of "''Accept''" "''*/*''" _ sample_urls
        "r\<lparr> rq_headers := [\<lparr> hd_name = ''accept'', hd_value = ''*/*'' \<rparr>] \<rparr>"] by simp
qed

text \<open>C38: An exact-host permission set that is built grants exactly the canonical spellings of the hosts it was
  built from, is not empty, and contains neither a local name nor an address that is not public; and
  it allows a host exactly if that host has the same canonical spelling as one of the grants.\<close>

theorem allowlist_grants_exactly_public_hosts:
  assumes "allowlist_new hp hs = Inr a"
  shows "a \<noteq> {} \<and> (\<forall>h \<in> a. \<not> is_localhost_name h \<and> (\<forall>x. parse_ip h = Some x \<longrightarrow> is_public_ip x))
    \<and> (allowlist_allows hp a h \<longleftrightarrow>
        (\<exists>c. canonical_host hp h = Inr c \<and> (\<exists>g \<in> set hs. canonical_host hp g = Inr c)))"
proof -
  have a: "hs \<noteq> []" "a = {c. \<exists>h \<in> set hs. canonical_host hp h = Inr c}"
    "\<forall>h \<in> set hs. \<exists>c. canonical_host hp h = Inr c \<and> host_ok c"
    using assms unfolding allowlist_new_Inr by blast+
  have "a \<noteq> {}" using a by (cases hs) auto
  moreover have "\<forall>h \<in> a. host_ok h" using allowlist_host_ok[OF assms] by blast
  moreover have "allowlist_allows hp a h \<longleftrightarrow> (\<exists>c. canonical_host hp h = Inr c \<and> c \<in> a)"
    by (auto simp: allowlist_allows_def split: sum.split)
  ultimately show ?thesis unfolding host_ok_def using a(2) by blast
qed

theorem allowlist_grants_exactly_public_hosts_witness:
  "allowlist_new (\<lambda>h. Inr (HostDomain h)) [''a.org''] = Inr {''a.org''}
   \<and> allowlist_allows (\<lambda>h. Inr (HostDomain h)) {''a.org''} '' A.org. ''"
proof -
  have new: "allowlist_new (\<lambda>h. Inr (HostDomain h)) [''a.org''] = Inr {''a.org''}"
    by code_simp
  have "canonical_host (\<lambda>h. Inr (HostDomain h)) '' A.org. '' = Inr ''a.org''"
    by code_simp
  then show ?thesis
    using allowlist_grants_exactly_public_hosts[OF new, of "'' A.org. ''"] new sample_host by simp
qed

lemma built_policy_ok:
  "built_policy hp p \<Longrightarrow> limits_ok (pol_limits p) \<and> (\<forall>h \<in> pol_hosts p. host_ok h)
     \<and> ct_rules (pol_content_types p) \<noteq> []"
proof (induction rule: built_policy.induct)
  case (1 hs hosts rules missing types)
  then show ?case
    using allowlist_host_ok limits_default_ok
    by (auto simp: http_policy_new_def content_type_policy_new_def split: if_splits)
next
  case (2 hs hosts)
  then show ?case
    using allowlist_host_ok limits_default_ok
    by (auto simp: http_policy_new_def content_type_policy_json_def)
next
  case (4 p limits q)
  then show ?case by (auto simp: with_limits_def and_then_Inr limits_validate_iff)
qed (auto simp: with_schemes_def allowing_https_downgrade_def)

text \<open>Whatever builders a program calls and in whatever order, a policy keeps its limits within the hard
  bounds (bytes, redirects, concurrency, every deadline and the rate window, none of them zero where
  zero would be meaningless), grants no local name and no non-public address, and has at least one
  media-type rule.\<close>

theorem built_policies_are_bounded:
  assumes "built_policy hp p"
  shows "limits_ok (pol_limits p) \<and> (\<forall>h \<in> pol_hosts p. host_ok h) \<and> ct_rules (pol_content_types p) \<noteq> []"
  using built_policy_ok[OF assms] .

theorem built_policies_are_bounded_witness:
  "limits_ok http_limits_default \<and> host_ok ''a.org''"
proof -
  have "allowlist_new (\<lambda>h. Inr (HostDomain h)) [''a.org''] = Inr {''a.org''}"
    by code_simp
  from built_policies_are_bounded[OF built_policy.intros(2)[OF this]]
  show ?thesis by (simp add: http_policy_new_def)
qed

end
