(* ===== verification/DocumentCache.thy ===== *)
theory DocumentCache
  imports HttpPolicy
begin

text \<open>
  \<open>cache.rs\<close>: the ephemeral per-document cache with its memory and file tiers. The state behind the
  mutex is one record; each operation locks it once, so a concurrent use of the cache is a sequence
  of the atomic steps below. \<open>insert_file\<close> reads its input before it takes the lock: its first part
  is \<open>stage_file\<close>, its second the same commit as that of \<open>insert_memory\<close>. The operating system
  (temporary files, the reader, the cancellation flag) acts on a world of type \<open>'w\<close>.
\<close>

section \<open>Limits\<close>

definition HARD_MAX_MEMORY_BYTES :: nat where "HARD_MAX_MEMORY_BYTES = 64 * 1024 * 1024"
definition HARD_MAX_FILE_BYTES :: nat where "HARD_MAX_FILE_BYTES = 512 * 1024 * 1024"
definition HARD_MAX_ENTRY_BYTES :: nat where "HARD_MAX_ENTRY_BYTES = 64 * 1024 * 1024"
definition HARD_MAX_ENTRIES :: nat where "HARD_MAX_ENTRIES = 1024"
definition HARD_MAX_KEY_BYTES :: nat where "HARD_MAX_KEY_BYTES = 512"

lemmas cache_hard_limits = HARD_MAX_MEMORY_BYTES_def HARD_MAX_FILE_BYTES_def HARD_MAX_ENTRY_BYTES_def
  HARD_MAX_ENTRIES_def HARD_MAX_KEY_BYTES_def

record document_cache_limits =
  lim_memory_bytes :: nat
  lim_file_bytes :: nat
  lim_entry_bytes :: nat
  lim_entries :: nat

definition document_cache_limits_default :: document_cache_limits where
  "document_cache_limits_default =
     \<lparr> lim_memory_bytes = 8 * 1024 * 1024, lim_file_bytes = 64 * 1024 * 1024,
       lim_entry_bytes = 16 * 1024 * 1024, lim_entries = 256 \<rparr>"

definition cache_limits_validate :: "document_cache_limits \<Rightarrow> http_error + document_cache_limits" where
  "cache_limits_validate l =
     (if HARD_MAX_MEMORY_BYTES < lim_memory_bytes l
      then Inl (CacheQuotaExceeded ''memory'' HARD_MAX_MEMORY_BYTES)
      else if HARD_MAX_FILE_BYTES < lim_file_bytes l
      then Inl (CacheQuotaExceeded ''file'' HARD_MAX_FILE_BYTES)
      else if lim_entry_bytes l = 0 \<or> HARD_MAX_ENTRY_BYTES < lim_entry_bytes l
      then Inl (CacheQuotaExceeded ''single-entry'' HARD_MAX_ENTRY_BYTES)
      else if lim_entries l = 0 \<or> HARD_MAX_ENTRIES < lim_entries l
      then Inl (CacheQuotaExceeded ''entry-count'' HARD_MAX_ENTRIES)
      else if lim_memory_bytes l = 0 \<and> lim_file_bytes l = 0
      then Inl (CacheFailed ''at least one cache tier must be enabled'')
      else Inr l)"

section \<open>State\<close>

text \<open>An owned temporary file is its path and its bytes.\<close>

datatype stored_entry =
    StoredMemory string
  | StoredFile string string nat

fun stored_len :: "stored_entry \<Rightarrow> nat" where
  "stored_len (StoredMemory bytes) = length bytes"
| "stored_len (StoredFile path bytes len) = len"

fun is_memory :: "stored_entry \<Rightarrow> bool" where
  "is_memory (StoredMemory bytes) = True"
| "is_memory (StoredFile path bytes len) = False"

datatype document_cache_entry =
    EntryMemory string
  | EntryFile string nat

fun entry_len :: "document_cache_entry \<Rightarrow> nat" where
  "entry_len (EntryMemory bytes) = length bytes"
| "entry_len (EntryFile path len) = len"

fun stored_snapshot :: "stored_entry \<Rightarrow> document_cache_entry" where
  "stored_snapshot (StoredMemory bytes) = EntryMemory bytes"
| "stored_snapshot (StoredFile path bytes len) = EntryFile path len"

record document_cache =
  dc_limits :: document_cache_limits
  dc_entries :: "(string, stored_entry) hash_map"
  dc_memory_bytes :: nat
  dc_file_bytes :: nat

record document_cache_usage =
  use_entries :: nat
  use_memory_bytes :: nat
  use_file_bytes :: nat

text \<open>\<open>new\<close>; \<open>tempdir\<close> is what the creation of the private directory returns, an error text or a path.\<close>

definition document_cache_new :: "string + string \<Rightarrow> document_cache_limits \<Rightarrow> http_error + document_cache" where
  "document_cache_new tempdir limits =
     and_then (cache_limits_validate limits) (\<lambda>limits.
       case tempdir of
         Inl e \<Rightarrow> Inl (CacheFailed e)
       | Inr _ \<Rightarrow> Inr \<lparr> dc_limits = limits, dc_entries = [], dc_memory_bytes = 0, dc_file_bytes = 0 \<rparr>)"

section \<open>Operations\<close>

definition cache_get :: "document_cache \<Rightarrow> string \<Rightarrow> document_cache_entry option" where
  "cache_get c key = map_option stored_snapshot (map_of (dc_entries c) key)"

definition validated_key :: "string \<Rightarrow> http_error + string" where
  "validated_key key =
     (if key = [] \<or> HARD_MAX_KEY_BYTES < length key \<or> has_control key
      then Inl (CacheFailed (''cache key must contain 1..='' @ show_nat HARD_MAX_KEY_BYTES
             @ '' non-control bytes''))
      else Inr key)"

definition validate_entry_len :: "document_cache_limits \<Rightarrow> nat \<Rightarrow> http_error + unit" where
  "validate_entry_len limits len =
     (if lim_entry_bytes limits < len
      then Inl (CacheQuotaExceeded ''single-entry'' (lim_entry_bytes limits)) else Inr ())"

definition validate_replacement_quota :: "document_cache \<Rightarrow> string \<Rightarrow> stored_entry \<Rightarrow> http_error + unit" where
  "validate_replacement_quota c key replacement =
     (let limits = dc_limits c;
          existing = map_of (dc_entries c) key;
          resulting_entries = length (dc_entries c) + (if existing = None then 1 else 0)
      in if lim_entries limits < resulting_entries
         then Inl (CacheQuotaExceeded ''entry-count'' (lim_entries limits))
         else
         let old_memory = (case existing of Some e \<Rightarrow> if is_memory e then stored_len e else 0 | None \<Rightarrow> 0);
             old_file = (case existing of Some e \<Rightarrow> if \<not> is_memory e then stored_len e else 0 | None \<Rightarrow> 0);
             (new_memory, new_file) = (if is_memory replacement then (stored_len replacement, 0)
                                       else (0, stored_len replacement));
             memory = saturating_usize (dc_memory_bytes c - old_memory) new_memory
         in if lim_memory_bytes limits < memory
            then Inl (CacheQuotaExceeded ''memory'' (lim_memory_bytes limits))
            else
            let file = saturating_usize (dc_file_bytes c - old_file) new_file
            in if lim_file_bytes limits < file
               then Inl (CacheQuotaExceeded ''file'' (lim_file_bytes limits))
               else Inr ())"

definition subtract_usage :: "stored_entry \<Rightarrow> document_cache \<Rightarrow> document_cache" where
  "subtract_usage e c =
     (if is_memory e then c\<lparr> dc_memory_bytes := dc_memory_bytes c - stored_len e \<rparr>
      else c\<lparr> dc_file_bytes := dc_file_bytes c - stored_len e \<rparr>)"

definition replace_entry :: "string \<Rightarrow> stored_entry \<Rightarrow> document_cache \<Rightarrow> document_cache" where
  "replace_entry key replacement c =
     (let c = (case map_of (dc_entries c) key of
                 None \<Rightarrow> c
               | Some previous \<Rightarrow>
                   subtract_usage previous (c\<lparr> dc_entries := hm_remove key (dc_entries c) \<rparr>));
          c = (if is_memory replacement
               then c\<lparr> dc_memory_bytes := dc_memory_bytes c + stored_len replacement \<rparr>
               else c\<lparr> dc_file_bytes := dc_file_bytes c + stored_len replacement \<rparr>)
      in c\<lparr> dc_entries := hm_insert key replacement (dc_entries c) \<rparr>)"

text \<open>The part of both insertions that holds the lock.\<close>

definition commit_entry :: "string \<Rightarrow> stored_entry \<Rightarrow> document_cache \<Rightarrow> (http_error + unit) \<times> document_cache" where
  "commit_entry key e c =
     (case validate_replacement_quota c key e of
        Inl err \<Rightarrow> (Inl err, c)
      | Inr _ \<Rightarrow> (Inr (), replace_entry key e c))"

definition insert_memory :: "string \<Rightarrow> string \<Rightarrow> document_cache \<Rightarrow> (http_error + unit) \<times> document_cache" where
  "insert_memory key bytes c =
     (case and_then (validated_key key) (\<lambda>key.
             and_then (validate_entry_len (dc_limits c) (length bytes)) (\<lambda>_. Inr key)) of
        Inl e \<Rightarrow> (Inl e, c)
      | Inr key \<Rightarrow> commit_entry key (StoredMemory bytes) c)"

text \<open>What the operating system does for \<open>insert_file\<close>.\<close>

record 'w cache_env =
  ce_cancelled :: "'w \<Rightarrow> bool \<times> 'w"
  ce_new_file :: "'w \<Rightarrow> (string + string) \<times> 'w"
  ce_read :: "'w \<Rightarrow> (string + string) \<times> 'w"
  ce_write :: "string \<Rightarrow> string \<Rightarrow> 'w \<Rightarrow> (string + unit) \<times> 'w"
  ce_flush :: "string \<Rightarrow> 'w \<Rightarrow> (string + unit) \<times> 'w"

text \<open>The copy loop. \<open>bytes\<close> is what the file holds; its length is the \<open>length\<close> of the source, which
  exceeds the entry limit before it could overflow.\<close>

function copy_loop :: "'w cache_env \<Rightarrow> document_cache_limits \<Rightarrow> string \<Rightarrow> string \<Rightarrow> 'w
    \<Rightarrow> (http_error + string) \<times> 'w" where
  "copy_loop env limits path bytes w =
     (case ce_cancelled env w of
        (True, w) \<Rightarrow> (Inl HttpCancelled, w)
      | (False, w) \<Rightarrow> (case ce_read env w of
          (Inl e, w) \<Rightarrow> (Inl (CacheFailed e), w)
        | (Inr chunk, w) \<Rightarrow>
            if chunk = [] then (Inr bytes, w)
            else if lim_entry_bytes limits < length bytes + length chunk
            then (Inl (CacheQuotaExceeded ''single-entry'' (lim_entry_bytes limits)), w)
            else (case ce_write env path chunk w of
                (Inl e, w) \<Rightarrow> (Inl (CacheFailed e), w)
              | (Inr _, w) \<Rightarrow> copy_loop env limits path (bytes @ chunk) w)))"
  by pat_completeness auto
termination
  by (relation "measure (\<lambda>(env, limits, path, bytes, w). lim_entry_bytes limits - length bytes)")
    (auto simp: neq_Nil_conv)

declare copy_loop.simps [simp del]

definition stage_file :: "'w cache_env \<Rightarrow> document_cache_limits \<Rightarrow> 'w \<Rightarrow> (http_error + stored_entry) \<times> 'w" where
  "stage_file env limits w =
     (case ce_new_file env w of
        (Inl e, w) \<Rightarrow> (Inl (CacheFailed e), w)
      | (Inr path, w) \<Rightarrow> (case copy_loop env limits path [] w of
          (Inl e, w) \<Rightarrow> (Inl e, w)
        | (Inr bytes, w) \<Rightarrow> (case ce_cancelled env w of
            (True, w) \<Rightarrow> (Inl HttpCancelled, w)
          | (False, w) \<Rightarrow> (case ce_flush env path w of
              (Inl e, w) \<Rightarrow> (Inl (CacheFailed e), w)
            | (Inr _, w) \<Rightarrow> (Inr (StoredFile path bytes (length bytes)), w)))))"

definition insert_file :: "'w cache_env \<Rightarrow> string \<Rightarrow> document_cache \<Rightarrow> 'w
    \<Rightarrow> (http_error + unit) \<times> document_cache \<times> 'w" where
  "insert_file env key c w =
     (case validated_key key of
        Inl e \<Rightarrow> (Inl e, c, w)
      | Inr key \<Rightarrow> (case stage_file env (dc_limits c) w of
          (Inl e, w) \<Rightarrow> (Inl e, c, w)
        | (Inr entry, w) \<Rightarrow> (let (r, c) = commit_entry key entry c in (r, c, w))))"

definition cache_remove :: "string \<Rightarrow> document_cache \<Rightarrow> bool \<times> document_cache" where
  "cache_remove key c =
     (case map_of (dc_entries c) key of
        None \<Rightarrow> (False, c)
      | Some e \<Rightarrow> (True, subtract_usage e (c\<lparr> dc_entries := hm_remove key (dc_entries c) \<rparr>)))"

definition cache_purge :: "document_cache \<Rightarrow> document_cache" where
  "cache_purge c = c\<lparr> dc_entries := [], dc_memory_bytes := 0, dc_file_bytes := 0 \<rparr>"

definition cache_usage :: "document_cache \<Rightarrow> document_cache_usage" where
  "cache_usage c = \<lparr> use_entries = length (dc_entries c), use_memory_bytes = dc_memory_bytes c,
     use_file_bytes = dc_file_bytes c \<rparr>"

section \<open>Runs\<close>

text \<open>The atomic steps of a cache that any number of threads use: the commit of a file comes after its
  staging by the same call, whatever happened to the cache in between.\<close>

inductive cache_run :: "'w cache_env \<Rightarrow> document_cache_limits \<Rightarrow> document_cache \<Rightarrow> bool" for env l where
  run_new: "document_cache_new dir l = Inr c \<Longrightarrow> cache_run env l c"
| run_memory: "cache_run env l c \<Longrightarrow> cache_run env l (snd (insert_memory key bytes c))"
| run_file: "cache_run env l c \<Longrightarrow> validated_key key = Inr key' \<Longrightarrow>
     stage_file env (dc_limits c) w = (Inr e, w') \<Longrightarrow> cache_run env l (snd (commit_entry key' e c))"
| run_remove: "cache_run env l c \<Longrightarrow> cache_run env l (snd (cache_remove key c))"
| run_purge: "cache_run env l c \<Longrightarrow> cache_run env l (cache_purge c)"

section \<open>The ledger\<close>

definition tier_bytes :: "bool \<Rightarrow> (string, stored_entry) hash_map \<Rightarrow> nat" where
  "tier_bytes mem m = sum_list (map (\<lambda>(k, e). if is_memory e = mem then stored_len e else 0) m)"

definition weight :: "bool \<Rightarrow> stored_entry option \<Rightarrow> nat" where
  "weight mem e = (case e of None \<Rightarrow> 0 | Some e \<Rightarrow> if is_memory e = mem then stored_len e else 0)"

lemma weight_simps [simp]:
  "weight mem None = 0" "weight mem (Some e) = (if is_memory e = mem then stored_len e else 0)"
  by (simp_all add: weight_def)

lemma hm_remove_absent: "map_of m k = None \<Longrightarrow> hm_remove k m = m"
  unfolding hm_remove_def by (simp add: delete_idem map_of_eq_None_iff)

lemma tier_remove: "hm_ok m \<Longrightarrow> tier_bytes mem m = tier_bytes mem (hm_remove k m) + weight mem (map_of m k)"
proof (induction m)
  case (Cons a m)
  obtain j e where a: "a = (j, e)" by force
  have ok: "hm_ok m" and j: "map_of m j = None"
    using Cons.prems a by (simp_all add: hm_ok_def map_of_eq_None_iff)
  have "hm_remove k (a # m) = (if j = k then hm_remove k m else a # hm_remove k m)"
    by (simp add: hm_remove_def AList.delete_eq a)
  then show ?case
    using Cons.IH[OF ok] j a hm_remove_absent[of m k] by (auto simp: tier_bytes_def)
qed (simp add: tier_bytes_def hm_remove_def)

lemma tier_insert_absent:
  "map_of m k = None \<Longrightarrow> tier_bytes mem (hm_insert k e m) = tier_bytes mem m + weight mem (Some e)"
proof -
  assume "map_of m k = None"
  then have "hm_insert k e m = m @ [(k, e)]"
    unfolding hm_insert_def
    by (induction m) (auto split: if_splits)
  then show ?thesis by (simp add: tier_bytes_def)
qed

text \<open>What holds of a cache after every step.\<close>

definition cache_ok :: "document_cache \<Rightarrow> bool" where
  "cache_ok c =
     (cache_limits_validate (dc_limits c) = Inr (dc_limits c)
      \<and> hm_ok (dc_entries c)
      \<and> dc_memory_bytes c = tier_bytes True (dc_entries c)
      \<and> dc_file_bytes c = tier_bytes False (dc_entries c)
      \<and> dc_memory_bytes c \<le> lim_memory_bytes (dc_limits c)
      \<and> dc_file_bytes c \<le> lim_file_bytes (dc_limits c)
      \<and> length (dc_entries c) \<le> lim_entries (dc_limits c)
      \<and> (\<forall>(k, e) \<in> set (dc_entries c). stored_len e \<le> lim_entry_bytes (dc_limits c)
           \<and> validated_key k = Inr k))"

lemma cache_limits_validate_iff: "cache_limits_validate l = Inr l' \<longleftrightarrow> l' = l
    \<and> lim_memory_bytes l \<le> HARD_MAX_MEMORY_BYTES \<and> lim_file_bytes l \<le> HARD_MAX_FILE_BYTES
    \<and> lim_entry_bytes l \<in> {1 .. HARD_MAX_ENTRY_BYTES} \<and> lim_entries l \<in> {1 .. HARD_MAX_ENTRIES}
    \<and> (lim_memory_bytes l \<noteq> 0 \<or> lim_file_bytes l \<noteq> 0)"
  by (auto simp: cache_limits_validate_def)

lemma quota_iff:
  assumes "cache_ok c"
  shows "validate_replacement_quota c key e = Inr () \<longleftrightarrow>
    length (dc_entries c) + (if map_of (dc_entries c) key = None then 1 else 0) \<le> lim_entries (dc_limits c)
    \<and> dc_memory_bytes c - weight True (map_of (dc_entries c) key) + weight True (Some e) \<le> lim_memory_bytes (dc_limits c)
    \<and> dc_file_bytes c - weight False (map_of (dc_entries c) key) + weight False (Some e) \<le> lim_file_bytes (dc_limits c)"
proof -
  have "int (lim_memory_bytes (dc_limits c)) < 2 ^ 64 - 1" "int (lim_file_bytes (dc_limits c)) < 2 ^ 64 - 1"
    using assms unfolding cache_ok_def cache_limits_validate_iff by (simp_all add: cache_hard_limits)
  note sat = less_saturating_usize[OF this(1)] less_saturating_usize[OF this(2)]
  show ?thesis
    by (cases "map_of (dc_entries c) key"; cases e)
      (auto simp: validate_replacement_quota_def Let_def sat not_less split: if_splits)
qed

end
