(* ===== verification/DocumentCacheProps.thy ===== *)
theory DocumentCacheProps
  imports DocumentCache
begin

text \<open>
  The document cache keeps its books: in every run the two byte counters are the sums over the
  retained entries and all four quotas hold; an insertion is accepted exactly when the result fits,
  replaces its key only, and a failed one changes nothing.
\<close>

section \<open>Replacement\<close>

lemma replace_entry_eq:
  "replace_entry key e c = c\<lparr> dc_entries := hm_insert key e (hm_remove key (dc_entries c)),
     dc_memory_bytes := dc_memory_bytes c - weight True (map_of (dc_entries c) key) + weight True (Some e),
     dc_file_bytes := dc_file_bytes c - weight False (map_of (dc_entries c) key) + weight False (Some e) \<rparr>"
proof (cases "map_of (dc_entries c) key")
  case None
  then show ?thesis by (cases e) (simp_all add: replace_entry_def hm_remove_absent)
next
  case (Some old)
  then show ?thesis by (cases e; cases old) (simp_all add: replace_entry_def subtract_usage_def)
qed

lemma length_hm_insert_remove:
  assumes "hm_ok m"
  shows "length (hm_insert key e (hm_remove key m)) = length m + (if map_of m key = None then 1 else 0)"
proof -
  have "length (hm_insert key e (hm_remove key m)) = Suc (length (hm_remove key m))"
    using hm.length_put[OF hm_ok_remove[OF assms]] by simp
  moreover have "map_of m key \<noteq> None \<Longrightarrow> 0 < length m" by (cases m) auto
  ultimately show ?thesis
    using hm.length_remove[OF assms, of key] by auto
qed

lemma tier_replace:
  assumes "hm_ok m"
  shows "tier_bytes mem (hm_insert key e (hm_remove key m)) =
    tier_bytes mem m - weight mem (map_of m key) + weight mem (Some e)"
  using tier_remove[OF assms, of mem key] tier_insert_absent[of "hm_remove key m" key mem e] by simp

lemma commit_ok:
  assumes c: "cache_ok c" and e: "stored_len e \<le> lim_entry_bytes (dc_limits c)" "validated_key key = Inr key"
  shows "cache_ok (snd (commit_entry key e c))"
proof (cases "validate_replacement_quota c key e")
  case (Inr u)
  have ok: "hm_ok (dc_entries c)" using c by (simp add: cache_ok_def)
  have entries: "\<forall>(k, x) \<in> set (hm_insert key e (hm_remove key (dc_entries c))).
      stored_len x \<le> lim_entry_bytes (dc_limits c) \<and> validated_key k = Inr k"
  proof -
    have "k = key \<and> x = e \<or> (k, x) \<in> set (dc_entries c)"
      if "(k, x) \<in> set (hm_insert key e (hm_remove key (dc_entries c)))" for k x
    proof -
      have "map_of (hm_insert key e (hm_remove key (dc_entries c))) k = Some x"
        using that hm.entries_lookup[of "hm_insert key e (hm_remove key (dc_entries c))" k x] ok by blast
      then show ?thesis using map_of_SomeD by (fastforce split: if_splits)
    qed
    then show ?thesis using e c unfolding cache_ok_def by fast
  qed
  have q: "validate_replacement_quota c key e = Inr ()" using Inr by simp
  show ?thesis
    using c entries quota_iff[OF c, of key e] ok
    unfolding commit_entry_def Inr sum.case snd_conv replace_entry_eq
    by (simp add: q cache_ok_def tier_replace length_hm_insert_remove)
qed (use c in \<open>simp add: commit_entry_def\<close>)

lemma commit_limits: "dc_limits (snd (commit_entry key e c)) = dc_limits c"
  by (simp add: commit_entry_def replace_entry_eq split: sum.split)

lemma validated_key_Inr: "validated_key key = Inr k \<Longrightarrow> k = key"
  by (simp add: validated_key_def split: if_splits)

lemma validate_entry_len_iff: "validate_entry_len l n = Inr u \<longleftrightarrow> n \<le> lim_entry_bytes l"
  by (auto simp: validate_entry_len_def)

lemma insert_memory_cases:
  "(\<exists>err. insert_memory key bytes c = (Inl err, c))
     \<and> \<not> (validated_key key = Inr key \<and> length bytes \<le> lim_entry_bytes (dc_limits c))
   \<or> validated_key key = Inr key \<and> length bytes \<le> lim_entry_bytes (dc_limits c)
     \<and> insert_memory key bytes c = commit_entry key (StoredMemory bytes) c"
proof (cases "validated_key key")
  case (Inr k)
  then have "k = key" by (rule validated_key_Inr)
  then show ?thesis using Inr
    by (cases "length bytes \<le> lim_entry_bytes (dc_limits c)")
      (auto simp: insert_memory_def validate_entry_len_def)
qed (auto simp: insert_memory_def)

lemma insert_memory_ok: "cache_ok c \<Longrightarrow> cache_ok (snd (insert_memory key bytes c))"
  using insert_memory_cases[of key bytes c] commit_ok[of c "StoredMemory bytes" key] by auto

lemma copy_loop_length:
  "copy_loop env l path bytes w = (Inr out, w') \<Longrightarrow> length bytes \<le> lim_entry_bytes l
    \<Longrightarrow> length out \<le> lim_entry_bytes l"
proof (induction "lim_entry_bytes l - length bytes" arbitrary: bytes w rule: less_induct)
  case less
  have "\<exists>chunk v. chunk = [] \<and> out = bytes \<or> chunk \<noteq> []
      \<and> length bytes + length chunk \<le> lim_entry_bytes l \<and> copy_loop env l path (bytes @ chunk) v = (Inr out, w')"
    using less.prems(1) unfolding copy_loop.simps[of env l path bytes w]
    by (auto simp: not_less split: prod.splits bool.splits sum.splits if_splits)
  then obtain chunk v where "chunk = [] \<and> out = bytes \<or> chunk \<noteq> []
      \<and> length bytes + length chunk \<le> lim_entry_bytes l \<and> copy_loop env l path (bytes @ chunk) v = (Inr out, w')"
    by blast
  then show ?case
  proof
    assume *: "chunk \<noteq> [] \<and> length bytes + length chunk \<le> lim_entry_bytes l
      \<and> copy_loop env l path (bytes @ chunk) v = (Inr out, w')"
    then have "lim_entry_bytes l - length (bytes @ chunk) < lim_entry_bytes l - length bytes"
      by (auto simp: neq_Nil_conv)
    from less.hyps[OF this, of v] * show ?thesis by simp
  qed (use less.prems in simp)
qed

lemma stage_file_Inr:
  assumes "stage_file env l w = (Inr e, w')"
  shows "\<exists>path bytes. e = StoredFile path bytes (length bytes) \<and> length bytes \<le> lim_entry_bytes l"
  using assms unfolding stage_file_def
  by (auto split: prod.splits sum.splits bool.splits dest!: copy_loop_length)

lemma cache_remove_ok:
  assumes "cache_ok c"
  shows "cache_ok (snd (cache_remove key c))"
proof (cases "map_of (dc_entries c) key")
  case (Some e)
  let ?m = "hm_remove key (dc_entries c)"
  have ok: "hm_ok (dc_entries c)" using assms by (simp add: cache_ok_def)
  have t: "tier_bytes mem (dc_entries c) = tier_bytes mem ?m + weight mem (Some e)" for mem
    using tier_remove[OF ok, of mem key] Some by simp
  have sub: "set ?m \<subseteq> set (dc_entries c)"
    by (auto simp: hm_remove_def AList.delete_eq)
  have len: "length ?m \<le> length (dc_entries c)"
    using hm.length_remove[OF ok, of key] by auto
  show ?thesis
    using assms t[of True] t[of False] sub len Some ok
    by (cases "is_memory e") (auto simp: cache_remove_def cache_ok_def subtract_usage_def)
qed (use assms in \<open>simp add: cache_remove_def\<close>)

lemma cache_purge_ok: "cache_ok c \<Longrightarrow> cache_ok (cache_purge c)"
  by (simp add: cache_ok_def cache_purge_def tier_bytes_def)

lemma cache_new_ok: "document_cache_new dir l = Inr c \<Longrightarrow> cache_ok c \<and> dc_limits c = l"
  by (auto simp: document_cache_new_def and_then_Inr cache_limits_validate_iff cache_ok_def
      tier_bytes_def split: sum.splits)

lemma cache_run_ok: "cache_run env l c \<Longrightarrow> cache_ok c \<and> dc_limits c = l"
proof (induction rule: cache_run.induct)
  case (run_memory c key bytes)
  then show ?case
    using insert_memory_ok[of c key bytes] insert_memory_cases[of key bytes c]
    by (auto simp: commit_limits)
next
  case (run_file c key key' w e w')
  have "key' = key" using run_file.hyps(2) by (rule validated_key_Inr)
  then show ?case
    using run_file commit_ok[of c e key] stage_file_Inr[OF run_file.hyps(3)] by (auto simp: commit_limits)
next
  case (run_remove c key)
  then show ?case
    using cache_remove_ok[of c key]
    by (auto simp: cache_remove_def subtract_usage_def split: option.splits)
next
  case (run_purge c)
  then show ?case using cache_purge_ok[of c] by (simp add: cache_purge_def)
qed (use cache_new_ok in blast)

section \<open>Properties\<close>

text \<open>C35: In every run of a document cache, by any number of threads, the books are exact and every quota
  holds: the two byte counters are the sums of the lengths of the retained entries of their tier and
  stay within the tier's limit, the number of entries stays within its limit, and every entry is within
  the entry limit under a valid key.\<close>

theorem cache_never_exceeds_a_quota:
  assumes "cache_run env l c"
  shows "use_memory_bytes (cache_usage c) = tier_bytes True (dc_entries c)
    \<and> use_file_bytes (cache_usage c) = tier_bytes False (dc_entries c)
    \<and> use_memory_bytes (cache_usage c) \<le> lim_memory_bytes l
    \<and> use_file_bytes (cache_usage c) \<le> lim_file_bytes l
    \<and> use_entries (cache_usage c) \<le> lim_entries l
    \<and> (\<forall>k e. cache_get c k = Some e \<longrightarrow> entry_len e \<le> lim_entry_bytes l \<and> validated_key k = Inr k)"
proof -
  have ok: "cache_ok c" and l: "dc_limits c = l" using cache_run_ok[OF assms] by auto
  have "entry_len e \<le> lim_entry_bytes l \<and> validated_key k = Inr k" if get: "cache_get c k = Some e" for k e
  proof -
    obtain s where s: "map_of (dc_entries c) k = Some s" "e = stored_snapshot s"
      using get by (auto simp: cache_get_def)
    have "entry_len e = stored_len s" using s(2) by (cases s) simp_all
    moreover have "(k, s) \<in> set (dc_entries c)" using s(1) by (rule map_of_SomeD)
    ultimately show ?thesis using ok l unfolding cache_ok_def by force
  qed
  then show ?thesis using ok l by (simp add: cache_ok_def cache_usage_def)
qed

definition sample_limits :: document_cache_limits where
  "sample_limits = \<lparr> lim_memory_bytes = 5, lim_file_bytes = 0, lim_entry_bytes = 4, lim_entries = 2 \<rparr>"

definition sample_os :: "unit cache_env" where
  "sample_os = \<lparr> ce_cancelled = (\<lambda>w. (True, w)), ce_new_file = (\<lambda>w. (Inr ''p'', w)),
     ce_read = (\<lambda>w. (Inr ''x'', w)), ce_write = (\<lambda>_ _ w. (Inr (), w)), ce_flush = (\<lambda>_ w. (Inr (), w)) \<rparr>"

definition sample_cache :: document_cache where
  "sample_cache = \<lparr> dc_limits = sample_limits, dc_entries = [(''k'', StoredMemory ''abcd'')],
     dc_memory_bytes = 4, dc_file_bytes = 0 \<rparr>"

lemma sample_key: "validated_key ''k'' = Inr ''k''" "validated_key ''j'' = Inr ''j''"
  by (simp_all add: validated_key_def HARD_MAX_KEY_BYTES_def byte_def)

lemma sample_cache_run: "cache_run env sample_limits sample_cache" for env :: "unit cache_env"
proof -
  have new: "document_cache_new (Inr ''d'') sample_limits =
      Inr \<lparr> dc_limits = sample_limits, dc_entries = [], dc_memory_bytes = 0, dc_file_bytes = 0 \<rparr>"
    by (simp add: document_cache_new_def cache_limits_validate_def sample_limits_def cache_hard_limits)
  have "snd (insert_memory ''k'' ''abcd'' \<lparr> dc_limits = sample_limits, dc_entries = [],
      dc_memory_bytes = 0, dc_file_bytes = 0 \<rparr>) = sample_cache"
    by (simp add: insert_memory_def sample_key validate_entry_len_def commit_entry_def
        validate_replacement_quota_def saturating_usize_def replace_entry_def hm_insert_def
        sample_cache_def sample_limits_def)
  then show ?thesis using cache_run.run_memory[OF cache_run.run_new[OF new]] by metis
qed

theorem cache_never_exceeds_a_quota_witness:
  "use_memory_bytes (cache_usage sample_cache) = 4 \<and> tier_bytes True (dc_entries sample_cache) = 4"
  using cache_never_exceeds_a_quota[OF sample_cache_run[of sample_os]]
  by (simp add: cache_usage_def sample_cache_def)

lemma commit_result:
  assumes "cache_ok c"
  shows "if fst (commit_entry key e c) = Inr () then
      cache_get (snd (commit_entry key e c)) = (cache_get c)(key \<mapsto> stored_snapshot e)
    else snd (commit_entry key e c) = c"
proof (cases "validate_replacement_quota c key e")
  case (Inr u)
  then show ?thesis
    by (auto simp: commit_entry_def replace_entry_eq cache_get_def fun_eq_iff)
qed (simp add: commit_entry_def)

text \<open>C36: An insertion into the memory tier is decided by what the cache would hold afterwards: it is accepted
  exactly if the key is valid, the value within the entry limit, and, with the old entry of the key
  gone, the entries and the bytes of the tier are within their quotas. It then replaces the entry of
  its key and no other; otherwise the cache is unchanged.\<close>

theorem insert_memory_is_exact_and_atomic:
  assumes "cache_run env l c"
  shows "(fst (insert_memory key bytes c) = Inr ()) =
      (validated_key key = Inr key \<and> length bytes \<le> lim_entry_bytes l
       \<and> length (hm_remove key (dc_entries c)) + 1 \<le> lim_entries l
       \<and> tier_bytes True (hm_remove key (dc_entries c)) + length bytes \<le> lim_memory_bytes l)
    \<and> (if fst (insert_memory key bytes c) = Inr ()
       then cache_get (snd (insert_memory key bytes c)) = (cache_get c)(key \<mapsto> EntryMemory bytes)
       else snd (insert_memory key bytes c) = c)"
proof -
  have ok: "cache_ok c" and l: "dc_limits c = l" using cache_run_ok[OF assms] by auto
  have hm: "hm_ok (dc_entries c)" using ok by (simp add: cache_ok_def)
  let ?old = "map_of (dc_entries c) key" and ?rest = "hm_remove key (dc_entries c)"
  have len: "length ?rest + 1 = length (dc_entries c) + (if ?old = None then 1 else 0)"
    using length_hm_insert_remove[OF hm, of key "StoredMemory bytes"] hm.length_put[OF hm_ok_remove[OF hm]]
    by simp
  have mem: "dc_memory_bytes c - weight True ?old = tier_bytes True ?rest"
    "dc_file_bytes c - weight False ?old \<le> lim_file_bytes (dc_limits c)"
    using tier_remove[OF hm, of True key] tier_remove[OF hm, of False key] ok
    by (auto simp: cache_ok_def)
  have accept: "fst (commit_entry key (StoredMemory bytes) c) = Inr () \<longleftrightarrow>
      length ?rest + 1 \<le> lim_entries l \<and> tier_bytes True ?rest + length bytes \<le> lim_memory_bytes l"
  proof -
    have "fst (commit_entry key (StoredMemory bytes) c) = Inr () \<longleftrightarrow>
        validate_replacement_quota c key (StoredMemory bytes) = Inr ()"
      by (simp add: commit_entry_def split: sum.split)
    then show ?thesis unfolding quota_iff[OF ok] mem(1) using mem(2) len l by auto
  qed
  show ?thesis
    using insert_memory_cases[of key bytes c] accept commit_result[OF ok, of key "StoredMemory bytes"] l
    by auto
qed

theorem insert_memory_is_exact_and_atomic_witness:
  "fst (insert_memory ''j'' ''xy'' sample_cache) \<noteq> Inr ()
   \<and> cache_get (snd (insert_memory ''k'' ''xy'' sample_cache)) ''k'' = Some (EntryMemory ''xy'')"
  using insert_memory_is_exact_and_atomic[OF sample_cache_run[of sample_os], of "''j''" "''xy''"]
    insert_memory_is_exact_and_atomic[OF sample_cache_run[of sample_os], of "''k''" "''xy''"] sample_key
  by (simp add: sample_cache_def sample_limits_def hm_remove_def tier_bytes_def split: if_splits)

section \<open>What the operating system delivered\<close>

text \<open>The calls that an insertion makes and their answers, in order, written down beside the world.\<close>

datatype os_call =
    OsCancelled bool
  | OsNewFile "string + string"
  | OsRead "string + string"
  | OsWrite string string "string + unit"
  | OsFlush string "string + unit"

definition observed :: "'w cache_env \<Rightarrow> ('w \<times> os_call list) cache_env" where
  "observed env =
     \<lparr> ce_cancelled = (\<lambda>(w, calls). case ce_cancelled env w of (b, w) \<Rightarrow> (b, w, calls @ [OsCancelled b])),
       ce_new_file = (\<lambda>(w, calls). case ce_new_file env w of (r, w) \<Rightarrow> (r, w, calls @ [OsNewFile r])),
       ce_read = (\<lambda>(w, calls). case ce_read env w of (r, w) \<Rightarrow> (r, w, calls @ [OsRead r])),
       ce_write = (\<lambda>path chunk (w, calls). case ce_write env path chunk w of (r, w) \<Rightarrow> (r, w, calls @ [OsWrite path chunk r])),
       ce_flush = (\<lambda>path (w, calls). case ce_flush env path w of (r, w) \<Rightarrow> (r, w, calls @ [OsFlush path r])) \<rparr>"

text \<open>A whole file: every chunk was read and written, the end of the input was reached.\<close>

definition copied :: "string \<Rightarrow> string list \<Rightarrow> os_call list" where
  "copied path chunks =
     concat (map (\<lambda>chunk. [OsCancelled False, OsRead (Inr chunk), OsWrite path chunk (Inr ())]) chunks)
     @ [OsCancelled False, OsRead (Inr [])]"

lemma copied_Cons:
  "copied path (chunk # chunks) = [OsCancelled False, OsRead (Inr chunk), OsWrite path chunk (Inr ())] @ copied path chunks"
  by (simp add: copied_def)

lemma copy_loop_observed:
  "copy_loop (observed env) l path bytes (w, calls) = (Inr out, w', calls') \<Longrightarrow>
     \<exists>chunks. [] \<notin> set chunks \<and> out = bytes @ concat chunks \<and> calls' = calls @ copied path chunks"
proof (induction "lim_entry_bytes l - length bytes" arbitrary: bytes w calls rule: less_induct)
  case less
  obtain b w1 where c: "ce_cancelled env w = (b, w1)" by fastforce
  obtain r w2 where rd: "ce_read env w1 = (r, w2)" by fastforce
  have "b = False" using less.prems c by (auto simp: copy_loop.simps[of _ l path bytes] observed_def)
  moreover obtain chunk where chunk: "r = Inr chunk"
    using less.prems c rd calculation by (cases r) (auto simp: copy_loop.simps[of _ l path bytes] observed_def)
  ultimately have at: "copy_loop (observed env) l path bytes (w, calls) =
      (if chunk = [] then (Inr bytes, w2, calls @ [OsCancelled False, OsRead (Inr [])])
       else if lim_entry_bytes l < length bytes + length chunk
       then (Inl (CacheQuotaExceeded ''single-entry'' (lim_entry_bytes l)), w2, calls @ [OsCancelled False, OsRead (Inr chunk)])
       else (case ce_write env path chunk w2 of
           (Inl e, w) \<Rightarrow> (Inl (CacheFailed e), w, calls @ [OsCancelled False, OsRead (Inr chunk), OsWrite path chunk (Inl e)])
         | (Inr u, w) \<Rightarrow> copy_loop (observed env) l path (bytes @ chunk)
             (w, calls @ [OsCancelled False, OsRead (Inr chunk), OsWrite path chunk (Inr ())])))"
    using c rd by (simp add: copy_loop.simps[of _ l path bytes] observed_def split: prod.split sum.split)
  show ?case
  proof (cases "chunk = []")
    case True
    then show ?thesis using less.prems at by (intro exI[of _ "[]"]) (simp add: copied_def)
  next
    case False
    obtain v w3 where wr: "ce_write env path chunk w2 = (v, w3)" by fastforce
    have fits: "\<not> lim_entry_bytes l < length bytes + length chunk" and "v = Inr ()"
      and rest: "copy_loop (observed env) l path (bytes @ chunk)
        (w3, calls @ [OsCancelled False, OsRead (Inr chunk), OsWrite path chunk (Inr ())]) = (Inr out, w', calls')"
      using less.prems at False wr by (auto split: if_splits sum.splits)
    have "lim_entry_bytes l - length (bytes @ chunk) < lim_entry_bytes l - length bytes"
      using fits False by (auto simp: neq_Nil_conv)
    from less.hyps[OF this rest] obtain chunks where "[] \<notin> set chunks" "out = (bytes @ chunk) @ concat chunks"
      "calls' = (calls @ [OsCancelled False, OsRead (Inr chunk), OsWrite path chunk (Inr ())]) @ copied path chunks"
      by blast
    then show ?thesis using False by (intro exI[of _ "chunk # chunks"]) (simp add: copied_Cons)
  qed
qed

lemma stage_file_observed:
  assumes "stage_file (observed env) l (w, []) = (Inr e, w', calls)"
  shows "\<exists>path chunks. e = StoredFile path (concat chunks) (length (concat chunks)) \<and> [] \<notin> set chunks \<and>
    length (concat chunks) \<le> lim_entry_bytes l \<and>
    calls = OsNewFile (Inr path) # copied path chunks @ [OsCancelled False, OsFlush path (Inr ())]"
proof -
  obtain r w1 where nf: "ce_new_file env w = (r, w1)" by fastforce
  obtain path where r: "r = Inr path"
    using assms nf by (cases r) (auto simp: stage_file_def observed_def)
  obtain out w2 calls2 where cp: "copy_loop (observed env) l path [] (w1, [OsNewFile (Inr path)]) = (out, w2, calls2)"
    by (metis prod_cases3)
  obtain bytes where out: "out = Inr bytes"
    using assms nf r cp by (cases out) (auto simp: stage_file_def observed_def[of env])
  obtain b w3 where c: "ce_cancelled env w2 = (b, w3)" by fastforce
  obtain f w4 where fl: "ce_flush env path w3 = (f, w4)" by fastforce
  obtain chunks where ch: "[] \<notin> set chunks" "bytes = concat chunks" "calls2 = [OsNewFile (Inr path)] @ copied path chunks"
    using copy_loop_observed[OF cp[unfolded out]] by auto
  have new: "ce_new_file (observed env) (w, []) = (Inr path, w1, [OsNewFile (Inr path)])"
    using nf r by (simp add: observed_def)
  have can: "ce_cancelled (observed env) (w2, calls2) = (b, w3, calls2 @ [OsCancelled b])"
    and flu: "ce_flush (observed env) path (w3, x) = (f, w4, x @ [OsFlush path f])" for x
    using c fl by (simp_all add: observed_def)
  have "\<not> b" "f = Inr ()" "e = StoredFile path bytes (length bytes)" "calls = calls2 @ [OsCancelled False, OsFlush path (Inr ())]"
    using assms by (auto simp: stage_file_def new cp out can flu split: bool.splits sum.splits)
  then show ?thesis using ch copy_loop_length[OF cp[unfolded out]] by (intro exI[of _ path] exI[of _ chunks]) auto
qed

text \<open>C37: A file becomes visible only when it is complete. An insertion into the file tier that fails for
  whatever reason (key, cancellation, read, write or flush error, quota) leaves the cache as it was. One that
  succeeds has read all that the reader delivers up to the end of the input, written every chunk to the
  new file in that order, found no cancellation before any of them and flushed the file without an error; it replaces
  its key, and no other, by that file, whose bytes are those delivered and within the entry limit.\<close>

theorem insert_file_is_all_or_nothing:
  assumes "cache_run env' l c" and "insert_file (observed env) key c (w, []) = (r, c', w', calls)"
  shows "case r of
      Inl _ \<Rightarrow> c' = c
    | Inr _ \<Rightarrow> (\<exists>path chunks. validated_key key = Inr key \<and> [] \<notin> set chunks
         \<and> calls = OsNewFile (Inr path) # copied path chunks @ [OsCancelled False, OsFlush path (Inr ())]
         \<and> length (concat chunks) \<le> lim_entry_bytes l
         \<and> cache_get c' = (cache_get c)(key \<mapsto> EntryFile path (length (concat chunks)))
         \<and> map_of (dc_entries c') key = Some (StoredFile path (concat chunks) (length (concat chunks))))"
proof -
  have ok: "cache_ok c" and l: "dc_limits c = l" using cache_run_ok[OF assms(1)] by auto
  show ?thesis
  proof (cases "validated_key key")
    case (Inr k)
    then have k: "k = key" by (rule validated_key_Inr)
    obtain s v calls2 where st: "stage_file (observed env) (dc_limits c) (w, []) = (s, v, calls2)" by (metis prod_cases3)
    show ?thesis
    proof (cases s)
      case (Inr e)
      obtain path chunks where e: "e = StoredFile path (concat chunks) (length (concat chunks))" "[] \<notin> set chunks"
        "length (concat chunks) \<le> lim_entry_bytes l"
        "calls2 = OsNewFile (Inr path) # copied path chunks @ [OsCancelled False, OsFlush path (Inr ())]"
        using stage_file_observed[OF st[unfolded Inr]] l by blast
      have com: "commit_entry key e c = (r, c')" and "calls = calls2"
        using assms(2) Inr st k \<open>validated_key key = Inr k\<close>
        by (auto simp: insert_file_def split: prod.splits)
      have look: "map_of (dc_entries c') key = Some e" if "r = Inr ()"
        using com that by (auto simp: commit_entry_def replace_entry_eq split: sum.splits)
      have "cache_get c' = (cache_get c)(key \<mapsto> EntryFile path (length (concat chunks)))" if "r = Inr ()"
        using commit_result[OF ok, of key e] com e(1) that by simp
      moreover have "c' = c" if "r = Inl x" for x
        using commit_result[OF ok, of key e] com that by simp
      ultimately show ?thesis
        using look e(2-) \<open>calls = calls2\<close> k \<open>validated_key key = Inr k\<close> unfolding e(1)
        by (cases r) auto
    qed (use assms(2) st Inr k in \<open>auto simp: insert_file_def\<close>)
  qed (use assms(2) in \<open>auto simp: insert_file_def\<close>)
qed

text \<open>An input of two chunks.\<close>

definition file_os :: "string list cache_env" where
  "file_os = \<lparr> ce_cancelled = (\<lambda>w. (False, w)), ce_new_file = (\<lambda>w. (Inr ''p'', w)),
     ce_read = (\<lambda>w. case w of [] \<Rightarrow> (Inr [], []) | chunk # w \<Rightarrow> (Inr chunk, w)),
     ce_write = (\<lambda>_ _ w. (Inr (), w)), ce_flush = (\<lambda>_ w. (Inr (), w)) \<rparr>"

definition file_limits :: document_cache_limits where
  "file_limits = \<lparr> lim_memory_bytes = 0, lim_file_bytes = 5, lim_entry_bytes = 4, lim_entries = 2 \<rparr>"

definition file_cache :: document_cache where
  "file_cache = \<lparr> dc_limits = file_limits, dc_entries = [], dc_memory_bytes = 0, dc_file_bytes = 0 \<rparr>"

lemma file_cache_run: "cache_run file_os file_limits file_cache"
  unfolding file_cache_def
  by (rule cache_run.run_new[of "Inr ''d''"])
    (simp add: document_cache_new_def cache_limits_validate_def file_limits_def cache_hard_limits)

theorem insert_file_is_all_or_nothing_witness:
  "fst (insert_file (observed file_os) ''k'' file_cache ([''ab'', ''cd''], [])) = Inr ()
   \<and> (\<exists>path chunks. snd (snd (snd (insert_file (observed file_os) ''k'' file_cache ([''ab'', ''cd''], [])))) =
        OsNewFile (Inr path) # copied path chunks @ [OsCancelled False, OsFlush path (Inr ())]
      \<and> cache_get (fst (snd (insert_file (observed file_os) ''k'' file_cache ([''ab'', ''cd''], [])))) ''k''
          = Some (EntryFile path (length (concat chunks))))"
proof -
  obtain r c' w' calls where run: "insert_file (observed file_os) ''k'' file_cache ([''ab'', ''cd''], []) = (r, c', w', calls)"
    by (metis prod_cases4)
  have "r = Inr ()"
    using run by (simp add: insert_file_def sample_key stage_file_def copy_loop.simps file_os_def observed_def file_cache_def
        file_limits_def commit_entry_def validate_replacement_quota_def saturating_usize_def Let_def)
  then show ?thesis
    using insert_file_is_all_or_nothing[OF file_cache_run run] run by auto
qed

end
