(* ===== verification/EditorText.thy ===== *)
theory EditorText
  imports RustText
begin

text \<open>
  The text functions of \<open>crates/key-editor-core/src/lib.rs\<close>: character, line and grapheme boundaries,
  newline normalisation and the conversions between UTF-8 and UTF-16 offsets. A text is its UTF-8
  bytes; where the source asks for the next character of a suffix, the model reads its width off the
  first byte.
\<close>

section \<open>Characters\<close>

definition char_width :: "char \<Rightarrow> nat" where
  "char_width c = (if byte c < 128 then 1 else if byte c < 224 then 2 else if byte c < 240 then 3 else 4)"

lemma char_width_bounds [simp]: "0 < char_width c" "char_width c \<le> 4"
  by (simp_all add: char_width_def)

lemma char_width_not_0 [simp]: "char_width c \<noteq> 0"
  using char_width_bounds(1)[of c] by linarith

text \<open>\<open>chars()\<close>: the encodings of the characters, one after the other.\<close>

function chars :: "string \<Rightarrow> string list" where
  "chars [] = []"
| "chars (c # s) = take (char_width c) (c # s) # chars (drop (char_width c) (c # s))"
  by pat_completeness auto
termination
  by (relation "measure length") (auto simp: less_Suc_eq_le char_width_def)

declare chars.simps(2) [simp del]

lemma concat_chars [simp]: "concat (chars s) = s"
proof (induction s rule: chars.induct)
  case (2 c s)
  then show ?case by (simp add: chars.simps(2))
qed simp

definition is_char_boundary :: "string \<Rightarrow> nat \<Rightarrow> bool" where
  "is_char_boundary s i = (i = 0 \<or> i = length s \<or> (i < length s \<and> \<not> continuation (s ! i)))"

text \<open>The code point of the first character.\<close>

definition first_code_point :: "string \<Rightarrow> int" where
  "first_code_point s =
     (let b = (\<lambda>i. byte (s ! i)) in
      case char_width (hd s) of
        Suc 0 \<Rightarrow> b 0
      | Suc (Suc 0) \<Rightarrow> (b 0 - 192) * 64 + (b 1 - 128)
      | Suc (Suc (Suc 0)) \<Rightarrow> ((b 0 - 224) * 64 + (b 1 - 128)) * 64 + (b 2 - 128)
      | _ \<Rightarrow> (((b 0 - 240) * 64 + (b 1 - 128)) * 64 + (b 2 - 128)) * 64 + (b 3 - 128))"

primrec floor_from :: "string \<Rightarrow> nat \<Rightarrow> nat" where
  "floor_from s 0 = 0"
| "floor_from s (Suc i) = (if is_char_boundary s (Suc i) then Suc i else floor_from s i)"

definition floor_char_boundary :: "string \<Rightarrow> nat \<Rightarrow> nat" where
  "floor_char_boundary s offset = floor_from s (min offset (length s))"

text \<open>\<open>char_indices().next_back()\<close> of the text before the offset: the start of its last character.\<close>

definition previous_char_boundary :: "string \<Rightarrow> nat \<Rightarrow> nat" where
  "previous_char_boundary s offset =
     (let offset = floor_char_boundary s offset in if offset = 0 then 0 else floor_from s (offset - 1))"

section \<open>Graphemes\<close>

definition is_grapheme_extend :: "int \<Rightarrow> bool" where
  "is_grapheme_extend c =
     ((0x0300 \<le> c \<and> c \<le> 0x036f) \<or> (0x1ab0 \<le> c \<and> c \<le> 0x1aff) \<or> (0x1dc0 \<le> c \<and> c \<le> 0x1dff)
      \<or> (0x20d0 \<le> c \<and> c \<le> 0x20ff) \<or> (0xfe00 \<le> c \<and> c \<le> 0xfe0f) \<or> (0xfe20 \<le> c \<and> c \<le> 0xfe2f)
      \<or> (0x1f3fb \<le> c \<and> c \<le> 0x1f3ff) \<or> (0xe0100 \<le> c \<and> c \<le> 0xe01ef))"

definition is_regional_indicator :: "int \<Rightarrow> bool" where
  "is_regional_indicator c = (0x1f1e6 \<le> c \<and> c \<le> 0x1f1ff)"

text \<open>The inner loop over extending characters: the offset where it stops.\<close>

function skip_extend :: "string \<Rightarrow> nat \<Rightarrow> nat" where
  "skip_extend s i =
     (if i < length s \<and> is_grapheme_extend (first_code_point (drop i s))
      then skip_extend s (i + char_width (s ! i)) else i)"
  by pat_completeness auto
termination
  by (relation "measure (\<lambda>(s, i). length s - i)") (auto intro: diff_less_mono2)

declare skip_extend.simps [simp del]

definition zero_width_joiner :: string where
  "zero_width_joiner = map char_of [226, 128, 141 :: int]"

lemma skip_extend_ge: "i \<le> skip_extend s i"
proof (induction s i rule: skip_extend.induct)
  case (1 s i)
  then show ?case by (subst skip_extend.simps) (auto intro: order_trans[OF le_add1])
qed

function grapheme_tail :: "string \<Rightarrow> nat \<Rightarrow> nat" where
  "grapheme_tail s i =
     (let e = skip_extend s i in
      if \<not> starts_with zero_width_joiner (drop e s) then e
      else
        (let e = e + 3 in
         if e < length s then grapheme_tail s (e + char_width (s ! e)) else e))"
  by pat_completeness auto
termination
proof (relation "measure (\<lambda>(s, i). length s - i)")
  fix s i e f
  assume "e = skip_extend s i" "f = e + 3" "f < length s"
  then show "((s, f + char_width (s ! f)), (s, i)) \<in> measure (\<lambda>(s, i). length s - i)"
    using skip_extend_ge[of i s] by simp
qed simp

declare grapheme_tail.simps [simp del]

definition next_grapheme_boundary :: "string \<Rightarrow> nat \<Rightarrow> nat" where
  "next_grapheme_boundary s offset =
     (let start = floor_char_boundary s offset in
      if length s \<le> start then length s
      else
        (let first = drop start s;
             e = start + char_width (hd first)
         in if hd first = CHR 0x0D \<and> starts_with [CHR 0x0A] (drop e s) then e + 1
            else
              (let e = (if is_regional_indicator (first_code_point first) \<and> e < length s
                          \<and> is_regional_indicator (first_code_point (drop e s))
                        then e + char_width (s ! e) else e)
               in grapheme_tail s e)))"

lemma grapheme_tail_ge: "i \<le> grapheme_tail s i"
proof (induction s i rule: grapheme_tail.induct)
  case (1 s i)
  let ?e = "skip_extend s i"
  have "i \<le> ?e" by (rule skip_extend_ge)
  moreover have "i \<le> grapheme_tail s (?e + 3 + char_width (s ! (?e + 3)))"
    if "starts_with zero_width_joiner (drop ?e s)" "?e + 3 < length s"
    using 1[OF refl _ refl] that \<open>i \<le> ?e\<close> by force
  ultimately show ?case by (subst grapheme_tail.simps) (auto simp: Let_def)
qed

text \<open>\<open>previous_grapheme_boundary\<close> walks from the start; every turn advances. \<open>turns\<close> of at least the
  offset are enough, since the next boundary is always further on.\<close>

primrec previous_from :: "string \<Rightarrow> nat \<Rightarrow> nat \<Rightarrow> nat \<Rightarrow> nat \<Rightarrow> nat" where
  "previous_from s offset 0 previous current = previous"
| "previous_from s offset (Suc turns) previous current =
     (if current < offset then
        (let next_offset = next_grapheme_boundary s current in
         if offset \<le> next_offset then current
         else previous_from s offset turns current next_offset)
      else previous)"

definition previous_grapheme_boundary :: "string \<Rightarrow> nat \<Rightarrow> nat" where
  "previous_grapheme_boundary s offset =
     (let offset = floor_char_boundary s offset in
      if offset = 0 then 0 else previous_from s offset offset 0 0)"

section \<open>Lines\<close>

definition newline :: char where "newline = CHR 0x0A"
definition carriage_return :: char where "carriage_return = CHR 0x0D"

fun line_ranges_from :: "nat \<Rightarrow> nat \<Rightarrow> string \<Rightarrow> (nat \<times> nat) list" where
  "line_ranges_from start i [] = [(start, i)]"
| "line_ranges_from start i (c # s) =
     (if c = newline then (start, i) # line_ranges_from (i + 1) (i + 1) s
      else line_ranges_from start (i + 1) s)"

definition line_ranges :: "string \<Rightarrow> (nat \<times> nat) list" where
  "line_ranges s = line_ranges_from 0 0 s"

definition line_at_offset :: "string \<Rightarrow> nat \<Rightarrow> nat" where
  "line_at_offset s offset = length (filter (\<lambda>c. c = newline) (take (min offset (length s)) s))"

fun replace_crlf :: "string \<Rightarrow> string" where
  "replace_crlf [] = []"
| "replace_crlf [c] = [c]"
| "replace_crlf (c # d # s) =
     (if c = carriage_return \<and> d = newline then newline # replace_crlf s
      else c # replace_crlf (d # s))"

definition normalize_newlines :: "string \<Rightarrow> string" where
  "normalize_newlines s = map (\<lambda>c. if c = carriage_return then newline else c) (replace_crlf s)"

fun normalized_newline_len :: "string \<Rightarrow> nat" where
  "normalized_newline_len [] = 0"
| "normalized_newline_len [c] = 1"
| "normalized_newline_len (c # d # s) =
     (if c = carriage_return \<and> d = newline then normalized_newline_len s + 1
      else normalized_newline_len (d # s) + 1)"

section \<open>UTF-16\<close>

definition len_utf16 :: "string \<Rightarrow> nat" where
  "len_utf16 c = (if char_width (hd c) = 4 then 2 else 1)"

definition offset_to_utf16 :: "string \<Rightarrow> nat \<Rightarrow> nat" where
  "offset_to_utf16 s offset =
     (let offset = floor_char_boundary s (min offset (length s))
      in sum_list (map len_utf16 (chars (take offset s))))"

fun utf16_scan :: "nat \<Rightarrow> nat \<Rightarrow> nat \<Rightarrow> string list \<Rightarrow> nat option" where
  "utf16_scan target utf16 offset [] = None"
| "utf16_scan target utf16 offset (c # cs) =
     (if target \<le> utf16 then Some offset
      else if target < utf16 + len_utf16 c then Some offset
      else utf16_scan target (utf16 + len_utf16 c) (offset + length c) cs)"

definition offset_from_utf16 :: "string \<Rightarrow> nat \<Rightarrow> nat" where
  "offset_from_utf16 s target =
     (case utf16_scan target 0 0 (chars s) of Some offset \<Rightarrow> offset | None \<Rightarrow> length s)"

section \<open>Lemmas\<close>

lemma floor_from_le: "floor_from s i \<le> i"
  by (induction i) auto

lemma floor_from_boundary: "i \<le> length s \<Longrightarrow> is_char_boundary s (floor_from s i)"
  by (induction i) (auto simp: is_char_boundary_def)

lemma floor_from_fixed: "is_char_boundary s i \<Longrightarrow> floor_from s i = i"
  by (cases i) auto

lemma floor_from_greatest: "is_char_boundary s j \<Longrightarrow> j \<le> i \<Longrightarrow> j \<le> floor_from s i"
  by (induction i) (auto simp: le_Suc_eq)

lemma floor_le [simp]: "floor_char_boundary s i \<le> length s" "floor_char_boundary s i \<le> i"
  using floor_from_le[of s "min i (length s)"] by (simp_all add: floor_char_boundary_def)

lemma floor_boundary [simp]: "is_char_boundary s (floor_char_boundary s i)"
  by (simp add: floor_char_boundary_def floor_from_boundary)

lemma floor_fixed [simp]: "is_char_boundary s i \<Longrightarrow> i \<le> length s \<Longrightarrow> floor_char_boundary s i = i"
  by (simp add: floor_char_boundary_def floor_from_fixed min_absorb1)

lemma floor_mono: "i \<le> j \<Longrightarrow> floor_char_boundary s i \<le> floor_char_boundary s j"
  unfolding floor_char_boundary_def
  by (rule floor_from_greatest[OF floor_from_boundary]) (use floor_from_le[of s "min i (length s)"] in auto)

lemma boundary_0 [simp]: "is_char_boundary s 0" "is_char_boundary s (length s)"
  by (simp_all add: is_char_boundary_def)

lemma length_line_ranges_from:
  "length (line_ranges_from start i s) = Suc (length (filter (\<lambda>c. c = newline) s))"
  by (induction start i s rule: line_ranges_from.induct) auto

lemma length_line_ranges: "length (line_ranges s) = Suc (length (filter (\<lambda>c. c = newline) s))"
  by (simp add: line_ranges_def length_line_ranges_from)

lemma line_at_offset_less: "line_at_offset s i < length (line_ranges s)"
proof -
  have "length (filter (\<lambda>c. c = newline) (take n s)) \<le> length (filter (\<lambda>c. c = newline) s)" for n
    by (metis append_take_drop_id filter_append le_add1 length_append)
  then show ?thesis by (simp add: line_at_offset_def length_line_ranges less_Suc_eq_le)
qed

lemma line_at_offset_mono: "i \<le> j \<Longrightarrow> line_at_offset s i \<le> line_at_offset s j"
proof -
  assume "i \<le> j"
  then have "take (min j (length s)) s = take (min i (length s)) s
      @ take (min j (length s) - min i (length s)) (drop (min i (length s)) s)"
    by (metis (no_types, lifting) le_add_diff_inverse min.mono order_refl take_add)
  then show ?thesis unfolding line_at_offset_def by (metis filter_append le_add1 length_append)
qed

text \<open>The length that the cheap check computes is the length of the normalised text.\<close>

lemma normalized_newline_len: "normalized_newline_len s = length (normalize_newlines s)"
  unfolding normalize_newlines_def by (induction s rule: replace_crlf.induct) auto

lemma normalize_no_cr: "carriage_return \<notin> set (normalize_newlines s)"
  by (auto simp: normalize_newlines_def newline_def carriage_return_def)

lemma normalize_id: "carriage_return \<notin> set s \<Longrightarrow> normalize_newlines s = s"
proof -
  assume a: "carriage_return \<notin> set s"
  then have "replace_crlf s = s" by (induction s rule: replace_crlf.induct) auto
  then show ?thesis using a by (simp add: normalize_newlines_def) (rule map_idI, metis)
qed

end
