(* ===== verification/EditorRuns.thy ===== *)
theory EditorRuns
  imports EditorText
begin

unbundle bit_operations_syntax

text \<open>
  Styles of \<open>crates/key-editor-core/src/lib.rs\<close>: inline styles as bit sets, the normalised style runs
  of a text, and the cursor that visits them line by line. The abstract view of a list of runs is
  the list of the style of every byte (\<open>flat\<close>); the operations on runs are proved against it.
\<close>

section \<open>Inline styles\<close>

type_synonym inline_style = u8

definition BOLD :: inline_style where "BOLD = push_bit 0 1"
definition ITALIC :: inline_style where "ITALIC = push_bit 1 1"
definition CODE :: inline_style where "CODE = push_bit 2 1"

definition PLAIN :: inline_style where "PLAIN = 0"

definition has_flag :: "inline_style \<Rightarrow> u8 \<Rightarrow> bool" where
  "has_flag style flag = (style AND flag \<noteq> 0)"

definition style_bold :: "inline_style \<Rightarrow> bool" where "style_bold s = (s AND BOLD \<noteq> 0)"
definition style_italic :: "inline_style \<Rightarrow> bool" where "style_italic s = (s AND ITALIC \<noteq> 0)"
definition style_code :: "inline_style \<Rightarrow> bool" where "style_code s = (s AND CODE \<noteq> 0)"
definition style_is_plain :: "inline_style \<Rightarrow> bool" where "style_is_plain s = (s = PLAIN)"

definition with_flag :: "inline_style \<Rightarrow> u8 \<Rightarrow> bool \<Rightarrow> inline_style" where
  "with_flag style flag enabled =
     (if enabled then
        (if flag = CODE then CODE else (style AND NOT CODE) OR flag)
      else style AND NOT flag)"

section \<open>Runs\<close>

record style_run =
  run_start :: nat
  run_end :: nat
  run_style :: inline_style

abbreviation mk_run :: "nat \<Rightarrow> nat \<Rightarrow> inline_style \<Rightarrow> style_run" where
  "mk_run a b st \<equiv> \<lparr> run_start = a, run_end = b, run_style = st \<rparr>"

definition push_style_run :: "style_run list \<Rightarrow> nat \<Rightarrow> nat \<Rightarrow> inline_style \<Rightarrow> style_run list" where
  "push_style_run runs a b st =
     (if b \<le> a then runs
      else if runs \<noteq> [] \<and> run_end (last runs) = a \<and> run_style (last runs) = st
      then butlast runs @ [(last runs)\<lparr> run_end := b \<rparr>]
      else runs @ [mk_run a b st])"

fun normalize_loop :: "nat \<Rightarrow> nat \<Rightarrow> style_run list \<Rightarrow> style_run list \<Rightarrow> nat \<times> style_run list" where
  "normalize_loop len cursor out [] = (cursor, out)"
| "normalize_loop len cursor out (run # old) =
     (let a = min (max (run_start run) cursor) len;
          b = min (max (run_end run) a) len;
          out = (if cursor < a then push_style_run out cursor a PLAIN else out)
      in normalize_loop len b (push_style_run out a b (run_style run)) old)"

definition normalize_runs :: "nat \<Rightarrow> style_run list \<Rightarrow> style_run list" where
  "normalize_runs len runs =
     (let (cursor, out) = normalize_loop len 0 [] runs
      in if cursor < len then push_style_run out cursor len PLAIN else out)"

section \<open>The cursor\<close>

record run_cursor =
  cu_runs :: "style_run list"
  cu_index :: nat
  cu_operations :: nat

definition cursor_new :: "style_run list \<Rightarrow> run_cursor" where
  "cursor_new runs = \<lparr> cu_runs = runs, cu_index = 0, cu_operations = 0 \<rparr>"

function advance_to :: "run_cursor \<Rightarrow> nat \<Rightarrow> run_cursor" where
  "advance_to c offset =
     (if cu_index c < length (cu_runs c) \<and> run_end (cu_runs c ! cu_index c) \<le> offset
      then advance_to (c\<lparr> cu_index := cu_index c + 1, cu_operations := cu_operations c + 1 \<rparr>) offset
      else c)"
  by pat_completeness auto
termination by (relation "measure (\<lambda>(c, _). length (cu_runs c) - cu_index c)") auto

declare advance_to.simps [simp del]

definition style_extent_at :: "run_cursor \<Rightarrow> nat \<Rightarrow> (inline_style \<times> nat) \<times> run_cursor" where
  "style_extent_at c offset =
     (let c = advance_to c offset in
      if length (cu_runs c) \<le> cu_index c then ((PLAIN, offset), c)
      else
        (let run = cu_runs c ! cu_index c;
             c = c\<lparr> cu_operations := cu_operations c + 1 \<rparr>
         in if run_start run \<le> offset \<and> offset < run_end run then ((run_style run, run_end run), c)
            else ((PLAIN, offset), c)))"

definition cursor_style_at :: "run_cursor \<Rightarrow> nat \<Rightarrow> inline_style \<times> run_cursor" where
  "cursor_style_at c offset = (let ((st, _), c) = style_extent_at c offset in (st, c))"

text \<open>\<open>for_each_overlap\<close>; the calls of its closure are the returned list.\<close>

function overlap_loop :: "nat \<Rightarrow> nat \<Rightarrow> run_cursor \<Rightarrow> (nat \<times> nat \<times> inline_style) list \<times> run_cursor" where
  "overlap_loop a b c =
     (if length (cu_runs c) \<le> cu_index c then ([], c)
      else
        (let run = cu_runs c ! cu_index c in
         if b \<le> run_start run then ([], c)
         else
           (let c = c\<lparr> cu_operations := cu_operations c + 1 \<rparr>;
                lo = max (run_start run) a;
                hi = min (run_end run) b;
                visited = (if lo < hi then [(lo, hi, run_style run)] else [])
            in if run_end run \<le> b
               then (let (more, c) = overlap_loop a b (c\<lparr> cu_index := cu_index c + 1 \<rparr>)
                     in (visited @ more, c))
               else (visited, c))))"
  by pat_completeness auto
termination by (relation "measure (\<lambda>(_, _, c). length (cu_runs c) - cu_index c)") auto

declare overlap_loop.simps [simp del]

definition for_each_overlap :: "run_cursor \<Rightarrow> nat \<Rightarrow> nat \<Rightarrow> (nat \<times> nat \<times> inline_style) list \<times> run_cursor" where
  "for_each_overlap c a b = (if b \<le> a then ([], c) else overlap_loop a b (advance_to c a))"

section \<open>The abstract view\<close>

text \<open>The style of every byte.\<close>

definition flat :: "style_run list \<Rightarrow> inline_style list" where
  "flat runs = concat (map (\<lambda>r. replicate (run_end r - run_start r) (run_style r)) runs)"

text \<open>Runs that start at \<open>a\<close>, end at \<open>b\<close>, touch one another, are not empty and differ from their
  neighbours.\<close>

fun contiguous :: "nat \<Rightarrow> style_run list \<Rightarrow> nat \<Rightarrow> bool" where
  "contiguous a [] b = (a = b)"
| "contiguous a (r # rs) b =
     (run_start r = a \<and> a < run_end r \<and> contiguous (run_end r) rs b
      \<and> (case rs of [] \<Rightarrow> True | q # _ \<Rightarrow> run_style q \<noteq> run_style r))"

lemma flat_simps [simp]:
  "flat [] = []" "flat (r # rs) = replicate (run_end r - run_start r) (run_style r) @ flat rs"
  "flat (xs @ ys) = flat xs @ flat ys"
  by (simp_all add: flat_def)

lemma contiguous_le: "contiguous a rs b \<Longrightarrow> a \<le> b"
  by (induction a rs b rule: contiguous.induct) auto

lemma length_flat: "contiguous a rs b \<Longrightarrow> length (flat rs) = b - a"
  by (induction a rs b rule: contiguous.induct) (auto dest: contiguous_le)

lemma contiguous_snoc:
  "contiguous a (rs @ [r]) c \<longleftrightarrow>
     contiguous a rs (run_start r) \<and> run_start r < run_end r \<and> run_end r = c
     \<and> (rs \<noteq> [] \<longrightarrow> run_style (last rs) \<noteq> run_style r)"
proof (induction rs arbitrary: a)
  case (Cons x rs)
  show ?case
  proof (cases rs)
    case Nil
    show ?thesis unfolding Nil by auto
  next
    case (Cons y ys)
    have "contiguous a ((x # rs) @ [r]) c \<longleftrightarrow> run_start x = a \<and> a < run_end x
        \<and> contiguous (run_end x) (rs @ [r]) c \<and> run_style y \<noteq> run_style x"
      unfolding Cons by simp
    also have "\<dots> \<longleftrightarrow> contiguous a (x # rs) (run_start r) \<and> run_start r < run_end r \<and> run_end r = c
        \<and> run_style (last rs) \<noteq> run_style r"
      unfolding Cons.IH using Cons by auto
    finally show ?thesis using Cons by simp
  qed
qed auto

lemma push_contiguous:
  assumes "contiguous 0 runs a" "a \<le> b"
  shows "contiguous 0 (push_style_run runs a b st) b
    \<and> flat (push_style_run runs a b st) = flat runs @ replicate (b - a) st"
proof (cases "b \<le> a")
  case True
  then show ?thesis using assms by (simp add: push_style_run_def)
next
  case False
  show ?thesis
  proof (cases "runs = []")
    case True
    then show ?thesis using assms False by (simp add: push_style_run_def)
  next
    case ne: False
    then obtain rs r where runs: "runs = rs @ [r]" by (metis append_butlast_last_id)
    have r: "contiguous 0 rs (run_start r)" "run_start r < run_end r" "run_end r = a"
      "rs \<noteq> [] \<longrightarrow> run_style (last rs) \<noteq> run_style r"
      using assms(1) by (simp_all add: runs contiguous_snoc)
    have "replicate (b - run_start r) (run_style r) =
        replicate (a - run_start r) (run_style r) @ replicate (b - a) (run_style r)"
      using r False by (simp flip: replicate_add)
    moreover have "contiguous 0 ((rs @ [r]) @ [mk_run a b st]) b" if "run_style r \<noteq> st"
      using assms(1) False that by (subst contiguous_snoc) (simp add: runs)
    ultimately show ?thesis
      using r False runs by (auto simp: push_style_run_def contiguous_snoc)
  qed
qed

lemma push_empty [simp]: "b \<le> a \<Longrightarrow> push_style_run runs a b st = runs"
  by (simp add: push_style_run_def)

text \<open>Normalising runs that already touch one another changes nothing but merges equal neighbours.\<close>

fun touching :: "nat \<Rightarrow> style_run list \<Rightarrow> nat \<Rightarrow> bool" where
  "touching a [] b = (a = b)"
| "touching a (r # rs) b = (run_start r = a \<and> a \<le> run_end r \<and> touching (run_end r) rs b)"

lemma touching_le: "touching a rs b \<Longrightarrow> a \<le> b"
  by (induction a rs b rule: touching.induct) auto

lemma touching_append: "touching a (xs @ ys) c \<longleftrightarrow> (\<exists>b. touching a xs b \<and> touching b ys c)"
  by (induction a xs c rule: touching.induct) (auto dest: touching_le)

lemma contiguous_touching: "contiguous a rs b \<Longrightarrow> touching a rs b"
  by (induction a rs b rule: contiguous.induct) auto

lemma normalize_loop_touching:
  assumes "contiguous 0 out cursor" "touching cursor old len"
  shows "case normalize_loop len cursor out old of (c, res) \<Rightarrow>
    c = len \<and> contiguous 0 res len \<and> flat res = flat out @ flat old"
  using assms
proof (induction old arbitrary: cursor out)
  case (Cons run old)
  have t: "run_start run = cursor" "cursor \<le> run_end run" "run_end run \<le> len"
    "touching (run_end run) old len"
    using Cons.prems(2) touching_le by auto
  have step: "normalize_loop len cursor out (run # old) =
      normalize_loop len (run_end run) (push_style_run out cursor (run_end run) (run_style run)) old"
    using t by (simp add: Let_def min_def max_def)
  show ?case
    using Cons.IH[of "push_style_run out cursor (run_end run) (run_style run)" "run_end run"] t
      push_contiguous[OF Cons.prems(1) t(2)]
    unfolding step by (auto split: prod.splits)
qed auto

lemma normalize_touching:
  assumes "touching 0 runs len"
  shows "contiguous 0 (normalize_runs len runs) len \<and> flat (normalize_runs len runs) = flat runs"
  using normalize_loop_touching[of "[]" 0 runs len] assms
  by (auto simp: normalize_runs_def split: prod.splits)

text \<open>Whatever the runs, normalising yields runs of the whole text.\<close>

lemma normalize_loop_total:
  assumes "contiguous 0 out cursor" "cursor \<le> len"
  shows "case normalize_loop len cursor out old of (c, res) \<Rightarrow> contiguous 0 res c \<and> c \<le> len"
  using assms
proof (induction old arbitrary: cursor out)
  case (Cons run old)
  define a where "a = min (max (run_start run) cursor) len"
  define b where "b = min (max (run_end run) a) len"
  define out' where "out' = (if cursor < a then push_style_run out cursor a PLAIN else out)"
  have le: "cursor \<le> a" "a \<le> b" "b \<le> len" using Cons.prems(2) by (auto simp: a_def b_def)
  have "contiguous 0 out' a"
    using push_contiguous[OF Cons.prems(1) le(1)] Cons.prems(1) le(1) by (auto simp: out'_def)
  from push_contiguous[OF this le(2)]
  have "contiguous 0 (push_style_run out' a b (run_style run)) b" by blast
  note ih = Cons.IH[OF this le(3)]
  have step: "normalize_loop len cursor out (run # old) =
      normalize_loop len b (push_style_run out' a b (run_style run)) old"
    by (simp add: Let_def a_def b_def out'_def)
  from ih show ?case
    unfolding step .
qed simp

lemma normalize_contiguous: "contiguous 0 (normalize_runs len runs) len"
proof -
  obtain c res where eq: "normalize_loop len 0 [] runs = (c, res)" by force
  have "contiguous 0 res c \<and> c \<le> len"
    using normalize_loop_total[of "[]" 0 len runs] eq by simp
  then show ?thesis
    using push_contiguous[of res c len PLAIN] eq by (auto simp: normalize_runs_def)
qed

text \<open>Normalised runs are determined by the styles of the bytes.\<close>

lemma contiguous_unique:
  "contiguous a xs b \<Longrightarrow> contiguous a ys b \<Longrightarrow> flat xs = flat ys \<Longrightarrow> xs = ys"
proof (induction xs arbitrary: a ys)
  case Nil
  then show ?case by (cases ys) (auto dest: contiguous_le)
next
  case (Cons x xs)
  from Cons.prems(1) have "a < b" using contiguous_le by fastforce
  then obtain y ys' where ys: "ys = y # ys'" using Cons.prems(2) by (cases ys) auto
  have x: "run_start x = a" "a < run_end x" "contiguous (run_end x) xs b"
    and y: "run_start y = a" "a < run_end y" "contiguous (run_end y) ys' b"
    using Cons.prems ys by auto
  have fl: "replicate (run_end x - a) (run_style x) @ flat xs = replicate (run_end y - a) (run_style y) @ flat ys'"
    using Cons.prems(3) ys x(1) y(1) by simp
  have st: "run_style x = run_style y"
    using arg_cong[OF fl, of hd] x(2) y(2) by (cases "run_end x - a"; cases "run_end y - a") auto
  have nx: "xs \<noteq> [] \<Longrightarrow> flat xs \<noteq> [] \<and> hd (flat xs) \<noteq> run_style x"
    using Cons.prems(1) x(3) by (cases xs) (auto simp: hd_append hd_replicate)
  have ny: "ys' \<noteq> [] \<Longrightarrow> flat ys' \<noteq> [] \<and> hd (flat ys') \<noteq> run_style y"
    using Cons.prems(2) ys y(3) by (cases ys') (auto simp: hd_append hd_replicate)
  have len: "length (flat xs) = b - run_end x" "length (flat ys') = b - run_end y"
    using length_flat x(3) y(3) by blast+
  have "run_end x = run_end y"
  proof (rule ccontr)
    assume ne: "run_end x \<noteq> run_end y"
    consider "run_end x < run_end y" | "run_end y < run_end x" using ne by linarith
    then show False
    proof cases
      case 1
      then have "xs \<noteq> []" using x(3) contiguous_le[OF y(3)] by auto
      have "(replicate (run_end x - a) (run_style x) @ flat xs) ! (run_end x - a) = hd (flat xs)"
        using nx[OF \<open>xs \<noteq> []\<close>] by (simp add: nth_append hd_conv_nth)
      moreover have "(replicate (run_end y - a) (run_style y) @ flat ys') ! (run_end x - a) = run_style y"
        using diff_less_mono[of "run_end x" "run_end y" a] 1 x(2) by (simp add: nth_append)
      ultimately show False using fl nx[OF \<open>xs \<noteq> []\<close>] st by simp
    next
      case 2
      then have "ys' \<noteq> []" using y(3) contiguous_le[OF x(3)] by auto
      have "(replicate (run_end y - a) (run_style y) @ flat ys') ! (run_end y - a) = hd (flat ys')"
        using ny[OF \<open>ys' \<noteq> []\<close>] by (simp add: nth_append hd_conv_nth)
      moreover have "(replicate (run_end x - a) (run_style x) @ flat xs) ! (run_end y - a) = run_style x"
        using diff_less_mono[of "run_end y" "run_end x" a] 2 y(2) by (simp add: nth_append)
      ultimately show False using fl ny[OF \<open>ys' \<noteq> []\<close>] st by simp
    qed
  qed
  then show ?case
    using Cons.IH[of "run_end x" ys'] x y fl st ys by (auto intro: style_run.equality)
qed

end
