(* ===== verification/EditorMarkdown.thy ===== *)
theory EditorMarkdown
  imports EditorRuns
begin

text \<open>
  Markdown in \<open>crates/key-editor-core/src/lib.rs\<close>: the parser of block prefixes and inline styles with
  its index of backtick runs, the canonical writer, and the size check that mirrors the writer
  without building its outp.
\<close>

definition backslash :: char where "backslash = CHR 0x5C"
definition backtick :: char where "backtick = CHR 0x60"
definition star :: char where "star = CHR ''*''"

section \<open>Blocks\<close>

datatype block_kind = Paragraph | Heading1 | Heading2 | Heading3 | Bulleted | Numbered | Quote

definition looks_numbered_prefix :: "string \<Rightarrow> nat option" where
  "looks_numbered_prefix line =
     (let digits = length (takeWhile is_ascii_digit line)
      in if 0 < digits \<and> take 2 (drop digits line) = ''. '' then Some (digits + 2) else None)"

definition strip_prefix :: "string \<Rightarrow> string \<Rightarrow> string option" where
  "strip_prefix p s = (if starts_with p s then Some (drop (length p) s) else None)"

definition parse_block_prefix :: "string \<Rightarrow> block_kind \<times> string" where
  "parse_block_prefix line =
     (case strip_prefix ''### '' line of Some rest \<Rightarrow> (Heading3, rest) | None \<Rightarrow>
      case strip_prefix ''## '' line of Some rest \<Rightarrow> (Heading2, rest) | None \<Rightarrow>
      case strip_prefix ''# '' line of Some rest \<Rightarrow> (Heading1, rest) | None \<Rightarrow>
      case strip_prefix ''- '' line of Some rest \<Rightarrow> (Bulleted, rest) | None \<Rightarrow>
      case looks_numbered_prefix line of Some n \<Rightarrow> (Numbered, drop n line) | None \<Rightarrow>
      case strip_prefix ''> '' line of Some rest \<Rightarrow> (Quote, rest) | None \<Rightarrow> (Paragraph, line))"

fun block_prefix :: "block_kind \<Rightarrow> string" where
  "block_prefix Paragraph = ''''"
| "block_prefix Heading1 = ''# ''"
| "block_prefix Heading2 = ''## ''"
| "block_prefix Heading3 = ''### ''"
| "block_prefix Bulleted = ''- ''"
| "block_prefix Numbered = ''1. ''"
| "block_prefix Quote = ''> ''"

section \<open>The index of backtick runs\<close>

text \<open>The runs as pairs of length and start, in the order of the text.\<close>

function backtick_runs :: "nat \<Rightarrow> string \<Rightarrow> (nat \<times> nat) list" where
  "backtick_runs i s =
     (case s of [] \<Rightarrow> []
      | c # _ \<Rightarrow>
          if c = backtick
          then (let n = length (takeWhile (\<lambda>x. x = backtick) s)
                in (n, i) # backtick_runs (i + n) (drop n s))
          else backtick_runs (i + char_width c) (drop (char_width c) s))"
  by pat_completeness auto
termination by (relation "measure (\<lambda>(_, s). length s)") auto

declare backtick_runs.simps [simp del]

record backtick_index =
  bi_positions :: "nat \<Rightarrow> nat list"
  bi_cursors :: "(nat, nat) hash_map"
  bi_indexed_bytes :: nat
  bi_positions_advanced :: nat

definition backtick_index_new :: "string \<Rightarrow> backtick_index" where
  "backtick_index_new source =
     \<lparr> bi_positions = (\<lambda>n. map snd (filter (\<lambda>(m, _). m = n) (backtick_runs 0 source))),
       bi_cursors = [], bi_indexed_bytes = length source, bi_positions_advanced = 0 \<rparr>"

definition next_run :: "nat \<Rightarrow> nat \<Rightarrow> backtick_index \<Rightarrow> nat option \<times> backtick_index" where
  "next_run n minimum_start ix =
     (let positions = bi_positions ix n in
      if positions = [] then (None, ix)
      else
        (let cursor = (case map_of (bi_cursors ix) n of None \<Rightarrow> 0 | Some c \<Rightarrow> c);
             skipped = length (takeWhile (\<lambda>p. p < minimum_start) (drop cursor positions));
             cursor = cursor + skipped
         in ((if cursor < length positions then Some (positions ! cursor) else None),
             ix\<lparr> bi_cursors := hm_insert n cursor (bi_cursors ix),
                bi_positions_advanced := bi_positions_advanced ix + skipped \<rparr>)))"

section \<open>Inline styles\<close>

function find_unescaped_marker :: "string \<Rightarrow> nat \<Rightarrow> string \<Rightarrow> nat option" where
  "find_unescaped_marker source index marker =
     (if length source \<le> index then None
      else if source ! index = backslash then
        find_unescaped_marker source
          (if index + 1 < length source then index + 1 + char_width (source ! (index + 1)) else index + 1) marker
      else if starts_with marker (drop index source) then Some index
      else find_unescaped_marker source (index + char_width (source ! index)) marker)"
  by pat_completeness auto
termination
  by (relation "measure (\<lambda>(source, index, _). length source - index)") (auto intro: diff_less_mono2)

declare find_unescaped_marker.simps [simp del]

fun unescape_chars :: "string list \<Rightarrow> string" where
  "unescape_chars [] = []"
| "unescape_chars [c] = c"
| "unescape_chars (c # d # cs) =
     (if c = [backslash] then d @ unescape_chars cs else c @ unescape_chars (d # cs))"

definition unescape_inline :: "string \<Rightarrow> string" where
  "unescape_inline source = unescape_chars (chars source)"

definition append_piece :: "string \<Rightarrow> inline_style \<Rightarrow> string \<times> style_run list \<Rightarrow> string \<times> style_run list" where
  "append_piece piece style = (\<lambda>(outp, runs).
     if piece = [] then (outp, runs)
     else (outp @ piece, push_style_run runs (length outp) (length outp + length piece) style))"

record inline_parse =
  ip_out :: "string \<times> style_run list"
  ip_index :: backtick_index
  ip_parse_steps :: nat
  ip_delimiter_queries :: nat

definition inline_marker :: "string \<Rightarrow> (string \<times> inline_style) option" where
  "inline_marker rest =
     (if starts_with ''***'' rest then Some (''***'', BOLD OR ITALIC)
      else if starts_with ''**'' rest then Some (''**'', BOLD)
      else if starts_with ''*'' rest then Some (''*'', ITALIC)
      else None)"

text \<open>One turn of the parse loop: the index after it and the parser.\<close>

definition parse_step :: "string \<Rightarrow> nat \<Rightarrow> inline_parse \<Rightarrow> nat \<times> inline_parse" where
  "parse_step source index st =
     (let st = st\<lparr> ip_parse_steps := ip_parse_steps st + 1 \<rparr>;
          plain = (\<lambda>e st. (e, st\<lparr> ip_out :=
            append_piece (take (e - index) (drop index source)) PLAIN (ip_out st) \<rparr>))
      in if source ! index = backslash then
           (if index + 1 < length source
            then (let e = index + 1 + char_width (source ! (index + 1))
                  in (e, st\<lparr> ip_out := append_piece (take (e - (index + 1)) (drop (index + 1) source)) PLAIN (ip_out st) \<rparr>))
            else (index + 1, st\<lparr> ip_out := append_piece [backslash] PLAIN (ip_out st) \<rparr>))
         else if source ! index = backtick then
           (let fence = length (takeWhile (\<lambda>c. c = backtick) (drop index source));
                (found, ix) = next_run fence (index + fence) (ip_index st);
                st = st\<lparr> ip_index := ix, ip_delimiter_queries := ip_delimiter_queries st + 1 \<rparr>
            in case found of
                 Some content_end \<Rightarrow>
                   (content_end + fence, st\<lparr> ip_out :=
                      append_piece (take (content_end - (index + fence)) (drop (index + fence) source)) CODE (ip_out st) \<rparr>)
               | None \<Rightarrow> plain (index + fence) st)
         else
           (case inline_marker (drop index source) of
              None \<Rightarrow> plain (index + char_width (source ! index)) st
            | Some (marker, style) \<Rightarrow>
                (case find_unescaped_marker source (index + length marker) marker of
                   None \<Rightarrow> plain (index + char_width (source ! index)) st
                 | Some e \<Rightarrow>
                     (e + length marker, st\<lparr> ip_out := append_piece
                        (unescape_inline (take (e - (index + length marker)) (drop (index + length marker) source)))
                        style (ip_out st) \<rparr>))))"

text \<open>Every turn advances, on any bytes: the marker and the run of backticks that are found lie behind the index.\<close>

lemma next_run_behind:
  assumes "next_run n m ix = (Some p, ix')"
  shows "m \<le> p"
proof -
  define c where "c = (case map_of (bi_cursors ix) n of None \<Rightarrow> 0 | Some c \<Rightarrow> c)"
  let ?rest = "drop c (bi_positions ix n)"
  let ?k = "length (takeWhile (\<lambda>p. p < m) ?rest)"
  have "c + ?k < length (bi_positions ix n)" and p: "p = bi_positions ix n ! (c + ?k)"
    using assms by (auto simp: next_run_def c_def[symmetric] Let_def split: if_splits)
  then have k: "?k < length ?rest" by simp
  show ?thesis using nth_length_takeWhile[OF k] k p by simp
qed

lemma find_unescaped_marker_behind: "find_unescaped_marker source index marker = Some e \<Longrightarrow> index \<le> e"
proof (induction source index marker rule: find_unescaped_marker.induct)
  case (1 source index marker)
  show ?case
    using 1 by (subst (asm) (3) find_unescaped_marker.simps) (fastforce split: if_splits)
qed

lemma inline_marker_nonempty: "inline_marker rest = Some (marker, style) \<Longrightarrow> 0 < length marker"
  by (auto simp: inline_marker_def split: if_splits)

lemma parse_step_advances:
  assumes "index < length source"
  shows "index < fst (parse_step source index st)"
proof -
  define n where "n = length (takeWhile (\<lambda>c. c = backtick) (drop index source))"
  have n: "0 < n" if "source ! index = backtick"
    using that assms unfolding n_def by (cases "drop index source") (auto simp: nth_via_drop)
  obtain found ix where nr: "next_run n (index + n) (ip_index st) = (found, ix)" by fastforce
  consider (escape) "source ! index = backslash" | (fence) "source ! index \<noteq> backslash" "source ! index = backtick"
    | (other) "source ! index \<noteq> backslash" "source ! index \<noteq> backtick" by blast
  then show ?thesis
  proof cases
    case escape
    then show ?thesis by (simp add: parse_step_def Let_def)
  next
    case fence
    then show ?thesis using n nr next_run_behind[of n "index + n" "ip_index st"]
      by (cases found) (fastforce simp: parse_step_def Let_def n_def[symmetric])+
  next
    case other
    show ?thesis
    proof (cases "inline_marker (drop index source)")
      case (Some ms)
      obtain marker style where ms: "ms = (marker, style)" by fastforce
      have m: "0 < length marker" using inline_marker_nonempty Some ms by blast
      show ?thesis
      proof (cases "find_unescaped_marker source (index + length marker) marker")
        case (Some e)
        then have "index + length marker \<le> e" by (rule find_unescaped_marker_behind)
        then have "index < e + length marker" using m by linarith
        then show ?thesis using other \<open>inline_marker _ = _\<close> ms Some by (simp add: parse_step_def Let_def)
      qed (use other \<open>inline_marker _ = _\<close> ms in \<open>simp add: parse_step_def Let_def\<close>)
    qed (use other in \<open>simp add: parse_step_def Let_def\<close>)
  qed
qed

function parse_loop :: "string \<Rightarrow> nat \<Rightarrow> inline_parse \<Rightarrow> inline_parse" where
  "parse_loop source index st =
     (if index < length source then (let (index', st') = parse_step source index st in parse_loop source index' st')
      else st)"
  by pat_completeness auto
termination
proof (relation "measure (\<lambda>(source, index, _). length source - index)")
  fix source :: string and index index' :: nat and st st' :: inline_parse and x
  assume "index < length source" "x = parse_step source index st" "(index', st') = x"
  then show "((source, index', st'), (source, index, st)) \<in> measure (\<lambda>(source, index, _). length source - index)"
    using parse_step_advances[of index source st] by (cases "parse_step source index st") (auto intro: diff_less_mono2)
qed simp

declare parse_loop.simps [simp del]

definition parse_inline_with_operations :: "string \<Rightarrow> string \<times> style_run list \<Rightarrow> inline_parse" where
  "parse_inline_with_operations source out =
     parse_loop source 0 \<lparr> ip_out = out, ip_index = backtick_index_new source,
       ip_parse_steps = 0, ip_delimiter_queries = 0 \<rparr>"

definition parse_inline :: "string \<Rightarrow> string \<times> style_run list \<Rightarrow> string \<times> style_run list" where
  "parse_inline source out = ip_out (parse_inline_with_operations source out)"

section \<open>Parsing\<close>

fun split_lines :: "string \<Rightarrow> string list" where
  "split_lines [] = [[]]"
| "split_lines (c # s) =
     (if c = newline then [] # split_lines s
      else (case split_lines s of l # ls \<Rightarrow> (c # l) # ls | [] \<Rightarrow> [[c]]))"

text \<open>The loop over the source lines; \<open>first\<close> is \<open>line_index = 0\<close>.\<close>

fun parse_lines :: "bool \<Rightarrow> string list \<Rightarrow> string \<times> style_run list \<Rightarrow> block_kind list
    \<Rightarrow> (string \<times> style_run list) \<times> block_kind list" where
  "parse_lines first [] out blocks = (out, blocks)"
| "parse_lines first (source_line # rest) out blocks =
     (let out = (if first then out
                 else (fst out @ [newline],
                       push_style_run (snd out) (length (fst out)) (length (fst out) + 1) PLAIN));
          (kind, line) = parse_block_prefix source_line
      in parse_lines False rest (parse_inline line out) (blocks @ [kind]))"

section \<open>Writing\<close>

fun longest_run_from :: "nat \<Rightarrow> nat \<Rightarrow> string \<Rightarrow> nat" where
  "longest_run_from longest current [] = longest"
| "longest_run_from longest current (c # s) =
     (if c = backtick then longest_run_from (max longest (current + 1)) (current + 1) s
      else longest_run_from longest 0 s)"

definition longest_backtick_run :: "string \<Rightarrow> nat" where
  "longest_backtick_run s = longest_run_from 0 0 s"

definition escape_inline :: "string \<Rightarrow> string" where
  "escape_inline s = concat (map (\<lambda>c. if c = backslash \<or> c = star \<or> c = backtick then [backslash, c] else [c]) s)"

definition style_marker :: "inline_style \<Rightarrow> string" where
  "style_marker st =
     (if style_bold st then (if style_italic st then ''***'' else ''**'')
      else if style_italic st then ''*'' else '''')"

definition encode_inline :: "string \<Rightarrow> inline_style \<Rightarrow> string" where
  "encode_inline source style =
     (if source = [] then []
      else if style_code style
      then (let fence = replicate (longest_backtick_run source + 1) backtick in fence @ source @ fence)
      else style_marker style @ escape_inline source @ style_marker style)"

definition encoded_inline_len :: "string \<Rightarrow> inline_style \<Rightarrow> nat option" where
  "encoded_inline_len source style =
     (if source = [] then Some 0
      else if style_code style then
        (case checked_usize (longest_backtick_run source) 1 of None \<Rightarrow> None
         | Some fence \<Rightarrow> (case checked_usize fence fence of None \<Rightarrow> None
           | Some both \<Rightarrow> checked_usize (length source) both))
      else
        (case checked_usize (length source)
                (length (filter (\<lambda>c. c = backslash \<or> c = star \<or> c = backtick) source)) of
           None \<Rightarrow> None
         | Some escaped \<Rightarrow> checked_usize escaped (length (style_marker style) * 2)))"

definition slice :: "string \<Rightarrow> nat \<Rightarrow> nat \<Rightarrow> string" where
  "slice s a b = take (b - a) (drop a s)"

definition paragraph_prefix_needs_escape :: "string \<Rightarrow> nat \<Rightarrow> nat \<Rightarrow> inline_style \<Rightarrow> nat \<Rightarrow> bool" where
  "paragraph_prefix_needs_escape text a b first_style first_run_end =
     (if a = b \<or> first_style \<noteq> PLAIN then False
      else
        (let prefix = slice text a (min first_run_end b)
         in starts_with ''- '' prefix \<or> looks_numbered_prefix prefix \<noteq> None))"

fun markdown_lines :: "string \<Rightarrow> bool \<Rightarrow> string \<Rightarrow> run_cursor \<Rightarrow> (block_kind \<times> nat \<times> nat) list \<Rightarrow> string \<times> run_cursor" where
  "markdown_lines body first outp cursor [] = (outp, cursor)"
| "markdown_lines body first outp cursor ((kind, a, b) # lines) =
     (let outp = (if first then outp else outp @ [newline]) @ block_prefix kind;
          ((first_style, first_run_end), cursor) = style_extent_at cursor a;
          outp = (if kind = Paragraph \<and> paragraph_prefix_needs_escape body a b first_style first_run_end
                    then outp @ [backslash] else outp);
          (pieces, cursor) = for_each_overlap cursor a b
      in markdown_lines body False
           (outp @ concat (map (\<lambda>(lo, hi, style). encode_inline (slice body lo hi) style) pieces))
           cursor lines)"

definition markdown_with_run_operations :: "string \<Rightarrow> style_run list \<Rightarrow> block_kind list \<Rightarrow> string \<times> nat" where
  "markdown_with_run_operations body runs blocks =
     (let (outp, cursor) = markdown_lines body True [] (cursor_new runs) (zip blocks (line_ranges body))
      in (outp, cu_operations cursor))"

section \<open>The size check\<close>

definition add_with_limit :: "nat \<Rightarrow> nat \<Rightarrow> nat \<Rightarrow> nat option" where
  "add_with_limit tot additional limit =
     (case checked_usize tot additional of None \<Rightarrow> None
      | Some updated \<Rightarrow> if limit < updated then None else Some updated)"

definition block_prefix_len :: "block_kind \<Rightarrow> nat" where
  "block_prefix_len kind = (case kind of Paragraph \<Rightarrow> 0 | Heading1 \<Rightarrow> 2 | Heading2 \<Rightarrow> 3 | Heading3 \<Rightarrow> 4
     | Bulleted \<Rightarrow> 2 | Numbered \<Rightarrow> 3 | Quote \<Rightarrow> 2)"

text \<open>The closure given to \<open>for_each_overlap\<close>: \<open>None\<close> is \<open>fits = false\<close>, after which it does nothing.\<close>

fun add_pieces :: "string \<Rightarrow> nat \<Rightarrow> nat option \<Rightarrow> (nat \<times> nat \<times> inline_style) list \<Rightarrow> nat option" where
  "add_pieces body limit None pieces = None"
| "add_pieces body limit (Some tot) [] = Some tot"
| "add_pieces body limit (Some tot) ((lo, hi, style) # pieces) =
     add_pieces body limit
       (case encoded_inline_len (slice body lo hi) style of
          None \<Rightarrow> None | Some n \<Rightarrow> add_with_limit tot n limit) pieces"

fun fits_lines :: "string \<Rightarrow> nat \<Rightarrow> bool \<Rightarrow> nat \<Rightarrow> run_cursor \<Rightarrow> (block_kind \<times> nat \<times> nat) list \<Rightarrow> bool \<times> nat" where
  "fits_lines body limit first tot cursor [] = (True, cu_operations cursor)"
| "fits_lines body limit first tot cursor ((kind, a, b) # lines) =
     (case (if first then Some tot else add_with_limit tot 1 limit) of
        None \<Rightarrow> (False, cu_operations cursor)
      | Some tot \<Rightarrow>
     (case add_with_limit tot (block_prefix_len kind) limit of
        None \<Rightarrow> (False, cu_operations cursor)
      | Some tot \<Rightarrow>
     (let ((first_style, first_run_end), cursor) = style_extent_at cursor a in
      case (if kind = Paragraph \<and> paragraph_prefix_needs_escape body a b first_style first_run_end
            then add_with_limit tot 1 limit else Some tot) of
        None \<Rightarrow> (False, cu_operations cursor)
      | Some tot \<Rightarrow>
     (let (pieces, cursor) = for_each_overlap cursor a b in
      case add_pieces body limit (Some tot) pieces of
        None \<Rightarrow> (False, cu_operations cursor)
      | Some tot \<Rightarrow> fits_lines body limit False tot cursor lines))))"

definition markdown_fits_ops :: "string \<Rightarrow> style_run list \<Rightarrow> block_kind list \<Rightarrow> nat \<Rightarrow> bool \<times> nat" where
  "markdown_fits_ops body runs blocks limit =
     (if length (line_ranges body) \<noteq> length blocks then (False, 0)
      else fits_lines body limit True 0 (cursor_new runs) (zip blocks (line_ranges body)))"

definition markdown_fits_with_limit :: "string \<Rightarrow> style_run list \<Rightarrow> block_kind list \<Rightarrow> nat \<Rightarrow> bool" where
  "markdown_fits_with_limit body runs blocks limit = fst (markdown_fits_ops body runs blocks limit)"

section \<open>The check mirrors the writer\<close>

lemma encoded_inline_len:
  assumes "int limit < 2 ^ 64"
  shows "(case encoded_inline_len source style of None \<Rightarrow> None | Some n \<Rightarrow> add_with_limit tot n limit) =
    (if tot + length (encode_inline source style) \<le> limit
     then Some (tot + length (encode_inline source style)) else None)"
proof -
  have esc: "length (escape_inline source) = length source
      + length (filter (\<lambda>c. c = backslash \<or> c = star \<or> c = backtick) source)"
    unfolding escape_inline_def by (induction source) auto
  show ?thesis
    using assms
    by (auto simp: encoded_inline_len_def encode_inline_def checked_usize_def add_with_limit_def esc
        Let_def split: option.splits if_splits)
qed

lemma add_with_limit:
  "int limit < 2 ^ 64 \<Longrightarrow> add_with_limit t n limit = (if t + n \<le> limit then Some (t + n) else None)"
  by (auto simp: add_with_limit_def checked_usize_def)

lemma block_prefix_len: "block_prefix_len kind = length (block_prefix kind)"
  by (cases kind) (simp_all add: block_prefix_len_def)

lemma add_pieces:
  assumes "int limit < 2 ^ 64"
  shows "add_pieces body limit (Some tot) pieces =
    (let n = tot + length (concat (map (\<lambda>(lo, hi, style). encode_inline (slice body lo hi) style) pieces))
     in if n \<le> limit \<or> pieces = [] then Some n else None)"
proof (induction pieces arbitrary: tot)
  case (Cons p pieces)
  obtain lo hi style where p: "p = (lo, hi, style)" by (cases p)
  have none: "add_pieces body limit None pieces = None" by (cases pieces) simp_all
  show ?case
    unfolding p add_pieces.simps encoded_inline_len[OF assms]
    using Cons.IH none by (auto simp: Let_def)
qed simp

lemma length_markdown_lines: "length outp \<le> length (fst (markdown_lines body first outp cursor lines))"
proof (induction body first outp cursor lines rule: markdown_lines.induct)
  case (2 body first outp cursor kind a b lines)
  obtain st e c1 where e1: "style_extent_at cursor a = ((st, e), c1)" by (metis prod.collapse)
  obtain pieces c2 where e2: "for_each_overlap c1 a b = (pieces, c2)" by force
  show ?case using 2[OF refl e1[symmetric] refl refl refl e2[symmetric] refl] e1 e2
    by (auto simp: Let_def intro: order_trans[rotated])
qed simp

text \<open>The check succeeds exactly if what the writer would produce fits, and makes the same visits.\<close>

lemma fits_lines_mirrors:
  assumes "int limit < 2 ^ 64" "length outp \<le> limit"
  shows "fst (fits_lines body limit first (length outp) cursor lines) \<longleftrightarrow>
    length (fst (markdown_lines body first outp cursor lines)) \<le> limit"
  using assms(2)
proof (induction lines arbitrary: first outp cursor)
  case (Cons l lines)
  obtain kind a b where l: "l = (kind, a, b)" by (cases l)
  obtain st e c1 where e1: "style_extent_at cursor a = ((st, e), c1)" by (metis prod.collapse)
  obtain pieces c2 where e2: "for_each_overlap c1 a b = (pieces, c2)" by force
  define o1 where "o1 = (if first then outp else outp @ [newline])"
  define o2 where "o2 = o1 @ block_prefix kind"
  define o3 where "o3 = (if kind = Paragraph \<and> paragraph_prefix_needs_escape body a b st e then o2 @ [backslash] else o2)"
  define o4 where "o4 = o3 @ concat (map (\<lambda>(lo, hi, style). encode_inline (slice body lo hi) style) pieces)"
  have md: "markdown_lines body first outp cursor (l # lines) = markdown_lines body False o4 c2 lines"
    by (simp only: l markdown_lines.simps e1 e2 o1_def o2_def o3_def o4_def Let_def prod.case)
  have le: "length o1 \<le> length o2" "length o2 \<le> length o3" "length o3 \<le> length o4"
    "length o4 \<le> length (fst (markdown_lines body False o4 c2 lines))"
    by (simp_all add: o2_def o3_def length_markdown_lines) (simp add: o4_def o3_def o2_def)
  have 1: "(if first then Some (length outp) else add_with_limit (length outp) 1 limit) =
      (if length o1 \<le> limit then Some (length o1) else None)"
    using Cons.prems by (simp add: o1_def add_with_limit[OF assms(1)])
  have 2: "add_with_limit (length o1) (block_prefix_len kind) limit =
      (if length o2 \<le> limit then Some (length o2) else None)"
    by (simp add: o2_def add_with_limit[OF assms(1)] block_prefix_len)
  have 3: "(if kind = Paragraph \<and> paragraph_prefix_needs_escape body a b st e
        then add_with_limit (length o2) 1 limit else Some (length o2)) =
      (if length o3 \<le> limit then Some (length o3) else None)" if "length o2 \<le> limit"
    using that by (simp add: o3_def add_with_limit[OF assms(1)])
  have 4: "add_pieces body limit (Some (length o3)) pieces =
      (if length o4 \<le> limit then Some (length o4) else None)" if "length o3 \<le> limit"
    using that add_pieces[OF assms(1), of body "length o3" pieces] by (auto simp: o4_def Let_def)
  have fits: "fst (fits_lines body limit first (length outp) cursor (l # lines)) \<longleftrightarrow>
      length o4 \<le> limit \<and> fst (fits_lines body limit False (length o4) c2 lines)"
    unfolding l fits_lines.simps 1 e1 Let_def
    using 2 3 4 e2 le by auto
  show ?case
    unfolding md fits using Cons.IH[of o4 False c2] le by auto
qed simp

end
