(* ===== verification/Editor.thy ===== *)
theory Editor
  imports EditorMarkdown
begin

text \<open>
  The buffer of \<open>crates/key-editor-core/src/lib.rs\<close>: its state and every operation on it. An edit returns
  whether it was accepted and the buffer afterwards.
\<close>

section \<open>State\<close>

record editor_buffer =
  eb_text :: string
  eb_runs :: "style_run list"
  eb_blocks :: "block_kind list"
  eb_sel_start :: nat
  eb_sel_end :: nat
  eb_reversed :: bool
  eb_marked :: "(nat \<times> nat) option"
  eb_pending :: "inline_style option"
  eb_max :: nat

datatype markdown_limit = MarkdownLimitExceeded

definition DEFAULT_MAX_MARKDOWN_BYTES :: nat where
  "DEFAULT_MAX_MARKDOWN_BYTES = 1024 * 1024"

definition parse_markdown :: "string \<Rightarrow> nat \<Rightarrow> editor_buffer" where
  "parse_markdown source max_bytes =
     (let ((txt, runs), blocks) = parse_lines True (split_lines (normalize_newlines source)) ([], []) [];
          blocks = (if blocks = [] then [Paragraph] else blocks)
      in \<lparr> eb_text = txt, eb_runs = normalize_runs (length txt) runs, eb_blocks = blocks,
           eb_sel_start = length txt, eb_sel_end = length txt, eb_reversed = False,
           eb_marked = None, eb_pending = None, eb_max = max_bytes \<rparr>)"

definition editor_new :: editor_buffer where
  "editor_new = parse_markdown [] DEFAULT_MAX_MARKDOWN_BYTES"

definition with_max_markdown_bytes :: "nat \<Rightarrow> editor_buffer" where
  "with_max_markdown_bytes n = parse_markdown [] n"

definition fits_persistence_limit :: "editor_buffer \<Rightarrow> bool" where
  "fits_persistence_limit b = markdown_fits_with_limit (eb_text b) (eb_runs b) (eb_blocks b) (eb_max b)"

definition try_from_markdown_with_limit :: "string \<Rightarrow> nat \<Rightarrow> (markdown_limit, editor_buffer) rust_result" where
  "try_from_markdown_with_limit source max_bytes =
     (if max_bytes < length source then Inl MarkdownLimitExceeded
      else
        (let b = parse_markdown source max_bytes in
         if fits_persistence_limit b then Inr b else Inl MarkdownLimitExceeded))"

definition try_from_markdown :: "string \<Rightarrow> (markdown_limit, editor_buffer) rust_result" where
  "try_from_markdown source = try_from_markdown_with_limit source DEFAULT_MAX_MARKDOWN_BYTES"

definition markdown :: "editor_buffer \<Rightarrow> string" where
  "markdown b = fst (markdown_with_run_operations (eb_text b) (eb_runs b) (eb_blocks b))"

definition sel_empty :: "editor_buffer \<Rightarrow> bool" where
  "sel_empty b = (\<not> eb_sel_start b < eb_sel_end b)"

definition cursor_offset :: "editor_buffer \<Rightarrow> nat" where
  "cursor_offset b = (if eb_reversed b then eb_sel_start b else eb_sel_end b)"

section \<open>The selection\<close>

definition set_selection :: "nat \<Rightarrow> nat \<Rightarrow> bool \<Rightarrow> editor_buffer \<Rightarrow> editor_buffer" where
  "set_selection a e reversed b =
     (let a = floor_char_boundary (eb_text b) (min a (length (eb_text b)));
          e = floor_char_boundary (eb_text b) (min e (length (eb_text b)));
          b = b\<lparr> eb_sel_start := min a e, eb_sel_end := max a e \<rparr>
      in b\<lparr> eb_reversed := reversed \<and> \<not> sel_empty b, eb_pending := None \<rparr>)"

definition move_to :: "nat \<Rightarrow> editor_buffer \<Rightarrow> editor_buffer" where
  "move_to offset b =
     (let offset = floor_char_boundary (eb_text b) (min offset (length (eb_text b)))
      in b\<lparr> eb_sel_start := offset, eb_sel_end := offset, eb_reversed := False, eb_pending := None \<rparr>)"

definition select_to :: "nat \<Rightarrow> editor_buffer \<Rightarrow> editor_buffer" where
  "select_to offset b =
     (let offset = floor_char_boundary (eb_text b) (min offset (length (eb_text b)));
          anchor = (if eb_reversed b then eb_sel_end b else eb_sel_start b)
      in b\<lparr> eb_sel_start := min anchor offset, eb_sel_end := max anchor offset,
            eb_reversed := offset < anchor, eb_pending := None \<rparr>)"

definition select_all :: "editor_buffer \<Rightarrow> editor_buffer" where
  "select_all b = b\<lparr> eb_sel_start := 0, eb_sel_end := length (eb_text b), eb_reversed := False, eb_pending := None \<rparr>"

definition clear_marked_range :: "editor_buffer \<Rightarrow> editor_buffer" where
  "clear_marked_range b = b\<lparr> eb_marked := None \<rparr>"

section \<open>Replacing text\<close>

definition style_for_insertion :: "editor_buffer \<Rightarrow> nat \<Rightarrow> inline_style" where
  "style_for_insertion b offset =
     (if eb_text b = [] then PLAIN
      else
        (let probe = (if offset = length (eb_text b) then previous_char_boundary (eb_text b) offset else offset)
         in case find (\<lambda>r. run_start r \<le> probe \<and> probe < run_end r) (eb_runs b) of
              Some r \<Rightarrow> run_style r | None \<Rightarrow> PLAIN))"

text \<open>The two loops over the old runs: what is kept before the replaced range, and what is shifted
  behind the inserted text.\<close>

fun keep_before :: "nat \<Rightarrow> style_run list \<Rightarrow> style_run list \<Rightarrow> style_run list" where
  "keep_before a out [] = out"
| "keep_before a out (run # runs) =
     keep_before a
       (if run_end run \<le> a then push_style_run out (run_start run) (run_end run) (run_style run)
        else if run_start run < a then push_style_run out (run_start run) a (run_style run)
        else out) runs"

fun shift_after :: "nat \<Rightarrow> nat \<Rightarrow> nat \<Rightarrow> nat \<Rightarrow> style_run list \<Rightarrow> style_run list \<Rightarrow> style_run list" where
  "shift_after e removed inserted new_end out [] = out"
| "shift_after e removed inserted new_end out (run # runs) =
     shift_after e removed inserted new_end
       (if e \<le> run_start run
        then push_style_run out (run_start run - removed + inserted) (run_end run - removed + inserted) (run_style run)
        else if e < run_end run
        then push_style_run out new_end (new_end + (run_end run - e)) (run_style run)
        else out) runs"

definition splice_blocks :: "nat \<Rightarrow> nat \<Rightarrow> nat \<Rightarrow> block_kind list \<Rightarrow> block_kind list" where
  "splice_blocks first until n blocks = take first blocks @ replicate n (blocks ! first) @ drop (Suc until) blocks"

text \<open>\<open>replace_range\<close>: the inserted range and the buffer, or \<open>None\<close>, in which case nothing was written.\<close>

definition replace_range :: "nat \<Rightarrow> nat \<Rightarrow> string \<Rightarrow> editor_buffer \<Rightarrow> ((nat \<times> nat) \<times> editor_buffer) option" where
  "replace_range a e replacement b =
     (let old = eb_text b;
          a = floor_char_boundary old (min a (length old));
          e = max (floor_char_boundary old (min e (length old))) a;
          removed = e - a
      in if length old < removed then None
      else
     (let retained = length old - removed;
          normalized = normalized_newline_len replacement
      in case checked_usize retained normalized of None \<Rightarrow> None
      | Some needed \<Rightarrow>
      if eb_max b < needed then None
      else
     (let replacement = normalize_newlines replacement;
          style = (case eb_pending b of Some st \<Rightarrow> st | None \<Rightarrow> style_for_insertion b a);
          new_blocks = splice_blocks (line_at_offset old a) (line_at_offset old e)
                         (length (filter (\<lambda>c. c = newline) replacement) + 1) (eb_blocks b);
          inserted = length replacement;
          new_end = a + inserted;
          new_runs = keep_before a [] (eb_runs b);
          new_runs = (if 0 < inserted then push_style_run new_runs a new_end style else new_runs);
          new_runs = shift_after e removed inserted new_end new_runs (eb_runs b);
          new_text = take a old @ replacement @ drop e old;
          new_runs = normalize_runs (length new_text) new_runs
      in if \<not> markdown_fits_with_limit new_text new_runs new_blocks (eb_max b) then None
      else Some ((a, new_end),
             b\<lparr> eb_text := new_text, eb_runs := new_runs, eb_blocks := new_blocks,
                eb_sel_start := new_end, eb_sel_end := new_end, eb_reversed := False,
                eb_pending := Some style \<rparr>))))"

text \<open>The callers that only clear the marked range after an accepted replacement.\<close>

definition replace_and_unmark :: "nat \<Rightarrow> nat \<Rightarrow> string \<Rightarrow> editor_buffer \<Rightarrow> bool \<times> editor_buffer" where
  "replace_and_unmark a e replacement b =
     (case replace_range a e replacement b of
        None \<Rightarrow> (False, b)
      | Some (_, b) \<Rightarrow> (True, b\<lparr> eb_marked := None \<rparr>))"

definition replace_selection :: "string \<Rightarrow> editor_buffer \<Rightarrow> bool \<times> editor_buffer" where
  "replace_selection replacement b = replace_and_unmark (eb_sel_start b) (eb_sel_end b) replacement b"

definition backspace :: "editor_buffer \<Rightarrow> bool \<times> editor_buffer" where
  "backspace b =
     (let (a, e) = (if sel_empty b
                    then (previous_grapheme_boundary (eb_text b) (cursor_offset b), cursor_offset b)
                    else (eb_sel_start b, eb_sel_end b))
      in replace_and_unmark a e [] b)"

definition delete_forward :: "editor_buffer \<Rightarrow> bool \<times> editor_buffer" where
  "delete_forward b =
     (let (a, e) = (if sel_empty b
                    then (cursor_offset b, next_grapheme_boundary (eb_text b) (cursor_offset b))
                    else (eb_sel_start b, eb_sel_end b))
      in replace_and_unmark a e [] b)"

section \<open>Inline styles and blocks\<close>

definition inline_active :: "u8 \<Rightarrow> editor_buffer \<Rightarrow> bool" where
  "inline_active flag b =
     (if sel_empty b
      then has_flag (case eb_pending b of Some st \<Rightarrow> st | None \<Rightarrow> style_for_insertion b (cursor_offset b)) flag
      else
        (let touched = filter (\<lambda>r. run_start r < eb_sel_end b \<and> eb_sel_start b < run_end r) (eb_runs b)
         in touched \<noteq> [] \<and> list_all (\<lambda>r. has_flag (run_style r) flag) touched))"

fun restyle :: "nat \<Rightarrow> nat \<Rightarrow> (inline_style \<Rightarrow> inline_style) \<Rightarrow> style_run list \<Rightarrow> style_run list \<Rightarrow> style_run list" where
  "restyle a e f out [] = out"
| "restyle a e f out (run # runs) =
     restyle a e f
       (if run_end run \<le> a \<or> e \<le> run_start run
        then push_style_run out (run_start run) (run_end run) (run_style run)
        else
          (let out = (if run_start run < a then push_style_run out (run_start run) a (run_style run) else out);
               out = push_style_run out (max (run_start run) a) (min (run_end run) e) (f (run_style run))
           in if e < run_end run then push_style_run out e (run_end run) (run_style run) else out)) runs"

definition toggle_inline :: "u8 \<Rightarrow> editor_buffer \<Rightarrow> bool \<times> editor_buffer" where
  "toggle_inline flag b =
     (if sel_empty b
      then
        (let current = (case eb_pending b of Some st \<Rightarrow> st | None \<Rightarrow> style_for_insertion b (cursor_offset b))
         in (True, b\<lparr> eb_pending := Some (with_flag current flag (\<not> has_flag current flag)) \<rparr>))
      else
        (let enabled = (\<not> inline_active flag b);
             updated = restyle (eb_sel_start b) (eb_sel_end b) (\<lambda>st. with_flag st flag enabled) [] (eb_runs b);
             updated = normalize_runs (length (eb_text b)) updated
         in if \<not> markdown_fits_with_limit (eb_text b) updated (eb_blocks b) (eb_max b) then (False, b)
            else (True, b\<lparr> eb_runs := updated, eb_pending := None \<rparr>)))"

definition toggle_bold :: "editor_buffer \<Rightarrow> bool \<times> editor_buffer" where "toggle_bold = toggle_inline BOLD"
definition toggle_italic :: "editor_buffer \<Rightarrow> bool \<times> editor_buffer" where "toggle_italic = toggle_inline ITALIC"
definition toggle_code :: "editor_buffer \<Rightarrow> bool \<times> editor_buffer" where "toggle_code = toggle_inline CODE"

definition selected_lines :: "editor_buffer \<Rightarrow> nat \<times> nat" where
  "selected_lines b =
     (let first = line_at_offset (eb_text b) (eb_sel_start b);
          last_offset = (if eb_sel_start b < eb_sel_end b
                         then previous_char_boundary (eb_text b) (eb_sel_end b) else eb_sel_end b)
      in (first, line_at_offset (eb_text b) last_offset + 1))"

definition assign_blocks :: "nat \<times> nat \<Rightarrow> block_kind \<Rightarrow> block_kind list \<Rightarrow> block_kind list" where
  "assign_blocks lines target blocks =
     (case lines of (first, until) \<Rightarrow> take first blocks @ replicate (until - first) target @ drop until blocks)"

definition block_active :: "block_kind \<Rightarrow> editor_buffer \<Rightarrow> bool" where
  "block_active target b =
     (case selected_lines b of (first, until) \<Rightarrow>
        list_all (\<lambda>k. k = target) (take (until - first) (drop first (eb_blocks b))))"

definition commit_blocks :: "block_kind list \<Rightarrow> editor_buffer \<Rightarrow> bool \<times> editor_buffer" where
  "commit_blocks updated b =
     (if \<not> markdown_fits_with_limit (eb_text b) (eb_runs b) updated (eb_max b) then (False, b)
      else (True, b\<lparr> eb_blocks := updated \<rparr>))"

definition toggle_block :: "block_kind \<Rightarrow> editor_buffer \<Rightarrow> bool \<times> editor_buffer" where
  "toggle_block target b =
     (let enabled = (\<not> block_active target b)
      in commit_blocks (assign_blocks (selected_lines b) (if enabled then target else Paragraph) (eb_blocks b)) b)"

definition toggle_bulleted_list :: "editor_buffer \<Rightarrow> bool \<times> editor_buffer" where
  "toggle_bulleted_list = toggle_block Bulleted"
definition toggle_numbered_list :: "editor_buffer \<Rightarrow> bool \<times> editor_buffer" where
  "toggle_numbered_list = toggle_block Numbered"

definition set_block :: "block_kind \<Rightarrow> editor_buffer \<Rightarrow> bool \<times> editor_buffer" where
  "set_block target b = commit_blocks (assign_blocks (selected_lines b) target (eb_blocks b)) b"

definition insert_newline :: "editor_buffer \<Rightarrow> bool \<times> editor_buffer" where
  "insert_newline b =
     (let cursor = cursor_offset b;
          line = line_at_offset (eb_text b) cursor;
          (line_start, line_end) = line_ranges (eb_text b) ! line;
          kind = eb_blocks b ! line
      in if sel_empty b \<and> (kind = Bulleted \<or> kind = Numbered)
           \<and> trim (slice (eb_text b) line_start line_end) = []
         then
           (let blocks = (eb_blocks b)[line := Paragraph] in
            if \<not> markdown_fits_with_limit (eb_text b) (eb_runs b) blocks (eb_max b) then (False, b)
            else (True, b\<lparr> eb_blocks := blocks, eb_pending := Some PLAIN \<rparr>))
         else
           (case replace_range (eb_sel_start b) (eb_sel_end b) [newline] b of
              None \<Rightarrow> (False, b)
            | Some (_, b) \<Rightarrow>
                (let b = (if (kind = Heading1 \<or> kind = Heading2 \<or> kind = Heading3) \<and> cursor = line_end
                          then b\<lparr> eb_blocks := (eb_blocks b)[line + 1 := Paragraph] \<rparr> else b)
                 in (True, b\<lparr> eb_marked := None \<rparr>))))"

section \<open>UTF-16 offsets\<close>

definition range_to_utf16 :: "editor_buffer \<Rightarrow> nat \<times> nat \<Rightarrow> nat \<times> nat" where
  "range_to_utf16 b r = (offset_to_utf16 (eb_text b) (fst r), offset_to_utf16 (eb_text b) (snd r))"

definition range_from_utf16 :: "editor_buffer \<Rightarrow> nat \<times> nat \<Rightarrow> nat \<times> nat" where
  "range_from_utf16 b r = (offset_from_utf16 (eb_text b) (fst r), offset_from_utf16 (eb_text b) (snd r))"

definition replacement_of :: "(nat \<times> nat) option \<Rightarrow> editor_buffer \<Rightarrow> nat \<times> nat" where
  "replacement_of rng b =
     (case rng of Some r \<Rightarrow> range_from_utf16 b r
      | None \<Rightarrow> (case eb_marked b of Some r \<Rightarrow> r | None \<Rightarrow> (eb_sel_start b, eb_sel_end b)))"

definition replace_text_utf16 :: "(nat \<times> nat) option \<Rightarrow> string \<Rightarrow> editor_buffer \<Rightarrow> bool \<times> editor_buffer" where
  "replace_text_utf16 rng new_text b =
     (case replacement_of rng b of (a, e) \<Rightarrow> replace_and_unmark a e new_text b)"

definition replace_and_mark_utf16 :: "(nat \<times> nat) option \<Rightarrow> string \<Rightarrow> (nat \<times> nat) option
    \<Rightarrow> editor_buffer \<Rightarrow> bool \<times> editor_buffer" where
  "replace_and_mark_utf16 rng new_text new_selection b =
     (case replacement_of rng b of (a, e) \<Rightarrow>
        case replace_range a e new_text b of
          None \<Rightarrow> (False, b)
        | Some ((lo, hi), b) \<Rightarrow>
            (let b = b\<lparr> eb_marked := (if lo < hi then Some (lo, hi) else None) \<rparr>
             in (True, case new_selection of None \<Rightarrow> b
                 | Some (x, y) \<Rightarrow>
                     (let inserted = slice (eb_text b) lo hi
                      in b\<lparr> eb_sel_start := lo + offset_from_utf16 inserted x,
                           eb_sel_end := lo + offset_from_utf16 inserted y \<rparr>))))"

section \<open>Runs of the editor\<close>

text \<open>Everything a client can call that changes the buffer. \<open>run_edit\<close> returns whether the call was accepted;
  calls that cannot be refused return \<open>True\<close>.\<close>

datatype edit =
    SetSelection nat nat bool
  | MoveTo nat
  | SelectTo nat
  | SelectAll
  | ClearMarkedRange
  | ReplaceSelection string
  | Backspace
  | DeleteForward
  | ToggleBold
  | ToggleItalic
  | ToggleCode
  | ToggleBulletedList
  | ToggleNumberedList
  | SetBlock block_kind
  | InsertNewline
  | ReplaceTextUtf16 "(nat \<times> nat) option" string
  | ReplaceAndMarkUtf16 "(nat \<times> nat) option" string "(nat \<times> nat) option"

fun run_edit :: "edit \<Rightarrow> editor_buffer \<Rightarrow> bool \<times> editor_buffer" where
  "run_edit (SetSelection a e r) b = (True, set_selection a e r b)"
| "run_edit (MoveTo i) b = (True, move_to i b)"
| "run_edit (SelectTo i) b = (True, select_to i b)"
| "run_edit SelectAll b = (True, select_all b)"
| "run_edit ClearMarkedRange b = (True, clear_marked_range b)"
| "run_edit (ReplaceSelection s) b = replace_selection s b"
| "run_edit Backspace b = backspace b"
| "run_edit DeleteForward b = delete_forward b"
| "run_edit ToggleBold b = toggle_bold b"
| "run_edit ToggleItalic b = toggle_italic b"
| "run_edit ToggleCode b = toggle_code b"
| "run_edit ToggleBulletedList b = toggle_bulleted_list b"
| "run_edit ToggleNumberedList b = toggle_numbered_list b"
| "run_edit (SetBlock k) b = set_block k b"
| "run_edit InsertNewline b = insert_newline b"
| "run_edit (ReplaceTextUtf16 r s) b = replace_text_utf16 r s b"
| "run_edit (ReplaceAndMarkUtf16 r s n) b = replace_and_mark_utf16 r s n b"

fun run_edits :: "edit list \<Rightarrow> editor_buffer \<Rightarrow> editor_buffer" where
  "run_edits [] b = b"
| "run_edits (x # xs) b = run_edits xs (snd (run_edit x b))"

text \<open>The strings of an edit are Rust strings, so valid UTF-8, and a range that a client passes is ordered.\<close>

fun edit_ok :: "edit \<Rightarrow> bool" where
  "edit_ok (ReplaceSelection s) = utf8_valid s"
| "edit_ok (ReplaceTextUtf16 r s) = utf8_valid s"
| "edit_ok (ReplaceAndMarkUtf16 r s n) = (utf8_valid s \<and> (case n of None \<Rightarrow> True | Some (x, y) \<Rightarrow> x \<le> y))"
| "edit_ok _ = True"

end
