(* ===== verification/EditorUtf8.thy ===== *)
theory EditorUtf8
  imports Editor
begin

text \<open>
  Valid UTF-8 as a sequence of characters, for \<open>crates/key-editor-core/src/lib.rs\<close>: induction on the
  characters of a text, cutting a text at character boundaries, and the effect of the editor's text
  functions on validity.
\<close>

section \<open>Characters of a valid text\<close>

definition utf8_char :: "string \<Rightarrow> bool" where
  "utf8_char c = (c \<noteq> [] \<and> length c = char_width (hd c) \<and> \<not> continuation (hd c)
     \<and> list_all continuation (tl c) \<and> (\<forall>t. utf8_valid (c @ t) = utf8_valid t))"

lemma utf8_valid_Nil [simp]: "utf8_valid []"
  by (simp add: utf8_valid.simps)

lemma ascii_char: "byte a < 128 \<Longrightarrow> utf8_char [a]"
  unfolding utf8_char_def by (subst utf8_valid.simps) (simp add: char_width_def continuation_def)

lemma utf8_uncons:
  assumes "utf8_valid (a # s)"
  shows "\<exists>c t. a # s = c @ t \<and> utf8_char c \<and> utf8_valid t"
proof (cases "byte a < 128")
  case True
  then show ?thesis
    using assms ascii_char[OF True] unfolding utf8_char_def by (intro exI[of _ "[a]"] exI[of _ s]) auto
next
  case False
  note v = assms[unfolded utf8_valid.simps[of "a # s"]]
  show ?thesis
  proof (cases "194 \<le> byte a \<and> byte a \<le> 223")
    case True
    then obtain b u where s: "s = b # u" "continuation b" "utf8_valid u"
      using v False by (auto split: list.splits)
    have "utf8_valid ([a, b] @ t) = utf8_valid t" for t
      using True False s(2) by (subst utf8_valid.simps) simp
    then have "utf8_char [a, b]"
      using True False s(2) by (simp add: utf8_char_def char_width_def continuation_def)
    then show ?thesis using s by (intro exI[of _ "[a, b]"] exI[of _ u]) simp
  next
    case F2: False
    show ?thesis
    proof (cases "224 \<le> byte a \<and> byte a \<le> 239")
      case True
      then obtain b c u where s: "s = b # c # u" "continuation b" "continuation c" "utf8_valid u"
          "byte a = 224 \<longrightarrow> 160 \<le> byte b" "byte a = 237 \<longrightarrow> byte b < 160"
        using v False F2 by (auto split: list.splits)
      have "utf8_valid ([a, b, c] @ t) = utf8_valid t" for t
        using True False F2 s by (subst utf8_valid.simps) simp
      then have "utf8_char [a, b, c]"
        using True False s by (simp add: utf8_char_def char_width_def continuation_def)
      then show ?thesis using s by (intro exI[of _ "[a, b, c]"] exI[of _ u]) simp
    next
      case F3: False
      then obtain b c d u where s: "s = b # c # d # u" "continuation b" "continuation c" "continuation d"
          "utf8_valid u" "240 \<le> byte a" "byte a \<le> 244"
          "byte a = 240 \<longrightarrow> 144 \<le> byte b" "byte a = 244 \<longrightarrow> byte b < 144"
        using v False F2 by (auto split: list.splits)
      have "utf8_valid ([a, b, c, d] @ t) = utf8_valid t" for t
        using False F2 F3 s by (subst utf8_valid.simps) simp
      then have "utf8_char [a, b, c, d]"
        using False s by (simp add: utf8_char_def char_width_def continuation_def)
      then show ?thesis using s by (intro exI[of _ "[a, b, c, d]"] exI[of _ u]) simp
    qed
  qed
qed

lemma utf8_induct [consumes 1, case_names Nil Char]:
  assumes "utf8_valid s" "P []"
    and step: "\<And>c t. utf8_char c \<Longrightarrow> utf8_valid t \<Longrightarrow> P t \<Longrightarrow> P (c @ t)"
  shows "P s"
  using assms(1)
proof (induction s rule: length_induct)
  case (1 s)
  show ?case
  proof (cases s)
    case Nil
    then show ?thesis using assms(2) by simp
  next
    case (Cons a r)
    then obtain c t where ct: "s = c @ t" "utf8_char c" "utf8_valid t"
      using utf8_uncons[of a r] 1(2) by auto
    then have "length t < length s" by (auto simp: utf8_char_def)
    then show ?thesis using step[OF ct(2,3)] 1(1) ct by blast
  qed
qed

lemma utf8_char_append: "utf8_char c \<Longrightarrow> utf8_valid (c @ t) = utf8_valid t"
  by (simp add: utf8_char_def)

lemma utf8_char_valid: "utf8_char c \<Longrightarrow> utf8_valid c"
  using utf8_char_append[of c "[]"] by simp

lemma utf8_append: "utf8_valid s \<Longrightarrow> utf8_valid t \<Longrightarrow> utf8_valid (s @ t)"
  by (induction s rule: utf8_induct) (simp_all add: utf8_char_append)

lemma utf8_append_cancel: "utf8_valid s \<Longrightarrow> utf8_valid (s @ t) = utf8_valid t"
  by (induction s rule: utf8_induct) (simp_all add: utf8_char_append)

lemma utf8_ascii_cons [simp]: "byte a < 128 \<Longrightarrow> utf8_valid (a # t) = utf8_valid t"
  using utf8_char_append[OF ascii_char] by simp

lemma utf8_ascii: "list_all (\<lambda>a. byte a < 128) s \<Longrightarrow> utf8_valid s"
  by (induction s) auto

lemma utf8_hd: "utf8_valid (a # s) \<Longrightarrow> \<not> continuation a"
  using utf8_uncons[of a s] by (auto simp: utf8_char_def Cons_eq_append_conv)

lemma chars_append: "utf8_char c \<Longrightarrow> chars (c @ t) = c # chars t"
proof -
  assume c: "utf8_char c"
  then obtain a r where ar: "c = a # r" by (cases c) (auto simp: utf8_char_def)
  then have "char_width a = Suc (length r)" using c by (simp add: utf8_char_def)
  then show ?thesis unfolding ar using chars.simps(2)[of a "r @ t"] by simp
qed

lemma chars_valid: "utf8_valid s \<Longrightarrow> list_all utf8_char (chars s)"
  by (induction s rule: utf8_induct) (simp_all add: chars_append)

lemma concat_valid: "list_all utf8_valid cs \<Longrightarrow> utf8_valid (concat cs)"
  by (induction cs) (auto intro: utf8_append)

section \<open>Boundaries\<close>

lemma boundary_in_char:
  assumes "utf8_char c" "is_char_boundary (c @ t) i"
  shows "i = 0 \<or> length c \<le> i"
proof (rule ccontr)
  assume "\<not> ?thesis"
  then have "0 < i" "i < length c" by auto
  then have "(c @ t) ! i = tl c ! (i - 1)" "i - 1 < length (tl c)"
    by (auto simp: nth_append nth_tl)
  then have "continuation ((c @ t) ! i)" using assms(1) by (simp add: utf8_char_def list_all_length)
  then show False using assms(2) \<open>0 < i\<close> \<open>i < length c\<close> by (simp add: is_char_boundary_def)
qed

lemma boundary_append:
  "utf8_char c \<Longrightarrow> is_char_boundary (c @ t) (length c + i) = (i = 0 \<and> utf8_valid t \<or> is_char_boundary t i)"
  if "utf8_valid t" for c t
  using that by (cases t) (auto simp: is_char_boundary_def nth_append dest: utf8_hd)

lemma utf8_take_drop:
  assumes "utf8_valid s" "is_char_boundary s i"
  shows "utf8_valid (take i s) \<and> utf8_valid (drop i s)"
  using assms
proof (induction s arbitrary: i rule: utf8_induct)
  case (Char c t)
  consider "i = 0" | j where "i = length c + j"
    using boundary_in_char[OF Char(1) Char.prems] by (metis le_Suc_ex)
  then show ?case
  proof cases
    case 1
    then show ?thesis using Char by (simp add: utf8_char_append)
  next
    case 2
    then have "j = 0 \<or> is_char_boundary t j"
      using boundary_append[OF Char(2,1)] Char.prems by auto
    then have "utf8_valid (take j t) \<and> utf8_valid (drop j t)" using Char.IH Char(2) by auto
    then show ?thesis using 2 Char(1) by (simp add: utf8_char_append)
  qed
qed simp

lemma boundary_le: "is_char_boundary s i \<Longrightarrow> i \<le> length s"
  by (auto simp: is_char_boundary_def)

lemma boundary_drop:
  "is_char_boundary s j \<Longrightarrow> i \<le> j \<Longrightarrow> is_char_boundary (drop i s) (j - i)"
  by (auto simp: is_char_boundary_def)

lemma utf8_slice:
  assumes "utf8_valid s" "is_char_boundary s a" "is_char_boundary s b" "a \<le> b"
  shows "utf8_valid (slice s a b)"
  using utf8_take_drop[of "drop a s" "b - a"] utf8_take_drop[OF assms(1,2)] boundary_drop[OF assms(3,4)]
  by (simp add: slice_def)

lemma boundary_ascii: "i < length s \<Longrightarrow> byte (s ! i) < 128 \<Longrightarrow> is_char_boundary s i"
  by (simp add: is_char_boundary_def continuation_def)

text \<open>From a boundary, the width of the next character leads to the next boundary.\<close>

lemma boundary_next:
  assumes "utf8_valid s" "is_char_boundary s i" "i < length s"
  shows "i + char_width (s ! i) \<le> length s \<and> is_char_boundary s (i + char_width (s ! i))
    \<and> utf8_char (slice s i (i + char_width (s ! i)))"
proof -
  have "utf8_valid (drop i s)" using utf8_take_drop assms by blast
  moreover obtain a r where d: "drop i s = a # r" using assms(3) by (cases "drop i s") auto
  ultimately obtain c t where ct: "drop i s = c @ t" "utf8_char c" "utf8_valid t"
    using utf8_uncons[of a r] by auto
  have a: "s ! i = hd c"
    using ct assms(3) by (metis hd_append2 hd_drop_conv_nth utf8_char_def)
  have w: "char_width (s ! i) = length c" using ct(2) a by (simp add: utf8_char_def)
  have len: "i + length c \<le> length s" using arg_cong[OF ct(1), of length] assms(3) by simp
  have sl: "slice s i (i + length c) = c" using ct(1) by (simp add: slice_def)
  have s: "s = take i s @ c @ t" using ct(1) by (metis append_take_drop_id)
  have "is_char_boundary s (i + length c)"
  proof (cases t)
    case Nil
    then have "length s = i + length c" using arg_cong[OF ct(1), of length] assms(3) by simp
    then show ?thesis by (simp add: is_char_boundary_def)
  next
    case (Cons x u)
    then have "s ! (i + length c) = x"
      using ct(1) by (metis len add_leD1 nth_append_length nth_drop)
    then show ?thesis using utf8_hd[of x u] ct(3) Cons len
      by (cases "i + length c = length s") (auto simp: is_char_boundary_def)
  qed
  then show ?thesis using w len sl ct(2) by simp
qed

lemma boundary_after_ascii:
  assumes "utf8_valid s" "i < length s" "byte (s ! i) < 128"
  shows "is_char_boundary s (i + 1)"
  using boundary_next[OF assms(1) boundary_ascii[OF assms(2,3)] assms(2)] assms(3)
  by (simp add: char_width_def)

lemma boundary_prefix_shift: "is_char_boundary s i \<Longrightarrow> utf8_valid s \<Longrightarrow> is_char_boundary (r @ s) (length r + i)"
  by (cases s) (auto simp: is_char_boundary_def nth_append dest: utf8_hd)

lemma boundary_suffix:
  "is_char_boundary s i \<Longrightarrow> utf8_valid r \<Longrightarrow> is_char_boundary (s @ r) i"
  by (cases r) (auto simp: is_char_boundary_def nth_append dest: utf8_hd)

lemma floor_valid:
  assumes "utf8_valid s"
  shows "utf8_valid (take (floor_char_boundary s i) s)" "utf8_valid (drop (floor_char_boundary s i) s)"
  using utf8_take_drop[OF assms floor_boundary] by blast+

section \<open>Newlines\<close>

lemma newline_ascii [simp]: "byte newline < 128" "byte carriage_return < 128" "newline \<noteq> carriage_return"
  "carriage_return \<noteq> newline" "char_width newline = 1" "byte newline = 10"
  by (simp_all add: newline_def carriage_return_def byte_def char_width_def)

lemma replace_crlf_skip: "c \<noteq> carriage_return \<Longrightarrow> replace_crlf (c # s) = c # replace_crlf s"
  by (cases s) auto

lemma replace_crlf_append: "carriage_return \<notin> set c \<Longrightarrow> replace_crlf (c @ t) = c @ replace_crlf t"
  by (induction c) (auto simp: replace_crlf_skip)

lemma normalize_append:
  "carriage_return \<notin> set c \<Longrightarrow> normalize_newlines (c @ t) = c @ normalize_newlines t"
  by (simp add: normalize_newlines_def replace_crlf_append) (rule map_idI, metis)

lemma normalize_cr:
  "normalize_newlines (carriage_return # t) =
     newline # normalize_newlines (case t of c # u \<Rightarrow> if c = newline then u else t | [] \<Rightarrow> [])"
  by (cases t) (auto simp: normalize_newlines_def)

lemma cr_in_char: "utf8_char c \<Longrightarrow> carriage_return \<in> set c \<Longrightarrow> c = [carriage_return]"
proof -
  assume c: "utf8_char c" "carriage_return \<in> set c"
  then obtain a r where ar: "c = a # r" by (cases c) auto
  have "carriage_return \<notin> set r"
    using c(1) ar by (auto simp: utf8_char_def list_all_iff continuation_def carriage_return_def byte_def)
  then have "a = carriage_return" using c(2) ar by auto
  then have "length c = 1" using c(1) ar by (simp add: utf8_char_def char_width_def)
  then show ?thesis using ar \<open>a = carriage_return\<close> by simp
qed

lemma normalize_valid: "utf8_valid s \<Longrightarrow> utf8_valid (normalize_newlines s)"
proof (induction s rule: length_induct)
  case (1 s)
  show ?case
  proof (cases s)
    case Nil
    then show ?thesis by (simp add: normalize_newlines_def)
  next
    case (Cons a r)
    then obtain c t where ct: "s = c @ t" "utf8_char c" "utf8_valid t"
      using utf8_uncons[of a r] 1(2) by auto
    then have less: "length t < length s" by (auto simp: utf8_char_def)
    show ?thesis
    proof (cases "carriage_return \<in> set c")
      case True
      define u where "u = (case t of c # u \<Rightarrow> if c = newline then u else t | [] \<Rightarrow> [])"
      have "utf8_valid u" "length u < length s"
        using ct(3) less by (auto simp: u_def split: list.splits)
      then have "utf8_valid (normalize_newlines u)" using 1(1) by blast
      then show ?thesis
        using cr_in_char[OF ct(2) True] ct(1) normalize_cr[of t] by (simp add: u_def)
    next
      case False
      have "utf8_valid (normalize_newlines t)" using 1(1) less ct(3) by blast
      then show ?thesis using ct normalize_append[OF False] by (simp add: utf8_char_append)
    qed
  qed
qed

section \<open>UTF-16\<close>

text \<open>A boundary offset survives the way to UTF-16 and back.\<close>

lemma utf16_scan_shift:
  "utf16_scan (target + k) (u + k) (off + d) cs = map_option (\<lambda>x. x + d) (utf16_scan target u off cs)"
proof (induction cs arbitrary: u off)
  case (Cons c cs)
  have "utf16_scan (target + k) (u + len_utf16 c + k) (off + length c + d) cs =
      map_option (\<lambda>x. x + d) (utf16_scan target (u + len_utf16 c) (off + length c) cs)"
    by (rule Cons.IH)
  then show ?case by (simp add: ac_simps)
qed simp

lemma len_utf16_pos [simp]: "0 < len_utf16 c"
  by (simp add: len_utf16_def)

lemma from_utf16_append:
  assumes "utf8_char c" "len_utf16 c \<le> target"
  shows "offset_from_utf16 (c @ t) target = length c + offset_from_utf16 t (target - len_utf16 c)"
proof -
  have "\<not> target < len_utf16 c" "target \<noteq> 0"
    using assms(2) len_utf16_pos[of c] by linarith+
  moreover have "utf16_scan target (len_utf16 c) (length c) (chars t) =
      map_option (\<lambda>x. x + length c) (utf16_scan (target - len_utf16 c) 0 0 (chars t))"
    using utf16_scan_shift[of "target - len_utf16 c" "len_utf16 c" 0 0 "length c" "chars t"] assms(2) by simp
  ultimately show ?thesis
    unfolding offset_from_utf16_def chars_append[OF assms(1)]
    by (simp split: option.splits)
qed

lemma from_utf16_0: "offset_from_utf16 s 0 = 0"
  by (cases "chars s") (auto simp: offset_from_utf16_def dest: arg_cong[of _ _ concat])

lemma utf16_roundtrip:
  assumes "utf8_valid s" "is_char_boundary s i"
  shows "offset_from_utf16 s (offset_to_utf16 s i) = i"
  using assms
proof (induction s arbitrary: i rule: utf8_induct)
  case Nil
  then show ?case by (auto simp: is_char_boundary_def offset_from_utf16_def)
next
  case (Char c t)
  consider "i = 0" | j where "i = length c + j"
    using boundary_in_char[OF Char(1) Char.prems] by (metis le_Suc_ex)
  then show ?case
  proof cases
    case 1
    then show ?thesis by (simp add: offset_to_utf16_def floor_char_boundary_def from_utf16_0)
  next
    case 2
    then have j: "is_char_boundary t j"
      using boundary_append[OF Char(2,1)] Char.prems by auto
    have to: "offset_to_utf16 (c @ t) i = len_utf16 c + offset_to_utf16 t j"
      using Char.prems j boundary_le 2 Char(1)
      by (simp add: offset_to_utf16_def chars_append boundary_le min_absorb1)
    show ?thesis
      using Char.IH[OF j] from_utf16_append[OF Char(1), of "len_utf16 c + offset_to_utf16 t j" t] 2
      unfolding to by simp
  qed
qed

text \<open>Whatever the UTF-16 offset, the result is a boundary, and the order is kept.\<close>

lemma from_utf16_small:
  "utf8_char c \<Longrightarrow> target < len_utf16 c \<Longrightarrow> offset_from_utf16 (c @ t) target = 0"
  by (simp add: offset_from_utf16_def chars_append)

lemma from_utf16_boundary: "utf8_valid s \<Longrightarrow> is_char_boundary s (offset_from_utf16 s target)"
proof (induction s arbitrary: target rule: utf8_induct)
  case Nil
  then show ?case by (simp add: offset_from_utf16_def)
next
  case (Char c t)
  show ?case
  proof (cases "target < len_utf16 c")
    case False
    then show ?thesis
      using from_utf16_append[OF Char(1), of target t] boundary_append[OF Char(2,1)] Char.IH by simp
  qed (simp add: from_utf16_small[OF Char(1)])
qed

lemma from_utf16_mono: "utf8_valid s \<Longrightarrow> x \<le> y \<Longrightarrow> offset_from_utf16 s x \<le> offset_from_utf16 s y"
proof (induction s arbitrary: x y rule: utf8_induct)
  case Nil
  then show ?case by (simp add: offset_from_utf16_def)
next
  case (Char c t)
  show ?case
  proof (cases "x < len_utf16 c")
    case False
    then show ?thesis
      using Char.prems Char.IH[of "x - len_utf16 c" "y - len_utf16 c"]
      by (simp add: from_utf16_append[OF Char(1)] diff_le_mono)
  qed (simp add: from_utf16_small[OF Char(1)])
qed

lemma from_utf16_le: "utf8_valid s \<Longrightarrow> offset_from_utf16 s x \<le> length s"
  by (rule boundary_le[OF from_utf16_boundary])

end
