(* ===== verification/EditorParse.thy ===== *)
theory EditorParse
  imports EditorUtf8
begin

text \<open>
  What the Markdown parser of \<open>crates/key-editor-core/src/lib.rs\<close> produces: pieces of the source at
  character boundaries, runs that touch one another, one block for each line, and a number of steps
  that is linear in the source.
\<close>

abbreviation newlines :: "string \<Rightarrow> nat" where
  "newlines s \<equiv> length (filter (\<lambda>c. c = newline) s)"

text \<open>Code is exclusive with bold and italic.\<close>

definition style_ok :: "inline_style \<Rightarrow> bool" where
  "style_ok st = (st \<in> {PLAIN, BOLD, ITALIC, BOLD OR ITALIC, CODE})"

lemmas style_defs = PLAIN_def BOLD_def ITALIC_def CODE_def

lemma style_ok_simps [simp]:
  "style_ok PLAIN" "style_ok BOLD" "style_ok ITALIC" "style_ok (BOLD OR ITALIC)" "style_ok CODE"
  by (simp_all add: style_ok_def)

lemma with_flag_ok:
  assumes "style_ok st" "flag \<in> {BOLD, ITALIC, CODE}"
  shows "style_ok (with_flag st flag on) \<and> has_flag (with_flag st flag on) flag = on"
  using assms unfolding style_ok_def
  by (cases on) (auto simp: style_defs with_flag_def has_flag_def)

section \<open>Slices\<close>

lemma slice_subset: "set (slice s a b) \<subseteq> set s"
  unfolding slice_def by (meson order_trans set_drop_subset set_take_subset)

lemma take_slice: "take (b - a) (drop a s) = slice s a b"
  by (simp add: slice_def)

lemma byte_ascii_simps [simp]:
  "byte backslash < 128" "byte backtick < 128" "byte star < 128" "char_width backtick = 1"
  "char_width star = 1" "char_width backslash = 1"
  by (simp_all add: backslash_def backtick_def star_def byte_def char_width_def)

section \<open>The index of backtick runs\<close>

lemma takeWhile_replicate: "takeWhile (\<lambda>x. x = b) s = replicate (length (takeWhile (\<lambda>x. x = b) s)) b"
  by (induction s) auto

lemma backtick_runs_sound:
  "(n, p) \<in> set (backtick_runs i s) \<Longrightarrow>
     i \<le> p \<and> 0 < n \<and> p - i + n \<le> length s \<and> take n (drop (p - i) s) = replicate n backtick"
proof (induction i s rule: backtick_runs.induct)
  case (1 i s)
  show ?case
  proof (cases s)
    case Nil
    then show ?thesis using 1(3) by (simp add: backtick_runs.simps)
  next
    case (Cons c r)
    define m where "m = (if c = backtick then length (takeWhile (\<lambda>x. x = backtick) s) else char_width c)"
    have m: "0 < m" using Cons by (simp add: m_def)
    have ih: "i + m \<le> p \<and> 0 < n \<and> p - (i + m) + n \<le> length (drop m s)
        \<and> take n (drop (p - (i + m)) (drop m s)) = replicate n backtick"
      if "(n, p) \<in> set (backtick_runs (i + m) (drop m s))"
    proof (cases "c = backtick")
      case True
      then have len: "length (takeWhile (\<lambda>x. x = backtick) s) = m" by (simp add: m_def)
      from 1(1)[OF Cons True refl] that show ?thesis unfolding len by blast
    next
      case False
      then have len: "char_width c = m" by (simp add: m_def)
      from 1(2)[OF Cons False] that show ?thesis unfolding len by blast
    qed
    have rest: ?thesis if mem: "(n, p) \<in> set (backtick_runs (i + m) (drop m s))"
    proof -
      have e: "p - i = p - (i + m) + m" "p - (i + m) + n \<le> length s - m" "0 < n"
        using ih[OF mem] by auto
      then have "p - i + n \<le> length s" by linarith
      moreover have d: "drop (p - i) s = drop (p - (i + m)) (drop m s)" unfolding e(1) by (simp add: add.commute)
      ultimately show ?thesis using ih[OF mem] unfolding d by auto
    qed
    show ?thesis
    proof (cases "c = backtick")
      case True
      have "take m s = replicate m backtick" "m \<le> length s"
        using True takeWhile_eq_take[of "\<lambda>x. x = backtick" s] takeWhile_replicate[of backtick s]
        by (simp_all add: m_def length_takeWhile_le)
      moreover have "backtick_runs i s = (m, i) # backtick_runs (i + m) (drop m s)"
        by (subst backtick_runs.simps) (simp add: Cons True m_def)
      then have "n = m \<and> p = i \<or> (n, p) \<in> set (backtick_runs (i + m) (drop m s))" using 1(3) by simp
      ultimately show ?thesis using rest m by auto
    next
      case False
      then have "backtick_runs i s = backtick_runs (i + m) (drop m s)"
        by (subst backtick_runs.simps) (simp add: Cons m_def)
      with 1(3) rest show ?thesis by metis
    qed
  qed
qed

lemma takeWhile_nth_stop:
  "cursor + length (takeWhile P (drop cursor xs)) < length xs \<Longrightarrow>
     \<not> P (xs ! (cursor + length (takeWhile P (drop cursor xs))))"
  using nth_length_takeWhile[of P "drop cursor xs"] by (simp add: add.commute less_diff_conv)

lemma takeWhile_all: "i < length (takeWhile P xs) \<Longrightarrow> P (xs ! i)"
  by (metis nth_mem set_takeWhileD takeWhile_nth)

lemma next_run_sound:
  assumes "next_run n m ix = (Some p, ix')"
  shows "p \<in> set (bi_positions ix n) \<and> m \<le> p"
  using assms takeWhile_nth_stop[of "case map_of (bi_cursors ix) n of None \<Rightarrow> 0 | Some c \<Rightarrow> c"
      "\<lambda>p. p < m" "bi_positions ix n"]
  by (auto simp: next_run_def Let_def split: if_splits)

lemma next_run_positions: "bi_positions (snd (next_run n m ix)) = bi_positions ix"
  by (simp add: next_run_def Let_def)

definition indexes :: "string \<Rightarrow> backtick_index \<Rightarrow> bool" where
  "indexes source ix = (bi_positions ix = bi_positions (backtick_index_new source))"

lemma indexed_position:
  assumes "indexes source ix" "next_run n m ix = (Some p, ix')"
  shows "m \<le> p \<and> 0 < n \<and> p + n \<le> length source \<and> slice source p (p + n) = replicate n backtick"
proof -
  have "(n, p) \<in> set (backtick_runs 0 source)"
    using next_run_sound[OF assms(2)] assms(1) by (auto simp: indexes_def backtick_index_new_def)
  then show ?thesis
    using backtick_runs_sound[of n p 0 source] next_run_sound[OF assms(2)] by (simp add: slice_def)
qed

section \<open>Inline pieces\<close>

lemma find_unescaped_marker_sound:
  assumes "utf8_valid s" "is_char_boundary s i" "find_unescaped_marker s i marker = Some e"
  shows "i \<le> e \<and> e < length s \<and> is_char_boundary s e \<and> starts_with marker (drop e s)"
  using assms
proof (induction s i marker rule: find_unescaped_marker.induct)
  case (1 s i marker)
  have i: "i < length s" using 1(5) by (auto simp: find_unescaped_marker.simps split: if_splits)
  note nxt = boundary_next[OF 1(3,4) i]
  show ?case
  proof (cases "s ! i = backslash")
    case True
    define j where "j = (if i + 1 < length s then i + 1 + char_width (s ! (i + 1)) else i + 1)"
    have b1: "is_char_boundary s (i + 1)" using nxt True by simp
    have "is_char_boundary s j"
      using boundary_next[OF 1(3) b1] b1 by (simp add: j_def)
    moreover have "find_unescaped_marker s j marker = Some e"
      using 1(5) i True by (subst (asm) find_unescaped_marker.simps) (auto simp: j_def split: if_splits)
    ultimately show ?thesis using 1(1)[OF _ True] i 1(3) by (auto simp: j_def split: if_splits)
  next
    case False
    show ?thesis
    proof (cases "starts_with marker (drop i s)")
      case True
      then show ?thesis using 1(4,5) i False by (subst (asm) find_unescaped_marker.simps) auto
    next
      case F: False
      then have "find_unescaped_marker s (i + char_width (s ! i)) marker = Some e"
        using 1(5) i False by (subst (asm) find_unescaped_marker.simps) auto
      then show ?thesis using 1(2)[OF _ False F] i 1(3) nxt by fastforce
    qed
  qed
qed

lemma starts_with_nth: "starts_with p (drop e s) \<Longrightarrow> i < length p \<Longrightarrow> e + i < length s \<and> s ! (e + i) = p ! i"
proof -
  assume p: "starts_with p (drop e s)" and i: "i < length p"
  have t: "take (length p) (drop e s) = p" using p by (simp add: starts_with_def)
  have "length p \<le> length s - e" using arg_cong[OF t, of length] by simp
  then have "e + i < length s" using i by simp
  moreover have "take (length p) (drop e s) ! i = s ! (e + i)" using i \<open>e + i < length s\<close> by simp
  ultimately show ?thesis using t by simp
qed

lemma boundary_after_marker:
  assumes "utf8_valid s" "starts_with marker (drop e s)" "marker \<noteq> []" "list_all (\<lambda>c. byte c < 128) marker"
  shows "is_char_boundary s (e + length marker) \<and> e + length marker \<le> length s"
proof -
  obtain n where n: "length marker = Suc n" using assms(3) by (cases marker) auto
  have "e + n < length s" "s ! (e + n) = marker ! n" using starts_with_nth[OF assms(2), of n] n by auto
  then show ?thesis
    using boundary_after_ascii[OF assms(1), of "e + n"] assms(4) n by (simp add: list_all_length)
qed

lemma unescape_chars_subset: "set (unescape_chars cs) \<subseteq> set (concat cs)"
  by (induction cs rule: unescape_chars.induct) auto

lemma unescape_chars_valid: "list_all utf8_valid cs \<Longrightarrow> utf8_valid (unescape_chars cs)"
  by (induction cs rule: unescape_chars.induct) (auto intro: utf8_append)

lemma unescape_inline_ok:
  assumes "utf8_valid s"
  shows "utf8_valid (unescape_inline s) \<and> set (unescape_inline s) \<subseteq> set s"
  using unescape_chars_valid[of "chars s"] unescape_chars_subset[of "chars s"] chars_valid[OF assms]
  by (auto simp: unescape_inline_def list_all_iff utf8_char_valid)

lemma inline_marker_Some:
  "inline_marker rest = Some (marker, style) \<Longrightarrow>
     starts_with marker rest \<and> marker \<noteq> [] \<and> list_all (\<lambda>c. c = star) marker \<and> style_ok style"
  by (auto simp: inline_marker_def star_def split: if_splits)

text \<open>One turn of the loop appends one piece and moves to a later boundary.\<close>

lemma parse_step_appends:
  assumes "utf8_valid source" "is_char_boundary source index" "index < length source"
    and "indexes source (ip_index st)" "parse_step source index st = (index', st')"
  shows "\<exists>piece style. ip_out st' = append_piece piece style (ip_out st) \<and> style_ok style
    \<and> utf8_valid piece \<and> set piece \<subseteq> set source \<and> index < index' \<and> index' \<le> length source
    \<and> is_char_boundary source index' \<and> indexes source (ip_index st')"
proof -
  have cut: "utf8_valid (slice source a b) \<and> set (slice source a b) \<subseteq> set source"
    if "is_char_boundary source a" "is_char_boundary source b" "a \<le> b" for a b
    using utf8_slice[OF assms(1) that] slice_subset by blast
  note nxt = boundary_next[OF assms(1,2,3)]
  have plain: ?thesis if "index' = index + char_width (source ! index)" "indexes source (ip_index st')"
    "ip_out st' = append_piece (slice source index index') PLAIN (ip_out st)"
    using that nxt cut[OF assms(2), of index'] by (intro exI[of _ "slice source index index'"] exI[of _ PLAIN]) auto
  consider (escape) "source ! index = backslash"
    | (fence) "source ! index = backtick"
    | (other) "source ! index \<noteq> backslash" "source ! index \<noteq> backtick" by blast
  then show ?thesis
  proof cases
    case escape
    have b1: "is_char_boundary source (index + 1)" using nxt escape by simp
    show ?thesis
    proof (cases "index + 1 < length source")
      case True
      note n2 = boundary_next[OF assms(1) b1 True]
      show ?thesis
        using escape True assms(4,5) n2 cut[OF b1, of "index + 1 + char_width (source ! (index + 1))"]
        by (intro exI[of _ "slice source (index + 1) index'"] exI[of _ PLAIN])
          (auto simp: parse_step_def Let_def take_slice)
    next
      case False
      then show ?thesis
        using escape assms(3,4,5) b1 nth_mem[OF assms(3)]
        by (intro exI[of _ "[backslash]"] exI[of _ PLAIN]) (auto simp: parse_step_def Let_def)
    qed
  next
    case fence
    define n where "n = length (takeWhile (\<lambda>c. c = backtick) (drop index source))"
    have n0: "0 < n"
      using fence assms(3) unfolding n_def by (cases "drop index source") (auto simp: nth_via_drop)
    have nle: "index + n \<le> length source"
      using length_takeWhile_le[of "\<lambda>c. c = backtick" "drop index source"] assms(3) by (simp add: n_def)
    have "source ! (index + n - 1) = backtick"
      using takeWhile_all[of "n - 1" "\<lambda>c. c = backtick" "drop index source"] n0 nle by (simp add: n_def)
    then have bn: "is_char_boundary source (index + n)"
      using boundary_after_ascii[OF assms(1), of "index + n - 1"] n0 nle by simp
    obtain found ix where nr: "next_run n (index + n) (ip_index st) = (found, ix)" by force
    have ix: "indexes source ix"
      using assms(4) next_run_positions[of n "index + n" "ip_index st"] nr by (simp add: indexes_def)
    have ne: "backtick \<noteq> backslash" by (simp add: backtick_def backslash_def)
    show ?thesis
    proof (cases found)
      case None
      then show ?thesis
        using fence ne assms(5) nr n0 nle bn ix cut[OF assms(2) bn]
        by (intro exI[of _ "slice source index (index + n)"] exI[of _ PLAIN])
          (auto simp: parse_step_def Let_def n_def[symmetric] take_slice)
    next
      case (Some p)
      note pos = indexed_position[OF assms(4) nr[unfolded Some]]
      have at: "source ! (p + i) = backtick" if "i < n" for i
        using arg_cong[OF conjunct2[OF conjunct2[OF conjunct2[OF pos]]], of "\<lambda>l. l ! i"] that pos
        by (simp add: slice_def)
      have bp: "is_char_boundary source p"
        using boundary_ascii[of p source] at[of 0] pos n0 by simp
      have bq: "is_char_boundary source (p + n)"
      proof -
        have "p + (n - 1) < length source" "p + (n - 1) + 1 = p + n" using pos n0 by linarith+
        then show ?thesis
          using boundary_after_ascii[OF assms(1), of "p + (n - 1)"] at[of "n - 1"] n0 by simp
      qed
      show ?thesis
        using Some fence ne assms(5) nr pos n0 bn bp bq ix cut[OF bn bp]
        by (intro exI[of _ "slice source (index + n) p"] exI[of _ CODE])
          (auto simp: parse_step_def Let_def n_def[symmetric] take_slice)
    qed
  next
    case other
    show ?thesis
    proof (cases "inline_marker (drop index source)")
      case None
      then show ?thesis using other assms(4,5)
        by (intro plain) (auto simp: parse_step_def Let_def take_slice)
    next
      case (Some ms)
      obtain marker style where ms: "ms = (marker, style)" by force
      note m = inline_marker_Some[OF Some[unfolded ms]]
      have asc: "list_all (\<lambda>c. byte c < 128) marker" using m by (auto simp: list_all_iff)
      have bm: "is_char_boundary source (index + length marker)"
        using boundary_after_marker[OF assms(1) _ _ asc] m by blast
      show ?thesis
      proof (cases "find_unescaped_marker source (index + length marker) marker")
        case None
        then show ?thesis using other Some ms assms(4,5)
          by (intro plain) (auto simp: parse_step_def Let_def take_slice)
      next
        case (Some e)
        note e = find_unescaped_marker_sound[OF assms(1) bm Some]
        have be: "is_char_boundary source (e + length marker) \<and> e + length marker \<le> length source"
          using boundary_after_marker[OF assms(1) _ _ asc] e m by blast
        have u: "utf8_valid (unescape_inline (slice source (index + length marker) e))
            \<and> set (unescape_inline (slice source (index + length marker) e)) \<subseteq> set source"
          using unescape_inline_ok cut[OF bm] e by blast
        have "index' = e + length marker \<and> ip_index st' = ip_index st \<and> ip_out st' =
            append_piece (unescape_inline (slice source (index + length marker) e)) style (ip_out st)"
          using other \<open>inline_marker (drop index source) = Some ms\<close> ms Some assms(5)
          by (auto simp: parse_step_def Let_def take_slice)
        moreover have "index < e + length marker" using e m by (cases marker) auto
        ultimately show ?thesis using u be m assms(4)
          by (intro exI[of _ "unescape_inline (slice source (index + length marker) e)"] exI[of _ style]) auto
      qed
    qed
  qed
qed

section \<open>Inline text\<close>

text \<open>The style never changes inside a character.\<close>

definition aligned :: "string \<Rightarrow> inline_style list \<Rightarrow> bool" where
  "aligned s styles = (\<forall>i. 0 < i \<and> i < length s \<and> continuation (s ! i) \<longrightarrow> styles ! i = styles ! (i - 1))"

lemma alignedD: "aligned s styles \<Longrightarrow> 0 < i \<Longrightarrow> i < length s \<Longrightarrow> continuation (s ! i) \<Longrightarrow> styles ! i = styles ! (i - 1)"
  unfolding aligned_def by blast

lemma aligned_append:
  assumes "aligned s xs" "aligned t ys" "length xs = length s" "utf8_valid t"
  shows "aligned (s @ t) (xs @ ys)"
  unfolding aligned_def
proof (intro allI impI, elim conjE)
  fix i
  assume i: "0 < i" "i < length (s @ t)" "continuation ((s @ t) ! i)"
  consider "i < length s" | "i = length s" | j where "i = length s + Suc j"
    using less_imp_Suc_add[of "length s" i] by force
  then show "(xs @ ys) ! i = (xs @ ys) ! (i - 1)"
  proof cases
    case 1
    then have "continuation (s ! i)" using i by (simp add: nth_append)
    then have "xs ! i = xs ! (i - 1)" using alignedD[OF assms(1) i(1) 1] by blast
    moreover have "i - 1 < length s" using 1 by simp
    ultimately show ?thesis using 1 assms(3) by (simp add: nth_append)
  next
    case 2
    then show ?thesis using i assms(4) by (cases t) (auto dest: utf8_hd)
  next
    case 3
    have "Suc j < length t" "continuation (t ! Suc j)" using i 3 by (simp_all add: nth_append)
    then have "ys ! Suc j = ys ! j" using alignedD[OF assms(2), of "Suc j"] by simp
    then show ?thesis using 3 assms(3) by (simp add: nth_append)
  qed
qed

lemma aligned_take: "aligned s xs \<Longrightarrow> aligned (take n s) (take n xs)"
proof -
  assume a: "aligned s xs"
  have "take n xs ! i = take n xs ! (i - 1)" if "0 < i" "i < length (take n s)" "continuation (take n s ! i)" for i
  proof -
    have "i - 1 < n" using that by auto
    then show ?thesis using alignedD[OF a that(1)] that by simp
  qed
  then show ?thesis unfolding aligned_def by blast
qed

lemma aligned_drop: "aligned s xs \<Longrightarrow> length xs = length s \<Longrightarrow> aligned (drop n s) (drop n xs)"
proof -
  assume a: "aligned s xs" "length xs = length s"
  have "drop n xs ! i = drop n xs ! (i - 1)" if "0 < i" "i < length (drop n s)" "continuation (drop n s ! i)" for i
    using alignedD[OF a(1), of "n + i"] that a(2) by simp
  then show ?thesis unfolding aligned_def by blast
qed

lemma aligned_replicate [simp]: "aligned s (replicate (length s) st)"
  by (auto simp: aligned_def)

lemma aligned_Nil [simp]: "aligned [] xs"
  by (simp add: aligned_def)

text \<open>Text and runs in step: the runs cover the text exactly and have legal styles.\<close>

definition styled :: "string \<times> style_run list \<Rightarrow> bool" where
  "styled out = (contiguous 0 (snd out) (length (fst out)) \<and> list_all (\<lambda>r. style_ok (run_style r)) (snd out)
     \<and> utf8_valid (fst out) \<and> aligned (fst out) (flat (snd out)))"

lemma push_style_ok:
  "list_all (\<lambda>r. style_ok (run_style r)) runs \<Longrightarrow> style_ok st \<Longrightarrow>
     list_all (\<lambda>r. style_ok (run_style r)) (push_style_run runs a b st)"
  by (cases runs rule: rev_cases) (auto simp: push_style_run_def)

lemma append_piece_fst [simp]: "fst (append_piece piece style out) = fst out @ piece"
  by (cases out) (simp add: append_piece_def)

lemma append_piece_styled:
  assumes "styled out" "utf8_valid piece" "style_ok style"
  shows "styled (append_piece piece style out)
    \<and> flat (snd (append_piece piece style out)) = flat (snd out) @ replicate (length piece) style"
proof (cases "piece = []")
  case True
  then show ?thesis using assms by (cases out) (simp add: append_piece_def)
next
  case False
  then have "snd (append_piece piece style out) =
      push_style_run (snd out) (length (fst out)) (length (fst out) + length piece) style"
    by (cases out) (simp add: append_piece_def)
  then show ?thesis
    using assms push_contiguous[of "snd out" "length (fst out)" "length (fst out) + length piece" style]
      length_flat[of 0 "snd out" "length (fst out)"]
    by (auto simp: styled_def push_style_ok utf8_append intro!: aligned_append)
qed

lemma parse_loop_styled:
  assumes "utf8_valid source" "is_char_boundary source index" "indexes source (ip_index st)" "styled (ip_out st)"
  shows "styled (ip_out (parse_loop source index st))
    \<and> (\<exists>piece. fst (ip_out (parse_loop source index st)) = fst (ip_out st) @ piece \<and> set piece \<subseteq> set source)"
  using assms
proof (induction source index st rule: parse_loop.induct)
  case (1 source index st)
  show ?case
  proof (cases "index < length source")
    case True
    obtain index' st' where step: "parse_step source index st = (index', st')" by force
    obtain piece style where p: "ip_out st' = append_piece piece style (ip_out st)" "style_ok style"
        "utf8_valid piece" "set piece \<subseteq> set source" "index < index'" "is_char_boundary source index'"
        "indexes source (ip_index st')"
      using parse_step_appends[OF 1(2,3) True 1(4) step] by blast
    have loop: "parse_loop source index st = parse_loop source index' st'"
      using True step by (simp add: parse_loop.simps[of source index st])
    have s: "styled (ip_out st')" using append_piece_styled[OF 1(5) p(3,2)] p(1) by simp
    obtain more where "fst (ip_out (parse_loop source index' st')) = fst (ip_out st') @ more" "set more \<subseteq> set source"
        "styled (ip_out (parse_loop source index' st'))"
      using 1(1)[OF True step[symmetric] refl 1(2) p(6,7) s] by blast
    then show ?thesis using p(1,4) unfolding loop by (intro conjI exI[of _ "piece @ more"]) auto
  qed (use 1(5) in \<open>auto simp: parse_loop.simps\<close>)
qed

lemma parse_inline_styled:
  assumes "utf8_valid source" "styled out"
  shows "styled (parse_inline source out)
    \<and> (\<exists>piece. fst (parse_inline source out) = fst out @ piece \<and> set piece \<subseteq> set source)"
  using parse_loop_styled[OF assms(1), of 0 "\<lparr> ip_out = out, ip_index = backtick_index_new source,
      ip_parse_steps = 0, ip_delimiter_queries = 0 \<rparr>"] assms(2)
  by (simp add: parse_inline_def parse_inline_with_operations_def indexes_def)

section \<open>Lines\<close>

lemma split_lines_append: "newline \<notin> set c \<Longrightarrow> split_lines (c @ t) = (c @ hd (split_lines t)) # tl (split_lines t)"
proof (induction c)
  case Nil
  then show ?case by (induction t) (auto split: list.splits)
next
  case (Cons a c)
  then have "a \<noteq> newline" by auto
  then show ?case using Cons by simp
qed

lemma split_lines_nonempty [simp]: "split_lines s \<noteq> []"
  by (induction s) (auto split: list.splits)

lemma newline_in_char: "utf8_char c \<Longrightarrow> newline \<in> set c \<Longrightarrow> c = [newline]"
proof -
  assume c: "utf8_char c" "newline \<in> set c"
  then obtain a r where ar: "c = a # r" by (cases c) auto
  have "newline \<notin> set r"
    using c(1) ar by (auto simp: utf8_char_def list_all_iff continuation_def newline_def byte_def)
  then have "a = newline" using c(2) ar by auto
  then have "length c = 1" using c(1) ar by (simp add: utf8_char_def)
  then show ?thesis using ar \<open>a = newline\<close> by simp
qed

lemma split_lines_ok:
  "utf8_valid s \<Longrightarrow> list_all (\<lambda>l. utf8_valid l \<and> newline \<notin> set l \<and> set l \<subseteq> set s) (split_lines s)"
proof (induction s rule: utf8_induct)
  case (Char c t)
  show ?case
  proof (cases "newline \<in> set c")
    case True
    then have "c = [newline]" using newline_in_char Char(1) by blast
    then show ?thesis using Char by (auto simp: list_all_iff)
  next
    case False
    have "hd (split_lines t) \<in> set (split_lines t)" "set (tl (split_lines t)) \<subseteq> set (split_lines t)"
      by (auto simp: hd_in_set list.set_sel(2))
    then show ?thesis
      using Char False unfolding split_lines_append[OF False] list_all_iff
      by (auto simp: utf8_char_append)
  qed
qed simp

lemma parse_block_prefix_suffix:
  assumes "utf8_valid line"
  shows "utf8_valid (snd (parse_block_prefix line)) \<and> set (snd (parse_block_prefix line)) \<subseteq> set line"
proof -
  have cut: "utf8_valid (drop n line) \<and> set (drop n line) \<subseteq> set line"
    if "list_all (\<lambda>c. byte c < 128) (take n line)" for n
    using utf8_append_cancel[OF utf8_ascii[OF that], of "drop n line"] assms set_drop_subset[of n line] by auto
  have pre: "utf8_valid r \<and> set r \<subseteq> set line"
    if "strip_prefix p line = Some r" "list_all (\<lambda>c. byte c < 128) p" for p r
    using cut[of "length p"] that by (auto simp: strip_prefix_def starts_with_def split: if_splits)
  have num: "utf8_valid (drop n line) \<and> set (drop n line) \<subseteq> set line"
    if n: "looks_numbered_prefix line = Some n" for n
  proof (rule cut)
    let ?d = "length (takeWhile is_ascii_digit line)"
    have "n = ?d + 2" "take 2 (drop ?d line) = ''. ''"
      using n by (auto simp: looks_numbered_prefix_def Let_def split: if_splits)
    then have "take n line = takeWhile is_ascii_digit line @ ''. ''"
      by (metis take_add takeWhile_eq_take)
    moreover have "list_all (\<lambda>c. byte c < 128) (takeWhile is_ascii_digit line)"
      by (auto simp: list_all_iff is_ascii_digit_def dest: set_takeWhileD)
    ultimately show "list_all (\<lambda>c. byte c < 128) (take n line)" by (simp add: byte_def)
  qed
  have bytes: "list_all (\<lambda>c. byte c < 128) p"
    if "p \<in> {''### '', ''## '', ''# '', ''- '', ''> ''}" for p
    using that by (auto simp: byte_def)
  show ?thesis
    unfolding parse_block_prefix_def
    using pre bytes num assms by (auto split: option.splits)
qed

lemma parse_lines_ok:
  assumes "list_all (\<lambda>l. utf8_valid l \<and> newline \<notin> set l \<and> carriage_return \<notin> set l) lines" "styled out"
    "carriage_return \<notin> set (fst out)"
  shows "case parse_lines first lines out blocks of (out', blocks') \<Rightarrow>
    styled out' \<and> carriage_return \<notin> set (fst out') \<and> length blocks' = length blocks + length lines
    \<and> newlines (fst out') + (if first \<and> lines \<noteq> [] then 1 else 0) = newlines (fst out) + length lines"
  using assms
proof (induction lines arbitrary: first out blocks)
  case (Cons l lines)
  define out1 where "out1 = (if first then out else (fst out @ [newline],
    push_style_run (snd out) (length (fst out)) (length (fst out) + 1) PLAIN))"
  obtain kind rest where kr: "parse_block_prefix l = (kind, rest)" by force
  have rest: "utf8_valid rest" "set rest \<subseteq> set l"
    using parse_block_prefix_suffix[of l] Cons.prems(1) kr by auto
  have "out1 = (if first then out else append_piece [newline] PLAIN out)"
    by (cases out) (simp add: out1_def append_piece_def)
  then have s1: "styled out1" using append_piece_styled[OF Cons.prems(2), of "[newline]" PLAIN] Cons.prems(2) by simp
  obtain piece where p: "styled (parse_inline rest out1)" "fst (parse_inline rest out1) = fst out1 @ piece"
      "set piece \<subseteq> set rest"
    using parse_inline_styled[OF rest(1) s1] by blast
  have piece: "newline \<notin> set piece" "carriage_return \<notin> set piece" using p(3) rest(2) Cons.prems(1) by auto
  have step: "parse_lines first (l # lines) out blocks = parse_lines False lines (parse_inline rest out1) (blocks @ [kind])"
    unfolding parse_lines.simps(2) Let_def out1_def[symmetric] kr by simp
  have cr: "carriage_return \<notin> set (fst (parse_inline rest out1))"
    using p(2) piece Cons.prems(3) by (auto simp: out1_def)
  have "newlines (fst (parse_inline rest out1)) = newlines (fst out) + (if first then 0 else 1)"
    using p(2) piece by (auto simp: out1_def filter_empty_conv)
  then show ?case
    using Cons.IH[where out = "parse_inline rest out1" and first = False and blocks = "blocks @ [kind]"] Cons.prems(1) p(1) cr
    unfolding step by (auto split: prod.splits)
qed simp

section \<open>Linear work\<close>

text \<open>The number of turns and of queries of the index, and how far the index moves.\<close>

lemma parse_step_counts:
  "parse_step source index st = (index', st') \<Longrightarrow>
     ip_parse_steps st' = ip_parse_steps st + 1
     \<and> ip_delimiter_queries st' \<le> ip_delimiter_queries st + 1"
  by (auto simp: parse_step_def Let_def split: if_splits option.splits prod.splits)

lemma parse_loop_counts:
  "utf8_valid source \<Longrightarrow> is_char_boundary source index \<Longrightarrow> indexes source (ip_index st) \<Longrightarrow>
     ip_parse_steps (parse_loop source index st) \<le> ip_parse_steps st + (length source - index)
     \<and> ip_delimiter_queries (parse_loop source index st) \<le> ip_delimiter_queries st + (length source - index)"
proof (induction source index st rule: parse_loop.induct)
  case (1 source index st)
  show ?case
  proof (cases "index < length source")
    case True
    obtain index' st' where step: "parse_step source index st = (index', st')" by force
    have p: "index < index'" "index' \<le> length source" "is_char_boundary source index'" "indexes source (ip_index st')"
      using parse_step_appends[OF 1(2,3) True 1(4) step] by blast+
    have loop: "parse_loop source index st = parse_loop source index' st'"
      using True step by (simp add: parse_loop.simps[of source index st])
    show ?thesis
      using 1(1)[OF True step[symmetric] refl 1(2) p(3,4)] parse_step_counts[OF step] p(1,2) True
      unfolding loop by linarith
  qed (auto simp: parse_loop.simps)
qed

text \<open>A turn of the loop, as a relation, and that the loop comes to the end of the line.\<close>

definition parse_turn :: "string \<Rightarrow> nat \<times> inline_parse \<Rightarrow> nat \<times> inline_parse \<Rightarrow> bool" where
  "parse_turn source = (\<lambda>(index, st) next. index < length source \<and> parse_step source index st = next)"

lemma parse_loop_turns:
  "utf8_valid source \<Longrightarrow> is_char_boundary source index \<Longrightarrow> indexes source (ip_index st) \<Longrightarrow>
     (parse_turn source)\<^sup>*\<^sup>* (index, st) (length source, parse_loop source index st)"
proof (induction source index st rule: parse_loop.induct)
  case (1 source index st)
  show ?case
  proof (cases "index < length source")
    case True
    obtain index' st' where step: "parse_step source index st = (index', st')" by force
    have p: "is_char_boundary source index'" "indexes source (ip_index st')"
      using parse_step_appends[OF 1(2,3) True 1(4) step] by blast+
    have loop: "parse_loop source index st = parse_loop source index' st'"
      using True step by (simp add: parse_loop.simps[of source index st])
    have "parse_turn source (index, st) (index', st')" using True step by (simp add: parse_turn_def)
    then show ?thesis using 1(1)[OF True step[symmetric] refl 1(2) p] unfolding loop
      by (rule converse_rtranclp_into_rtranclp)
  next
    case False
    then have "index = length source" using boundary_le[OF 1(3)] by simp
    then show ?thesis by (simp add: parse_loop.simps)
  qed
qed

end
