(* ===== verification/EditorInv.thy ===== *)
theory EditorInv
  imports EditorParse
begin

text \<open>
  The invariant of the buffer of \<open>crates/key-editor-core/src/lib.rs\<close> and the effect of the operations on
  the styles of the bytes.
\<close>

section \<open>Runs\<close>

lemma keep_before_skip: "touching c runs len \<Longrightarrow> a \<le> c \<Longrightarrow> keep_before a out runs = out"
  by (induction c runs len arbitrary: out rule: touching.induct) auto

lemma keep_before_flat:
  assumes "contiguous 0 out c" "touching c runs len" "c \<le> a" "a \<le> len"
  shows "contiguous 0 (keep_before a out runs) a
    \<and> flat (keep_before a out runs) = flat out @ take (a - c) (flat runs)"
  using assms
proof (induction runs arbitrary: out c)
  case (Cons run runs)
  have r: "run_start run = c" "c \<le> run_end run" "touching (run_end run) runs len"
    using Cons.prems(2) by auto
  show ?case
  proof (cases "run_end run \<le> a")
    case True
    note p = push_contiguous[OF Cons.prems(1) r(2), of "run_style run"]
    show ?thesis
      using Cons.IH[OF conjunct1[OF p] r(3) True Cons.prems(4)] p r(1,2) True by simp
  next
    case False
    note p = push_contiguous[OF Cons.prems(1,3), of "run_style run"]
    have "keep_before a (push_style_run out c a (run_style run)) runs = push_style_run out c a (run_style run)"
      using keep_before_skip[OF r(3)] False by simp
    then show ?thesis
      using p r(1) False Cons.prems(1,3) keep_before_skip[OF r(3)]
      by (cases "c < a") (auto simp: min_def)
  qed
qed auto

lemma shift_after_flat:
  assumes "contiguous 0 out (new_end + (c - e))" "touching c runs len"
    and "e = a + removed" "new_end = a + inserted"
  shows "contiguous 0 (shift_after e removed inserted new_end out runs) (new_end + (max c len - e))
    \<and> flat (shift_after e removed inserted new_end out runs) = flat out @ drop (e - c) (flat runs)"
  using assms(1,2)
proof (induction runs arbitrary: out c)
  case (Cons run runs)
  have r: "run_start run = c" "c \<le> run_end run" "touching (run_end run) runs len"
    using Cons.prems(2) by auto
  have len: "run_end run \<le> len" using touching_le r(3) by blast
  define out1 where "out1 = (if e \<le> run_start run
        then push_style_run out (run_start run - removed + inserted) (run_end run - removed + inserted) (run_style run)
        else if e < run_end run
        then push_style_run out new_end (new_end + (run_end run - e)) (run_style run)
        else out)"
  have out1: "contiguous 0 out1 (new_end + (run_end run - e))
      \<and> flat out1 = flat out @ drop (e - c) (replicate (run_end run - c) (run_style run))"
  proof (cases "e \<le> c")
    case True
    have "c - removed + inserted = new_end + (c - e)" "run_end run - removed + inserted = new_end + (run_end run - e)"
      using True r assms(3,4) by auto
    then show ?thesis
      using push_contiguous[OF Cons.prems(1), of "new_end + (run_end run - e)" "run_style run"] True r
      by (simp add: out1_def)
  next
    case F: False
    show ?thesis
    proof (cases "e < run_end run")
      case True
      then show ?thesis
        using push_contiguous[of out new_end "new_end + (run_end run - e)" "run_style run"] Cons.prems(1) F r
        by (simp add: out1_def)
    next
      case False
      then show ?thesis using F r Cons.prems(1) by (simp add: out1_def)
    qed
  qed
  have step: "shift_after e removed inserted new_end out (run # runs) = shift_after e removed inserted new_end out1 runs"
    by (simp add: out1_def)
  have "max (run_end run) len = len" "max c len = len" using len r(2) by auto
  then show ?case
    using Cons.IH[OF conjunct1[OF out1] r(3)] out1 r(1,2) unfolding step by simp
qed auto

lemma runs_styles_ok:
  assumes "list_all (\<lambda>r. style_ok (run_style r)) runs" "list_all (\<lambda>r. style_ok (run_style r)) out"
  shows "list_all (\<lambda>r. style_ok (run_style r)) (keep_before a out runs)"
    and "list_all (\<lambda>r. style_ok (run_style r)) (shift_after e removed inserted new_end out runs)"
    and "(\<And>st. style_ok st \<Longrightarrow> style_ok (f st)) \<Longrightarrow>
      list_all (\<lambda>r. style_ok (run_style r)) (restyle a e f out runs)"
  using assms
proof (induction runs arbitrary: out)
  case (Cons run runs)
  {
    case 1
    then show ?case using Cons(1) by (auto intro!: push_style_ok)
  next
    case 2
    then show ?case using Cons(2) by (auto intro!: push_style_ok)
  next
    case 3
    then show ?case using Cons(3)[OF 3(1)] by (simp add: push_style_ok Let_def)
  }
qed simp_all

lemma normalize_styles_ok:
  "list_all (\<lambda>r. style_ok (run_style r)) runs \<Longrightarrow> list_all (\<lambda>r. style_ok (run_style r)) (normalize_runs len runs)"
proof -
  have "list_all (\<lambda>r. style_ok (run_style r)) (snd (normalize_loop len cursor out runs))"
    if "list_all (\<lambda>r. style_ok (run_style r)) runs" "list_all (\<lambda>r. style_ok (run_style r)) out" for cursor out
    using that by (induction runs arbitrary: cursor out) (auto simp: Let_def push_style_ok)
  then show "list_all (\<lambda>r. style_ok (run_style r)) runs \<Longrightarrow> ?thesis"
    by (auto simp: normalize_runs_def push_style_ok split: prod.splits) (metis list.pred_inject(1) push_style_ok snd_conv style_ok_simps(1))+
qed

text \<open>Restyling a range changes the style of exactly the bytes of the range.\<close>

definition restyled :: "nat \<Rightarrow> nat \<Rightarrow> (inline_style \<Rightarrow> inline_style) \<Rightarrow> nat \<Rightarrow> inline_style list \<Rightarrow> inline_style list" where
  "restyled a e f c styles = map (\<lambda>(i, st). if a \<le> i \<and> i < e then f st else st) (enumerate c styles)"

lemma restyled_append:
  "restyled a e f c (xs @ ys) = restyled a e f c xs @ restyled a e f (c + length xs) ys"
  by (simp add: restyled_def enumerate_append_eq)

lemma restyled_replicate:
  assumes "n = n1 + n2 + n3" "c + n1 \<le> a \<or> n1 = 0" "n2 = 0 \<or> a \<le> c + n1 \<and> c + n1 + n2 \<le> e"
    "n3 = 0 \<or> e \<le> c + n1 + n2"
  shows "restyled a e f c (replicate n st) = replicate n1 st @ replicate n2 (f st) @ replicate n3 st"
  unfolding restyled_def
  by (rule nth_equalityI) (use assms in \<open>auto simp: nth_append nth_enumerate_eq\<close>)

lemma restyle_flat:
  assumes "contiguous 0 out c" "touching c runs len" "a \<le> e"
  shows "contiguous 0 (restyle a e f out runs) (max c len)
    \<and> flat (restyle a e f out runs) = flat out @ restyled a e f c (flat runs)"
  using assms(1,2)
proof (induction runs arbitrary: out c)
  case Nil
  then show ?case by (simp add: restyled_def)
next
  case (Cons run runs)
  have r: "run_start run = c" "c \<le> run_end run" "touching (run_end run) runs len"
    using Cons.prems(2) by auto
  have len: "max (run_end run) len = len" "max c len = len" using touching_le[OF r(3)] r(2) by auto
  let ?n = "run_end run - c" and ?st = "run_style run"
  obtain out1 where out1: "restyle a e f out (run # runs) = restyle a e f out1 runs"
      "contiguous 0 out1 (run_end run)" "flat out1 = flat out @ restyled a e f c (replicate ?n ?st)"
  proof (cases "run_end run \<le> a \<or> e \<le> c")
    case True
    have "restyled a e f c (replicate ?n ?st) = replicate ?n ?st"
    proof (cases "run_end run \<le> a")
      case True
      then show ?thesis using restyled_replicate[of ?n ?n 0 0 c a e] r by simp
    next
      case False
      then show ?thesis using restyled_replicate[of ?n 0 0 ?n c a e] True by simp
    qed
    then show ?thesis
      using that[of "push_style_run out c (run_end run) ?st"] True r
        push_contiguous[OF Cons.prems(1) r(2), of ?st] by simp
  next
    case False
    define lo where "lo = max c a"
    define hi where "hi = min (run_end run) e"
    have le: "c \<le> lo" "lo \<le> hi" "hi \<le> run_end run" using False r(2) assms(3) by (auto simp: lo_def hi_def)
    define o1 where "o1 = push_style_run out c lo ?st"
    define o2 where "o2 = push_style_run o1 lo hi (f ?st)"
    define o3 where "o3 = push_style_run o2 hi (run_end run) ?st"
    note p1 = push_contiguous[OF Cons.prems(1) le(1), of ?st, folded o1_def]
    note p2 = push_contiguous[OF conjunct1[OF p1] le(2), of "f ?st", folded o2_def]
    note p3 = push_contiguous[OF conjunct1[OF p2] le(3), of ?st, folded o3_def]
    have o1: "(if run_start run < a then push_style_run out (run_start run) a ?st else out) = o1"
      using r(1) False by (auto simp: o1_def lo_def max_def)
    have o3: "(if e < run_end run then push_style_run o2 e (run_end run) ?st else o2) = o3"
      by (auto simp: o3_def hi_def min_def)
    have eq: "restyle a e f out (run # runs) = restyle a e f o3 runs"
      using False unfolding restyle.simps o1 Let_def
      by (simp add: r(1) lo_def[symmetric] hi_def[symmetric] o2_def[symmetric] o3[unfolded o2_def] o3_def)
        (simp add: o3_def o2_def hi_def min_def)
    have "restyled a e f c (replicate ?n ?st) =
        replicate (lo - c) ?st @ replicate (hi - lo) (f ?st) @ replicate (run_end run - hi) ?st"
      by (rule restyled_replicate) (use le in \<open>auto simp: lo_def hi_def max_def min_def\<close>)
    then show ?thesis using that[OF eq] p1 p2 p3 by simp
  qed
  then show ?case
    using Cons.IH[OF out1(2) r(3)] r len by (simp add: restyled_append)
qed

section \<open>The invariant\<close>

definition marked_ok :: "string \<Rightarrow> (nat \<times> nat) option \<Rightarrow> bool" where
  "marked_ok s m = (case m of None \<Rightarrow> True | Some (a, e) \<Rightarrow>
     a < e \<and> is_char_boundary s a \<and> is_char_boundary s e)"

lemma marked_ok_simps [simp]:
  "marked_ok s None" "marked_ok s (Some (a, e)) \<longleftrightarrow> a < e \<and> is_char_boundary s a \<and> is_char_boundary s e"
  by (simp_all add: marked_ok_def)

definition editor_ok :: "editor_buffer \<Rightarrow> bool" where
  "editor_ok b =
     (utf8_valid (eb_text b) \<and> carriage_return \<notin> set (eb_text b)
      \<and> contiguous 0 (eb_runs b) (length (eb_text b))
      \<and> list_all (\<lambda>r. style_ok (run_style r)) (eb_runs b)
      \<and> aligned (eb_text b) (flat (eb_runs b))
      \<and> length (eb_blocks b) = newlines (eb_text b) + 1
      \<and> eb_sel_start b \<le> eb_sel_end b
      \<and> is_char_boundary (eb_text b) (eb_sel_start b) \<and> is_char_boundary (eb_text b) (eb_sel_end b)
      \<and> marked_ok (eb_text b) (eb_marked b)
      \<and> (case eb_pending b of None \<Rightarrow> True | Some st \<Rightarrow> style_ok st))"

lemma editor_okD:
  assumes "editor_ok b"
  shows "utf8_valid (eb_text b)" "carriage_return \<notin> set (eb_text b)"
    "contiguous 0 (eb_runs b) (length (eb_text b))" "list_all (\<lambda>r. style_ok (run_style r)) (eb_runs b)"
    "length (eb_blocks b) = newlines (eb_text b) + 1" "eb_sel_start b \<le> eb_sel_end b"
    "is_char_boundary (eb_text b) (eb_sel_start b)" "is_char_boundary (eb_text b) (eb_sel_end b)"
    "aligned (eb_text b) (flat (eb_runs b))"
  using assms by (simp_all add: editor_ok_def)

lemma parse_markdown_ok:
  assumes "utf8_valid source"
  shows "editor_ok (parse_markdown source n)"
proof -
  let ?lines = "split_lines (normalize_newlines source)"
  obtain out blocks where eq: "parse_lines True ?lines ([], []) [] = (out, blocks)" by (rule prod.exhaust)
  have "list_all (\<lambda>l. utf8_valid l \<and> newline \<notin> set l \<and> carriage_return \<notin> set l) ?lines"
    using split_lines_ok[OF normalize_valid[OF assms]] normalize_no_cr[of source]
    by (auto simp: list_all_iff)
  from parse_lines_ok[OF this, where out = "([], [])" and first = True and blocks = "[]"] eq
  have p: "styled out" "carriage_return \<notin> set (fst out)" "length blocks = length ?lines"
    "newlines (fst out) + 1 = length ?lines"
    by (auto simp: styled_def)
  have "blocks \<noteq> []" using p(3) split_lines_nonempty[of "normalize_newlines source"] by auto
  then show ?thesis
    using p eq normalize_touching[OF contiguous_touching, of "snd out" "length (fst out)"]
      normalize_styles_ok[of "snd out"]
    by (auto simp: parse_markdown_def editor_ok_def styled_def split: prod.splits)
qed

lemma selection_ops_ok:
  assumes "editor_ok b"
  shows "editor_ok (set_selection a e r b)" "editor_ok (move_to i b)" "editor_ok (select_to i b)"
    "editor_ok (select_all b)" "editor_ok (clear_marked_range b)"
  using assms
  by (auto simp: editor_ok_def set_selection_def move_to_def select_to_def select_all_def clear_marked_range_def
      Let_def min_def max_def)

section \<open>Replacing\<close>

lemma style_for_insertion_ok:
  "list_all (\<lambda>r. style_ok (run_style r)) (eb_runs b) \<Longrightarrow> style_ok (style_for_insertion b i)"
  by (auto simp: style_for_insertion_def Let_def list_all_iff find_Some_iff split: option.splits)

definition insertion_style :: "editor_buffer \<Rightarrow> nat \<Rightarrow> inline_style" where
  "insertion_style b i = (case eb_pending b of Some st \<Rightarrow> st | None \<Rightarrow> style_for_insertion b i)"

lemma insertion_style_ok: "editor_ok b \<Longrightarrow> style_ok (insertion_style b i)"
  by (auto simp: insertion_style_def editor_ok_def style_for_insertion_ok split: option.splits)

text \<open>The offsets to which the range of a replacement is rounded.\<close>

definition cut_start :: "editor_buffer \<Rightarrow> nat \<Rightarrow> nat" where
  "cut_start b a = floor_char_boundary (eb_text b) (min a (length (eb_text b)))"

definition cut_end :: "editor_buffer \<Rightarrow> nat \<Rightarrow> nat \<Rightarrow> nat" where
  "cut_end b a e = max (floor_char_boundary (eb_text b) (min e (length (eb_text b)))) (cut_start b a)"

lemma cut_bounds:
  "cut_start b a \<le> cut_end b a e" "cut_end b a e \<le> length (eb_text b)"
  "is_char_boundary (eb_text b) (cut_start b a)" "is_char_boundary (eb_text b) (cut_end b a e)"
  by (auto simp: cut_start_def cut_end_def max_def)

lemma cut_exact:
  "is_char_boundary (eb_text b) a \<Longrightarrow> is_char_boundary (eb_text b) e \<Longrightarrow> a \<le> e \<Longrightarrow>
     cut_start b a = a \<and> cut_end b a e = e"
  using boundary_le by (auto simp: cut_start_def cut_end_def min_absorb1 max_absorb1)

lemma line_at_offset_newlines: "i \<le> length s \<Longrightarrow> line_at_offset s i = newlines (take i s)"
  by (simp add: line_at_offset_def min_absorb1)

text \<open>The buffer that a replacement proposes: the text \<open>t\<close> for the bytes from \<open>x\<close> to \<open>y\<close>. It is committed
  if it fits.\<close>

definition candidate :: "editor_buffer \<Rightarrow> nat \<Rightarrow> nat \<Rightarrow> string \<Rightarrow> editor_buffer" where
  "candidate b x y t =
     (let r1 = keep_before x [] (eb_runs b);
          r2 = (if 0 < length t then push_style_run r1 x (x + length t) (insertion_style b x) else r1);
          r3 = shift_after y (y - x) (length t) (x + length t) r2 (eb_runs b);
          nt = take x (eb_text b) @ t @ drop y (eb_text b)
      in b\<lparr> eb_text := nt, eb_runs := normalize_runs (length nt) r3,
            eb_blocks := splice_blocks (line_at_offset (eb_text b) x) (line_at_offset (eb_text b) y)
              (newlines t + 1) (eb_blocks b),
            eb_sel_start := x + length t, eb_sel_end := x + length t, eb_reversed := False,
            eb_pending := Some (insertion_style b x) \<rparr>)"

lemma replace_range_candidate:
  fixes b a e s
  defines "x \<equiv> cut_start b a" and "y \<equiv> cut_end b a e" and "t \<equiv> normalize_newlines s"
  defines "c \<equiv> candidate b x y t"
  assumes "int (eb_max b) < 2 ^ 64 \<or> replace_range a e s b \<noteq> None"
  shows "replace_range a e s b =
    (if length (eb_text c) \<le> eb_max b \<and> markdown_fits_with_limit (eb_text c) (eb_runs c) (eb_blocks c) (eb_max b)
     then Some ((x, x + length t), c) else None)"
proof -
  have y_alt: "max (cut_start b e) x = y" by (simp add: y_def x_def cut_end_def cut_start_def)
  have le: "x \<le> y" "y \<le> length (eb_text b)" using cut_bounds(1,2)[of b a e] by (simp_all add: x_def y_def)
  have len: "length (eb_text c) = length (eb_text b) - (y - x) + length t"
    using le by (simp add: c_def candidate_def Let_def)
  show ?thesis
    using assms(5) le len
    unfolding replace_range_def Let_def cut_start_def[symmetric] x_def[symmetric] y_alt t_def[symmetric]
      insertion_style_def[symmetric] normalized_newline_len c_def candidate_def
    by (auto simp: checked_usize_def split: if_splits)
qed

lemma candidate_facts:
  fixes b x y t
  assumes "editor_ok b" "x \<le> y" "y \<le> length (eb_text b)"
  defines "c \<equiv> candidate b x y t"
  shows "eb_text c = take x (eb_text b) @ t @ drop y (eb_text b)"
    and "contiguous 0 (eb_runs c) (length (eb_text c))"
    and "flat (eb_runs c) = take x (flat (eb_runs b)) @ replicate (length t) (insertion_style b x)
            @ drop y (flat (eb_runs b))"
    and "list_all (\<lambda>r. style_ok (run_style r)) (eb_runs c)"
    and "eb_blocks c = take (newlines (take x (eb_text b))) (eb_blocks b)
            @ replicate (newlines t + 1) (eb_blocks b ! newlines (take x (eb_text b)))
            @ drop (newlines (take y (eb_text b)) + 1) (eb_blocks b)"
    and "eb_sel_start c = x + length t \<and> eb_sel_end c = x + length t \<and> \<not> eb_reversed c"
    and "eb_pending c = Some (insertion_style b x)" "eb_max c = eb_max b" "eb_marked c = eb_marked b"
proof -
  define style where "style = insertion_style b x"
  define r1 where "r1 = keep_before x [] (eb_runs b)"
  define r2 where "r2 = (if 0 < length t then push_style_run r1 x (x + length t) style else r1)"
  define r3 where "r3 = shift_after y (y - x) (length t) (x + length t) r2 (eb_runs b)"
  define nt where "nt = take x (eb_text b) @ t @ drop y (eb_text b)"
  have eq: "c = b\<lparr> eb_text := nt, eb_runs := normalize_runs (length nt) r3,
            eb_blocks := splice_blocks (line_at_offset (eb_text b) x) (line_at_offset (eb_text b) y)
              (newlines t + 1) (eb_blocks b),
            eb_sel_start := x + length t, eb_sel_end := x + length t, eb_reversed := False,
            eb_pending := Some style \<rparr>"
    unfolding c_def candidate_def Let_def r3_def r2_def r1_def nt_def style_def by simp
  have touch: "touching 0 (eb_runs b) (length (eb_text b))"
    using contiguous_touching editor_okD(3)[OF assms(1)] .
  have r1: "contiguous 0 r1 x \<and> flat r1 = take x (flat (eb_runs b))"
    using keep_before_flat[OF _ touch, of "[]" x] assms(2,3) by (simp add: r1_def)
  have r2: "contiguous 0 r2 (x + length t) \<and> flat r2 = flat r1 @ replicate (length t) style"
    using push_contiguous[OF conjunct1[OF r1], of "x + length t" style] r1 by (auto simp: r2_def)
  have c2: "contiguous 0 r2 (x + length t + (0 - y))" using r2 by simp
  have ye: "y = x + (y - x)" using assms(2) by simp
  have r3: "contiguous 0 r3 (x + length t + (length (eb_text b) - y))
      \<and> flat r3 = flat r2 @ drop y (flat (eb_runs b))"
    using shift_after_flat[OF c2 touch ye refl] by (simp add: r3_def)
  have len: "length nt = x + length t + (length (eb_text b) - y)" using assms(2,3) by (simp add: nt_def)
  have norm: "contiguous 0 (normalize_runs (length nt) r3) (length nt)
      \<and> flat (normalize_runs (length nt) r3) = flat r3"
    using normalize_touching[of r3 "length nt"] contiguous_touching r3 len by simp
  have sty: "list_all (\<lambda>r. style_ok (run_style r)) r3"
    unfolding r3_def r2_def r1_def style_def
    using editor_okD(4)[OF assms(1)] insertion_style_ok[OF assms(1)]
    by (intro runs_styles_ok(2)) (auto intro!: push_style_ok runs_styles_ok(1))
  show "eb_text c = take x (eb_text b) @ t @ drop y (eb_text b)" by (simp add: eq nt_def)
  show "contiguous 0 (eb_runs c) (length (eb_text c))" using norm by (simp add: eq)
  show "flat (eb_runs c) = take x (flat (eb_runs b)) @ replicate (length t) (insertion_style b x)
            @ drop y (flat (eb_runs b))"
    using norm r1 r2 r3 by (simp add: eq style_def)
  show "list_all (\<lambda>r. style_ok (run_style r)) (eb_runs c)" using normalize_styles_ok[OF sty] by (simp add: eq)
  show "eb_blocks c = take (newlines (take x (eb_text b))) (eb_blocks b)
            @ replicate (newlines t + 1) (eb_blocks b ! newlines (take x (eb_text b)))
            @ drop (newlines (take y (eb_text b)) + 1) (eb_blocks b)"
    using assms(2,3) by (simp add: eq splice_blocks_def line_at_offset_newlines)
qed (simp_all add: c_def candidate_def Let_def)

text \<open>What an accepted replacement does: text, styles of the bytes, blocks and the inserted range.\<close>

lemma replace_range_Some:
  assumes "editor_ok b" "replace_range a e s b = Some ((lo, hi), b')"
  defines "x \<equiv> cut_start b a" and "y \<equiv> cut_end b a e" and "t \<equiv> normalize_newlines s"
  shows "eb_text b' = take x (eb_text b) @ t @ drop y (eb_text b)"
    and "contiguous 0 (eb_runs b') (length (eb_text b'))"
    and "flat (eb_runs b') = take x (flat (eb_runs b)) @ replicate (length t) (insertion_style b x)
            @ drop y (flat (eb_runs b))"
    and "list_all (\<lambda>r. style_ok (run_style r)) (eb_runs b')"
    and "eb_blocks b' = take (newlines (take x (eb_text b))) (eb_blocks b)
            @ replicate (newlines t + 1) (eb_blocks b ! newlines (take x (eb_text b)))
            @ drop (newlines (take y (eb_text b)) + 1) (eb_blocks b)"
    and "lo = x \<and> hi = x + length t \<and> eb_sel_start b' = hi \<and> eb_sel_end b' = hi \<and> \<not> eb_reversed b'"
    and "eb_pending b' = Some (insertion_style b x)" "eb_max b' = eb_max b" "eb_marked b' = eb_marked b"
    and "markdown_fits_with_limit (eb_text b') (eb_runs b') (eb_blocks b') (eb_max b')"
proof -
  have xy: "x \<le> y" "y \<le> length (eb_text b)" using cut_bounds(1,2)[of b a e] by (simp_all add: x_def y_def)
  note F = candidate_facts[OF assms(1) xy, of t]
  have eq: "b' = candidate b x y t" "lo = x" "hi = x + length t"
    and fits: "markdown_fits_with_limit (eb_text b') (eb_runs b') (eb_blocks b') (eb_max b)"
    using replace_range_candidate[of b a e s] assms(2) by (auto simp: x_def y_def t_def split: if_splits)
  show "eb_text b' = take x (eb_text b) @ t @ drop y (eb_text b)" unfolding eq by (rule F)
  show "contiguous 0 (eb_runs b') (length (eb_text b'))" unfolding eq by (rule F)
  show "flat (eb_runs b') = take x (flat (eb_runs b)) @ replicate (length t) (insertion_style b x)
            @ drop y (flat (eb_runs b))" unfolding eq by (rule F)
  show "list_all (\<lambda>r. style_ok (run_style r)) (eb_runs b')" unfolding eq by (rule F)
  show "eb_blocks b' = take (newlines (take x (eb_text b))) (eb_blocks b)
            @ replicate (newlines t + 1) (eb_blocks b ! newlines (take x (eb_text b)))
            @ drop (newlines (take y (eb_text b)) + 1) (eb_blocks b)" unfolding eq by (rule F)
  show "lo = x \<and> hi = x + length t \<and> eb_sel_start b' = hi \<and> eb_sel_end b' = hi \<and> \<not> eb_reversed b'"
    using F(6) unfolding eq by blast
  show "eb_pending b' = Some (insertion_style b x)" "eb_max b' = eb_max b" "eb_marked b' = eb_marked b"
    unfolding eq by (rule F)+
  then show "markdown_fits_with_limit (eb_text b') (eb_runs b') (eb_blocks b') (eb_max b')" using fits by simp
qed

lemma newlines_take_mono: "x \<le> y \<Longrightarrow> newlines (take x s) \<le> newlines (take y s)"
  by (metis filter_append le_add1 le_add_diff_inverse length_append take_add)

lemma newlines_split: "newlines s = newlines (take y s) + newlines (drop y s)"
  by (metis append_take_drop_id filter_append length_append)

text \<open>An accepted replacement keeps the invariant, whatever the marked range was.\<close>

lemma replace_range_ok:
  assumes "editor_ok b" "utf8_valid s" "replace_range a e s b = Some ((lo, hi), b')"
  shows "editor_ok (b'\<lparr> eb_marked := None \<rparr>)" "lo \<le> hi" "is_char_boundary (eb_text b') lo"
    "is_char_boundary (eb_text b') hi" "utf8_valid (slice (eb_text b') lo hi)"
    "hi - lo = length (normalize_newlines s)"
proof -
  let ?x = "cut_start b a" and ?y = "cut_end b a e" and ?t = "normalize_newlines s"
  note R = replace_range_Some[OF assms(1,3)]
  note ok = editor_okD[OF assms(1)]
  have x: "?x \<le> ?y" "?y \<le> length (eb_text b)" using cut_bounds(1,2)[of b a e] by simp_all
  have vx: "utf8_valid (take ?x (eb_text b))" using utf8_take_drop[OF ok(1) cut_bounds(3)] by blast
  have vy: "utf8_valid (drop ?y (eb_text b))" using utf8_take_drop[OF ok(1) cut_bounds(4)] by blast
  have vt: "utf8_valid ?t" by (rule normalize_valid[OF assms(2)])
  have lenx: "length (take ?x (eb_text b)) = ?x" using x by simp
  have v1: "utf8_valid (?t @ drop ?y (eb_text b))" by (rule utf8_append[OF vt vy])
  have "is_char_boundary (?t @ drop ?y (eb_text b)) (length ?t)"
    using boundary_suffix[OF _ vy, of ?t "length ?t"] by simp
  from boundary_prefix_shift[OF this v1, of "take ?x (eb_text b)"]
  have hi: "is_char_boundary (eb_text b') hi" using R(1,6) lenx by simp
  have "is_char_boundary (?t @ drop ?y (eb_text b)) 0" by simp
  from boundary_prefix_shift[OF this v1, of "take ?x (eb_text b)"]
  show lo: "is_char_boundary (eb_text b') lo" using R(1,6) lenx by simp
  show "is_char_boundary (eb_text b') hi" by (rule hi)
  show "lo \<le> hi" "hi - lo = length ?t" using R(6) by auto
  show "utf8_valid (slice (eb_text b') lo hi)"
    using R(1,6) lenx vt by (simp add: slice_def)
  let ?p = "newlines (take ?x (eb_text b))" and ?q = "newlines (take ?y (eb_text b))"
  have pq: "?p \<le> ?q" "?q < length (eb_blocks b)"
    using newlines_take_mono[OF x(1)] newlines_split[of "eb_text b" ?y] ok(5) by auto
  have "length (eb_blocks b') = newlines (eb_text b') + 1"
    using R(1,5) pq ok(5) newlines_split[of "eb_text b" ?y] by simp
  moreover have "aligned (eb_text b') (flat (eb_runs b'))"
  proof -
    have len: "length (flat (eb_runs b)) = length (eb_text b)" using length_flat[OF ok(3)] by simp
    have "aligned (take ?x (eb_text b)) (take ?x (flat (eb_runs b)))" "aligned (drop ?y (eb_text b)) (drop ?y (flat (eb_runs b)))"
      using ok(9) len by (auto intro: aligned_take aligned_drop)
    then show ?thesis
      unfolding R(1,3) using len vy v1 by (intro aligned_append) auto
  qed
  moreover have "carriage_return \<notin> set (eb_text b')"
    using R(1) ok(2) normalize_no_cr[of s] by (auto dest: in_set_takeD in_set_dropD)
  moreover have "utf8_valid (eb_text b')" using R(1) utf8_append[OF vx v1] by simp
  ultimately show "editor_ok (b'\<lparr> eb_marked := None \<rparr>)"
    using R hi insertion_style_ok[OF assms(1)] by (simp add: editor_ok_def)
qed

lemma replace_and_unmark_ok:
  assumes "editor_ok b" "utf8_valid s"
  shows "editor_ok (snd (replace_and_unmark a e s b))"
  using replace_range_ok[OF assms] assms(1)
  by (auto simp: replace_and_unmark_def split: option.splits)

lemma insert_newline_ok:
  assumes "editor_ok b"
  shows "editor_ok (snd (insert_newline b))"
proof -
  have upd: "editor_ok (c\<lparr> eb_blocks := (eb_blocks c)[i := k], eb_marked := None \<rparr>)"
    if "editor_ok (c\<lparr> eb_marked := None \<rparr>)" for c i k
    using that by (simp add: editor_ok_def)
  have pend: "editor_ok (b\<lparr> eb_blocks := (eb_blocks b)[i := k], eb_pending := Some PLAIN \<rparr>)" for i k
    using assms by (simp add: editor_ok_def)
  have nl: "utf8_valid [newline]" by simp
  show ?thesis
    unfolding insert_newline_def Let_def
    using replace_range_ok(1)[OF assms nl] upd pend assms
    by (auto split: option.splits prod.splits)
qed

lemma replace_and_mark_ok:
  assumes "editor_ok b" "utf8_valid s" "\<And>x y. n = Some (x, y) \<Longrightarrow> x \<le> y"
  shows "editor_ok (snd (replace_and_mark_utf16 r s n b))"
proof -
  obtain a e where ae: "replacement_of r b = (a, e)" by force
  show ?thesis
  proof (cases "replace_range a e s b")
    case None
    then show ?thesis using ae assms(1) by (simp add: replace_and_mark_utf16_def)
  next
    case (Some res)
    obtain lo hi b' where res: "res = ((lo, hi), b')" by (metis prod.collapse)
    note ok = replace_range_ok[OF assms(1,2) Some[unfolded res]]
    let ?t = "slice (eb_text b') lo hi"
    define b2 where "b2 = b'\<lparr> eb_marked := (if lo < hi then Some (lo, hi) else None) \<rparr>"
    have b2: "editor_ok b2" using ok by (auto simp: editor_ok_def b2_def)
    have len: "length ?t = hi - lo" using boundary_le[OF ok(4)] by (simp add: slice_def)
    have at: "is_char_boundary (eb_text b') (lo + offset_from_utf16 ?t i)" for i
    proof -
      let ?d = "drop hi (eb_text b')"
      have vd: "utf8_valid ?d" "utf8_valid (eb_text b')"
        using utf8_take_drop[OF _ ok(4)] ok(1) by (auto simp: editor_ok_def)
      have dr: "drop lo (eb_text b') = ?t @ ?d"
        using ok(2) by (simp add: slice_def) (metis append_take_drop_id drop_drop le_add_diff_inverse2)
      have "is_char_boundary (?t @ ?d) (offset_from_utf16 ?t i)"
        by (rule boundary_suffix[OF from_utf16_boundary[OF ok(5)] vd(1)])
      from boundary_prefix_shift[OF this utf8_append[OF ok(5) vd(1)], of "take lo (eb_text b')"]
      show ?thesis
        using boundary_le[OF ok(3)] dr[symmetric] by (simp add: min_absorb2)
    qed
    have "replace_and_mark_utf16 r s n b = (True, case n of None \<Rightarrow> b2 | Some (x, y) \<Rightarrow>
        b2\<lparr> eb_sel_start := lo + offset_from_utf16 ?t x, eb_sel_end := lo + offset_from_utf16 ?t y \<rparr>)"
      using ae Some res by (simp add: replace_and_mark_utf16_def b2_def Let_def cong: option.case_cong)
    moreover have "eb_text b2 = eb_text b'" by (simp add: b2_def)
    ultimately show ?thesis
      using b2 at from_utf16_mono[OF ok(5)] assms(3)
      by (auto simp: editor_ok_def split: option.splits)
  qed
qed

section \<open>Styles and blocks\<close>

lemma restyled_aligned:
  assumes "aligned s styles" "is_char_boundary s a" "is_char_boundary s e" "length styles = length s"
  shows "aligned s (restyled a e f 0 styles)"
  unfolding aligned_def
proof (intro allI impI, elim conjE)
  fix i
  assume i: "0 < i" "i < length s" "continuation (s ! i)"
  then have "styles ! i = styles ! (i - 1)" by (rule alignedD[OF assms(1)])
  moreover have "i \<noteq> a" "i \<noteq> e" using i assms(2,3) by (auto simp: is_char_boundary_def)
  then have "a \<le> i \<and> i < e \<longleftrightarrow> a \<le> i - 1 \<and> i - 1 < e" using i by auto
  ultimately show "restyled a e f 0 styles ! i = restyled a e f 0 styles ! (i - 1)"
    using i assms(4) by (simp add: restyled_def nth_enumerate_eq)
qed

lemma toggle_inline_ok:
  assumes "editor_ok b" "flag \<in> {BOLD, ITALIC, CODE}"
  shows "editor_ok (snd (toggle_inline flag b))"
proof (cases "sel_empty b")
  case True
  have "style_ok (case eb_pending b of Some st \<Rightarrow> st | None \<Rightarrow> style_for_insertion b (cursor_offset b))"
    using insertion_style_ok[OF assms(1)] by (simp add: insertion_style_def)
  from with_flag_ok[OF this assms(2)] show ?thesis
    using True assms(1) by (simp add: toggle_inline_def Let_def editor_ok_def)
next
  case False
  define f where "f = (\<lambda>st. with_flag st flag (\<not> inline_active flag b))"
  let ?u = "restyle (eb_sel_start b) (eb_sel_end b) f [] (eb_runs b)"
  have "list_all (\<lambda>r. style_ok (run_style r)) ?u"
    by (rule runs_styles_ok(3)) (use editor_okD(4)[OF assms(1)] with_flag_ok[OF _ assms(2)] in \<open>auto simp: f_def\<close>)
  note styles = normalize_styles_ok[OF this]
  note ok = editor_okD[OF assms(1)]
  let ?a = "eb_sel_start b" and ?e = "eb_sel_end b"
  note rs = restyle_flat[of "[]" 0 "eb_runs b" "length (eb_text b)" ?a ?e f]
  have u: "contiguous 0 ?u (length (eb_text b)) \<and> flat ?u = restyled ?a ?e f 0 (flat (eb_runs b))"
    using rs contiguous_touching[OF ok(3)] ok(6) by simp
  note n = normalize_touching[OF contiguous_touching[OF conjunct1[OF u]]]
  have "aligned (eb_text b) (restyled ?a ?e f 0 (flat (eb_runs b)))"
    using restyled_aligned[OF ok(9,7,8)] length_flat[OF ok(3)] by simp
  then show ?thesis
    using False assms(1) styles n u
    by (auto simp: toggle_inline_def Let_def editor_ok_def f_def)
qed

lemma selected_lines_bounds:
  assumes "editor_ok b"
  shows "fst (selected_lines b) < snd (selected_lines b) \<and> snd (selected_lines b) \<le> length (eb_blocks b)"
proof -
  have le: "eb_sel_start b \<le> previous_char_boundary (eb_text b) (eb_sel_end b)" if "eb_sel_start b < eb_sel_end b"
    using that editor_okD(7,8)[OF assms] boundary_le[of "eb_text b"]
    by (auto simp: previous_char_boundary_def Let_def intro: floor_from_greatest)
  have "line_at_offset (eb_text b) i < length (eb_blocks b)" for i
    using line_at_offset_less[of "eb_text b" i] editor_okD(5)[OF assms] by (simp add: length_line_ranges)
  then show ?thesis
    using le editor_okD(6)[OF assms]
    by (auto simp: selected_lines_def Let_def less_Suc_eq_le Suc_le_eq intro: line_at_offset_mono)
qed

lemma assign_blocks_length:
  "fst lines \<le> snd lines \<Longrightarrow> snd lines \<le> length blocks \<Longrightarrow> length (assign_blocks lines k blocks) = length blocks"
  by (cases lines) (simp add: assign_blocks_def)

lemma blocks_ops_ok:
  assumes "editor_ok b"
  shows "editor_ok (snd (toggle_block k b))" "editor_ok (snd (set_block k b))"
proof -
  have "editor_ok (snd (commit_blocks (assign_blocks (selected_lines b) k (eb_blocks b)) b))" for k
    using assign_blocks_length[of "selected_lines b" "eb_blocks b" k] selected_lines_bounds[OF assms] assms
    by (simp add: commit_blocks_def editor_ok_def)
  then show "editor_ok (snd (toggle_block k b))" "editor_ok (snd (set_block k b))"
    by (simp_all add: toggle_block_def set_block_def Let_def)
qed

lemma run_edit_ok: "editor_ok b \<Longrightarrow> edit_ok x \<Longrightarrow> editor_ok (snd (run_edit x b))"
proof (induction x)
  case (ReplaceTextUtf16 r s)
  then show ?case by (auto simp: replace_text_utf16_def replace_and_unmark_ok split: prod.splits)
next
  case (ReplaceAndMarkUtf16 r s n)
  then show ?case using replace_and_mark_ok[of b s n r] by (auto split: option.splits)
qed (auto simp: selection_ops_ok replace_selection_def backspace_def delete_forward_def replace_and_unmark_ok
    toggle_bold_def toggle_italic_def toggle_code_def toggle_inline_ok toggle_bulleted_list_def
    toggle_numbered_list_def blocks_ops_ok insert_newline_ok Let_def)

lemma run_edits_ok: "editor_ok b \<Longrightarrow> list_all edit_ok xs \<Longrightarrow> editor_ok (run_edits xs b)"
  by (induction xs arbitrary: b) (auto simp: run_edit_ok)

end
