(* ===== verification/EditorInline.thy ===== *)
theory EditorInline
  imports EditorInv
begin

text \<open>
  Inline Markdown of \<open>crates/key-editor-core/src/lib.rs\<close> read back: the parser consumes what the writer
  produced for a styled piece of text and appends exactly that piece.
\<close>

section \<open>Consuming a part of the source\<close>

definition cursors_below :: "backtick_index \<Rightarrow> nat \<Rightarrow> bool" where
  "cursors_below ix k = (\<forall>n c. map_of (bi_cursors ix) n = Some c \<longrightarrow> (\<forall>p \<in> set (take c (bi_positions ix n)). p < k))"

definition parsing :: "string \<Rightarrow> nat \<Rightarrow> inline_parse \<Rightarrow> bool" where
  "parsing source i st = (indexes source (ip_index st) \<and> cursors_below (ip_index st) i \<and> styled (ip_out st))"

text \<open>From index \<open>i\<close> the loop reaches index \<open>j\<close> and has appended the text \<open>w\<close> with the styles \<open>styles\<close>.\<close>

definition consumes :: "string \<Rightarrow> nat \<Rightarrow> string \<Rightarrow> inline_style list \<Rightarrow> nat \<Rightarrow> bool" where
  "consumes source i w styles j =
     (\<forall>st. parsing source i st \<longrightarrow> (\<exists>st'. parse_loop source i st = parse_loop source j st' \<and> parsing source j st'
        \<and> fst (ip_out st') = fst (ip_out st) @ w \<and> flat (snd (ip_out st')) = flat (snd (ip_out st)) @ styles))"

lemma consumes_refl [simp]: "consumes source i [] [] i"
  by (auto simp: consumes_def)

lemma consumes_trans:
  assumes "consumes source i w1 s1 j" "consumes source j w2 s2 k"
  shows "consumes source i (w1 @ w2) (s1 @ s2) k"
  unfolding consumes_def
proof (intro allI impI)
  fix st
  assume "parsing source i st"
  then obtain st1 where 1: "parse_loop source i st = parse_loop source j st1" "parsing source j st1"
      "fst (ip_out st1) = fst (ip_out st) @ w1" "flat (snd (ip_out st1)) = flat (snd (ip_out st)) @ s1"
    using assms(1) unfolding consumes_def by blast
  obtain st2 where "parse_loop source j st1 = parse_loop source k st2" "parsing source k st2"
      "fst (ip_out st2) = fst (ip_out st1) @ w2" "flat (snd (ip_out st2)) = flat (snd (ip_out st1)) @ s2"
    using assms(2) 1(2) unfolding consumes_def by blast
  then show "\<exists>st'. parse_loop source i st = parse_loop source k st' \<and> parsing source k st'
      \<and> fst (ip_out st') = fst (ip_out st) @ w1 @ w2 \<and> flat (snd (ip_out st')) = flat (snd (ip_out st)) @ s1 @ s2"
    using 1 by auto
qed

lemma cursors_below_mono: "cursors_below ix i \<Longrightarrow> i \<le> j \<Longrightarrow> cursors_below ix j"
  by (auto simp: cursors_below_def intro: less_le_trans)

text \<open>One turn that appends the piece \<open>w\<close>.\<close>

lemma consumes_step:
  assumes "i < length source" "i < j" "utf8_valid w" "style_ok style"
    and "\<And>st. parsing source i st \<Longrightarrow> \<exists>st'. parse_step source i st = (j, st')
      \<and> ip_out st' = append_piece w style (ip_out st)
      \<and> indexes source (ip_index st') \<and> cursors_below (ip_index st') j"
  shows "consumes source i w (replicate (length w) style) j"
  unfolding consumes_def
proof (intro allI impI)
  fix st
  assume p: "parsing source i st"
  obtain st' where st': "parse_step source i st = (j, st')" "ip_out st' = append_piece w style (ip_out st)"
      "indexes source (ip_index st')" "cursors_below (ip_index st') j"
    using assms(5)[OF p] by blast
  have "parse_loop source i st = parse_loop source j st'"
    using st'(1) assms(1,2) by (simp add: parse_loop.simps[of source i st])
  then show "\<exists>st'. parse_loop source i st = parse_loop source j st' \<and> parsing source j st'
      \<and> fst (ip_out st') = fst (ip_out st) @ w
      \<and> flat (snd (ip_out st')) = flat (snd (ip_out st)) @ replicate (length w) style"
    using st' append_piece_styled[OF _ assms(3,4), of "ip_out st"] p
    by (intro exI[of _ st']) (auto simp: parsing_def)
qed

lemma consumes_parse_inline:
  assumes "consumes source 0 w styles (length source)" "styled out"
  shows "styled (parse_inline source out) \<and> fst (parse_inline source out) = fst out @ w
    \<and> flat (snd (parse_inline source out)) = flat (snd out) @ styles"
proof -
  let ?st = "\<lparr> ip_out = out, ip_index = backtick_index_new source, ip_parse_steps = 0, ip_delimiter_queries = 0 \<rparr>"
  have "parsing source 0 ?st"
    using assms(2) by (simp add: parsing_def indexes_def cursors_below_def backtick_index_new_def)
  then obtain st' where st': "parse_loop source 0 ?st = parse_loop source (length source) st'"
      "parsing source (length source) st'" "fst (ip_out st') = fst out @ w"
      "flat (snd (ip_out st')) = flat (snd out) @ styles"
    using assms(1) unfolding consumes_def by force
  moreover have "parse_loop source (length source) st' = st'" by (simp add: parse_loop.simps)
  ultimately show ?thesis
    by (simp add: parse_inline_def parse_inline_with_operations_def parsing_def)
qed

section \<open>Plain text\<close>

abbreviation special :: "char \<Rightarrow> bool" where
  "special c \<equiv> c = backslash \<or> c = star \<or> c = backtick"

lemma specials_distinct [simp]:
  "backslash \<noteq> star" "star \<noteq> backslash" "backslash \<noteq> backtick" "backtick \<noteq> backslash"
  "star \<noteq> backtick" "backtick \<noteq> star" "newline \<noteq> backslash" "newline \<noteq> star" "newline \<noteq> backtick"
  "carriage_return \<noteq> backslash" "carriage_return \<noteq> star" "carriage_return \<noteq> backtick"
  by (simp_all add: backslash_def star_def backtick_def newline_def carriage_return_def)

lemma ascii_in_char:
  assumes "utf8_char c" "x \<in> set c" "byte x < 128"
  shows "c = [x]"
proof -
  obtain a r where ar: "c = a # r" using assms(2) by (cases c) auto
  have "x \<notin> set r" using assms(1,3) ar by (auto simp: utf8_char_def list_all_iff continuation_def)
  then have "a = x" using assms(2) ar by auto
  then have "length c = 1" using assms(1,3) ar by (simp add: utf8_char_def char_width_def)
  then show ?thesis using ar \<open>a = x\<close> by simp
qed

lemma escape_Nil [simp]: "escape_inline [] = []"
  by (simp add: escape_inline_def)

lemma escape_Cons:
  "escape_inline (x # t) = (if special x then [backslash, x] else [x]) @ escape_inline t"
  by (simp add: escape_inline_def)

lemma escape_append: "escape_inline (u @ v) = escape_inline u @ escape_inline v"
  by (simp add: escape_inline_def)

lemma escape_char:
  assumes "utf8_char c"
  shows "escape_inline c = (if special (hd c) then [backslash, hd c] else c)
    \<and> (special (hd c) \<longrightarrow> c = [hd c])"
proof (cases "special (hd c)")
  case True
  then obtain x where "c = [x]" "special x"
    using ascii_in_char[OF assms, of "hd c"] assms by (auto simp: utf8_char_def)
  then show ?thesis by (auto simp: escape_Cons)
next
  case False
  then have "\<not> special x" if "x \<in> set c" for x
    using ascii_in_char[OF assms that] assms that by auto
  then have "escape_inline c = c" unfolding escape_inline_def by (induction c) auto
  then show ?thesis using False by simp
qed

text \<open>The characters of an escaped text, one after the other: \<open>units\<close> of one plain character, or of a
  backslash and a special character.\<close>

lemma drop_unit:
  assumes "drop i source = u @ rest" "u \<noteq> []"
  shows "i < length source \<and> source ! i = hd u \<and> drop (i + length u) source = rest
    \<and> i + length u \<le> length source"
proof -
  have "length source - i = length u + length rest" using arg_cong[OF assms(1), of length] by simp
  moreover have "0 < length u" using assms(2) by simp
  ultimately have l: "i < length source" "i + length u \<le> length source" by linarith+
  have "source ! i = hd (drop i source)" using l by (simp add: hd_drop_conv_nth)
  moreover have "drop (i + length u) source = drop (length u) (drop i source)" by (simp add: add.commute)
  ultimately show ?thesis using l assms by simp
qed

lemma consumes_plain_char:
  assumes "drop i source = c @ rest" "utf8_char c" "\<not> special (hd c)"
  shows "consumes source i c (replicate (length c) PLAIN) (i + length c)"
proof (rule consumes_step)
  have ne: "c \<noteq> []" "char_width (hd c) = length c" using assms(2) by (simp_all add: utf8_char_def)
  note d = drop_unit[OF assms(1) ne(1)]
  have m: "inline_marker (drop i source) = None"
    using assms(1,3) ne(1) by (cases c) (auto simp: inline_marker_def starts_with_def star_def)
  show "i < length source" "i < i + length c" using d ne(1) by auto
  show "utf8_valid c" "style_ok PLAIN" using assms(2) utf8_char_valid by auto
  fix st
  assume p: "parsing source i st"
  have "parse_step source i st = (i + length c, st\<lparr> ip_parse_steps := ip_parse_steps st + 1,
      ip_out := append_piece c PLAIN (ip_out st) \<rparr>)"
    using d m assms(1,3) ne by (simp add: parse_step_def Let_def)
  then show "\<exists>st'. parse_step source i st = (i + length c, st') \<and> ip_out st' = append_piece c PLAIN (ip_out st)
      \<and> indexes source (ip_index st') \<and> cursors_below (ip_index st') (i + length c)"
    using p cursors_below_mono[of "ip_index st" i "i + length c"] by (auto simp: parsing_def)
qed

lemma consumes_escaped:
  assumes "drop i source = backslash # x # rest" "byte x < 128"
  shows "consumes source i [x] [PLAIN] (i + 2)"
proof -
  have d: "i < length source" "source ! i = backslash" "drop (i + 1) source = x # rest"
    using drop_unit[of i source "[backslash]" "x # rest"] assms(1) by auto
  have d2: "i + 1 < length source" "source ! (i + 1) = x"
    using drop_unit[of "i + 1" source "[x]" rest] d(3) by auto
  have "consumes source i [x] (replicate (length [x]) PLAIN) (i + 2)"
  proof (rule consumes_step)
    show "i < length source" "i < i + 2" "utf8_valid [x]" "style_ok PLAIN" using d assms(2) by auto
    fix st
    assume p: "parsing source i st"
    have "char_width x = 1" using assms(2) by (simp add: char_width_def)
    then have "parse_step source i st = (i + 2, st\<lparr> ip_parse_steps := ip_parse_steps st + 1,
        ip_out := append_piece [x] PLAIN (ip_out st) \<rparr>)"
      using d d2 by (simp add: parse_step_def Let_def)
    then show "\<exists>st'. parse_step source i st = (i + 2, st') \<and> ip_out st' = append_piece [x] PLAIN (ip_out st)
        \<and> indexes source (ip_index st') \<and> cursors_below (ip_index st') (i + 2)"
      using p cursors_below_mono[of "ip_index st" i "i + 2"] by (auto simp: parsing_def)
  qed
  then show ?thesis by simp
qed

lemma consumes_plain:
  "utf8_valid w \<Longrightarrow> drop i source = escape_inline w @ rest \<Longrightarrow>
     consumes source i w (replicate (length w) PLAIN) (i + length (escape_inline w))"
proof (induction w arbitrary: i rule: utf8_induct)
  case (Char c t)
  note e = escape_char[OF Char(1)]
  have ne: "c \<noteq> []" using Char(1) by (simp add: utf8_char_def)
  have 1: "consumes source i c (replicate (length c) PLAIN) (i + length (escape_inline c))"
  proof (cases "special (hd c)")
    case True
    then obtain x where x: "c = [x]" "escape_inline c = [backslash, x]" "byte x < 128" "special x"
      using e by (metis byte_ascii_simps(1-3))
    then show ?thesis
      using consumes_escaped[of i source x "escape_inline t @ rest"] Char.prems by (simp add: escape_Cons)
  next
    case False
    then have "escape_inline c = c" using e by simp
    then show ?thesis
      using consumes_plain_char[OF _ Char(1) False, of i source] Char.prems by (simp add: escape_append)
  qed
  have "escape_inline c \<noteq> []" using e ne by auto
  then have "drop (i + length (escape_inline c)) source = escape_inline t @ rest"
    using drop_unit[of i source "escape_inline c" "escape_inline t @ rest"] Char.prems by (simp add: escape_append)
  from consumes_trans[OF 1 Char.IH[OF this]] show ?case
    by (simp add: escape_append replicate_add add.assoc)
qed simp

section \<open>Bold and italic\<close>

lemma find_marker_escaped:
  assumes "list_all (\<lambda>c. c = star) marker" "marker \<noteq> []"
  shows "utf8_valid w \<Longrightarrow> drop i source = escape_inline w @ marker @ rest \<Longrightarrow>
    find_unescaped_marker source i marker = Some (i + length (escape_inline w))"
proof (induction w arbitrary: i rule: utf8_induct)
  case Nil
  then have d: "drop i source = marker @ rest" by simp
  have "hd marker = star" using assms by (cases marker) auto
  then show ?case
    using drop_unit[OF d assms(2)] d
    by (subst find_unescaped_marker.simps) (auto simp: starts_with_iff)
next
  case (Char c t)
  note e = escape_char[OF Char(1)]
  have ne: "c \<noteq> []" "char_width (hd c) = length c" using Char(1) by (simp_all add: utf8_char_def)
  have ne2: "escape_inline c \<noteq> []" using e ne by auto
  have dr: "drop i source = escape_inline c @ escape_inline t @ marker @ rest"
    using Char.prems by (simp add: escape_append)
  note d = drop_unit[OF dr ne2]
  have step: "find_unescaped_marker source i marker =
      find_unescaped_marker source (i + length (escape_inline c)) marker"
  proof (cases "special (hd c)")
    case True
    then obtain x where x: "c = [x]" "escape_inline c = [backslash, x]" "char_width x = 1"
      using e by (metis byte_ascii_simps(4-6))
    have "drop (i + 1) source = x # escape_inline t @ marker @ rest"
      using drop_unit[of i source "[backslash]"] dr x by simp
    then have "i + 1 < length source" "source ! (i + 1) = x"
      using drop_unit[of "i + 1" source "[x]"] by auto
    then show ?thesis
      using d x by (subst find_unescaped_marker.simps) (simp add: numeral_2_eq_2)
  next
    case False
    have "\<not> starts_with marker (drop i source)"
      using dr False e assms ne by (cases marker; cases c) (auto simp: starts_with_def)
    then show ?thesis
      using d False e ne by (subst find_unescaped_marker.simps) simp
  qed
  show ?case
    using Char.IH[of "i + length (escape_inline c)"] d unfolding step by (simp add: escape_append)
qed

lemma unescape_escape: "utf8_valid w \<Longrightarrow> unescape_inline (escape_inline w) = w"
proof (induction w rule: utf8_induct)
  case Nil
  then show ?case by (simp add: unescape_inline_def)
next
  case (Char c t)
  note e = escape_char[OF Char(1)]
  show ?case
  proof (cases "special (hd c)")
    case True
    then obtain x where x: "c = [x]" "escape_inline c = [backslash, x]" "byte x < 128" "special x"
      using e by (metis byte_ascii_simps(1-3))
    have "chars (backslash # x # escape_inline t) = [backslash] # [x] # chars (escape_inline t)"
      using chars_append[OF ascii_char, of backslash] chars_append[OF ascii_char[OF x(3)]] by simp
    then show ?thesis
      using Char.IH x by (simp add: escape_Cons unescape_inline_def)
  next
    case False
    then have "c \<noteq> [backslash]" by auto
    have "unescape_chars (c # cs) = c @ unescape_chars cs" for cs
      using \<open>c \<noteq> [backslash]\<close> by (cases cs) auto
    then show ?thesis
      using Char.IH e False chars_append[OF Char(1)] by (simp add: escape_append unescape_inline_def)
  qed
qed

lemma hd_escape:
  assumes "w \<noteq> []"
  shows "escape_inline w \<noteq> [] \<and> hd (escape_inline w) \<noteq> star \<and> hd (escape_inline w) \<noteq> backtick"
  using assms by (cases w) (auto simp: escape_inline_def)

lemma inline_marker_exact:
  assumes "marker \<in> {''*'', ''**'', ''***''}" "s \<noteq> []" "hd s \<noteq> star"
  shows "inline_marker (marker @ s) = Some (marker,
    if marker = ''***'' then BOLD OR ITALIC else if marker = ''**'' then BOLD else ITALIC)"
  using assms by (cases s) (auto simp: inline_marker_def starts_with_def star_def)

lemma consumes_marked:
  assumes "drop i source = marker @ escape_inline w @ marker @ rest"
    and "marker \<in> {''*'', ''**'', ''***''}" "utf8_valid w" "w \<noteq> []"
    and "style = (if marker = ''***'' then BOLD OR ITALIC else if marker = ''**'' then BOLD else ITALIC)"
  shows "consumes source i w (replicate (length w) style) (i + length (marker @ escape_inline w @ marker))"
proof (rule consumes_step)
  have m: "marker \<noteq> []" "list_all (\<lambda>c. c = star) marker" "hd marker = star"
    using assms(2) by (auto simp: star_def)
  note d = drop_unit[OF assms(1) m(1)]
  note h = hd_escape[OF assms(4)]
  let ?e = "i + length marker + length (escape_inline w)"
  have mk: "inline_marker (drop i source) = Some (marker, style)"
    using inline_marker_exact[OF assms(2), of "escape_inline w @ marker @ rest"] h assms(1,5) by simp
  have fd: "find_unescaped_marker source (i + length marker) marker = Some ?e"
    using find_marker_escaped[OF m(2,1) assms(3), of "i + length marker" source rest] d by simp
  show "i < length source" "utf8_valid w" using d assms(3) by auto
  show "i < i + length (marker @ escape_inline w @ marker)" using m(1) by simp
  show "style_ok style" using assms(5) by simp
  have piece: "unescape_inline (slice source (i + length marker) ?e) = w"
    using d unescape_escape[OF assms(3)] by (simp add: slice_def)
  fix st
  assume p: "parsing source i st"
  have "parse_step source i st = (?e + length marker, st\<lparr> ip_parse_steps := ip_parse_steps st + 1,
      ip_out := append_piece w style (ip_out st) \<rparr>)"
    using d m(3) mk fd piece unfolding parse_step_def Let_def take_slice by simp
  then show "\<exists>st'. parse_step source i st = (i + length (marker @ escape_inline w @ marker), st')
      \<and> ip_out st' = append_piece w style (ip_out st) \<and> indexes source (ip_index st')
      \<and> cursors_below (ip_index st') (i + length (marker @ escape_inline w @ marker))"
    using p cursors_below_mono[of "ip_index st" i] by (auto simp: parsing_def)
qed

end
