(* ===== verification/EditorRoundtrip.thy ===== *)
theory EditorRoundtrip
  imports EditorInline
begin

text \<open>
  Markdown of \<open>crates/key-editor-core/src/lib.rs\<close> read back: code spans, whole lines and whole documents.
\<close>

section \<open>Code spans\<close>

lemma backtick_runs_sorted: "sorted (map snd (backtick_runs i s)) \<and> (\<forall>(n, p) \<in> set (backtick_runs i s). i \<le> p)"
proof (induction i s rule: backtick_runs.induct)
  case (1 i s)
  show ?case
  proof (cases s)
    case Nil
    then show ?thesis by (simp add: backtick_runs.simps)
  next
    case (Cons c r)
    show ?thesis
    proof (cases "c = backtick")
      case True
      note ih = 1(1)[OF Cons True refl]
      have "backtick_runs i s = (length (takeWhile (\<lambda>x. x = backtick) s), i)
          # backtick_runs (i + length (takeWhile (\<lambda>x. x = backtick) s)) (drop (length (takeWhile (\<lambda>x. x = backtick) s)) s)"
        by (subst backtick_runs.simps) (simp add: Cons True)
      then show ?thesis using ih by (auto dest: bspec)
    next
      case False
      note ih = 1(2)[OF Cons False]
      have "backtick_runs i s = backtick_runs (i + char_width c) (drop (char_width c) s)"
        by (subst backtick_runs.simps) (simp add: Cons False)
      then show ?thesis using ih by (auto dest: bspec)
    qed
  qed
qed

text \<open>Every maximal run of backticks is in the index.\<close>

lemma backtick_runs_complete:
  assumes "utf8_valid s" "q + n \<le> length s" "0 < n" "\<And>k. k < n \<Longrightarrow> s ! (q + k) = backtick"
    and "q = 0 \<or> s ! (q - 1) \<noteq> backtick" "q + n = length s \<or> s ! (q + n) \<noteq> backtick"
  shows "(n, i + q) \<in> set (backtick_runs i s)"
  using assms
proof (induction i s arbitrary: q rule: backtick_runs.induct)
  case (1 i s)
  have "s \<noteq> []" using 1(4,5) by auto
  then obtain c r where Cons: "s = c # r" by (cases s) auto
  show ?case
  proof (cases "c = backtick")
    case True
    define m where "m = length (takeWhile (\<lambda>x. x = backtick) s)"
    have runs: "backtick_runs i s = (m, i) # backtick_runs (i + m) (drop m s)"
      by (subst backtick_runs.simps) (simp add: Cons True m_def)
    have m0: "0 < m" using Cons True by (simp add: m_def)
    have ticks: "s ! k = backtick" if "k < m" for k
      using takeWhile_all[of k "\<lambda>x. x = backtick" s] that by (simp add: m_def)
    have stop: "m < length s \<Longrightarrow> s ! m \<noteq> backtick"
      unfolding m_def by (rule nth_length_takeWhile)
    have mle: "m \<le> length s" unfolding m_def by (rule length_takeWhile_le)
    show ?thesis
    proof (cases "q < m")
      case lt: True
      have q0: "q = 0"
      proof (rule ccontr)
        assume "q \<noteq> 0"
        then have "s ! (q - 1) = backtick" using ticks[of "q - 1"] lt by simp
        then show False using 1(7) \<open>q \<noteq> 0\<close> by simp
      qed
      have "n = m"
      proof (rule antisym; rule ccontr)
        assume "\<not> n \<le> m"
        then have "s ! m = backtick" "m < length s" using 1(6)[of m] 1(4) q0 by auto
        then show False using stop by simp
      next
        assume "\<not> m \<le> n"
        then have "n < m" by simp
        then show False using ticks[of n] 1(8) q0 mle by auto
      qed
      then show ?thesis using runs q0 by simp
    next
      case ge: False
      have "is_char_boundary s m"
        using boundary_after_ascii[OF 1(3), of "m - 1"] ticks[of "m - 1"] m0 mle by simp
      then have v: "utf8_valid (drop m s)" using utf8_take_drop[OF 1(3)] by blast
      have "q \<noteq> m" using stop 1(4,5) 1(6)[of 0] ge by auto
      then have q: "q - m \<noteq> 0" "q = m + (q - m)" using ge by auto
      have "(n, i + m + (q - m)) \<in> set (backtick_runs (i + m) (drop m s))"
      proof (rule 1(1)[OF Cons True refl, folded m_def, OF v])
        show "q - m + n \<le> length (drop m s)" using q 1(4) by simp
        show "drop m s ! (q - m + k) = backtick" if "k < n" for k
          using 1(6)[OF that] q mle by (simp add: add.assoc[symmetric])
        have "drop m s ! (q - m - 1) = s ! (q - 1)" using q(1) mle ge by simp
        then show "q - m = 0 \<or> drop m s ! (q - m - 1) \<noteq> backtick" using 1(7) q(1) by simp
        show "q - m + n = length (drop m s) \<or> drop m s ! (q - m + n) \<noteq> backtick"
          using 1(8) q mle by (auto simp: add.assoc[symmetric])
      qed (rule 1(5))
      then show ?thesis using runs q(2) by (simp add: add.assoc)
    qed
  next
    case False
    define m where "m = char_width c"
    have runs: "backtick_runs i s = backtick_runs (i + m) (drop m s)"
      by (subst backtick_runs.simps) (simp add: Cons False m_def)
    have b: "m \<le> length s" "is_char_boundary s m"
      using boundary_next[OF 1(3), of 0] Cons by (auto simp: m_def)
    have v: "utf8_valid (drop m s)" using utf8_take_drop[OF 1(3) b(2)] by blast
    have sq: "s ! q = backtick" "q < length s" using 1(6)[of 0] 1(4,5) by auto
    have "is_char_boundary s q" by (rule boundary_ascii) (use sq in auto)
    moreover have "q \<noteq> 0" using sq Cons False by (metis nth_Cons_0)
    ultimately have ge: "m \<le> q"
    proof -
      obtain u t where ut: "s = u @ t" "utf8_char u" using utf8_uncons[of c r] 1(3) Cons by auto
      have "length u = m" using ut Cons by (auto simp: utf8_char_def m_def Cons_eq_append_conv)
      then show ?thesis using boundary_in_char[OF ut(2), of t q] ut(1) \<open>is_char_boundary s q\<close> \<open>q \<noteq> 0\<close> by auto
    qed
    have "(n, i + m + (q - m)) \<in> set (backtick_runs (i + m) (drop m s))"
    proof (rule 1(2)[OF Cons False, folded m_def, OF v])
      show "q - m + n \<le> length (drop m s)" using ge 1(4) by simp
      show "drop m s ! (q - m + k) = backtick" if "k < n" for k
        using 1(6)[OF that] ge b by (simp add: add.assoc[symmetric])
      have "drop m s ! (q - m - 1) = s ! (q - 1)" if "q \<noteq> m" using that b ge by simp
      then show "q - m = 0 \<or> drop m s ! (q - m - 1) \<noteq> backtick" using 1(7) ge \<open>q \<noteq> 0\<close> by auto
      show "q - m + n = length (drop m s) \<or> drop m s ! (q - m + n) \<noteq> backtick"
        using 1(8) ge b by (auto simp: add.assoc[symmetric])
    qed (rule 1(5))
    then show ?thesis using runs ge by simp
  qed
qed

lemma takeWhile_to_first:
  fixes xs :: "nat list"
  assumes "sorted xs" "q \<in> set xs" "m \<le> q" "\<And>p. p \<in> set xs \<Longrightarrow> m \<le> p \<Longrightarrow> q \<le> p"
    and "\<forall>p \<in> set (take c xs). p < m"
  shows "c + length (takeWhile (\<lambda>p. p < m) (drop c xs)) < length xs
    \<and> xs ! (c + length (takeWhile (\<lambda>p. p < m) (drop c xs))) = q"
proof -
  let ?t = "takeWhile (\<lambda>p. p < m) (drop c xs)" and ?d = "dropWhile (\<lambda>p. p < m) (drop c xs)"
  have split: "xs = take c xs @ ?t @ ?d" by simp
  then have "q \<in> set (take c xs) \<or> q \<in> set ?t \<or> q \<in> set ?d"
    using assms(2) by (metis Un_iff set_append)
  then have qd: "q \<in> set ?d" using assms(3,5) by (auto dest: set_takeWhileD)
  then obtain h d where h: "?d = h # d" by (cases ?d) auto
  have "\<not> h < m" using hd_dropWhile[of "\<lambda>p. p < m" "drop c xs"] h by auto
  moreover have "h \<in> set xs" using h split by (metis Un_iff list.set_intros(1) set_append)
  ultimately have "q \<le> h" using assms(4) by simp
  moreover have "sorted ?d" using assms(1) by (metis sorted_append split)
  then have "h \<le> q" using qd h by auto
  ultimately have hq: "h = q" by simp
  have c: "c \<le> length xs"
  proof (rule ccontr)
    assume "\<not> c \<le> length xs"
    then show False using qd by simp
  qed
  have len: "length (take c xs @ ?t) = c + length ?t" using c by simp
  have "c + length ?t < length xs"
    using arg_cong[OF split, of length] h c by simp
  moreover have "xs ! (c + length ?t) = (take c xs @ ?t @ ?d) ! (c + length ?t)" using split by metis
  then have "xs ! (c + length ?t) = h" using h len by (metis append.assoc nth_append_length)
  ultimately show ?thesis using hq by simp
qed

lemma next_run_first:
  assumes "indexes source ix" "cursors_below ix m"
    and "(n, q) \<in> set (backtick_runs 0 source)" "m \<le> q"
    and "\<And>p. (n, p) \<in> set (backtick_runs 0 source) \<Longrightarrow> m \<le> p \<Longrightarrow> q \<le> p"
  shows "\<exists>ix'. next_run n m ix = (Some q, ix') \<and> indexes source ix' \<and> cursors_below ix' m"
proof -
  let ?xs = "bi_positions ix n"
  define c where "c = (case map_of (bi_cursors ix) n of None \<Rightarrow> 0 | Some c \<Rightarrow> c)"
  have xs: "?xs = map snd (filter (\<lambda>(k, _). k = n) (backtick_runs 0 source))"
    using assms(1) by (simp add: indexes_def backtick_index_new_def)
  have "sorted ?xs" unfolding xs using backtick_runs_sorted[of 0 source] by (auto intro: sorted_filter)
  moreover have "q \<in> set ?xs" unfolding xs using assms(3) by force
  moreover have "q \<le> p" if "p \<in> set ?xs" "m \<le> p" for p using that assms(5) unfolding xs by auto
  moreover have "\<forall>p \<in> set (take c ?xs). p < m"
    using assms(2) by (auto simp: cursors_below_def c_def split: option.splits)
  ultimately have first: "c + length (takeWhile (\<lambda>p. p < m) (drop c ?xs)) < length ?xs
    \<and> ?xs ! (c + length (takeWhile (\<lambda>p. p < m) (drop c ?xs))) = q"
    using takeWhile_to_first[of ?xs q m c] assms(4) by blast
  define c' where "c' = c + length (takeWhile (\<lambda>p. p < m) (drop c ?xs))"
  have ne: "?xs \<noteq> []" using first by auto
  have run: "next_run n m ix = (Some q, ix\<lparr> bi_cursors := hm_insert n c' (bi_cursors ix),
      bi_positions_advanced := bi_positions_advanced ix + length (takeWhile (\<lambda>p. p < m) (drop c ?xs)) \<rparr>)"
    using ne first by (simp add: next_run_def Let_def c_def[symmetric] c'_def)
  have "take c' ?xs = take c ?xs @ takeWhile (\<lambda>p. p < m) (drop c ?xs)"
    by (simp add: c'_def take_add takeWhile_eq_take[symmetric])
  then have "\<forall>p \<in> set (take c' ?xs). p < m"
    using \<open>\<forall>p \<in> set (take c ?xs). p < m\<close> by (auto dest: set_takeWhileD)
  then have "cursors_below (ix\<lparr> bi_cursors := hm_insert n c' (bi_cursors ix),
      bi_positions_advanced := bi_positions_advanced ix + length (takeWhile (\<lambda>p. p < m) (drop c ?xs)) \<rparr>) m"
    using assms(2) by (auto simp: cursors_below_def hm_insert_def update_conv split: if_splits)
  then show ?thesis using run assms(1) by (simp add: indexes_def)
qed

lemma longest_run_ge: "l \<le> longest_run_from l k w"
  by (induction l k w rule: longest_run_from.induct) (auto intro: order_trans)

lemma longest_run_bound:
  "w \<noteq> [] \<Longrightarrow> hd w = backtick \<Longrightarrow> k + length (takeWhile (\<lambda>x. x = backtick) w) \<le> longest_run_from l k w"
proof (induction l k w rule: longest_run_from.induct)
  case (2 l k c s)
  show ?case
  proof (cases "s = [] \<or> hd s \<noteq> backtick")
    case True
    then have "takeWhile (\<lambda>x. x = backtick) s = []" by (cases s) auto
    then show ?thesis using 2(3,4) longest_run_ge[of "max l (k + 1)" "k + 1" s] by simp
  next
    case False
    then show ?thesis using 2(1) 2(4) by simp
  qed
qed simp

lemma longest_run_drop: "longest_run_from l k (u @ w) \<ge> length (takeWhile (\<lambda>x. x = backtick) w)"
proof (induction l k u rule: longest_run_from.induct)
  case (1 l k)
  then show ?case using longest_run_bound[of w k l] by (cases w) auto
qed auto

lemma longest_backtick_run_bound:
  assumes "\<And>k. k < n \<Longrightarrow> p + k < length w \<and> w ! (p + k) = backtick"
  shows "n \<le> longest_backtick_run w"
proof (cases "n = 0")
  case False
  then have p: "p < length w" using assms[of 0] by simp
  have "n \<le> length (takeWhile (\<lambda>x. x = backtick) (drop p w))"
  proof (rule length_takeWhile_less_P_nth)
    show "n \<le> length (drop p w)" using assms[of "n - 1"] False by auto
    fix k
    assume "k < n"
    then show "drop p w ! k = backtick" using assms[of k] p by simp
  qed
  also have "\<dots> \<le> longest_backtick_run w"
    unfolding longest_backtick_run_def using longest_run_drop[of "drop p w" 0 0 "take p w"] by simp
  finally show ?thesis .
qed simp

definition code_fence :: "string \<Rightarrow> string" where
  "code_fence w = replicate (longest_backtick_run w + 1) backtick"

lemma consumes_code:
  assumes v: "utf8_valid source" and "drop i source = code_fence w @ w @ code_fence w @ rest"
    and "utf8_valid w" "w \<noteq> []" "hd w \<noteq> backtick" "last w \<noteq> backtick" "rest = [] \<or> hd rest \<noteq> backtick"
  shows "consumes source i w (replicate (length w) CODE) (i + length (code_fence w @ w @ code_fence w))"
proof (rule consumes_step)
  define n where "n = longest_backtick_run w + 1"
  have f: "code_fence w = replicate n backtick" by (simp add: code_fence_def n_def)
  have n0: "0 < n" by (simp add: n_def)
  let ?m = "i + n" and ?q = "i + n + length w"
  have src: "drop i source = replicate n backtick @ w @ replicate n backtick @ rest" using assms(2) f by simp
  have len: "length source = i + n + length w + n + length rest"
    using drop_unit[OF src] n0 arg_cong[OF src, of length] by simp
  have dm: "drop ?m source = w @ replicate n backtick @ rest"
    using drop_unit[OF src] n0 by simp
  have dq: "drop ?q source = replicate n backtick @ rest"
    using drop_unit[OF dm assms(4)] by simp
  have at_w: "source ! (?m + k) = w ! k" if "k < length w" for k
    using arg_cong[OF dm, of "\<lambda>l. l ! k"] that len by (simp add: nth_append)
  have at_q: "source ! (?q + k) = backtick" if "k < n" for k
    using arg_cong[OF dq, of "\<lambda>l. l ! k"] that len by (simp add: nth_append)
  have end_q: "?q + n = length source \<or> source ! (?q + n) \<noteq> backtick"
  proof (cases rest)
    case Nil
    then show ?thesis using len by simp
  next
    case (Cons x u)
    then have "source ! (?q + n) = x"
      using arg_cong[OF dq, of "\<lambda>l. l ! n"] len by (simp add: nth_append)
    then show ?thesis using assms(7) Cons by simp
  qed
  have before_q: "source ! (?q - 1) \<noteq> backtick"
  proof -
    have "length w - 1 < length w" "?q - 1 = ?m + (length w - 1)" using assms(4) by (auto simp: Suc_le_eq)
    then show ?thesis using at_w[of "length w - 1"] assms(4,6) by (simp add: last_conv_nth)
  qed
  have mem: "(n, ?q) \<in> set (backtick_runs 0 source)"
    using backtick_runs_complete[OF v, of ?q n 0] at_q n0 len end_q before_q by simp
  have first: "?q \<le> p" if p: "(n, p) \<in> set (backtick_runs 0 source)" "?m \<le> p" for p
  proof (rule ccontr)
    assume "\<not> ?q \<le> p"
    then have lt: "p < ?q" by simp
    have s: "p + n \<le> length source" "take n (drop p source) = replicate n backtick"
      using backtick_runs_sound[OF p(1)] by simp_all
    have ticks: "source ! (p + k) = backtick" if "k < n" for k
      using arg_cong[OF s(2), of "\<lambda>l. l ! k"] that s(1) by simp
    have inside: "p + n \<le> ?q - 1"
    proof (rule ccontr)
      assume "\<not> p + n \<le> ?q - 1"
      then have "?q - 1 - p < n" "p + (?q - 1 - p) = ?q - 1" using lt by auto
      then show False using ticks[of "?q - 1 - p"] before_q by simp
    qed
    have "n \<le> longest_backtick_run w"
    proof (rule longest_backtick_run_bound)
      fix k
      assume k: "k < n"
      have "p - ?m + k < length w" using inside k p(2) by linarith
      moreover have "source ! (?m + (p - ?m + k)) = backtick" using ticks[OF k] p(2) by simp
      ultimately show "p - ?m + k < length w \<and> w ! (p - ?m + k) = backtick" using at_w by metis
    qed
    then show False by (simp add: n_def)
  qed
  have fence: "length (takeWhile (\<lambda>c. c = backtick) (drop i source)) = n"
  proof -
    have "takeWhile (\<lambda>c. c = backtick) (replicate n backtick @ w @ replicate n backtick @ rest) = replicate n backtick"
      using assms(4,5) by (cases w) (simp_all add: takeWhile_append)
    then show ?thesis using src by simp
  qed
  have i: "i < length source" "source ! i = backtick"
    using drop_unit[OF src] n0 by auto
  show "i < length source" by (rule i(1))
  show "i < i + length (code_fence w @ w @ code_fence w)" using n0 f by simp
  show "utf8_valid w" "style_ok CODE" using assms(3) by simp_all
  fix st
  assume p: "parsing source i st"
  have "cursors_below (ip_index st) ?m" using p cursors_below_mono by (auto simp: parsing_def)
  then obtain ix where ix: "next_run n ?m (ip_index st) = (Some ?q, ix)" "indexes source ix" "cursors_below ix ?m"
    using next_run_first[of source "ip_index st" ?m n ?q] mem first p by (auto simp: parsing_def)
  have piece: "take (?q - ?m) (drop ?m source) = w" using dm by simp
  have "\<exists>st'. parse_step source i st = (?q + n, st') \<and> ip_out st' = append_piece w CODE (ip_out st) \<and> ip_index st' = ix"
    using i ix(1) fence piece by (simp add: parse_step_def Let_def)
  then obtain st' where "parse_step source i st = (?q + n, st')" "ip_out st' = append_piece w CODE (ip_out st)"
      "ip_index st' = ix" by blast
  moreover have total_len: "i + length (code_fence w @ w @ code_fence w) = ?q + n" using f by simp
  ultimately show "\<exists>st'. parse_step source i st = (i + length (code_fence w @ w @ code_fence w), st')
      \<and> ip_out st' = append_piece w CODE (ip_out st) \<and> indexes source (ip_index st')
      \<and> cursors_below (ip_index st') (i + length (code_fence w @ w @ code_fence w))"
    unfolding total_len using ix(2) cursors_below_mono[OF ix(3), of "?q + n"] by simp
qed

end
