(* ===== verification/EditorDocument.thy ===== *)
theory EditorDocument
  imports EditorRoundtrip
begin

text \<open>
  Whole lines and documents of \<open>crates/key-editor-core/src/lib.rs\<close> read back: the cursor over the style
  runs yields the pieces of a line, the pieces of a line parse to themselves, and the lines make up the
  document.
\<close>

section \<open>The pieces of a line\<close>

definition piece_ok :: "string \<times> inline_style \<Rightarrow> bool" where
  "piece_ok p = (utf8_valid (fst p) \<and> fst p \<noteq> [] \<and> style_ok (snd p)
     \<and> (snd p = CODE \<longrightarrow> hd (fst p) \<noteq> backtick \<and> last (fst p) \<noteq> backtick))"

fun pieces_ok :: "(string \<times> inline_style) list \<Rightarrow> bool" where
  "pieces_ok [] = True"
| "pieces_ok (p # ps) = (piece_ok p \<and> pieces_ok ps \<and> (case ps of [] \<Rightarrow> True | q # _ \<Rightarrow> snd q \<noteq> snd p))"

abbreviation encode :: "string \<times> inline_style \<Rightarrow> string" where
  "encode p \<equiv> encode_inline (fst p) (snd p)"

abbreviation piece_styles :: "string \<times> inline_style \<Rightarrow> inline_style list" where
  "piece_styles p \<equiv> replicate (length (fst p)) (snd p)"

lemma encode_cases:
  assumes "style_ok st" "w \<noteq> []"
  shows "(st = CODE \<and> encode_inline w st = code_fence w @ w @ code_fence w)
    \<or> (st = PLAIN \<and> encode_inline w st = escape_inline w)
    \<or> (\<exists>marker \<in> {''*'', ''**'', ''***''}. encode_inline w st = marker @ escape_inline w @ marker
        \<and> st = (if marker = ''***'' then BOLD OR ITALIC else if marker = ''**'' then BOLD else ITALIC))"
  using assms unfolding style_ok_def
  by (auto simp: encode_inline_def code_fence_def style_code_def style_bold_def style_italic_def
      style_marker_def style_defs)

lemma encodeE:
  assumes "style_ok st" "w \<noteq> []"
  obtains (code) "st = CODE" "encode_inline w st = code_fence w @ w @ code_fence w"
    | (plain) "st = PLAIN" "encode_inline w st = escape_inline w"
    | (marked) marker where "marker \<in> {''*'', ''**'', ''***''}"
        "encode_inline w st = marker @ escape_inline w @ marker"
        "st = (if marker = ''***'' then BOLD OR ITALIC else if marker = ''**'' then BOLD else ITALIC)"
  using encode_cases[OF assms] by blast

lemma hd_encode:
  assumes "style_ok st" "w \<noteq> []"
  shows "encode_inline w st \<noteq> [] \<and> (st \<noteq> CODE \<longrightarrow> hd (encode_inline w st) \<noteq> backtick)
    \<and> (st \<noteq> PLAIN \<longrightarrow> hd (encode_inline w st) \<in> {star, backtick})"
  using encode_cases[OF assms] hd_escape[OF assms(2)]
  by (auto simp: code_fence_def star_def backtick_def PLAIN_def CODE_def BOLD_def ITALIC_def)

lemma consumes_pieces:
  assumes "utf8_valid source"
  shows "pieces_ok ps \<Longrightarrow> drop i source = concat (map encode ps) \<Longrightarrow>
    consumes source i (concat (map fst ps)) (concat (map piece_styles ps)) (i + length (concat (map encode ps)))"
proof (induction ps arbitrary: i)
  case (Cons p ps)
  obtain w st where p: "p = (w, st)" by (cases p)
  have w: "utf8_valid w" "w \<noteq> []" "style_ok st"
    "st = CODE \<Longrightarrow> hd w \<noteq> backtick \<and> last w \<noteq> backtick"
    using Cons.prems(1) by (auto simp: p piece_ok_def)
  let ?rest = "concat (map encode ps)"
  have dr: "drop i source = encode_inline w st @ ?rest" using Cons.prems(2) by (simp add: p)
  have "?rest = [] \<or> hd ?rest \<noteq> backtick" if "st = CODE"
  proof (cases ps)
    case (Cons q qs)
    then have "snd q \<noteq> CODE" "style_ok (snd q)" "fst q \<noteq> []"
      using Cons.prems(1) that by (auto simp: p piece_ok_def)
    then show ?thesis using hd_encode[of "snd q" "fst q"] Cons by simp
  qed simp
  then have 1: "consumes source i w (replicate (length w) st) (i + length (encode_inline w st))"
  proof -
    from w(3,2) show ?thesis
    proof (cases rule: encodeE)
      case code
      have "drop i source = code_fence w @ w @ code_fence w @ ?rest" using dr code(2) by simp
      from consumes_code[OF assms this w(1,2)] w(4)[OF code(1)] \<open>st = CODE \<Longrightarrow> ?rest = [] \<or> hd ?rest \<noteq> backtick\<close>[OF code(1)]
      show ?thesis unfolding code(2) unfolding code(1) by blast
    next
      case plain
      have "drop i source = escape_inline w @ ?rest" using dr plain(2) by simp
      from consumes_plain[OF w(1) this] show ?thesis unfolding plain(2) unfolding plain(1) .
    next
      case (marked marker)
      have "drop i source = marker @ escape_inline w @ marker @ ?rest" using dr marked(2) by simp
      from consumes_marked[OF this marked(1) w(1,2) marked(3)] show ?thesis unfolding marked(2) .
    qed
  qed
  have "drop (i + length (encode_inline w st)) source = ?rest"
    using drop_unit[OF dr] hd_encode[OF w(3,2)] by simp
  from consumes_trans[OF 1 Cons.IH[OF _ this]] Cons.prems(1) show ?case
    by (simp add: p add.assoc)
qed simp

text \<open>The writer's output is valid, and no piece brings a line break.\<close>

lemma escape_valid: "utf8_valid w \<Longrightarrow> utf8_valid (escape_inline w)"
proof (induction w rule: utf8_induct)
  case (Char c t)
  then show ?case using escape_char[OF Char(1)] utf8_char_append[OF Char(1)]
    by (auto simp: escape_append)
qed simp

lemma set_escape: "set (escape_inline w) \<subseteq> insert backslash (set w)"
  by (induction w) (auto simp: escape_Cons)

lemma encode_valid:
  assumes "style_ok st" "utf8_valid w"
  shows "utf8_valid (encode_inline w st) \<and> set (encode_inline w st) \<subseteq> {backslash, star, backtick} \<union> set w"
proof (cases "w = []")
  case True
  then show ?thesis by (simp add: encode_inline_def)
next
  case False
  have f: "utf8_valid (code_fence w)" "set (code_fence w) \<subseteq> {backtick}"
    by (auto simp: code_fence_def list_all_iff intro!: utf8_ascii)
  have m: "utf8_valid marker \<and> set marker \<subseteq> {star}" if "marker \<in> {''*'', ''**'', ''***''}" for marker
    using that by (auto simp: star_def byte_def intro!: utf8_ascii)
  note e = escape_valid[OF assms(2)] set_escape[of w]
  from assms(1) False show ?thesis
  proof (cases rule: encodeE)
    case code
    show ?thesis unfolding code(2) using f assms(2) by (auto intro: utf8_append)
  next
    case plain
    show ?thesis unfolding plain(2) using e by auto
  next
    case (marked marker)
    show ?thesis unfolding marked(2) using e m[OF marked(1)] by (auto intro: utf8_append)
  qed
qed

section \<open>Block prefixes\<close>

text \<open>A prefix without special characters at the start of the written line is there in the plain text that
  starts the line.\<close>

lemma prefix_of_escaped:
  assumes "list_all (\<lambda>c. \<not> special c) p" "rest = [] \<or> special (hd rest)"
  shows "starts_with p (escape_inline w @ rest) \<Longrightarrow> starts_with p w"
  using assms(1)
proof (induction p arbitrary: w)
  case (Cons x p)
  show ?case
  proof (cases w)
    case Nil
    then show ?thesis using Cons.prems assms(2) by (cases rest) (auto simp: starts_with_def)
  next
    case (Cons y u)
    then show ?thesis using Cons.prems Cons.IH[of u]
      by (auto simp: starts_with_def escape_Cons split: if_splits)
  qed
qed (simp add: starts_with_def)

lemma looks_numbered_iff:
  "looks_numbered_prefix s = Some n \<longleftrightarrow> (\<exists>ds r. s = ds @ ''. '' @ r \<and> ds \<noteq> [] \<and> list_all is_ascii_digit ds \<and> n = length ds + 2)"
proof
  let ?d = "takeWhile is_ascii_digit s"
  assume "looks_numbered_prefix s = Some n"
  then have d: "?d \<noteq> []" "take 2 (drop (length ?d) s) = ''. ''" "n = length ?d + 2"
    by (auto simp: looks_numbered_prefix_def Let_def split: if_splits)
  have "s = ?d @ take 2 (drop (length ?d) s) @ drop 2 (drop (length ?d) s)"
    by (metis append_take_drop_id takeWhile_eq_take)
  then show "\<exists>ds r. s = ds @ ''. '' @ r \<and> ds \<noteq> [] \<and> list_all is_ascii_digit ds \<and> n = length ds + 2"
    using d by (intro exI[of _ ?d] exI[of _ "drop 2 (drop (length ?d) s)"])
      (auto simp: list_all_iff dest: set_takeWhileD)
next
  assume "\<exists>ds r. s = ds @ ''. '' @ r \<and> ds \<noteq> [] \<and> list_all is_ascii_digit ds \<and> n = length ds + 2"
  then obtain ds r where s: "s = ds @ ''. '' @ r" "ds \<noteq> []" "list_all is_ascii_digit ds" "n = length ds + 2"
    by blast
  have "takeWhile is_ascii_digit s = ds"
    using s(1,3) by (simp add: takeWhile_append2 list_all_iff is_ascii_digit_def byte_def)
  then show "looks_numbered_prefix s = Some n" using s by (simp add: looks_numbered_prefix_def Let_def)
qed

lemma numbered_of_escaped:
  assumes "looks_numbered_prefix (escape_inline w @ rest) \<noteq> None" "rest = [] \<or> special (hd rest)"
  shows "looks_numbered_prefix w \<noteq> None"
proof -
  obtain n where "looks_numbered_prefix (escape_inline w @ rest) = Some n" using assms(1) by auto
  then obtain ds r where s: "escape_inline w @ rest = ds @ ''. '' @ r" "ds \<noteq> []" "list_all is_ascii_digit ds"
    by (auto simp: looks_numbered_iff)
  have "list_all (\<lambda>c. \<not> special c) (ds @ ''. '')"
    using s(3) by (auto simp: list_all_iff is_ascii_digit_def backslash_def star_def backtick_def byte_def)
  from prefix_of_escaped[OF this assms(2)] s(1)
  have "starts_with (ds @ ''. '') w" by (simp add: starts_with_iff)
  then show ?thesis using s(2,3) looks_numbered_iff[of w] by (auto simp: starts_with_iff)
qed

text \<open>The block prefixes that the parser strips from a line.\<close>

definition prefixed :: "string \<Rightarrow> bool" where
  "prefixed l = (list_ex (\<lambda>p. starts_with p l) [''### '', ''## '', ''# '', ''- '', ''> ''] \<or> looks_numbered_prefix l \<noteq> None)"

lemma parse_paragraph: "\<not> prefixed l \<Longrightarrow> parse_block_prefix l = (Paragraph, l)"
  by (simp add: prefixed_def parse_block_prefix_def strip_prefix_def)

lemma parse_block_prefix_written:
  "k \<noteq> Paragraph \<Longrightarrow> parse_block_prefix (block_prefix k @ l) = (k, l)"
  by (cases k) (simp_all add: parse_block_prefix_def strip_prefix_def starts_with_def
      looks_numbered_prefix_def is_ascii_digit_def byte_def Let_def)

lemma not_prefixed_special:
  assumes "l = [] \<or> special (hd l)"
  shows "\<not> prefixed l"
proof (cases l)
  case Nil
  then show ?thesis by (simp add: prefixed_def starts_with_def looks_numbered_prefix_def)
next
  case (Cons c r)
  then have c: "special c" using assms by simp
  then have "\<not> is_ascii_digit c" by (auto simp: is_ascii_digit_def backslash_def star_def backtick_def byte_def)
  then show ?thesis using c Cons
    by (auto simp: prefixed_def starts_with_def looks_numbered_prefix_def backslash_def star_def backtick_def)
qed

lemma prefixed_of_escaped:
  assumes "prefixed (escape_inline w @ rest)" "rest = [] \<or> special (hd rest)"
  shows "prefixed w"
proof -
  have "starts_with p w" if "p \<in> {''### '', ''## '', ''# '', ''- '', ''> ''}" "starts_with p (escape_inline w @ rest)" for p
    using prefix_of_escaped[OF _ assms(2) that(2)] that(1)
    by (auto simp: backslash_def star_def backtick_def)
  then show ?thesis using assms numbered_of_escaped[OF _ assms(2)] by (auto simp: prefixed_def)
qed

text \<open>A written paragraph: its pieces, behind a backslash if the first piece is plain text that looks like a
  list item.\<close>

lemma paragraph_source:
  assumes "pieces_ok ps"
    and "escape \<longleftrightarrow> (case ps of [] \<Rightarrow> False | (w, st) # _ \<Rightarrow>
      st = PLAIN \<and> (starts_with ''- '' w \<or> looks_numbered_prefix w \<noteq> None))"
    and "\<And>w r p. ps = (w, PLAIN) # r \<Longrightarrow> p \<in> {''# '', ''## '', ''### '', ''> ''} \<Longrightarrow> \<not> starts_with p w"
  shows "\<not> prefixed ((if escape then [backslash] else []) @ concat (map encode ps))"
proof (cases ps)
  case Nil
  then show ?thesis using assms(2) not_prefixed_special[of "[]"] by simp
next
  case (Cons p qs)
  obtain w st where p: "p = (w, st)" by (cases p)
  have w: "w \<noteq> []" "style_ok st" using assms(1) by (auto simp: Cons p piece_ok_def)
  show ?thesis
  proof (cases "st = PLAIN")
    case False
    then have "special (hd (concat (map encode ps)))" "concat (map encode ps) \<noteq> []"
      using hd_encode[OF w(2,1)] by (auto simp: Cons p)
    then show ?thesis using False assms(2) Cons p not_prefixed_special by simp
  next
    case True
    show ?thesis
    proof (cases escape)
      case True
      then show ?thesis using not_prefixed_special[of "backslash # concat (map encode ps)"] by simp
    next
      case F: False
      let ?rest = "concat (map encode qs)"
      have "?rest = [] \<or> special (hd ?rest)"
      proof (cases qs)
        case (Cons q r)
        then have "snd q \<noteq> PLAIN" "style_ok (snd q)" "fst q \<noteq> []"
          using assms(1) \<open>ps = p # qs\<close> p True by (auto simp: piece_ok_def)
        then show ?thesis using hd_encode[of "snd q" "fst q"] Cons by auto
      qed simp
      moreover have "\<not> prefixed w"
        using assms(3)[of w qs] Cons p True F assms(2) by (auto simp: prefixed_def)
      moreover have "concat (map encode ps) = escape_inline w @ ?rest"
        using encode_cases[OF w(2,1)] True Cons p by (auto simp: style_defs split: if_splits)
      ultimately show ?thesis using prefixed_of_escaped F by auto
    qed
  qed
qed

text \<open>Reading a written line back.\<close>

lemma line_reads_back:
  assumes "pieces_ok ps" "styled out"
    and "escape \<Longrightarrow> \<exists>w r x u. ps = (w, PLAIN) # r \<and> w = x # u \<and> byte x < 128 \<and> \<not> special x"
  defines "l \<equiv> (if escape then [backslash] else []) @ concat (map encode ps)"
  shows "styled (parse_inline l out) \<and> fst (parse_inline l out) = fst out @ concat (map fst ps)
    \<and> flat (snd (parse_inline l out)) = flat (snd out) @ concat (map piece_styles ps)"
proof (rule consumes_parse_inline[OF _ assms(2)])
  have v: "utf8_valid (concat (map encode qs))" if "pieces_ok qs" for qs
    using that by (induction qs) (auto simp: piece_ok_def encode_valid intro!: utf8_append)
  show "consumes l 0 (concat (map fst ps)) (concat (map piece_styles ps)) (length l)"
  proof (cases escape)
    case False
    then show ?thesis using consumes_pieces[OF v[OF assms(1)] assms(1), of 0] by (simp add: l_def)
  next
    case True
    then obtain w r x u where x: "ps = (w, PLAIN) # r" "w = x # u" "byte x < 128" "\<not> special x"
      using assms(3) by blast
    have ok: "utf8_valid u" "pieces_ok r" "utf8_valid w" using assms(1) x by (auto simp: piece_ok_def)
    have ew: "encode_inline w PLAIN = x # escape_inline u"
      using x by (simp add: encode_inline_def style_code_def style_bold_def style_italic_def
          style_marker_def style_defs escape_Cons)
    have l: "l = backslash # x # escape_inline u @ concat (map encode r)"
      using True x(1) ew by (simp add: l_def)
    have vl: "utf8_valid l" using v[OF assms(1)] True by (simp add: l_def)
    have 1: "consumes l 0 [x] [PLAIN] 2" using consumes_escaped[of 0 l x] l x(3) by (simp add: numeral_2_eq_2)
    have 2: "consumes l 2 u (replicate (length u) PLAIN) (2 + length (escape_inline u))"
      by (rule consumes_plain[OF ok(1)]) (simp add: l)
    have "drop (2 + length (escape_inline u)) l = concat (map encode r)" by (simp add: l)
    from consumes_pieces[OF vl ok(2) this]
    have 3: "consumes l (2 + length (escape_inline u)) (concat (map fst r)) (concat (map piece_styles r)) (length l)"
      by (simp add: l add.assoc)
    show ?thesis using consumes_trans[OF consumes_trans[OF 1 2] 3] x by simp
  qed
qed

section \<open>The cursor\<close>

definition cursor_at :: "style_run list \<Rightarrow> nat \<Rightarrow> nat \<Rightarrow> run_cursor \<Rightarrow> bool" where
  "cursor_at runs len s c = (cu_runs c = runs \<and> contiguous s (drop (cu_index c) runs) len
     \<and> flat (drop (cu_index c) runs) = drop s (flat runs))"

lemma advance_to_drop:
  "cu_runs (advance_to c offset) = cu_runs c
   \<and> drop (cu_index (advance_to c offset)) (cu_runs c) = dropWhile (\<lambda>r. run_end r \<le> offset) (drop (cu_index c) (cu_runs c))"
proof (induction c offset rule: advance_to.induct)
  case (1 c offset)
  show ?case
  proof (cases "cu_index c < length (cu_runs c) \<and> run_end (cu_runs c ! cu_index c) \<le> offset")
    case True
    then have "drop (cu_index c) (cu_runs c) = cu_runs c ! cu_index c # drop (cu_index c + 1) (cu_runs c)"
      using Cons_nth_drop_Suc[of "cu_index c" "cu_runs c"] by simp
    then show ?thesis using 1(1)[OF True] True by (simp add: advance_to.simps[of c offset])
  next
    case False
    show ?thesis
    proof (cases "cu_index c < length (cu_runs c)")
      case True
      then have "drop (cu_index c) (cu_runs c) = cu_runs c ! cu_index c # drop (cu_index c + 1) (cu_runs c)"
        using Cons_nth_drop_Suc[of "cu_index c" "cu_runs c"] by simp
      then show ?thesis using False True by (simp add: advance_to.simps[of c offset])
    next
      case F: False
      then show ?thesis by (simp add: advance_to.simps[of c offset])
    qed
  qed
qed

lemma dropWhile_contiguous:
  assumes "contiguous s rs len" "s \<le> a" "a \<le> len"
  shows "\<exists>t. s \<le> t \<and> t \<le> a \<and> contiguous t (dropWhile (\<lambda>r. run_end r \<le> a) rs) len
    \<and> flat (dropWhile (\<lambda>r. run_end r \<le> a) rs) = drop (t - s) (flat rs)"
  using assms
proof (induction rs arbitrary: s)
  case Nil
  then show ?case by (intro exI[of _ len]) simp
next
  case (Cons r rs)
  show ?case
  proof (cases "run_end r \<le> a")
    case True
    have r: "run_start r = s" "s < run_end r" "contiguous (run_end r) rs len" using Cons.prems(1) by auto
    from Cons.IH[OF r(3) True Cons.prems(3)] obtain t where t: "run_end r \<le> t" "t \<le> a"
        "contiguous t (dropWhile (\<lambda>r. run_end r \<le> a) rs) len"
        "flat (dropWhile (\<lambda>r. run_end r \<le> a) rs) = drop (t - run_end r) (flat rs)" by blast
    have "t - s - (run_end r - s) = t - run_end r" using t(1) r(2) by simp
    then show ?thesis using t True r by (intro exI[of _ t]) simp
  next
    case False
    then show ?thesis using Cons.prems by (intro exI[of _ s]) simp
  qed
qed

lemma advance_cursor:
  assumes "cursor_at runs len s c" "s \<le> a" "a \<le> len"
  shows "\<exists>t. t \<le> a \<and> cursor_at runs len t (advance_to c a)
    \<and> (\<forall>r rs. drop (cu_index (advance_to c a)) runs = r # rs \<longrightarrow> a < run_end r)"
proof -
  have c: "cu_runs c = runs" "contiguous s (drop (cu_index c) runs) len"
    "flat (drop (cu_index c) runs) = drop s (flat runs)" using assms(1) by (simp_all add: cursor_at_def)
  note adv = advance_to_drop[of c a, unfolded c(1)]
  obtain t where t: "s \<le> t" "t \<le> a" "contiguous t (drop (cu_index (advance_to c a)) runs) len"
      "flat (drop (cu_index (advance_to c a)) runs) = drop (t - s) (drop s (flat runs))"
    using dropWhile_contiguous[OF c(2) assms(2,3)] adv c(3) by auto
  have "a < run_end r" if "drop (cu_index (advance_to c a)) runs = r # rs" for r rs
    using hd_dropWhile[of "\<lambda>r. run_end r \<le> a" "drop (cu_index c) runs"] adv that
    by (metis list.discI list.sel(1) not_le)
  then show ?thesis using t adv by (intro exI[of _ t]) (simp add: cursor_at_def)
qed

text \<open>The visits of \<open>for_each_overlap\<close> as a function of the remaining runs.\<close>

fun overlaps :: "nat \<Rightarrow> nat \<Rightarrow> style_run list \<Rightarrow> (nat \<times> nat \<times> inline_style) list" where
  "overlaps a b [] = []"
| "overlaps a b (r # rs) =
     (if b \<le> run_start r then []
      else (if max (run_start r) a < min (run_end r) b then [(max (run_start r) a, min (run_end r) b, run_style r)] else [])
        @ (if run_end r \<le> b then overlaps a b rs else []))"

fun after_overlaps :: "nat \<Rightarrow> style_run list \<Rightarrow> style_run list" where
  "after_overlaps b [] = []"
| "after_overlaps b (r # rs) = (if run_start r < b \<and> run_end r \<le> b then after_overlaps b rs else r # rs)"

lemma overlap_loop_eq:
  "fst (overlap_loop a b c) = overlaps a b (drop (cu_index c) (cu_runs c))
   \<and> cu_runs (snd (overlap_loop a b c)) = cu_runs c
   \<and> drop (cu_index (snd (overlap_loop a b c))) (cu_runs c) = after_overlaps b (drop (cu_index c) (cu_runs c))"
proof (induction a b c rule: overlap_loop.induct)
  case (1 a b c)
  show ?case
  proof (cases "length (cu_runs c) \<le> cu_index c")
    case True
    then show ?thesis by (simp add: overlap_loop.simps[of a b c])
  next
    case False
    then have d: "drop (cu_index c) (cu_runs c) = cu_runs c ! cu_index c # drop (cu_index c + 1) (cu_runs c)"
      using Cons_nth_drop_Suc[of "cu_index c" "cu_runs c"] by simp
    show ?thesis
    proof (cases "b \<le> run_start (cu_runs c ! cu_index c)")
      case True
      then show ?thesis using False d by (simp add: overlap_loop.simps[of a b c])
    next
      case F: False
      show ?thesis
      proof (cases "run_end (cu_runs c ! cu_index c) \<le> b")
        case True
        obtain more c' where m: "overlap_loop a b (c\<lparr> cu_operations := cu_operations c + 1, cu_index := cu_index c + 1 \<rparr>) = (more, c')"
          by force
        show ?thesis
          using 1(1)[OF False refl F refl refl refl refl True] m F True False d
          by (simp add: overlap_loop.simps[of a b c] Let_def)
      next
        case T: False
        then show ?thesis using False F d by (simp add: overlap_loop.simps[of a b c] Let_def)
      qed
    qed
  qed
qed

abbreviation run_of :: "nat \<times> nat \<times> inline_style \<Rightarrow> style_run" where
  "run_of v \<equiv> mk_run (fst v) (fst (snd v)) (snd (snd v))"

lemma overlaps_contiguous:
  assumes "contiguous s rs len" "max s a < b" "b \<le> len" "\<And>r rs'. rs = r # rs' \<Longrightarrow> a < run_end r"
  shows "contiguous (max s a) (map run_of (overlaps a b rs)) b
    \<and> flat (map run_of (overlaps a b rs)) = take (b - max s a) (drop (max s a - s) (flat rs))
    \<and> (\<exists>r rs' vs. rs = r # rs' \<and> overlaps a b rs = (max s a, min (run_end r) b, run_style r) # vs)"
  using assms
proof (induction rs arbitrary: s)
  case Nil
  then show ?case by simp
next
  case (Cons r rs)
  let ?p = "max s a"
  have r: "run_start r = s" "s < run_end r" "contiguous (run_end r) rs len" "a < run_end r"
    using Cons.prems(1) Cons.prems(4)[OF refl] by auto
  have lo: "?p < min (run_end r) b" using r Cons.prems(2) by simp
  have lenf: "length (flat rs) = len - run_end r" by (rule length_flat[OF r(3)])
  show ?case
  proof (cases "run_end r < b")
    case False
    have "overlaps a b rs = []" if "run_end r = b"
    proof (cases rs)
      case (Cons q qs)
      then show ?thesis using r(3) that by simp
    qed simp
    then have ov: "overlaps a b (r # rs) = [(?p, b, run_style r)]"
      using False lo r(1,2) by (cases "run_end r = b") (simp_all add: min_def)
    have "take (b - ?p) (drop (?p - s) (flat (r # rs))) = replicate (b - ?p) (run_style r)"
      using False lo r(1) by (simp add: min_def)
    then show ?thesis unfolding ov using Cons.prems(2) False by (auto simp: min_def)
  next
    case True
    have mx: "max (run_end r) a = run_end r" using r(4) by simp
    have ih: "contiguous (run_end r) (map run_of (overlaps a b rs)) b
      \<and> flat (map run_of (overlaps a b rs)) = take (b - run_end r) (flat rs)
      \<and> (\<exists>q rs' vs. rs = q # rs' \<and> overlaps a b rs = (run_end r, min (run_end q) b, run_style q) # vs)"
    proof -
      have "a < run_end q" if "rs = q # qs" for q qs using r(3,4) that by auto
      from Cons.IH[OF r(3) _ Cons.prems(3) this] show ?thesis unfolding mx using True by simp
    qed
    have ov: "overlaps a b (r # rs) = (?p, run_end r, run_style r) # overlaps a b rs"
      using True lo r(1) by (simp add: min_def)
    obtain q rs' vs where q: "rs = q # rs'" "overlaps a b rs = (run_end r, min (run_end q) b, run_style q) # vs"
      using ih by blast
    have "run_style q \<noteq> run_style r" using Cons.prems(1) q(1) by simp
    then have c: "contiguous ?p (map run_of (overlaps a b (r # rs))) b"
      unfolding ov using ih q(2) lo by simp
    have e: "b - ?p - (run_end r - ?p) = b - run_end r" "?p - s - (run_end r - s) = 0" "run_end r - s - (?p - s) = run_end r - ?p"
      using lo r by auto
    have "flat (map run_of (overlaps a b (r # rs))) = take (b - ?p) (drop (?p - s) (flat (r # rs)))"
      unfolding ov using ih r(1) e lo True by (simp add: min_def)
    then show ?thesis using c ov True by (auto simp: min_def)
  qed
qed

lemma after_overlaps_contiguous:
  assumes "contiguous s rs len" "s \<le> b" "b \<le> len"
  shows "\<exists>t. s \<le> t \<and> t \<le> b \<and> contiguous t (after_overlaps b rs) len \<and> flat (after_overlaps b rs) = drop (t - s) (flat rs)"
  using assms
proof (induction rs arbitrary: s)
  case Nil
  then show ?case by (intro exI[of _ len]) simp
next
  case (Cons r rs)
  have r: "run_start r = s" "s < run_end r" "contiguous (run_end r) rs len" using Cons.prems(1) by auto
  show ?case
  proof (cases "run_start r < b \<and> run_end r \<le> b")
    case True
    then obtain t where t: "run_end r \<le> t" "t \<le> b" "contiguous t (after_overlaps b rs) len"
        "flat (after_overlaps b rs) = drop (t - run_end r) (flat rs)"
      using Cons.IH[OF r(3) _ Cons.prems(3)] by blast
    have "t - s - (run_end r - s) = t - run_end r" using t(1) r(2) by simp
    then show ?thesis using t True r by (intro exI[of _ t]) simp
  next
    case False
    then have "after_overlaps b (r # rs) = r # rs" by (subst after_overlaps.simps) (rule if_not_P)
    then show ?thesis using Cons.prems by (intro exI[of _ s]) simp
  qed
qed

lemma overlap_cursor:
  assumes "cursor_at runs len s c" "s \<le> a" "a < b" "b \<le> len"
  shows "\<exists>r rs vs t. fst (for_each_overlap c a b) = (a, min (run_end r) b, run_style r) # vs
    \<and> contiguous a (map run_of (fst (for_each_overlap c a b))) b
    \<and> flat (map run_of (fst (for_each_overlap c a b))) = take (b - a) (drop a (flat runs))
    \<and> drop (cu_index (advance_to c a)) runs = r # rs \<and> run_start r \<le> a \<and> a < run_end r
    \<and> t \<le> b \<and> cursor_at runs len t (snd (for_each_overlap c a b))"
proof -
  obtain t where t: "t \<le> a" "cursor_at runs len t (advance_to c a)"
      "\<And>r rs. drop (cu_index (advance_to c a)) runs = r # rs \<Longrightarrow> a < run_end r"
    using advance_cursor[OF assms(1,2)] assms(3,4) by (meson less_imp_le_nat order_trans)
  let ?c = "advance_to c a" and ?rs = "drop (cu_index (advance_to c a)) runs"
  have c: "cu_runs ?c = runs" "contiguous t ?rs len" "flat ?rs = drop t (flat runs)"
    using t(2) by (simp_all add: cursor_at_def)
  have fe: "for_each_overlap c a b = overlap_loop a b ?c" using assms(3) by (simp add: for_each_overlap_def)
  note ov = overlap_loop_eq[of a b ?c, unfolded c(1)]
  have mx: "max t a = a" using t(1) by simp
  have "max t a < b" unfolding mx by (rule assms(3))
  then have oc: "contiguous a (map run_of (overlaps a b ?rs)) b
    \<and> flat (map run_of (overlaps a b ?rs)) = take (b - a) (drop (a - t) (flat ?rs))
    \<and> (\<exists>r rs' vs. ?rs = r # rs' \<and> overlaps a b ?rs = (a, min (run_end r) b, run_style r) # vs)"
    using overlaps_contiguous[OF c(2) _ assms(4), of a] t(3) unfolding mx by blast
  obtain r rs vs where r: "?rs = r # rs" "overlaps a b ?rs = (a, min (run_end r) b, run_style r) # vs"
    using oc by blast
  have rs: "run_start r \<le> a" using c(2) r(1) t(1) by simp
  obtain t' where t': "t' \<le> b" "contiguous t' (after_overlaps b ?rs) len" "t \<le> t'"
      "flat (after_overlaps b ?rs) = drop (t' - t) (flat ?rs)"
    using after_overlaps_contiguous[OF c(2), of b] t(1) assms(3,4) by auto
  then have D: "cursor_at runs len t' (snd (overlap_loop a b ?c))"
    using ov c by (simp add: cursor_at_def)
  have fo: "fst (overlap_loop a b ?c) = overlaps a b ?rs" using ov by blast
  have A: "fst (overlap_loop a b ?c) = (a, min (run_end r) b, run_style r) # vs" unfolding fo by (rule r(2))
  have B: "contiguous a (map run_of (fst (overlap_loop a b ?c))) b" unfolding fo using oc by blast
  have C: "flat (map run_of (fst (overlap_loop a b ?c))) = take (b - a) (drop a (flat runs))"
    unfolding fo using oc t(1) unfolding c(3) by simp
  show ?thesis
    unfolding fe using A B C D r(1) rs t(3)[OF r(1)] t'(1) by blast
qed

end
