(* ===== verification/EditorLines.thy ===== *)
theory EditorLines
  imports EditorDocument
begin

text \<open>
  The document of \<open>crates/key-editor-core/src/lib.rs\<close> line by line: what the writer produces for a buffer,
  and what the parser reads from it.
\<close>

section \<open>The lines of a text\<close>

fun lines_cover :: "string \<Rightarrow> nat \<Rightarrow> (nat \<times> nat) list \<Rightarrow> bool" where
  "lines_cover t a [] = False"
| "lines_cover t a ((x, e) # r) =
     (x = a \<and> a \<le> e \<and> e \<le> length t \<and> newline \<notin> set (slice t a e)
      \<and> (if r = [] then e = length t else e < length t \<and> t ! e = newline \<and> lines_cover t (e + 1) r))"

lemma line_ranges_from_nonempty [simp]: "line_ranges_from start i s \<noteq> []"
  by (induction start i s rule: line_ranges_from.induct) auto

lemma line_ranges_from_cover:
  "drop i t = s \<Longrightarrow> i \<le> length t \<Longrightarrow> start \<le> i \<Longrightarrow> newline \<notin> set (slice t start i) \<Longrightarrow>
     lines_cover t start (line_ranges_from start i s)"
proof (induction start i s rule: line_ranges_from.induct)
  case (1 start i)
  then show ?case by simp
next
  case (2 start i c s)
  have d: "i < length t" "t ! i = c" "drop (i + 1) t = s"
    using drop_unit[of i t "[c]" s] 2(3) by auto
  show ?case
  proof (cases "c = newline")
    case True
    have "lines_cover t (i + 1) (line_ranges_from (i + 1) (i + 1) s)"
      by (rule 2(1)[OF True d(3)]) (use d in \<open>auto simp: slice_def\<close>)
    then show ?thesis using 2(4-6) True d by simp
  next
    case False
    have "slice t start (i + 1) = slice t start i @ [c]"
      using d 2(5) take_Suc_conv_app_nth[of "i - start" "drop start t"] by (simp add: slice_def Suc_diff_le)
    then have "newline \<notin> set (slice t start (i + 1))" using 2(6) False by auto
    then show ?thesis using 2(2)[OF False d(3)] 2(5) d(1) False by simp
  qed
qed

lemma line_ranges_cover: "lines_cover t 0 (line_ranges t)"
  unfolding line_ranges_def by (rule line_ranges_from_cover) (auto simp: slice_def)

lemma line_boundaries:
  "utf8_valid t \<Longrightarrow> lines_cover t a lines \<Longrightarrow> is_char_boundary t a \<Longrightarrow> (x, e) \<in> set lines \<Longrightarrow>
    is_char_boundary t x \<and> is_char_boundary t e \<and> x \<le> e \<and> (x = a \<or> 0 < x \<and> t ! (x - 1) = newline)
    \<and> (e = length t \<or> e < length t \<and> t ! e = newline)"
proof (induction t a lines rule: lines_cover.induct)
  case (2 t a y f r)
  show ?case
  proof (cases "(x, e) = (y, f)")
    case True
    then show ?thesis using 2(3,4) boundary_ascii[of f t] by (auto split: if_splits)
  next
    case False
    then have r: "(x, e) \<in> set r" "r \<noteq> []" using 2(5) by auto
    then have f: "f < length t" "t ! f = newline" "lines_cover t (f + 1) r" using 2(3) by auto
    have "is_char_boundary t (f + 1)"
      using boundary_after_ascii[OF 2(2) f(1)] f(2) by simp
    from 2(1)[OF r(2) 2(2) f(3) this r(1)] show ?thesis using f by auto
  qed
qed simp

section \<open>Pieces as slices of the text\<close>

lemma piece_facts:
  assumes "aligned t F" "length F = length t" "b \<le> length t" "is_char_boundary t b"
  shows "contiguous a ps b \<Longrightarrow> is_char_boundary t a \<Longrightarrow> flat ps = take (b - a) (drop a F) \<Longrightarrow> r \<in> set ps \<Longrightarrow>
    is_char_boundary t (run_start r) \<and> is_char_boundary t (run_end r) \<and> a \<le> run_start r \<and> run_start r < run_end r
    \<and> run_end r \<le> b \<and> F ! run_start r = run_style r \<and> F ! (run_end r - 1) = run_style r
    \<and> (run_start r = a \<or> F ! (run_start r - 1) \<noteq> run_style r) \<and> (run_end r = b \<or> F ! run_end r \<noteq> run_style r)"
proof (induction ps arbitrary: a)
  case (Cons q ps)
  have q: "run_start q = a" "a < run_end q" "contiguous (run_end q) ps b" using Cons.prems(1) by auto
  have qb: "run_end q \<le> b" using contiguous_le[OF q(3)] .
  have len: "length (flat ps) = b - run_end q" by (rule length_flat[OF q(3)])
  have fl: "replicate (run_end q - a) (run_style q) @ flat ps = take (b - a) (drop a F)"
    using Cons.prems(3) q(1) by simp
  have at: "F ! (a + k) = (if k < run_end q - a then run_style q else flat ps ! (k - (run_end q - a)))"
    if "a + k < b" for k
    using arg_cong[OF fl, of "\<lambda>l. l ! k"] that assms(2,3) by (simp add: nth_append split: if_splits)
  have in_q: "F ! i = run_style q" if "a \<le> i" "i < run_end q" for i
    using at[of "i - a"] that qb diff_less_mono[OF that(2,1)] by simp
  have nxt: "run_end q = b \<or> F ! run_end q \<noteq> run_style q \<and> is_char_boundary t (run_end q)"
  proof (cases ps)
    case Nil
    then show ?thesis using q(3) by simp
  next
    case (Cons p rest)
    then have p: "run_start p = run_end q" "run_end q < run_end p" "run_style p \<noteq> run_style q" "run_end p \<le> b"
      using Cons.prems(1) q(3) contiguous_le by auto
    have "F ! run_end q = run_style p"
      using at[of "run_end q - a"] p q(2) Cons by (simp add: nth_append)
    moreover have "F ! (run_end q - 1) = run_style q" using in_q q(2) by simp
    ultimately have "\<not> continuation (t ! run_end q)"
      using alignedD[OF assms(1), of "run_end q"] p q(2) assms(3) by auto
    then show ?thesis
      using p(2-4) \<open>F ! run_end q = run_style p\<close> assms(3) by (simp add: is_char_boundary_def)
  qed
  then have bq: "is_char_boundary t (run_end q)" using assms(4) by auto
  show ?case
  proof (cases "r = q")
    case True
    then show ?thesis using q qb nxt bq in_q Cons.prems(2) by auto
  next
    case False
    then have r: "r \<in> set ps" using Cons.prems(4) by simp
    have flr: "flat ps = take (b - run_end q) (drop (run_end q) F)"
      using arg_cong[OF fl, of "drop (run_end q - a)"] q(2) by (simp add: drop_take)
    note ih = Cons.IH[OF q(3) bq flr r]
    have "F ! (run_start r - 1) \<noteq> run_style r" if s: "run_start r = run_end q"
    proof -
      have "F ! (run_end q - 1) = run_style q" using in_q q(2) by simp
      moreover have "run_style r \<noteq> run_style q" using ih s nxt r q(3) by auto
      ultimately show ?thesis using s by simp
    qed
    then show ?thesis using ih q(2) by auto
  qed
qed simp

lemma slices_concat:
  "contiguous a ps b \<Longrightarrow> b \<le> length t \<Longrightarrow>
     concat (map (\<lambda>r. slice t (run_start r) (run_end r)) ps) = slice t a b
     \<and> concat (map (\<lambda>r. replicate (length (slice t (run_start r) (run_end r))) (run_style r)) ps) = flat ps"
proof (induction a ps b rule: contiguous.induct)
  case (1 a b)
  then show ?case by (simp add: slice_def)
next
  case (2 a r rs b)
  have r: "run_start r = a" "a < run_end r" "contiguous (run_end r) rs b" using 2(2) by auto
  have le: "run_end r \<le> b" using contiguous_le[OF r(3)] .
  have "slice t a b = slice t a (run_end r) @ slice t (run_end r) b"
    using take_add[of "run_end r - a" "b - run_end r" "drop a t"] r(2) le by (simp add: slice_def)
  moreover have "length (slice t a (run_end r)) = run_end r - a" using le 2(3) by (simp add: slice_def)
  ultimately show ?case using 2(1)[OF r(3) 2(3)] r(1) by simp
qed

section \<open>One line\<close>

text \<open>The condition under which a document reads back: no paragraph starts like a heading or a quote, and a
  backtick in code is neither the first nor the last character of its span.\<close>

definition unambiguous :: "editor_buffer \<Rightarrow> bool" where
  "unambiguous b =
     (let t = eb_text b; F = flat (eb_runs b) in
      list_all (\<lambda>(k, a, e). k = Paragraph \<longrightarrow>
        \<not> list_ex (\<lambda>p. starts_with p (slice t a e)) [''# '', ''## '', ''### '', ''> '']) (zip (eb_blocks b) (line_ranges t))
      \<and> list_all (\<lambda>i. t ! i = backtick \<and> F ! i = CODE \<longrightarrow>
          0 < i \<and> F ! (i - 1) = CODE \<and> t ! (i - 1) \<noteq> newline
          \<and> i + 1 < length t \<and> F ! (i + 1) = CODE \<and> t ! (i + 1) \<noteq> newline) [0..<length t])"

text \<open>What reading a written line must give.\<close>

definition line_spec :: "string \<Rightarrow> inline_style list \<Rightarrow> block_kind \<times> nat \<times> nat \<Rightarrow> string \<Rightarrow> bool" where
  "line_spec t F line l = (case line of (k, a, e) \<Rightarrow>
     utf8_valid l \<and> newline \<notin> set l \<and> carriage_return \<notin> set l
     \<and> (\<exists>rest. parse_block_prefix l = (k, rest) \<and> (\<forall>out. styled out \<longrightarrow>
          styled (parse_inline rest out) \<and> fst (parse_inline rest out) = fst out @ slice t a e
          \<and> flat (snd (parse_inline rest out)) = flat (snd out) @ take (e - a) (drop a F))))"

lemma pieces_of_line:
  assumes "editor_ok b" "unambiguous b" "(a, e) \<in> set (line_ranges (eb_text b))"
    and "contiguous a (map run_of vs) e" "flat (map run_of vs) = take (e - a) (drop a (flat (eb_runs b)))"
  defines "ps \<equiv> map (\<lambda>(lo, hi, st). (slice (eb_text b) lo hi, st)) vs"
  shows "pieces_ok ps \<and> concat (map fst ps) = slice (eb_text b) a e
    \<and> concat (map piece_styles ps) = take (e - a) (drop a (flat (eb_runs b)))"
proof -
  let ?t = "eb_text b" and ?F = "flat (eb_runs b)"
  note ok = editor_okD[OF assms(1)]
  have lenF: "length ?F = length ?t" using length_flat[OF ok(3)] by simp
  have ae: "is_char_boundary ?t a" "is_char_boundary ?t e" "a \<le> e" "a = 0 \<or> 0 < a \<and> ?t ! (a - 1) = newline"
    "e = length ?t \<or> e < length ?t \<and> ?t ! e = newline"
    using line_boundaries[OF ok(1) line_ranges_cover _ assms(3)] by auto
  have el: "e \<le> length ?t" by (rule boundary_le[OF ae(2)])
  have styF: "style_ok (?F ! i)" if "i < length ?t" for i
  proof -
    have "?F ! i \<in> set ?F" using that lenF by simp
    then show ?thesis using ok(4) by (auto simp: flat_def list_all_iff)
  qed
  have tick: "0 < i \<and> ?F ! (i - 1) = CODE \<and> ?t ! (i - 1) \<noteq> newline
      \<and> i + 1 < length ?t \<and> ?F ! (i + 1) = CODE \<and> ?t ! (i + 1) \<noteq> newline"
    if "i < length ?t" "?t ! i = backtick" "?F ! i = CODE" for i
    using assms(2) that by (simp add: unambiguous_def Let_def list_all_iff)
  have piece: "piece_ok (slice ?t lo hi, st)" if "(lo, hi, st) \<in> set vs" for lo hi st
  proof -
    have "mk_run lo hi st \<in> set (map run_of vs)" using that by force
    from piece_facts[OF ok(9) lenF el ae(2) assms(4) ae(1) assms(5) this]
    have f: "is_char_boundary ?t lo" "is_char_boundary ?t hi" "a \<le> lo" "lo < hi" "hi \<le> e" "?F ! lo = st"
      "?F ! (hi - 1) = st" "lo = a \<or> ?F ! (lo - 1) \<noteq> st" "hi = e \<or> ?F ! hi \<noteq> st" by auto
    have len: "length (slice ?t lo hi) = hi - lo" using f(5) el by (simp add: slice_def)
    have ne: "slice ?t lo hi \<noteq> []" using len f(4) by auto
    have hd: "hd (slice ?t lo hi) = ?t ! lo" using f(4,5) el by (simp add: slice_def hd_drop_conv_nth)
    have la: "last (slice ?t lo hi) = ?t ! (hi - 1)"
      using ne len f(4,5) el by (simp add: last_conv_nth slice_def)
    have "?t ! lo \<noteq> backtick" if "st = CODE"
      using tick[of lo] f that ae(4) el by auto
    moreover have "?t ! (hi - 1) \<noteq> backtick" if "st = CODE"
    proof
      assume "?t ! (hi - 1) = backtick"
      then have "hi - 1 + 1 < length ?t \<and> ?F ! (hi - 1 + 1) = CODE \<and> ?t ! (hi - 1 + 1) \<noteq> newline"
        using tick[of "hi - 1"] f that el by auto
      then show False using f ae(5) that by auto
    qed
    ultimately show ?thesis
      using utf8_slice[OF ok(1) f(1,2)] f(4) ne hd la styF[of lo] f(6,5) el by (simp add: piece_ok_def)
  qed
  have "pieces_ok (map (\<lambda>(lo, hi, st). (slice ?t lo hi, st)) vs)" using assms(4) piece
  proof (induction vs arbitrary: a)
    case (Cons v vs)
    then show ?case by (cases v; cases vs) (auto split: prod.splits)
  qed simp
  then have A: "pieces_ok ps" by (simp add: ps_def)
  have e: "map fst ps = map (\<lambda>r. slice ?t (run_start r) (run_end r)) (map run_of vs)"
    "map piece_styles ps = map (\<lambda>r. replicate (length (slice ?t (run_start r) (run_end r))) (run_style r)) (map run_of vs)"
    by (auto simp: ps_def)
  show ?thesis unfolding e using A slices_concat[OF assms(4) el] assms(5) by metis
qed

text \<open>The writer's turn for one line: the text it appends, and where it leaves the cursor.\<close>

definition line_text :: "string \<Rightarrow> run_cursor \<Rightarrow> block_kind \<times> nat \<times> nat \<Rightarrow> string \<times> run_cursor" where
  "line_text t c line = (case line of (k, a, e) \<Rightarrow>
     (let ((st, until), c1) = style_extent_at c a;
          (pieces, c2) = for_each_overlap c1 a e
      in (block_prefix k @ (if k = Paragraph \<and> paragraph_prefix_needs_escape t a e st until then [backslash] else [])
            @ concat (map (\<lambda>(lo, hi, style). encode_inline (slice t lo hi) style) pieces), c2)))"

lemma markdown_lines_step:
  "markdown_lines t first outp c (line # lines) =
     markdown_lines t False ((if first then outp else outp @ [newline]) @ fst (line_text t c line))
       (snd (line_text t c line)) lines"
proof -
  obtain k a e where l: "line = (k, a, e)" by (cases line)
  obtain st u c1 where s: "style_extent_at c a = ((st, u), c1)" by (metis prod.collapse)
  obtain vs c2 where v: "for_each_overlap c1 a e = (vs, c2)" by force
  show ?thesis unfolding l markdown_lines.simps line_text_def by (simp add: s v Let_def)
qed

lemma line_text_spec:
  assumes "editor_ok b" "unambiguous b" "(k, a, e) \<in> set (zip (eb_blocks b) (line_ranges (eb_text b)))"
    and "cursor_at (eb_runs b) (length (eb_text b)) s c" "s \<le> a"
  shows "line_spec (eb_text b) (flat (eb_runs b)) (k, a, e) (fst (line_text (eb_text b) c (k, a, e)))
    \<and> (\<exists>t \<le> e. cursor_at (eb_runs b) (length (eb_text b)) t (snd (line_text (eb_text b) c (k, a, e))))"
proof -
  let ?t = "eb_text b" and ?F = "flat (eb_runs b)" and ?n = "length (eb_text b)"
  note ok = editor_okD[OF assms(1)]
  have mem: "(a, e) \<in> set (line_ranges ?t)" using assms(3) by (auto dest: set_zip_rightD)
  have ae: "a \<le> e" "e \<le> ?n"
    using line_boundaries[OF ok(1) line_ranges_cover _ mem] boundary_le by auto
  have nl: "newline \<notin> set (slice ?t a e)"
  proof -
    have "lines_cover t p lines \<Longrightarrow> (a, e) \<in> set lines \<Longrightarrow> newline \<notin> set (slice t a e)" for t p lines
      by (induction t p lines rule: lines_cover.induct) (auto split: if_splits)
    then show ?thesis using line_ranges_cover mem by blast
  qed
  obtain st u c1 where ext: "style_extent_at c a = ((st, u), c1)" by (metis prod.collapse)
  obtain vs c2 where vis: "for_each_overlap c1 a e = (vs, c2)" by force
  have an: "a \<le> ?n" using ae by simp
  obtain s1 where s1: "s1 \<le> a" "cursor_at (eb_runs b) ?n s1 (advance_to c a)"
    using advance_cursor[OF assms(4,5) an] by blast
  have "c1 = advance_to c a \<or> c1 = (advance_to c a)\<lparr> cu_operations := cu_operations (advance_to c a) + 1 \<rparr>"
    using ext by (auto simp: style_extent_at_def Let_def split: if_splits)
  then have c1: "cursor_at (eb_runs b) ?n s1 c1" "cu_index c1 = cu_index (advance_to c a)" "cu_runs c1 = eb_runs b"
    using s1(2) by (auto simp: cursor_at_def)
  define ps where "ps = map (\<lambda>(lo, hi, style). (slice ?t lo hi, style)) vs"
  define escape where "escape = (k = Paragraph \<and> paragraph_prefix_needs_escape ?t a e st u)"
  define l where "l = (if escape then [backslash] else []) @ concat (map encode ps)"
  have written: "line_text ?t c (k, a, e) = (block_prefix k @ l, c2)"
  proof -
    have "map encode ps = map (\<lambda>(lo, hi, style). encode_inline (slice ?t lo hi) style) vs" by (auto simp: ps_def)
    then show ?thesis by (simp add: line_text_def ext vis l_def escape_def)
  qed
  have main: "pieces_ok ps \<and> concat (map fst ps) = slice ?t a e
      \<and> concat (map piece_styles ps) = take (e - a) (drop a ?F)
      \<and> (\<exists>t \<le> e. cursor_at (eb_runs b) ?n t c2)
      \<and> (escape \<longleftrightarrow> k = Paragraph \<and> (case ps of [] \<Rightarrow> False | (w, x) # _ \<Rightarrow>
          x = PLAIN \<and> (starts_with ''- '' w \<or> looks_numbered_prefix w \<noteq> None)))"
  proof (cases "a = e")
    case True
    then have "vs = []" "c2 = c1" using vis by (simp_all add: for_each_overlap_def)
    then show ?thesis
      using True c1(1) s1(1) by (auto simp: ps_def slice_def escape_def paragraph_prefix_needs_escape_def)
  next
    case False
    then have lt: "a < e" using ae(1) by simp
    obtain r rs ws t where o: "vs = (a, min (run_end r) e, run_style r) # ws"
        "contiguous a (map run_of vs) e" "flat (map run_of vs) = take (e - a) (drop a ?F)"
        "drop (cu_index (advance_to c1 a)) (eb_runs b) = r # rs" "run_start r \<le> a" "a < run_end r"
        "t \<le> e" "cursor_at (eb_runs b) ?n t c2"
      using overlap_cursor[OF c1(1) s1(1) lt ae(2)] unfolding vis by auto
    have d: "drop (cu_index (advance_to c a)) (eb_runs b) = r # rs"
    proof -
      note x = advance_cursor[OF assms(4,5) an]
      have "drop (cu_index (advance_to c1 a)) (eb_runs b)
          = dropWhile (\<lambda>r. run_end r \<le> a) (drop (cu_index (advance_to c a)) (eb_runs b))"
        using advance_to_drop[of c1 a] c1(2,3) by simp
      also have "\<dots> = drop (cu_index (advance_to c a)) (eb_runs b)"
        using x by (cases "drop (cu_index (advance_to c a)) (eb_runs b)") auto
      finally show ?thesis using o(4) by simp
    qed
    have idx: "cu_index (advance_to c a) < length (eb_runs b)" "eb_runs b ! cu_index (advance_to c a) = r"
      using drop_unit[of "cu_index (advance_to c a)" "eb_runs b" "[r]" rs] d by auto
    have "cu_runs (advance_to c a) = eb_runs b" using s1(2) by (simp add: cursor_at_def)
    then have "st = run_style r \<and> u = run_end r"
      using ext idx o(5,6) by (auto simp: style_extent_at_def Let_def)
    then have "escape \<longleftrightarrow> k = Paragraph \<and> (case ps of [] \<Rightarrow> False | (w, x) # _ \<Rightarrow>
          x = PLAIN \<and> (starts_with ''- '' w \<or> looks_numbered_prefix w \<noteq> None))"
      using False o(1) by (auto simp: escape_def ps_def paragraph_prefix_needs_escape_def Let_def)
    then show ?thesis
      using pieces_of_line[OF assms(1,2) mem o(2,3)] o(7,8) by (auto simp: ps_def)
  qed
  have para: "\<not> starts_with p w" if "k = Paragraph" "ps = (w, PLAIN) # r" "p \<in> {''# '', ''## '', ''### '', ''> ''}" for w r p
  proof
    assume "starts_with p w"
    then obtain v where "w = p @ v" by (auto simp: starts_with_iff)
    moreover have "concat (map fst ps) = w @ concat (map fst r)" using that(2) by simp
    ultimately have "slice ?t a e = p @ v @ concat (map fst r)" using main by (metis append.assoc)
    then have "starts_with p (slice ?t a e)" by (simp add: starts_with_iff)
    moreover have "\<not> list_ex (\<lambda>p. starts_with p (slice ?t a e)) [''# '', ''## '', ''### '', ''> '']"
      using assms(2,3) that(1) unfolding unambiguous_def Let_def list_all_iff by blast
    ultimately show False using that(3) by auto
  qed
  have parse: "parse_block_prefix (block_prefix k @ l) = (k, l)"
  proof (cases "k = Paragraph")
    case True
    have "\<not> prefixed l"
      unfolding l_def using main para True by (intro paragraph_source) auto
    then show ?thesis using parse_paragraph True by simp
  qed (simp add: parse_block_prefix_written)
  have first: "\<exists>w r x u. ps = (w, PLAIN) # r \<and> w = x # u \<and> byte x < 128 \<and> \<not> special x" if escape
  proof -
    have "case ps of [] \<Rightarrow> False | (w, x) # _ \<Rightarrow>
        x = PLAIN \<and> (starts_with ''- '' w \<or> looks_numbered_prefix w \<noteq> None)"
      using main that by blast
    then have "\<exists>w r. ps = (w, PLAIN) # r \<and> (starts_with ''- '' w \<or> looks_numbered_prefix w \<noteq> None)"
      by (cases ps) (auto split: prod.splits)
    then obtain w r where w: "ps = (w, PLAIN) # r" "starts_with ''- '' w \<or> looks_numbered_prefix w \<noteq> None"
      by blast
    have "\<exists>x u. w = x # u \<and> (x = CHR ''-'' \<or> is_ascii_digit x)"
    proof (cases "starts_with ''- '' w")
      case True
      then show ?thesis by (cases w) (auto simp: starts_with_def)
    next
      case False
      then obtain n where "looks_numbered_prefix w = Some n" using w(2) by auto
      then obtain ds v where "w = ds @ ''. '' @ v" "ds \<noteq> []" "list_all is_ascii_digit ds"
        by (auto simp: looks_numbered_iff)
      then show ?thesis by (cases ds) auto
    qed
    then obtain x u where x: "w = x # u" "x = CHR ''-'' \<or> is_ascii_digit x" by blast
    have "byte backslash = 92" "byte star = 42" "byte backtick = 96" "byte (CHR ''-'') = 45"
      by (simp_all add: byte_def backslash_def star_def backtick_def)
    then have "byte x < 128 \<and> \<not> special x"
      using x(2) by (elim disjE) (auto simp: is_ascii_digit_def)
    then show ?thesis using w(1) x(1) by blast
  qed
  have cr: "carriage_return \<notin> set (slice ?t a e)" using ok(2) slice_subset by blast
  have enc: "utf8_valid (concat (map encode qs)) \<and> set (concat (map encode qs))
      \<subseteq> {backslash, star, backtick} \<union> set (concat (map fst qs))" if "pieces_ok qs" for qs
    using that
  proof (induction qs)
    case (Cons q qs)
    then show ?case using encode_valid[of "snd q" "fst q"] by (auto simp: piece_ok_def intro: utf8_append)
  qed simp
  have lv: "utf8_valid l \<and> set l \<subseteq> {backslash, star, backtick} \<union> set (slice ?t a e)"
    using enc[of ps] main by (auto simp: l_def)
  have pre: "utf8_valid (block_prefix k @ l) \<and> newline \<notin> set (block_prefix k) \<and> carriage_return \<notin> set (block_prefix k)"
    using lv by (cases k) (auto simp: byte_def newline_def carriage_return_def)
  have bad: "newline \<notin> set l" "carriage_return \<notin> set l" using lv nl cr by auto
  have "line_spec ?t ?F (k, a, e) (block_prefix k @ l)"
    unfolding line_spec_def
    using pre bad parse line_reads_back[of ps _ escape, folded l_def] main first by auto
  then show ?thesis using written main by simp
qed

section \<open>The document\<close>

primrec join_lines :: "string list \<Rightarrow> string" where
  "join_lines [] = []"
| "join_lines (l # ls) = l @ concat (map (\<lambda>l. newline # l) ls)"

lemma split_join: "ls \<noteq> [] \<Longrightarrow> list_all (\<lambda>l. newline \<notin> set l) ls \<Longrightarrow> split_lines (join_lines ls) = ls"
proof (induction ls)
  case (Cons l ls)
  have l: "newline \<notin> set l" using Cons.prems by simp
  show ?case
  proof (cases ls)
    case Nil
    then show ?thesis using split_lines_append[OF l, of "[]"] by simp
  next
    case (Cons m ms)
    then have "split_lines (newline # join_lines ls) = [] # ls" using Cons.IH Cons.prems by simp
    then show ?thesis using split_lines_append[OF l, of "newline # join_lines ls"] Cons by simp
  qed
qed simp

lemma markdown_lines_spec:
  assumes "editor_ok b" "unambiguous b"
  shows "set (zip blocks lines) \<subseteq> set (zip (eb_blocks b) (line_ranges (eb_text b))) \<Longrightarrow> length blocks = length lines \<Longrightarrow>
    lines_cover (eb_text b) a lines \<Longrightarrow> cursor_at (eb_runs b) (length (eb_text b)) s c \<Longrightarrow> s \<le> a \<Longrightarrow>
    \<exists>ls. list_all2 (line_spec (eb_text b) (flat (eb_runs b))) (zip blocks lines) ls
      \<and> fst (markdown_lines (eb_text b) first outp c (zip blocks lines)) =
          outp @ (if first then join_lines ls else concat (map (\<lambda>l. newline # l) ls))"
proof (induction lines arbitrary: blocks a s c first outp)
  case Nil
  then show ?case by simp
next
  case (Cons ln lines)
  obtain k ks where blocks: "blocks = k # ks" using Cons.prems(2) by (cases blocks) auto
  obtain e where ln: "ln = (a, e)" using Cons.prems(3) by (cases ln) auto
  have mem: "(k, a, e) \<in> set (zip (eb_blocks b) (line_ranges (eb_text b)))"
    using Cons.prems(1) by (simp add: blocks ln)
  obtain l c' where lt: "line_text (eb_text b) c (k, a, e) = (l, c')" by force
  obtain t where t: "line_spec (eb_text b) (flat (eb_runs b)) (k, a, e) l" "t \<le> e"
      "cursor_at (eb_runs b) (length (eb_text b)) t c'"
    using line_text_spec[OF assms mem Cons.prems(4,5)] lt by auto
  define o1 where "o1 = (if first then outp else outp @ [newline]) @ l"
  have step: "markdown_lines (eb_text b) first outp c (zip blocks (ln # lines)) =
      markdown_lines (eb_text b) False o1 c' (zip ks lines)"
    unfolding blocks ln zip_Cons_Cons markdown_lines_step lt by (simp add: o1_def)
  show ?case
  proof (cases "lines = []")
    case True
    then show ?thesis
      using t(1) step by (intro exI[of _ "[l]"]) (auto simp: blocks ln o1_def)
  next
    case False
    then have cov: "lines_cover (eb_text b) (e + 1) lines" using Cons.prems(3) by (simp add: ln)
    obtain ls where ls: "list_all2 (line_spec (eb_text b) (flat (eb_runs b))) (zip ks lines) ls"
        "fst (markdown_lines (eb_text b) False o1 c' (zip ks lines)) = o1 @ concat (map (\<lambda>l. newline # l) ls)"
      using Cons.IH[OF _ _ cov t(3), where blocks = ks and outp = o1 and first = False] Cons.prems(1,2) t(2) by (auto simp: blocks ln)
    then show ?thesis
      using t(1) step by (intro exI[of _ "l # ls"]) (auto simp: blocks ln o1_def)
  qed
qed

text \<open>The style of a line break is not stored.\<close>

definition plain_newlines :: "string \<Rightarrow> inline_style list \<Rightarrow> inline_style list" where
  "plain_newlines t F = map2 (\<lambda>c st. if c = newline then PLAIN else st) t F"

lemma plain_newlines_line:
  assumes "length F = length t" "a \<le> e" "e \<le> length t" "newline \<notin> set (slice t a e)"
  shows "take (e - a) (drop a (plain_newlines t F)) = take (e - a) (drop a F)"
proof (rule nth_equalityI)
  show "length (take (e - a) (drop a (plain_newlines t F))) = length (take (e - a) (drop a F))"
    using assms(1) by (simp add: plain_newlines_def)
  fix i
  assume "i < length (take (e - a) (drop a (plain_newlines t F)))"
  then have i: "i < e - a" "a + i < length t" using assms(1) by (auto simp: plain_newlines_def)
  have "slice t a e ! i \<in> set (slice t a e)" using i assms(3) by (intro nth_mem) (simp add: slice_def)
  then have "t ! (a + i) \<noteq> newline" using assms(4) i by (auto simp: slice_def)
  then show "take (e - a) (drop a (plain_newlines t F)) ! i = take (e - a) (drop a F) ! i"
    using i assms(1) by (simp add: plain_newlines_def)
qed

lemma parse_lines_spec:
  assumes "length F = length t"
  shows "list_all2 (line_spec t F) (zip blocks lines) ls \<Longrightarrow> length blocks = length lines \<Longrightarrow>
    lines_cover t a lines \<Longrightarrow> styled out \<Longrightarrow>
    case parse_lines first ls out finished of (out', kinds) \<Rightarrow>
      styled out' \<and> fst out' = fst out @ (if first then [] else [newline]) @ drop a t
      \<and> flat (snd out') = flat (snd out) @ (if first then [] else [PLAIN]) @ drop a (plain_newlines t F)
      \<and> kinds = finished @ blocks"
proof (induction lines arbitrary: blocks ls a out first finished)
  case Nil
  then show ?case by simp
next
  case (Cons ln lines)
  obtain k ks where blocks: "blocks = k # ks" using Cons.prems(2) by (cases blocks) auto
  obtain e where ln: "ln = (a, e)" "a \<le> e" "e \<le> length t" "newline \<notin> set (slice t a e)"
    using Cons.prems(3) by (cases ln) auto
  obtain l ms where ls: "ls = l # ms" "line_spec t F (k, a, e) l" "list_all2 (line_spec t F) (zip ks lines) ms"
    using Cons.prems(1) by (auto simp: blocks ln(1) list_all2_Cons1)
  obtain rest where rest: "parse_block_prefix l = (k, rest)"
    "\<And>out. styled out \<Longrightarrow> styled (parse_inline rest out) \<and> fst (parse_inline rest out) = fst out @ slice t a e
          \<and> flat (snd (parse_inline rest out)) = flat (snd out) @ take (e - a) (drop a F)"
    using ls(2) by (auto simp: line_spec_def)
  define o1 where "o1 = (if first then out else append_piece [newline] PLAIN out)"
  have o1: "styled o1" "fst o1 = fst out @ (if first then [] else [newline])"
    "flat (snd o1) = flat (snd out) @ (if first then [] else [PLAIN])"
    using append_piece_styled[OF Cons.prems(4), of "[newline]" PLAIN] Cons.prems(4) by (auto simp: o1_def)
  have step: "parse_lines first ls out finished = parse_lines False ms (parse_inline rest o1) (finished @ [k])"
  proof -
    have "o1 = (if first then out else (fst out @ [newline],
        push_style_run (snd out) (length (fst out)) (length (fst out) + 1) PLAIN))"
      by (cases out) (simp add: o1_def append_piece_def)
    then show ?thesis unfolding ls(1) parse_lines.simps Let_def rest(1) by simp
  qed
  note r = rest(2)[OF o1(1)]
  have pl: "length (plain_newlines t F) = length t" using assms by (simp add: plain_newlines_def)
  have fl: "take (e - a) (drop a F) = take (e - a) (drop a (plain_newlines t F))"
    using plain_newlines_line[OF assms ln(2-4)] by simp
  show ?case
  proof (cases "lines = []")
    case True
    then have "e = length t" "ms = []" "ks = []" using Cons.prems(2,3) ls(3) by (auto simp: ln(1) blocks)
    then show ?thesis
      using r o1 fl pl unfolding step by (simp add: slice_def blocks)
  next
    case False
    then have e: "e < length t" "t ! e = newline" "lines_cover t (e + 1) lines"
      using Cons.prems(3) by (auto simp: ln(1))
    have cut: "drop a u = take (e - a) (drop a u) @ u ! e # drop (e + 1) u" if "length u = length t" for u :: "'x list"
    proof -
      have "drop e u = u ! e # drop (e + 1) u" using e(1) that by (simp add: Cons_nth_drop_Suc)
      moreover have "drop a u = take (e - a) (drop a u) @ drop e u"
        using append_take_drop_id[of "e - a" "drop a u"] ln(2) by simp
      ultimately show ?thesis by simp
    qed
    have pe: "plain_newlines t F ! e = PLAIN" using e(1,2) assms by (simp add: plain_newlines_def)
    have len: "length ks = length lines" using Cons.prems(2) by (simp add: blocks)
    have dt: "drop a t = slice t a e @ newline # drop (e + 1) t" using cut[of t] e(2) by (simp add: slice_def)
    have dF: "drop a (plain_newlines t F) = take (e - a) (drop a F) @ PLAIN # drop (e + 1) (plain_newlines t F)"
      using cut[OF pl] pe fl by simp
    from Cons.IH[OF ls(3) len e(3) conjunct1[OF r], where first = False and finished = "finished @ [k]"]
    show ?thesis
      using r o1 unfolding step dt dF by (auto simp: blocks split: prod.splits)
  qed
qed

text \<open>Saving and loading an unambiguous document gives back its text, its blocks and its styles.\<close>

lemma markdown_reads_back:
  assumes "editor_ok b" "unambiguous b"
  shows "eb_text (parse_markdown (markdown b) n) = eb_text b
    \<and> eb_blocks (parse_markdown (markdown b) n) = eb_blocks b
    \<and> flat (eb_runs (parse_markdown (markdown b) n)) = plain_newlines (eb_text b) (flat (eb_runs b))"
proof -
  let ?t = "eb_text b" and ?F = "flat (eb_runs b)"
  note ok = editor_okD[OF assms(1)]
  have len: "length (eb_blocks b) = length (line_ranges ?t)" using ok(5) by (simp add: length_line_ranges)
  have lenF: "length ?F = length ?t" using length_flat[OF ok(3)] by simp
  have "cursor_at (eb_runs b) (length ?t) 0 (cursor_new (eb_runs b))"
    using ok(3) by (simp add: cursor_at_def cursor_new_def)
  from markdown_lines_spec[OF assms subset_refl len line_ranges_cover this, where first = True and outp = "[]"]
  obtain ls where ls: "list_all2 (line_spec ?t ?F) (zip (eb_blocks b) (line_ranges ?t)) ls"
      "markdown b = join_lines ls"
    by (auto simp: markdown_def markdown_with_run_operations_def case_prod_unfold)
  have good: "list_all (\<lambda>l. newline \<notin> set l \<and> carriage_return \<notin> set l) ls"
    using ls(1) by (induction rule: list_all2_induct) (auto simp: line_spec_def)
  have "length ls = length (line_ranges ?t)" using list_all2_lengthD[OF ls(1)] len by simp
  then have ne: "ls \<noteq> []" by (metis length_0_conv length_line_ranges nat.distinct(1))
  have "carriage_return \<notin> set (join_lines ls)"
    using good by (cases ls) (auto simp: list_all_iff)
  then have norm: "normalize_newlines (markdown b) = join_lines ls" using ls(2) normalize_id by simp
  have split: "split_lines (join_lines ls) = ls" using split_join[OF ne] good by (simp add: list_all_iff)
  obtain out kinds where p: "parse_lines True ls ([], []) [] = (out, kinds)" by (rule prod.exhaust)
  have "styled ([], [])" by (simp add: styled_def)
  from parse_lines_spec[OF lenF ls(1) len line_ranges_cover this, where first = True and finished = "[]"] p
  have out: "styled out" "fst out = ?t" "flat (snd out) = plain_newlines ?t ?F" "kinds = eb_blocks b" by auto
  have "kinds \<noteq> []" using out(4) ok(5) by auto
  moreover have "flat (normalize_runs (length (fst out)) (snd out)) = flat (snd out)"
    using normalize_touching[OF contiguous_touching] out(1) by (simp add: styled_def)
  ultimately show ?thesis
    using p out unfolding parse_markdown_def norm split Let_def by (cases out) auto
qed

end
