(* ===== verification/EditorEdits.thy ===== *)
theory EditorEdits
  imports EditorLines
begin

text \<open>
  What the edits of \<open>crates/key-editor-core/src/lib.rs\<close> keep and change: the size limit, the formats that
  are active in a selection, the cost of parsing, and that the stored form is never shorter than the text.
\<close>

section \<open>The limit\<close>

lemma fits_markdown:
  assumes "int limit < 2 ^ 64" "length blocks = newlines t + 1"
  shows "markdown_fits_with_limit t runs blocks limit \<longleftrightarrow>
    length (fst (markdown_with_run_operations t runs blocks)) \<le> limit"
  using fits_lines_mirrors[OF assms(1), of "[]" t True "cursor_new runs" "zip blocks (line_ranges t)"] assms(2)
  by (simp add: markdown_fits_with_limit_def markdown_fits_ops_def markdown_with_run_operations_def
      length_line_ranges case_prod_unfold Let_def)

text \<open>Turning a line into a paragraph never makes the document longer.\<close>

lemma line_text_paragraph:
  "snd (line_text t c (Paragraph, a, e)) = snd (line_text t c (k, a, e))
   \<and> length (fst (line_text t c (Paragraph, a, e))) \<le> length (fst (line_text t c (k, a, e)))"
  by (cases k) (auto simp: line_text_def Let_def case_prod_unfold)

lemma markdown_lines_paragraphs:
  "list_all2 (\<lambda>x y. snd x = snd y \<and> (fst x = fst y \<or> fst x = Paragraph)) xs ys \<Longrightarrow> length out1 \<le> length out2 \<Longrightarrow>
     length (fst (markdown_lines t first out1 c xs)) \<le> length (fst (markdown_lines t first out2 c ys))"
proof (induction xs ys arbitrary: first out1 out2 c rule: list_all2_induct)
  case (Cons x xs y ys)
  obtain k' a e k where x: "x = (k', a, e)" "y = (k, a, e)" "k' = k \<or> k' = Paragraph"
    using Cons.hyps(1) by (cases x; cases y) auto
  have l: "snd (line_text t c x) = snd (line_text t c y)" "length (fst (line_text t c x)) \<le> length (fst (line_text t c y))"
    using x line_text_paragraph[of t c a e k] by auto
  show ?case
    unfolding markdown_lines_step l(1) by (rule Cons.IH) (use Cons.prems l(2) in auto)
qed simp

lemma markdown_paragraph_shorter:
  "length (markdown (b\<lparr> eb_blocks := (eb_blocks b)[i := Paragraph], eb_marked := m \<rparr>)) \<le> length (markdown b)"
proof -
  have upd: "blocks[i := Paragraph] ! j = blocks ! j \<or> blocks[i := Paragraph] ! j = Paragraph"
    if "j < length blocks" for blocks j
    using that by (cases "j = i") simp_all
  have "list_all2 (\<lambda>x y. snd x = snd y \<and> (fst x = fst y \<or> fst x = Paragraph))
      (zip (blocks[i := Paragraph]) rs) (zip blocks rs)" for blocks and rs :: "(nat \<times> nat) list"
    using upd by (auto simp: list_all2_conv_all_nth)
  then show ?thesis
    using markdown_lines_paragraphs[of _ _ "[]" "[]"]
    by (simp add: markdown_def markdown_with_run_operations_def case_prod_unfold Let_def)
qed

definition within_limit :: "nat \<Rightarrow> editor_buffer \<Rightarrow> bool" where
  "within_limit n b = (editor_ok b \<and> eb_max b = n \<and> length (markdown b) \<le> n)"

lemma markdown_cong:
  "eb_text c = eb_text b \<Longrightarrow> eb_runs c = eb_runs b \<Longrightarrow> eb_blocks c = eb_blocks b \<Longrightarrow> markdown c = markdown b"
  by (simp add: markdown_def)

lemma replaced_within:
  assumes "int n < 2 ^ 64" "within_limit n b" "utf8_valid s" "replace_range a e s b = Some (r, b')"
  shows "eb_max b' = n \<and> length (markdown b') \<le> n"
proof -
  obtain lo hi where r: "r = (lo, hi)" by force
  have b: "editor_ok b" "eb_max b = n" using assms(2) by (simp_all add: within_limit_def)
  note R = replace_range_Some[OF b(1) assms(4)[unfolded r]]
  have "length (eb_blocks b') = newlines (eb_text b') + 1"
    using replace_range_ok(1)[OF b(1) assms(3) assms(4)[unfolded r]] by (simp add: editor_ok_def)
  then show ?thesis using fits_markdown[OF assms(1), of "eb_blocks b'" "eb_text b'" "eb_runs b'"] R(8,10) b(2)
    by (simp add: markdown_def)
qed

lemma unmark_within:
  assumes "int n < 2 ^ 64" "within_limit n b" "utf8_valid s"
  shows "within_limit n (snd (replace_and_unmark a e s b))"
proof (cases "replace_range a e s b")
  case None
  then show ?thesis using assms(2) by (simp add: replace_and_unmark_def)
next
  case (Some x)
  obtain r b' where x: "x = (r, b')" by (rule prod.exhaust)
  have "markdown (b'\<lparr> eb_marked := None \<rparr>) = markdown b'" by (rule markdown_cong) simp_all
  then show ?thesis
    using replaced_within[OF assms Some[unfolded x]] replace_and_unmark_ok[OF _ assms(3), of b a e] assms(2) Some x
    by (simp add: replace_and_unmark_def within_limit_def)
qed

lemma committed_within:
  assumes "int n < 2 ^ 64" "eb_max b = n" "length blocks = newlines (eb_text b) + 1"
    and "markdown_fits_with_limit (eb_text b) runs blocks n"
  shows "length (markdown (b\<lparr> eb_runs := runs, eb_blocks := blocks, eb_pending := p \<rparr>)) \<le> n"
  using fits_markdown[OF assms(1,3)] assms(4) by (simp add: markdown_def)

lemma edit_within:
  assumes "int n < 2 ^ 64" "within_limit n b" "edit_ok x"
  shows "within_limit n (snd (run_edit x b))"
proof -
  have b: "editor_ok b" "eb_max b = n" "length (markdown b) \<le> n" using assms(2) by (simp_all add: within_limit_def)
  note ok = run_edit_ok[OF b(1) assms(3)]
  have blocks: "eb_max (snd (commit_blocks ks b)) = n \<and> length (markdown (snd (commit_blocks ks b))) \<le> n"
    if "length ks = length (eb_blocks b)" for ks
    using committed_within[OF assms(1) b(2), of ks "eb_runs b" "eb_pending b"] that b editor_okD(5)[OF b(1)]
      markdown_cong[of "b\<lparr> eb_runs := eb_runs b, eb_blocks := ks, eb_pending := eb_pending b \<rparr>" "b\<lparr> eb_blocks := ks \<rparr>"]
    by (simp add: commit_blocks_def)
  have assigned: "length (assign_blocks (selected_lines b) k (eb_blocks b)) = length (eb_blocks b)" for k
    using assign_blocks_length selected_lines_bounds[OF b(1)] by simp
  have inline: "eb_max (snd (toggle_inline flag b)) = n \<and> length (markdown (snd (toggle_inline flag b))) \<le> n" for flag
    using committed_within[OF assms(1) b(2) editor_okD(5)[OF b(1)], of _ None] b
      markdown_cong[of "b\<lparr> eb_pending := _ \<rparr>" b] markdown_cong[of "b\<lparr> eb_runs := _, eb_blocks := eb_blocks b, eb_pending := None \<rparr>"
        "b\<lparr> eb_runs := _, eb_pending := None \<rparr>"]
    by (simp add: toggle_inline_def Let_def)
  have marked: "eb_max (snd (replace_and_mark_utf16 r s m b)) = n \<and> length (markdown (snd (replace_and_mark_utf16 r s m b))) \<le> n"
    if v: "utf8_valid s" for r s m
  proof -
    obtain a e where ae: "replacement_of r b = (a, e)" by force
    show ?thesis
    proof (cases "replace_range a e s b")
      case None
      then show ?thesis using ae b by (simp add: replace_and_mark_utf16_def)
    next
      case (Some y)
      obtain lo hi b' where y: "y = ((lo, hi), b')" by (metis prod.collapse)
      define b2 where "b2 = snd (replace_and_mark_utf16 r s m b)"
      have "eb_text b2 = eb_text b' \<and> eb_runs b2 = eb_runs b' \<and> eb_blocks b2 = eb_blocks b' \<and> eb_max b2 = eb_max b'"
        using ae Some y by (auto simp: b2_def replace_and_mark_utf16_def Let_def split: option.splits)
      then show ?thesis
        using replaced_within[OF assms(1,2) v Some[unfolded y]] markdown_cong[of b2 b'] by (simp add: b2_def)
    qed
  qed
  have newline_case: "eb_max (snd (insert_newline b)) = n \<and> length (markdown (snd (insert_newline b))) \<le> n"
  proof -
    have v: "utf8_valid [newline]" by simp
    have upd: "length (markdown (c\<lparr> eb_blocks := (eb_blocks c)[i := Paragraph], eb_marked := None \<rparr>)) \<le> n"
      if "length (markdown c) \<le> n" for c i
      using markdown_paragraph_shorter[where b = c and i = i and m = None] that by simp
    have same: "markdown (c\<lparr> eb_marked := None \<rparr>) = markdown c" for c by (rule markdown_cong) simp_all
    have list: "length (markdown (b\<lparr> eb_blocks := (eb_blocks b)[i := Paragraph], eb_pending := Some PLAIN \<rparr>)) \<le> n" for i
      using markdown_paragraph_shorter[where b = b and i = i and m = None] b(3)
        markdown_cong[of "b\<lparr> eb_blocks := (eb_blocks b)[i := Paragraph], eb_pending := Some PLAIN \<rparr>"
          "b\<lparr> eb_blocks := (eb_blocks b)[i := Paragraph], eb_marked := None \<rparr>"] by simp
    show ?thesis
      unfolding insert_newline_def Let_def
      using replaced_within[OF assms(1,2) v] upd same list b
      by (auto split: option.splits prod.splits)
  qed
  have "eb_max (snd (run_edit x b)) = n \<and> length (markdown (snd (run_edit x b))) \<le> n"
  proof (cases x)
    case (ReplaceSelection s)
    then show ?thesis using unmark_within[OF assms(1,2)] assms(3) by (simp add: replace_selection_def within_limit_def)
  next
    case Backspace
    then show ?thesis using unmark_within[OF assms(1,2)] by (simp add: backspace_def within_limit_def Let_def)
  next
    case DeleteForward
    then show ?thesis using unmark_within[OF assms(1,2)] by (simp add: delete_forward_def within_limit_def Let_def)
  next
    case (ReplaceTextUtf16 r s)
    then show ?thesis using unmark_within[OF assms(1,2)] assms(3)
      by (auto simp: replace_text_utf16_def within_limit_def split: prod.splits)
  next
    case (ReplaceAndMarkUtf16 r s m)
    then show ?thesis using marked assms(3) by simp
  next
    case InsertNewline
    then show ?thesis using newline_case by simp
  qed (use b blocks assigned inline in
      \<open>auto simp: set_selection_def move_to_def select_to_def select_all_def clear_marked_range_def Let_def
        toggle_bold_def toggle_italic_def toggle_code_def toggle_bulleted_list_def toggle_numbered_list_def
        toggle_block_def set_block_def markdown_def\<close>)
  then show ?thesis using ok by (simp add: within_limit_def)
qed

lemma edits_within:
  "int n < 2 ^ 64 \<Longrightarrow> within_limit n b \<Longrightarrow> list_all edit_ok xs \<Longrightarrow> within_limit n (run_edits xs b)"
  by (induction xs arbitrary: b) (auto simp: edit_within)

lemma accepted_within:
  assumes "int n < 2 ^ 64" "utf8_valid source" "try_from_markdown_with_limit source n = Inr b"
  shows "within_limit n b"
proof -
  have b: "b = parse_markdown source n" "fits_persistence_limit b"
    using assms(3) by (auto simp: try_from_markdown_with_limit_def Let_def split: if_splits)
  have m: "eb_max b = n" by (simp add: b(1) parse_markdown_def case_prod_unfold Let_def)
  have ok: "editor_ok b" using parse_markdown_ok[OF assms(2)] b(1) by simp
  show ?thesis
    using fits_markdown[OF assms(1) editor_okD(5)[OF ok]] b(2) m ok
    by (simp add: within_limit_def fits_persistence_limit_def markdown_def)
qed

section \<open>Formatting\<close>

lemma run_bytes:
  "contiguous a rs b \<Longrightarrow> r \<in> set rs \<Longrightarrow> run_start r \<le> i \<Longrightarrow> i < run_end r \<Longrightarrow>
     a \<le> run_start r \<and> run_end r \<le> b \<and> flat rs ! (i - a) = run_style r"
proof (induction a rs b rule: contiguous.induct)
  case (2 a q rs b)
  have q: "run_start q = a" "a < run_end q" "contiguous (run_end q) rs b" using 2(2) by auto
  show ?case
  proof (cases "r = q")
    case True
    have "i - a < run_end q - a" using 2(4,5) True q(1) by auto
    then show ?thesis using q contiguous_le[OF q(3)] True by (simp add: nth_append)
  next
    case False
    then have ih: "run_end q \<le> run_start r" "run_end r \<le> b" "flat rs ! (i - run_end q) = run_style r"
      using 2(1)[OF q(3)] 2(3-5) by auto
    have "\<not> i - a < run_end q - a" "i - a - (run_end q - a) = i - run_end q" using ih(1) 2(4) q(2) by auto
    then show ?thesis using ih q by (simp add: nth_append)
  qed
qed simp

lemma run_covers: "contiguous a rs b \<Longrightarrow> a \<le> i \<Longrightarrow> i < b \<Longrightarrow> \<exists>r \<in> set rs. run_start r \<le> i \<and> i < run_end r"
proof (induction a rs b rule: contiguous.induct)
  case (2 a q rs b)
  then show ?case by (cases "i < run_end q") auto
qed simp

text \<open>A format is active in a selection iff every selected byte has it.\<close>

lemma inline_active_bytes:
  assumes "editor_ok b" "eb_sel_start b < eb_sel_end b"
  shows "inline_active flag b \<longleftrightarrow> (\<forall>i. eb_sel_start b \<le> i \<and> i < eb_sel_end b \<longrightarrow> has_flag (flat (eb_runs b) ! i) flag)"
proof -
  note ok = editor_okD[OF assms(1)]
  have e: "eb_sel_end b \<le> length (eb_text b)" by (rule boundary_le[OF ok(8)])
  have bytes: "flat (eb_runs b) ! i = run_style r" if "r \<in> set (eb_runs b)" "run_start r \<le> i" "i < run_end r" for r i
    using run_bytes[OF ok(3) that] by simp
  let ?T = "filter (\<lambda>r. run_start r < eb_sel_end b \<and> eb_sel_start b < run_end r) (eb_runs b)"
  have eq: "inline_active flag b \<longleftrightarrow> ?T \<noteq> [] \<and> list_all (\<lambda>r. has_flag (run_style r) flag) ?T"
    using assms(2) by (simp add: inline_active_def sel_empty_def Let_def)
  have cov: "\<exists>r \<in> set ?T. run_start r \<le> i \<and> i < run_end r" if "eb_sel_start b \<le> i" "i < eb_sel_end b" for i
    using run_covers[OF ok(3), of i] that e by auto
  have "has_flag (run_style r) flag"
    if "\<forall>i. eb_sel_start b \<le> i \<and> i < eb_sel_end b \<longrightarrow> has_flag (flat (eb_runs b) ! i) flag" "r \<in> set ?T" for r
  proof -
    have "run_start r < run_end r"
    proof -
      have "contiguous a rs n \<Longrightarrow> r \<in> set rs \<Longrightarrow> run_start r < run_end r" for a rs n
        by (induction a rs n rule: contiguous.induct) auto
      then show ?thesis using ok(3) that(2) by auto
    qed
    then have "flat (eb_runs b) ! max (run_start r) (eb_sel_start b) = run_style r"
      using that(2) by (intro bytes) auto
    moreover have "eb_sel_start b \<le> max (run_start r) (eb_sel_start b)" "max (run_start r) (eb_sel_start b) < eb_sel_end b"
      using that(2) assms(2) by auto
    ultimately show ?thesis using that(1) by metis
  qed
  moreover have "has_flag (flat (eb_runs b) ! i) flag"
    if "list_all (\<lambda>r. has_flag (run_style r) flag) ?T" "eb_sel_start b \<le> i" "i < eb_sel_end b" for i
    using cov[OF that(2,3)] that(1) bytes by (auto simp: list_all_iff)
  moreover have "?T \<noteq> []" using cov[of "eb_sel_start b"] assms(2) by force
  ultimately show ?thesis unfolding eq by (auto simp: list_all_iff)
qed

lemma toggled_styles:
  assumes "editor_ok b" "eb_sel_start b < eb_sel_end b" "toggle_inline flag b = (True, b')"
  shows "flat (eb_runs b') = restyled (eb_sel_start b) (eb_sel_end b) (\<lambda>st. with_flag st flag (\<not> inline_active flag b)) 0
      (flat (eb_runs b))"
    and "eb_text b' = eb_text b \<and> eb_blocks b' = eb_blocks b \<and> eb_sel_start b' = eb_sel_start b \<and> eb_sel_end b' = eb_sel_end b"
proof -
  note ok = editor_okD[OF assms(1)]
  define f where "f = (\<lambda>st. with_flag st flag (\<not> inline_active flag b))"
  let ?u = "restyle (eb_sel_start b) (eb_sel_end b) f [] (eb_runs b)"
  have u: "contiguous 0 ?u (length (eb_text b)) \<and> flat ?u = restyled (eb_sel_start b) (eb_sel_end b) f 0 (flat (eb_runs b))"
    using restyle_flat[of "[]" 0 "eb_runs b" "length (eb_text b)" "eb_sel_start b" "eb_sel_end b" f]
      contiguous_touching[OF ok(3)] ok(6) by simp
  have b': "b' = b\<lparr> eb_runs := normalize_runs (length (eb_text b)) ?u, eb_pending := None \<rparr>"
    using assms(2,3) by (auto simp: toggle_inline_def sel_empty_def Let_def f_def split: if_splits)
  show "flat (eb_runs b') = restyled (eb_sel_start b) (eb_sel_end b) (\<lambda>st. with_flag st flag (\<not> inline_active flag b)) 0
      (flat (eb_runs b))"
    using normalize_touching[OF contiguous_touching[OF conjunct1[OF u]]] u b' by (simp add: f_def)
  show "eb_text b' = eb_text b \<and> eb_blocks b' = eb_blocks b \<and> eb_sel_start b' = eb_sel_start b \<and> eb_sel_end b' = eb_sel_end b"
    using b' by simp
qed

section \<open>The cost of parsing\<close>

definition counted :: "backtick_index \<Rightarrow> bool" where
  "counted ix = (bi_positions_advanced ix = sum_list (map snd (bi_cursors ix)) \<and> distinct (map fst (bi_cursors ix))
     \<and> (\<forall>(n, c) \<in> set (bi_cursors ix). c \<le> length (bi_positions ix n)))"

lemma sum_update:
  "sum_list (map snd (AList.update k v m)) + (case map_of m k of None \<Rightarrow> 0 | Some c \<Rightarrow> c) = sum_list (map snd m) + (v :: nat)"
  by (induction m) auto

lemma next_run_counted:
  assumes "counted ix"
  shows "counted (snd (next_run n m ix))"
proof (cases "bi_positions ix n = []")
  case True
  then show ?thesis using assms by (simp add: next_run_def)
next
  case False
  define c where "c = (case map_of (bi_cursors ix) n of None \<Rightarrow> 0 | Some c \<Rightarrow> c)"
  define k where "k = length (takeWhile (\<lambda>p. p < m) (drop c (bi_positions ix n)))"
  have c: "c \<le> length (bi_positions ix n)"
    using assms by (auto simp: counted_def c_def split: option.splits dest!: map_of_SomeD)
  have "k \<le> length (bi_positions ix n) - c"
    unfolding k_def by (metis length_drop length_takeWhile_le)
  then have ck: "c + k \<le> length (bi_positions ix n)" using c by simp
  have eq: "snd (next_run n m ix) = ix\<lparr> bi_cursors := hm_insert n (c + k) (bi_cursors ix),
      bi_positions_advanced := bi_positions_advanced ix + k \<rparr>"
    using False by (simp add: next_run_def Let_def c_def k_def)
  have "sum_list (map snd (hm_insert n (c + k) (bi_cursors ix))) + c = sum_list (map snd (bi_cursors ix)) + (c + k)"
    using sum_update[of n "c + k" "bi_cursors ix"] by (simp add: hm_insert_def c_def)
  moreover have "distinct (map fst (hm_insert n (c + k) (bi_cursors ix)))"
    using assms by (simp add: counted_def hm_insert_def distinct_update)
  moreover have "set (hm_insert n (c + k) (bi_cursors ix)) \<subseteq> insert (n, c + k) (set (bi_cursors ix))"
  proof -
    have "set (AList.update n v m) \<subseteq> insert (n, v) (set m)" for v :: nat and m by (induction m) auto
    then show ?thesis by (simp add: hm_insert_def)
  qed
  ultimately show ?thesis
    using assms ck unfolding eq counted_def by auto
qed

lemma parse_step_counted: "counted (ip_index st) \<Longrightarrow> counted (ip_index (snd (parse_step source i st)))"
  using next_run_counted[of "ip_index st"]
  by (auto simp: parse_step_def Let_def case_prod_unfold split: option.splits)

lemma parse_loop_counted: "counted (ip_index st) \<Longrightarrow> counted (ip_index (parse_loop source i st))"
proof (induction source i st rule: parse_loop.induct)
  case (1 source i st)
  obtain j st' where s: "parse_step source i st = (j, st')" by force
  have c: "counted (ip_index st')" using parse_step_counted[OF 1(2), of source i] s by simp
  show ?case
  proof (cases "i < length source")
    case True
    then show ?thesis using 1(1)[OF True s[symmetric] refl c] True s by (simp add: parse_loop.simps[of source i st])
  next
    case False
    then show ?thesis using 1(2) c s by (simp add: parse_loop.simps[of source i st])
  qed
qed

lemma parse_loop_indexes:
  "indexes source (ip_index st) \<Longrightarrow> bi_indexed_bytes (ip_index st) = n \<Longrightarrow>
     indexes source (ip_index (parse_loop source i st)) \<and> bi_indexed_bytes (ip_index (parse_loop source i st)) = n"
proof (induction source i st rule: parse_loop.induct)
  case (1 source i st)
  obtain j st' where s: "parse_step source i st = (j, st')" by force
  have "ip_index st' = ip_index st \<or> (\<exists>k m. ip_index st' = snd (next_run k m (ip_index st)))"
  proof (cases "source ! i = backtick")
    case True
    then have "ip_index st' = snd (next_run (length (takeWhile (\<lambda>c. c = backtick) (drop i source)))
        (i + length (takeWhile (\<lambda>c. c = backtick) (drop i source))) (ip_index st))"
      using s by (auto simp: parse_step_def Let_def case_prod_unfold split: option.splits)
    then show ?thesis by blast
  next
    case False
    then show ?thesis
      using s by (auto simp: parse_step_def Let_def case_prod_unfold split: option.splits if_splits)
  qed
  moreover have "bi_indexed_bytes (snd (next_run k m (ip_index st))) = n" for k m
    using 1(3) by (simp add: next_run_def Let_def)
  ultimately have c: "indexes source (ip_index st')" "bi_indexed_bytes (ip_index st') = n"
    using 1(2,3) next_run_positions[of _ _ "ip_index st"] by (auto simp: indexes_def)
  show ?case
  proof (cases "i < length source")
    case True
    then show ?thesis using 1(1)[OF True s[symmetric] refl c] True s by (simp add: parse_loop.simps[of source i st])
  next
    case False
    then show ?thesis using 1(2,3) c s by (simp add: parse_loop.simps[of source i st])
  qed
qed

lemma counted_bound:
  assumes "counted ix" "indexes source ix"
  shows "bi_positions_advanced ix \<le> length source"
proof -
  let ?rs = "backtick_runs 0 source"
  have pos: "bi_positions ix n = map snd (filter (\<lambda>(m, _). m = n) ?rs)" for n
    using assms(2) by (simp add: indexes_def backtick_index_new_def)
  have "sum_list (map snd m) \<le> sum_list (map (\<lambda>k. length (bi_positions ix k)) (map fst m))"
    if "\<forall>(n, c) \<in> set m. c \<le> length (bi_positions ix n)" for m
    using that by (induction m) auto
  then have 1: "bi_positions_advanced ix \<le> sum_list (map (\<lambda>k. length (bi_positions ix k)) (map fst (bi_cursors ix)))"
    using assms(1) by (simp add: counted_def)
  have 2: "distinct ks \<Longrightarrow> sum_list (map (\<lambda>k. length (filter (\<lambda>(m, _). m = k) rs)) ks) \<le> length rs"
    for ks :: "nat list" and rs :: "(nat \<times> nat) list"
  proof (induction rs)
    case (Cons r rs)
    have "sum_list (map (\<lambda>k. length (filter (\<lambda>(m, _). m = k) (r # rs))) ks) =
        length (filter (\<lambda>k. fst r = k) ks) + sum_list (map (\<lambda>k. length (filter (\<lambda>(m, _). m = k) rs)) ks)"
      by (induction ks) (auto simp: case_prod_unfold)
    moreover have "length (filter (\<lambda>k. fst r = k) ks) \<le> 1"
      using Cons.prems by (induction ks) (auto simp: filter_empty_conv)
    ultimately show ?case using Cons.IH[OF Cons.prems] by simp
  qed simp
  have 3: "length (backtick_runs i s) \<le> length s" for i s
  proof (induction i s rule: backtick_runs.induct)
    case (1 i s)
    show ?case
    proof (cases s)
      case Nil
      then show ?thesis by (simp add: backtick_runs.simps)
    next
      case (Cons c r)
      show ?thesis
      proof (cases "c = backtick")
        case True
        have "backtick_runs i s = (length (takeWhile (\<lambda>x. x = backtick) s), i)
          # backtick_runs (i + length (takeWhile (\<lambda>x. x = backtick) s)) (drop (length (takeWhile (\<lambda>x. x = backtick) s)) s)"
          by (subst backtick_runs.simps) (simp add: Cons True)
        moreover have "0 < length (takeWhile (\<lambda>x. x = backtick) s)" "length (takeWhile (\<lambda>x. x = backtick) s) \<le> length s"
          using Cons True length_takeWhile_le by simp_all
        ultimately show ?thesis
          using 1(1)[OF Cons True refl] unfolding length_drop by (simp del: length_0_conv length_greater_0_conv)
      next
        case False
        have "backtick_runs i s = backtick_runs (i + char_width c) (drop (char_width c) s)"
          by (subst backtick_runs.simps) (simp add: Cons False)
        then show ?thesis using 1(2)[OF Cons False] by simp
      qed
    qed
  qed
  have "bi_positions_advanced ix \<le> length ?rs"
    using 1 2[of "map fst (bi_cursors ix)" ?rs] assms(1) unfolding pos by (simp add: counted_def comp_def)
  then show ?thesis using 3[of 0 source] by simp
qed

section \<open>The stored form is at least as long as the text\<close>

lemma encode_longer: "length w \<le> length (encode_inline w st)"
proof -
  have "length w \<le> length (escape_inline w)" by (induction w) (auto simp: escape_Cons)
  then show ?thesis by (simp add: encode_inline_def Let_def)
qed

lemma line_text_longer:
  assumes "contiguous 0 runs (length t)" "cursor_at runs (length t) s c" "s \<le> a" "a \<le> e" "e \<le> length t"
  shows "e - a \<le> length (fst (line_text t c (k, a, e)))
    \<and> (\<exists>s' \<le> e. cursor_at runs (length t) s' (snd (line_text t c (k, a, e))))"
proof -
  obtain st u c1 where ext: "style_extent_at c a = ((st, u), c1)" by (metis prod.collapse)
  obtain vs c2 where vis: "for_each_overlap c1 a e = (vs, c2)" by force
  have an: "a \<le> length t" using assms(4,5) by simp
  obtain s1 where s1: "s1 \<le> a" "cursor_at runs (length t) s1 (advance_to c a)"
    using advance_cursor[OF assms(2,3) an] by blast
  have "c1 = advance_to c a \<or> c1 = (advance_to c a)\<lparr> cu_operations := cu_operations (advance_to c a) + 1 \<rparr>"
    using ext by (auto simp: style_extent_at_def Let_def split: if_splits)
  then have c1: "cursor_at runs (length t) s1 c1" using s1(2) by (auto simp: cursor_at_def)
  let ?enc = "concat (map (\<lambda>(lo, hi, style). encode_inline (slice t lo hi) style) vs)"
  have snd: "snd (line_text t c (k, a, e)) = c2" by (simp add: line_text_def ext vis)
  have fst: "length ?enc \<le> length (fst (line_text t c (k, a, e)))" by (simp add: line_text_def ext vis)
  have main: "e - a \<le> length ?enc \<and> (\<exists>s' \<le> e. cursor_at runs (length t) s' c2)"
  proof (cases "a = e")
    case True
    then have "c2 = c1" using vis by (simp add: for_each_overlap_def)
    then show ?thesis using True c1 s1(1) by auto
  next
    case False
    then have lt: "a < e" using assms(4) by simp
    obtain s' where o: "contiguous a (map run_of vs) e" "s' \<le> e" "cursor_at runs (length t) s' c2"
      using overlap_cursor[OF c1 s1(1) lt assms(5)] unfolding vis by auto
    have "concat (map (\<lambda>r. slice t (run_start r) (run_end r)) (map run_of vs)) = slice t a e"
      using slices_concat[OF o(1) assms(5)] by blast
    then have "length (concat (map (\<lambda>(lo, hi, style). slice t lo hi) vs)) = e - a"
      using assms(5) by (simp add: slice_def comp_def case_prod_unfold)
    moreover have "length (concat (map (\<lambda>(lo, hi, style). slice t lo hi) vs)) \<le> length ?enc"
      using encode_longer by (induction vs) (auto intro: add_mono)
    ultimately show ?thesis using o(2,3) by auto
  qed
  then show ?thesis using snd fst by auto
qed

lemma markdown_lines_longer:
  assumes "contiguous 0 runs (length t)"
  shows "length blocks = length lines \<Longrightarrow> lines_cover t a lines \<Longrightarrow> cursor_at runs (length t) s c \<Longrightarrow> s \<le> a \<Longrightarrow>
    length outp + (if first then 0 else 1) + (length t - a)
      \<le> length (fst (markdown_lines t first outp c (zip blocks lines)))"
proof (induction lines arbitrary: blocks a s c first outp)
  case (Cons ln lines)
  obtain k ks where blocks: "blocks = k # ks" using Cons.prems(1) by (cases blocks) auto
  obtain e where ln: "ln = (a, e)" "a \<le> e" "e \<le> length t" using Cons.prems(2) by (cases ln) auto
  obtain l c' where lt: "line_text t c (k, a, e) = (l, c')" by force
  obtain s' where l: "e - a \<le> length l" "s' \<le> e" "cursor_at runs (length t) s' c'"
    using line_text_longer[OF assms Cons.prems(3,4) ln(2,3), of k] lt by auto
  define o1 where "o1 = (if first then outp else outp @ [newline]) @ l"
  have step: "markdown_lines t first outp c (zip blocks (ln # lines)) = markdown_lines t False o1 c' (zip ks lines)"
    unfolding blocks ln(1) zip_Cons_Cons markdown_lines_step lt by (simp add: o1_def)
  have o1: "length outp + (if first then 0 else 1) + (e - a) \<le> length o1" using l(1) by (simp add: o1_def)
  show ?case
  proof (cases "lines = []")
    case True
    then show ?thesis using o1 Cons.prems(2) unfolding step by (simp add: ln(1))
  next
    case False
    then have e: "e < length t" "lines_cover t (e + 1) lines" using Cons.prems(2) by (simp_all add: ln(1))
    have "length o1 + 1 + (length t - (e + 1)) \<le> length (fst (markdown_lines t False o1 c' (zip ks lines)))"
      using Cons.IH[OF _ e(2) l(3), where blocks = ks and outp = o1 and first = False] Cons.prems(1) l(2)
      by (simp add: blocks)
    then show ?thesis using o1 e(1) ln(2) unfolding step by linarith
  qed
qed simp

lemma text_shorter_than_markdown:
  assumes "contiguous 0 (eb_runs b) (length (eb_text b))" "length (eb_blocks b) = newlines (eb_text b) + 1"
  shows "length (eb_text b) \<le> length (markdown b)"
proof -
  have "cursor_at (eb_runs b) (length (eb_text b)) 0 (cursor_new (eb_runs b))"
    using assms(1) by (simp add: cursor_at_def cursor_new_def)
  from markdown_lines_longer[OF assms(1) _ line_ranges_cover this, where first = True and outp = "[]" and blocks = "eb_blocks b"]
  show ?thesis
    using assms(2) by (simp add: markdown_def markdown_with_run_operations_def case_prod_unfold Let_def length_line_ranges)
qed

section \<open>Replacement as an operation on documents\<close>

text \<open>The abstract document: text, style of every byte, block of every line.\<close>

type_synonym document = "string \<times> inline_style list \<times> block_kind list"

definition document_of :: "editor_buffer \<Rightarrow> document" where
  "document_of b = (eb_text b, flat (eb_runs b), eb_blocks b)"

text \<open>Putting the text \<open>t\<close> in style \<open>st\<close> for the bytes from \<open>x\<close> to \<open>y\<close>: its lines get the block of the line
  where it starts.\<close>

definition replace_in :: "nat \<Rightarrow> nat \<Rightarrow> string \<Rightarrow> inline_style \<Rightarrow> document \<Rightarrow> document" where
  "replace_in x y t st d = (case d of (s, F, ks) \<Rightarrow>
     (take x s @ t @ drop y s, take x F @ replicate (length t) st @ drop y F,
      take (newlines (take x s)) ks @ replicate (newlines t + 1) (ks ! newlines (take x s))
        @ drop (newlines (take y s) + 1) ks))"

lemma candidate_document:
  "editor_ok b \<Longrightarrow> x \<le> y \<Longrightarrow> y \<le> length (eb_text b) \<Longrightarrow>
     document_of (candidate b x y t) = replace_in x y t (insertion_style b x) (document_of b)"
  by (simp add: document_of_def replace_in_def candidate_facts)

lemma candidate_blocks:
  assumes "editor_ok b" "x \<le> y" "y \<le> length (eb_text b)"
  shows "length (eb_blocks (candidate b x y t)) = newlines (eb_text (candidate b x y t)) + 1"
proof -
  have "newlines (take x (eb_text b)) \<le> newlines (take y (eb_text b))" by (rule newlines_take_mono[OF assms(2)])
  then show ?thesis
    using candidate_facts(1,5)[OF assms, of t] editor_okD(5)[OF assms(1)] newlines_split[of "eb_text b" y] by simp
qed

lemma candidate_refused:
  assumes "editor_ok b" "int (eb_max b) < 2 ^ 64" "replace_range a e s b = None"
    and "contiguous 0 (eb_runs b') (length (eb_text b'))"
    and "document_of b' = replace_in (cut_start b a) (cut_end b a e) (normalize_newlines s)
      (insertion_style b (cut_start b a)) (document_of b)"
  shows "eb_max b < length (markdown b')"
proof -
  let ?c = "candidate b (cut_start b a) (cut_end b a e) (normalize_newlines s)"
  note xy = cut_bounds(1,2)[of b a e]
  note F = candidate_facts[OF assms(1) xy, of "normalize_newlines s"]
  have doc: "document_of b' = document_of ?c" using candidate_document[OF assms(1) xy] assms(5) by simp
  then have "eb_runs b' = eb_runs ?c"
    using contiguous_unique[OF assms(4)] F(2) by (simp add: document_of_def)
  then have md: "markdown b' = markdown ?c"
    using doc by (intro markdown_cong) (simp_all add: document_of_def)
  have blocks: "length (eb_blocks ?c) = newlines (eb_text ?c) + 1" by (rule candidate_blocks[OF assms(1) xy])
  have "\<not> (length (eb_text ?c) \<le> eb_max b \<and> markdown_fits_with_limit (eb_text ?c) (eb_runs ?c) (eb_blocks ?c) (eb_max b))"
    using replace_range_candidate[of b a e s] assms(2,3) by (auto split: if_splits)
  then show ?thesis
    using fits_markdown[OF assms(2) blocks, of "eb_runs ?c"] text_shorter_than_markdown[OF F(2) blocks]
    unfolding md by (auto simp: markdown_def)
qed

end
