(* ===== verification/EditorProps.thy ===== *)
theory EditorProps
  imports EditorEdits
begin

text \<open>
  The properties of \<open>crates/key-editor-core/src/lib.rs\<close>: every buffer that a client can reach is well
  formed and within its limit, edits are transactions, the size check is exact, formatting and
  replacement act on exactly the bytes they name, and documents survive saving and loading. At the end,
  three documents that the code does not treat as it means to.
\<close>

text \<open>C10: Whatever Markdown is loaded and whatever edits follow, as long as inserted texts are valid UTF-8 and
  the selection that an input method asks for with a composition is ordered (\<open>edit_ok\<close>), the buffer is well
  formed: the text is valid UTF-8 without carriage returns, the style runs cover it exactly, differ from their
  neighbours, never cut a character and never mix code with bold or italic, there is one block for each line,
  and the selection and the marked range are ordered and lie on character boundaries. The replaced range of an
  edit may be any, also reversed or beyond the text.\<close>

theorem reachable_buffers_are_well_formed:
  assumes "utf8_valid source" "list_all edit_ok xs"
  shows "editor_ok (run_edits xs (parse_markdown source n))"
  by (rule run_edits_ok[OF parse_markdown_ok[OF assms(1)] assms(2)])

theorem reachable_buffers_are_well_formed_witness:
  "editor_ok (run_edits [SelectAll, ToggleBold, MoveTo 1, InsertNewline, ReplaceSelection ''c*'', Backspace]
     (parse_markdown ''- a`b`'' 100))"
  by (rule reachable_buffers_are_well_formed) code_simp+

text \<open>C12: A document that was accepted never grows beyond its limit: after any edits, what would be
  stored has at most \<open>n\<close> bytes.\<close>

theorem markdown_never_exceeds_the_limit:
  assumes "int n < 2 ^ 64" "utf8_valid source" "try_from_markdown_with_limit source n = Inr b"
    and "list_all edit_ok xs"
  shows "length (markdown (run_edits xs b)) \<le> n"
  using edits_within[OF assms(1) accepted_within[OF assms(1-3)] assms(4)] by (simp add: within_limit_def)

theorem markdown_never_exceeds_the_limit_witness:
  "length (markdown (run_edits [ReplaceSelection ''*'', ReplaceSelection ''b''] (parse_markdown ''a'' 2))) \<le> 2"
  by (rule markdown_never_exceeds_the_limit[of 2 "''a''"]) code_simp+

text \<open>C27: Edits are transactions: an edit that is refused leaves every field of the buffer as it was.\<close>

theorem refused_edits_change_nothing:
  assumes "run_edit x b = (False, b')"
  shows "b' = b"
  using assms
  by (cases x) (auto simp: replace_selection_def backspace_def delete_forward_def replace_and_unmark_def
      replace_text_utf16_def replace_and_mark_utf16_def toggle_bold_def toggle_italic_def toggle_code_def
      toggle_inline_def toggle_bulleted_list_def toggle_numbered_list_def toggle_block_def set_block_def
      commit_blocks_def insert_newline_def Let_def split: option.splits prod.splits if_splits)

theorem refused_edits_change_nothing_witness:
  "snd (run_edit (ReplaceSelection ''!'') (parse_markdown ''hello'' 5)) = parse_markdown ''hello'' 5"
  by (rule refused_edits_change_nothing[where x = "ReplaceSelection ''!''"]) code_simp

text \<open>C11: A replacement does what it says on the document, and is refused only if it must be. If it is
  accepted, the document is the old one with the normalised text in place of the rounded range, in the
  insertion style, and the caret behind it; if it is refused, the document it asks for is larger than the
  limit however it is represented.\<close>

theorem replacement_refines_documents:
  assumes "editor_ok b" "int (eb_max b) < 2 ^ 64"
  shows "case replace_range a e s b of
      Some ((lo, hi), b') \<Rightarrow>
        document_of b' = replace_in lo (cut_end b a e) (normalize_newlines s) (insertion_style b lo) (document_of b)
        \<and> lo = cut_start b a \<and> hi = lo + length (normalize_newlines s) \<and> eb_sel_start b' = hi \<and> eb_sel_end b' = hi
    | None \<Rightarrow> \<forall>b'. contiguous 0 (eb_runs b') (length (eb_text b'))
        \<and> document_of b' = replace_in (cut_start b a) (cut_end b a e) (normalize_newlines s)
            (insertion_style b (cut_start b a)) (document_of b)
        \<longrightarrow> eb_max b < length (markdown b')"
proof (cases "replace_range a e s b")
  case None
  then show ?thesis using candidate_refused[OF assms] by auto
next
  case (Some r)
  obtain lo hi b' where r: "r = ((lo, hi), b')" by (metis prod.collapse)
  note R = replace_range_Some[OF assms(1) Some[unfolded r]]
  show ?thesis using Some r R by (simp add: document_of_def replace_in_def)
qed

theorem replacement_refines_documents_witness:
  "case replace_range 1 2 ''X'' (parse_markdown ''abc'' 5) of
      Some ((lo, hi), b') \<Rightarrow> document_of b' = replace_in lo (cut_end (parse_markdown ''abc'' 5) 1 2) (normalize_newlines ''X'')
          (insertion_style (parse_markdown ''abc'' 5) lo) (document_of (parse_markdown ''abc'' 5))
        \<and> lo = cut_start (parse_markdown ''abc'' 5) 1 \<and> hi = lo + length (normalize_newlines ''X'')
        \<and> eb_sel_start b' = hi \<and> eb_sel_end b' = hi
    | None \<Rightarrow> \<forall>b'. contiguous 0 (eb_runs b') (length (eb_text b'))
        \<and> document_of b' = replace_in (cut_start (parse_markdown ''abc'' 5) 1) (cut_end (parse_markdown ''abc'' 5) 1 2)
            (normalize_newlines ''X'') (insertion_style (parse_markdown ''abc'' 5) (cut_start (parse_markdown ''abc'' 5) 1))
            (document_of (parse_markdown ''abc'' 5))
        \<longrightarrow> eb_max (parse_markdown ''abc'' 5) < length (markdown b')"
proof (rule replacement_refines_documents)
  show "editor_ok (parse_markdown ''abc'' 5)" by (rule parse_markdown_ok) code_simp
  show "int (eb_max (parse_markdown ''abc'' 5)) < 2 ^ 64" by code_simp
qed

text \<open>C13: The check that guards every edit computes without building the Markdown exactly whether the
  Markdown would fit, prefixes, escapes and markers included.\<close>

theorem size_check_is_exact:
  assumes "int limit < 2 ^ 64"
  shows "markdown_fits_with_limit t runs blocks limit \<longleftrightarrow>
    length blocks = length (line_ranges t) \<and> length (fst (markdown_with_run_operations t runs blocks)) \<le> limit"
  using fits_markdown[OF assms, of blocks t runs]
  by (auto simp: length_line_ranges markdown_fits_with_limit_def markdown_fits_ops_def)

theorem size_check_is_exact_witness:
  "markdown_fits_with_limit ''- *'' [mk_run 0 3 PLAIN] [Paragraph] 4 \<longleftrightarrow>
    length [Paragraph] = length (line_ranges ''- *'')
    \<and> length (fst (markdown_with_run_operations ''- *'' [mk_run 0 3 PLAIN] [Paragraph])) \<le> 4"
  by (rule size_check_is_exact) simp

text \<open>C25: Toggling a format on a selection switches it: the format is active in the selection afterwards
  exactly if it was not, and no byte outside the selection changes its style, nor does the text.\<close>


theorem toggling_switches_the_selection:
  assumes "editor_ok b" "eb_sel_start b < eb_sel_end b" "flag \<in> {BOLD, ITALIC, CODE}"
    and "toggle_inline flag b = (True, b')"
  shows "(inline_active flag b' \<longleftrightarrow> \<not> inline_active flag b)
    \<and> eb_text b' = eb_text b \<and> eb_blocks b' = eb_blocks b
    \<and> take (eb_sel_start b) (flat (eb_runs b')) = take (eb_sel_start b) (flat (eb_runs b))
    \<and> drop (eb_sel_end b) (flat (eb_runs b')) = drop (eb_sel_end b) (flat (eb_runs b))"
proof -
  let ?a = "eb_sel_start b" and ?e = "eb_sel_end b" and ?F = "flat (eb_runs b)"
  note ok = editor_okD[OF assms(1)] and T = toggled_styles[OF assms(1,2,4)]
  have ok': "editor_ok b'" using toggle_inline_ok[OF assms(1,3)] assms(4) by simp
  have len: "length ?F = length (eb_text b)" "?e \<le> length (eb_text b)"
    using length_flat[OF ok(3)] boundary_le[OF ok(8)] by simp_all
  have at: "flat (eb_runs b') ! i = (if ?a \<le> i \<and> i < ?e then with_flag (?F ! i) flag (\<not> inline_active flag b) else ?F ! i)"
    if "i < length (eb_text b)" for i
    using that len by (simp add: T(1) restyled_def nth_enumerate_eq)
  have len': "length (flat (eb_runs b')) = length ?F" by (simp add: T(1) restyled_def)
  have sty: "style_ok (?F ! i)" if "i < length (eb_text b)" for i
  proof -
    have "?F ! i \<in> set ?F" using that len by simp
    then show ?thesis using ok(4) by (auto simp: flat_def list_all_iff)
  qed
  have "has_flag (flat (eb_runs b') ! i) flag \<longleftrightarrow> \<not> inline_active flag b" if "?a \<le> i" "i < ?e" for i
    using at[of i] that len with_flag_ok[OF sty assms(3), of i] by simp
  then have "inline_active flag b' \<longleftrightarrow> \<not> inline_active flag b"
    using inline_active_bytes[OF ok', of flag] T(2) assms(2) by auto
  moreover have "take ?a (flat (eb_runs b')) = take ?a ?F"
    by (rule nth_equalityI) (use at len len' in auto)
  moreover have "drop ?e (flat (eb_runs b')) = drop ?e ?F"
    by (rule nth_equalityI) (use at len len' assms(2) in auto)
  ultimately show ?thesis using T(2) by blast
qed

theorem toggling_switches_the_selection_witness:
  "let b = select_all (parse_markdown ''a`b`'' 20); b' = snd (toggle_inline BOLD b) in
   (inline_active BOLD b' \<longleftrightarrow> \<not> inline_active BOLD b) \<and> eb_text b' = eb_text b \<and> eb_blocks b' = eb_blocks b
    \<and> take (eb_sel_start b) (flat (eb_runs b')) = take (eb_sel_start b) (flat (eb_runs b))
    \<and> drop (eb_sel_end b) (flat (eb_runs b')) = drop (eb_sel_end b) (flat (eb_runs b))"
  unfolding Let_def
proof (rule toggling_switches_the_selection)
  show "editor_ok (select_all (parse_markdown ''a`b`'' 20))"
    by (rule selection_ops_ok(4)[OF parse_markdown_ok]) code_simp
qed code_simp+

text \<open>An offset that goes through UTF-16 and back, as every native input event does, is the offset
  itself, rounded down to a character boundary.\<close>

theorem utf16_offsets_round_trip:
  assumes "utf8_valid s"
  shows "offset_from_utf16 s (offset_to_utf16 s i) = floor_char_boundary s i"
proof -
  have "offset_to_utf16 s i = offset_to_utf16 s (floor_char_boundary s i)"
    by (simp add: offset_to_utf16_def Let_def) (simp add: floor_char_boundary_def)
  then show ?thesis using utf16_roundtrip[OF assms floor_boundary] by simp
qed

theorem utf16_offsets_round_trip_witness:
  "offset_from_utf16 (map char_of [97, 240, 159, 152, 128, 98 :: int]) (offset_to_utf16 (map char_of [97, 240, 159, 152, 128, 98 :: int]) 4)
    = floor_char_boundary (map char_of [97, 240, 159, 152, 128, 98 :: int]) 4"
  by (rule utf16_offsets_round_trip) code_simp

text \<open>C26: Parsing a line ends and is linear. Every turn of the loop moves the index forward, on any text; for
  valid text the turns lead from the start of the line exactly to its end and to the result that is returned,
  with at most one turn and one query of the backtick index per byte, and the index of the backticks never
  moves more often than the line has bytes.\<close>

theorem parsing_a_line_is_linear:
  fixes out :: "string \<times> style_run list"
  assumes "utf8_valid source"
  defines "start \<equiv> \<lparr> ip_out = out, ip_index = backtick_index_new source, ip_parse_steps = 0, ip_delimiter_queries = 0 \<rparr>"
  shows "(\<forall>index st. index < length source \<longrightarrow> index < fst (parse_step source index st)) \<and>
    (parse_turn source)\<^sup>*\<^sup>* (0, start) (length source, parse_inline_with_operations source out) \<and>
    (let st = parse_inline_with_operations source out in
      ip_parse_steps st \<le> length source \<and> ip_delimiter_queries st \<le> length source
      \<and> bi_indexed_bytes (ip_index st) = length source \<and> bi_positions_advanced (ip_index st) \<le> length source)"
proof -
  have i: "indexes source (ip_index start)" "counted (ip_index start)"
    by (simp_all add: start_def indexes_def counted_def backtick_index_new_def)
  have "bi_indexed_bytes (ip_index start) = length source" by (simp add: start_def backtick_index_new_def)
  note I = parse_loop_indexes[OF i(1) this, of 0]
  have loop: "parse_inline_with_operations source out = parse_loop source 0 start"
    by (simp add: parse_inline_with_operations_def start_def)
  have "(let st = parse_loop source 0 start in
      ip_parse_steps st \<le> length source \<and> ip_delimiter_queries st \<le> length source
      \<and> bi_indexed_bytes (ip_index st) = length source \<and> bi_positions_advanced (ip_index st) \<le> length source)"
    using parse_loop_counts[OF assms(1) boundary_0(1) i(1)] I counted_bound[OF parse_loop_counted[OF i(2)] conjunct1[OF I]]
    by (simp add: Let_def) (simp add: start_def)
  then show ?thesis
    using parse_step_advances parse_loop_turns[OF assms(1) boundary_0(1) i(1)] unfolding loop by blast
qed

theorem parsing_a_line_is_linear_witness:
  "(parse_turn ''`a**b`*c'')\<^sup>*\<^sup>*
     (0, \<lparr> ip_out = ([], []), ip_index = backtick_index_new ''`a**b`*c'', ip_parse_steps = 0, ip_delimiter_queries = 0 \<rparr>)
     (length ''`a**b`*c'', parse_inline_with_operations ''`a**b`*c'' ([], []))
    \<and> ip_parse_steps (parse_inline_with_operations ''`a**b`*c'' ([], [])) \<le> length ''`a**b`*c''"
proof -
  have "utf8_valid ''`a**b`*c''" by code_simp
  from parsing_a_line_is_linear[OF this, of "([], [])"] show ?thesis unfolding Let_def by blast
qed

text \<open>C9: Saving and loading gives the document back: the text, the block of every line and the style of
  every byte, except that the style of a line break is not stored. The document must be unambiguous: no
  paragraph starts like a heading or a quote, and a backtick in code is neither first nor last of its span.\<close>

theorem saved_documents_load_unchanged:
  assumes "editor_ok b" "unambiguous b"
  shows "document_of (parse_markdown (markdown b) n) =
    (eb_text b, plain_newlines (eb_text b) (flat (eb_runs b)), eb_blocks b)"
  using markdown_reads_back[OF assms] by (simp add: document_of_def)

theorem saved_documents_load_unchanged_witness:
  "document_of (parse_markdown (markdown (parse_markdown ''## *b***c** `x`` y` - z'' 100)) 100) =
    (let b = parse_markdown ''## *b***c** `x`` y` - z'' 100
     in (eb_text b, plain_newlines (eb_text b) (flat (eb_runs b)), eb_blocks b))"
  unfolding Let_def
proof (rule saved_documents_load_unchanged)
  show "editor_ok (parse_markdown ''## *b***c** `x`` y` - z'' 100)" by (rule parse_markdown_ok) code_simp
  show "unambiguous (parse_markdown ''## *b***c** `x`` y` - z'' 100)" by code_simp
qed

section \<open>Documents that do not read back\<close>

text \<open>The text of an escaped heading is written without its escape, so it comes back as a heading.\<close>

lemma literal_heading_becomes_a_heading:
  "let b = parse_markdown (backslash # ''# x'') 100 in
     eb_text b = ''# x'' \<and> eb_blocks b = [Paragraph] \<and> markdown b = ''# x''
     \<and> eb_text (parse_markdown (markdown b) 100) = ''x'' \<and> eb_blocks (parse_markdown (markdown b) 100) = [Heading1]"
  by code_simp

text \<open>A code span that starts with a backtick is written with a fence that runs into it, and comes back as
  plain text.\<close>

lemma code_that_starts_with_a_backtick_is_lost:
  "let b = snd (toggle_inline CODE (select_all (parse_markdown (backslash # backtick # ''a'') 100))) in
     document_of b = ([backtick, CHR ''a''], [CODE, CODE], [Paragraph])
     \<and> document_of (parse_markdown (markdown b) 100) =
         (replicate 3 backtick @ ''a'' @ replicate 2 backtick, replicate 6 PLAIN, [Paragraph])"
  by code_simp

text \<open>Return on a selection that ends at the end of a heading, but starts on an earlier line, resets the
  block of a line behind it that the edit does not touch.\<close>

lemma newline_resets_an_unrelated_block:
  "let b = set_selection 0 3 False (parse_markdown (''a'' @ newline # ''# H'' @ newline # ''- z'') 100) in
     eb_blocks b = [Paragraph, Heading1, Bulleted] \<and> fst (insert_newline b)
     \<and> eb_text (snd (insert_newline b)) = newline # newline # ''z''
     \<and> eb_blocks (snd (insert_newline b)) = [Paragraph, Paragraph, Paragraph]"
  by code_simp

text \<open>A composition with a reversed selection stores it reversed; every other way to set it puts it in order.\<close>

lemma reversed_composition_selection_is_kept:
  "let b = snd (run_edit (ReplaceAndMarkUtf16 None ''ab'' (Some (2, 0))) (parse_markdown [] 100)) in
     eb_sel_start b = 2 \<and> eb_sel_end b = 0"
  by code_simp

end
