(* ===== verification/EditorGrapheme.thy ===== *)
theory EditorGrapheme
  imports EditorUtf8
begin

text \<open>
  Grapheme boundaries of \<open>crates/key-editor-core/src/lib.rs\<close>: on valid text the next grapheme
  boundary is a character boundary further on, so the turns of
  \<open>previous_from\<close> are enough: with more of them it returns the same.
\<close>

lemma skip_extend_boundary:
  "utf8_valid s \<Longrightarrow> is_char_boundary s i \<Longrightarrow> is_char_boundary s (skip_extend s i)"
proof (induction s i rule: skip_extend.induct)
  case (1 s i)
  show ?case
  proof (cases "i < length s \<and> is_grapheme_extend (first_code_point (drop i s))")
    case True
    then have "is_char_boundary s (skip_extend s (i + char_width (s ! i)))"
      using 1 boundary_next[OF 1(2,3)] by blast
    then show ?thesis using True by (subst skip_extend.simps) simp
  next
    case False
    then show ?thesis using 1(3) by (subst skip_extend.simps) auto
  qed
qed

lemma grapheme_tail_boundary:
  "utf8_valid s \<Longrightarrow> is_char_boundary s i \<Longrightarrow> is_char_boundary s (grapheme_tail s i)"
proof (induction s i rule: grapheme_tail.induct)
  case (1 s i)
  let ?e = "skip_extend s i"
  have e: "is_char_boundary s ?e" by (rule skip_extend_boundary[OF 1(2,3)])
  show ?case
  proof (cases "starts_with zero_width_joiner (drop ?e s)")
    case False
    then show ?thesis using e by (subst grapheme_tail.simps) (simp add: Let_def)
  next
    case True
    note zwj = this
    obtain t where t: "drop ?e s = zero_width_joiner @ t" using True by (auto simp: starts_with_iff)
    then have t': "drop ?e s = char_of (226 :: int) # tl (drop ?e s)" by (simp add: zero_width_joiner_def)
    then have el: "?e < length s" "s ! ?e = char_of (226 :: int)"
      by (metis drop_eq_Nil list.distinct(1) not_le) (metis t' nth_via_drop)
    have b3: "is_char_boundary s (?e + 3)"
      using boundary_next[OF 1(2) e el(1)] el(2) by (simp add: char_width_def)
    show ?thesis
    proof (cases "?e + 3 < length s")
      case True
      have "is_char_boundary s (grapheme_tail s (?e + 3 + char_width (s ! (?e + 3))))"
        using 1(1)[OF refl _ refl True 1(2)] boundary_next[OF 1(2) b3 True] zwj by blast
      then show ?thesis using True zwj by (subst grapheme_tail.simps) (simp add: Let_def)
    next
      case False
      then show ?thesis using b3 zwj by (subst grapheme_tail.simps) (simp add: Let_def)
    qed
  qed
qed

lemma next_grapheme_advances:
  assumes "utf8_valid s" "is_char_boundary s i" "i < length s"
  shows "i < next_grapheme_boundary s i \<and> is_char_boundary s (next_grapheme_boundary s i)"
proof -
  let ?e = "i + char_width (s ! i)"
  note b = boundary_next[OF assms]
  have hd: "hd (drop i s) = s ! i" using assms(3) by (simp add: hd_drop_conv_nth)
  have fl: "floor_char_boundary s i = i" using assms(2,3) by simp
  show ?thesis
  proof (cases "s ! i = CHR 0x0D \<and> starts_with [CHR 0x0A] (drop ?e s)")
    case True
    then obtain t where t: "drop ?e s = CHR 0x0A # t" by (auto simp: starts_with_iff)
    then have "?e < length s" "s ! ?e = CHR 0x0A" by (metis drop_eq_Nil list.distinct(1) not_le) (metis t nth_via_drop)
    then have "is_char_boundary s (?e + 1)" by (intro boundary_after_ascii[OF assms(1)]) (simp_all add: byte_def)
    moreover have "next_grapheme_boundary s i = ?e + 1"
      using conjunct1[OF True] conjunct2[OF True] assms(3) hd fl by (simp add: next_grapheme_boundary_def Let_def)
    ultimately show ?thesis by simp
  next
    case False
    define e where "e = (if is_regional_indicator (first_code_point (drop i s)) \<and> ?e < length s
                          \<and> is_regional_indicator (first_code_point (drop ?e s))
                        then ?e + char_width (s ! ?e) else ?e)"
    have e: "is_char_boundary s e" "i < e"
      using b boundary_next[OF assms(1), of ?e] by (auto simp: e_def)
    have "next_grapheme_boundary s i = grapheme_tail s e"
      using False assms(3) hd fl by (auto simp: next_grapheme_boundary_def Let_def e_def)
    then show ?thesis using grapheme_tail_boundary[OF assms(1) e(1)] grapheme_tail_ge[of e s] e(2) by simp
  qed
qed

lemma previous_from_enough:
  assumes "utf8_valid s" "offset \<le> length s"
  shows "is_char_boundary s current \<Longrightarrow> offset - current \<le> turns \<Longrightarrow>
    previous_from s offset (turns + extra) previous current = previous_from s offset turns previous current"
proof (induction turns arbitrary: previous current)
  case 0
  then show ?case by (cases extra) simp_all
next
  case (Suc turns)
  show ?case
  proof (cases "current < offset")
    case True
    then have "current < next_grapheme_boundary s current" "is_char_boundary s (next_grapheme_boundary s current)"
      using next_grapheme_advances[OF assms(1) Suc.prems(1)] assms(2) by simp_all
    then show ?thesis using Suc.IH[of "next_grapheme_boundary s current" current] Suc.prems(2) by (simp add: Let_def)
  qed simp
qed

end
