(* ===== verification/Annotations.thy ===== *)
theory Annotations
  imports PdfModel RustText
begin

text \<open>
  The annotation domain of \<open>crates/key-pdf-core/src/annotations.rs\<close>: text ranges, annotations, and the
  \<open>AnnotationSet\<close> that owns them with its identifiers and its revision, its validation and its
  queries. Comments are UTF-8 byte strings; sizes and indices are \<open>usize\<close>, as natural numbers;
  identifiers and revisions are \<open>u64\<close>.
\<close>

section \<open>Text ranges\<close>

type_synonym annotation_id = u64

definition MAX_COMMENT_BYTES :: nat where
  "MAX_COMMENT_BYTES = 1024 * 1024"

definition MAX_TEXT_CHARACTER_INDEX :: nat where
  "MAX_TEXT_CHARACTER_INDEX = 99999"

datatype highlight_color = Yellow | Green | Blue | Pink | Purple

datatype annotation_error =
    CommentTooLarge nat
  | EmptyComment
  | EmptyAnnotation
  | PageOutOfRange nat nat
  | CharacterIndexOutOfRange nat
  | ReversedTextRange
  | UnknownAnnotation annotation_id
  | InvalidAnnotationId annotation_id
  | DuplicateAnnotationId annotation_id
  | InvalidAnnotationRevision annotation_id u64 u64 u64
  | AnnotationIdExhausted
  | RevisionExhausted

datatype text_range = TextRange (range_start: text_position) (range_end: text_position)

definition range_new :: "text_position \<Rightarrow> text_position \<Rightarrow> text_range" where
  "range_new first second = (if first \<le> second then TextRange first second else TextRange second first)"

definition range_restore :: "text_position \<Rightarrow> text_position \<Rightarrow> (annotation_error, text_range) rust_result" where
  "range_restore start finish =
     (if finish < start then Inl ReversedTextRange else Inr (TextRange start finish))"

definition from_selection :: "text_selection \<Rightarrow> text_range" where
  "from_selection selection = range_new (sel_anchor selection) (sel_focus selection)"

definition as_selection :: "text_range \<Rightarrow> text_selection" where
  "as_selection r = \<lparr> sel_anchor = range_start r, sel_focus = range_end r \<rparr>"

definition range_contains :: "text_range \<Rightarrow> text_position \<Rightarrow> bool" where
  "range_contains r position \<longleftrightarrow> range_start r \<le> position \<and> position \<le> range_end r"

definition range_overlaps :: "text_range \<Rightarrow> text_range \<Rightarrow> bool" where
  "range_overlaps r other \<longleftrightarrow> range_start r \<le> range_end other \<and> range_start other \<le> range_end r"

definition range_indices_on_page :: "text_range \<Rightarrow> nat \<Rightarrow> nat \<Rightarrow> (nat \<times> nat) option" where
  "range_indices_on_page r page character_count = indices_on_page (as_selection r) page character_count"

section \<open>Annotations and their validation\<close>

record annotation =
  an_id :: annotation_id
  an_range :: text_range
  an_highlight :: "highlight_color option"
  an_comment :: "string option"
  an_created :: u64
  an_updated :: u64

record restored_annotation =
  ra_id :: annotation_id
  ra_range :: text_range
  ra_highlight :: "highlight_color option"
  ra_comment :: "string option"
  ra_created :: u64
  ra_updated :: u64

definition restored_from :: "annotation \<Rightarrow> restored_annotation" where
  "restored_from a =
     \<lparr> ra_id = an_id a, ra_range = an_range a, ra_highlight = an_highlight a, ra_comment = an_comment a,
       ra_created = an_created a, ra_updated = an_updated a \<rparr>"

definition to_annotation :: "restored_annotation \<Rightarrow> annotation" where
  "to_annotation r =
     \<lparr> an_id = ra_id r, an_range = ra_range r, an_highlight = ra_highlight r, an_comment = ra_comment r,
       an_created = ra_created r, an_updated = ra_updated r \<rparr>"

definition annotation_order :: "annotation \<Rightarrow> text_position \<times> u64" where
  "annotation_order a = (range_start (an_range a), an_id a)"

fun validate_positions :: "text_position list \<Rightarrow> nat \<Rightarrow> (annotation_error, unit) rust_result" where
  "validate_positions [] page_count = Inr ()"
| "validate_positions (position # positions) page_count =
     (if page_count \<le> tp_page position then Inl (PageOutOfRange (tp_page position) page_count)
      else if MAX_TEXT_CHARACTER_INDEX < tp_index position
           then Inl (CharacterIndexOutOfRange (tp_index position))
      else validate_positions positions page_count)"

definition validate_range :: "text_range \<Rightarrow> nat \<Rightarrow> (annotation_error, unit) rust_result" where
  "validate_range r page_count =
     and_then (validate_positions [range_start r, range_end r] page_count)
       (\<lambda>_. if range_end r < range_start r then Inl ReversedTextRange else Inr ())"

definition validate_content :: "highlight_color option \<Rightarrow> string option \<Rightarrow> (annotation_error, unit) rust_result" where
  "validate_content highlight comment =
     and_then
       (case comment of None \<Rightarrow> Inr ()
        | Some c \<Rightarrow>
            if MAX_COMMENT_BYTES < length c then Inl (CommentTooLarge (length c))
            else if trim c = [] then Inl EmptyComment else Inr ())
       (\<lambda>_. if highlight = None \<and> comment = None then Inl EmptyAnnotation else Inr ())"

text \<open>The revisions of one record against those of the document.\<close>

definition invalid_revisions :: "u64 \<Rightarrow> u64 \<Rightarrow> u64 \<Rightarrow> bool" where
  "invalid_revisions created updated document \<longleftrightarrow> created = 0 \<or> updated < created \<or> document < updated"

section \<open>The annotation set\<close>

record annotation_set =
  as_page_count :: nat
  as_records :: "annotation list"
  as_next_id :: "annotation_id option"
  as_revision :: u64

definition annotation_set_new :: "nat \<Rightarrow> annotation_set" where
  "annotation_set_new page_count =
     \<lparr> as_page_count = page_count, as_records = [], as_next_id = Some 1, as_revision = 0 \<rparr>"

definition as_get :: "annotation_set \<Rightarrow> annotation_id \<Rightarrow> annotation option" where
  "as_get s i = find (\<lambda>record. an_id record = i) (as_records s)"

definition next_revision :: "annotation_set \<Rightarrow> (annotation_error, u64) rust_result" where
  "next_revision s = (case checked_add (as_revision s) 1 of None \<Rightarrow> Inl RevisionExhausted | Some r \<Rightarrow> Inr r)"

definition as_add :: "text_range \<Rightarrow> highlight_color option \<Rightarrow> string option \<Rightarrow> annotation_set \<Rightarrow>
    (annotation_error, annotation_id) rust_result \<times> annotation_set" where
  "as_add r highlight comment s =
     (case validate_range r (as_page_count s) of Inl e \<Rightarrow> (Inl e, s)
      | Inr _ \<Rightarrow> (case validate_content highlight comment of Inl e \<Rightarrow> (Inl e, s)
      | Inr _ \<Rightarrow> (case as_next_id s of None \<Rightarrow> (Inl AnnotationIdExhausted, s)
      | Some i \<Rightarrow> (case next_revision s of Inl e \<Rightarrow> (Inl e, s)
      | Inr revision \<Rightarrow>
          (let a = \<lparr> an_id = i, an_range = r, an_highlight = highlight, an_comment = comment,
                     an_created = revision, an_updated = revision \<rparr>
           in (Inr i, s\<lparr> as_records := sort_key annotation_order (as_records s @ [a]),
                         as_revision := revision, as_next_id := checked_add i 1 \<rparr>))))))"

fun find_index_from :: "('a \<Rightarrow> bool) \<Rightarrow> nat \<Rightarrow> 'a list \<Rightarrow> nat option" where
  "find_index_from P n [] = None"
| "find_index_from P n (x # xs) = (if P x then Some n else find_index_from P (Suc n) xs)"

definition record_index :: "annotation_id \<Rightarrow> annotation list \<Rightarrow> nat option" where
  "record_index i records = find_index_from (\<lambda>record. an_id record = i) 0 records"

definition as_update :: "annotation_id \<Rightarrow> text_range \<Rightarrow> highlight_color option \<Rightarrow> string option \<Rightarrow> annotation_set \<Rightarrow>
    (annotation_error, bool) rust_result \<times> annotation_set" where
  "as_update i r highlight comment s =
     (case validate_range r (as_page_count s) of Inl e \<Rightarrow> (Inl e, s)
      | Inr _ \<Rightarrow> (case validate_content highlight comment of Inl e \<Rightarrow> (Inl e, s)
      | Inr _ \<Rightarrow> (case record_index i (as_records s) of None \<Rightarrow> (Inl (UnknownAnnotation i), s)
      | Some index \<Rightarrow>
          (let current = as_records s ! index in
           if an_range current = r \<and> an_highlight current = highlight \<and> an_comment current = comment
           then (Inr False, s)
           else
             (case next_revision s of Inl e \<Rightarrow> (Inl e, s)
              | Inr revision \<Rightarrow>
                  (let record = current\<lparr> an_range := r, an_highlight := highlight, an_comment := comment,
                                         an_updated := revision \<rparr>
                   in (Inr True, s\<lparr> as_records := sort_key annotation_order ((as_records s)[index := record]),
                                    as_revision := revision \<rparr>)))))))"

definition as_delete :: "annotation_id \<Rightarrow> annotation_set \<Rightarrow>
    (annotation_error, bool) rust_result \<times> annotation_set" where
  "as_delete i s =
     (case record_index i (as_records s) of None \<Rightarrow> (Inr False, s)
      | Some index \<Rightarrow>
          (case next_revision s of Inl e \<Rightarrow> (Inl e, s)
           | Inr revision \<Rightarrow>
               (Inr True, s\<lparr> as_records := take index (as_records s) @ drop (Suc index) (as_records s),
                             as_revision := revision \<rparr>)))"

section \<open>Queries\<close>

definition on_page :: "annotation_set \<Rightarrow> nat \<Rightarrow> annotation list" where
  "on_page s page =
     filter (\<lambda>record. page \<le> tp_page (range_end (an_range record)))
       (takeWhile (\<lambda>record. tp_page (range_start (an_range record)) \<le> page) (as_records s))"

definition at_position :: "annotation_set \<Rightarrow> text_position \<Rightarrow> annotation list" where
  "at_position s position =
     filter (\<lambda>record. range_contains (an_range record) position)
       (takeWhile (\<lambda>record. range_start (an_range record) \<le> position) (as_records s))"

definition overlapping :: "annotation_set \<Rightarrow> text_range \<Rightarrow> annotation list" where
  "overlapping s r =
     filter (\<lambda>record. range_overlaps (an_range record) r)
       (takeWhile (\<lambda>record. range_start (an_range record) \<le> range_end r) (as_records s))"

definition topmost_at :: "annotation_set \<Rightarrow> text_position \<Rightarrow> annotation option" where
  "topmost_at s position = max_by_key (\<lambda>record. (an_updated record, an_id record)) (at_position s position)"

section \<open>Restoring and validating snapshots\<close>

text \<open>The loop of \<open>restore\<close>: the identifiers seen, the largest of them, the annotations so far.\<close>

fun restore_records :: "nat \<Rightarrow> u64 \<Rightarrow> annotation_id set \<Rightarrow> u64 \<Rightarrow> annotation list \<Rightarrow> restored_annotation list \<Rightarrow>
    (annotation_error, annotation list \<times> u64) rust_result" where
  "restore_records page_count revision ids maximum out [] = Inr (out, maximum)"
| "restore_records page_count revision ids maximum out (record # records) =
     (if ra_id record = 0 then Inl (InvalidAnnotationId (ra_id record))
      else if ra_id record \<in> ids then Inl (DuplicateAnnotationId (ra_id record))
      else and_then (validate_range (ra_range record) page_count) (\<lambda>_.
        and_then (validate_content (ra_highlight record) (ra_comment record)) (\<lambda>_.
          if invalid_revisions (ra_created record) (ra_updated record) revision
          then Inl (InvalidAnnotationRevision (ra_id record) (ra_created record) (ra_updated record) revision)
          else restore_records page_count revision (insert (ra_id record) ids) (max maximum (ra_id record))
                 (out @ [to_annotation record]) records)))"

definition as_restore :: "nat \<Rightarrow> u64 \<Rightarrow> restored_annotation list \<Rightarrow> (annotation_error, annotation_set) rust_result" where
  "as_restore page_count revision records =
     and_then (restore_records page_count revision {} 0 [] records) (\<lambda>(annotations, maximum).
       Inr \<lparr> as_page_count = page_count, as_records = sort_key annotation_order annotations,
             as_next_id = checked_add maximum 1, as_revision = revision \<rparr>)"

fun validate_records :: "nat \<Rightarrow> u64 \<Rightarrow> annotation_id set \<Rightarrow> annotation list \<Rightarrow> (annotation_error, unit) rust_result" where
  "validate_records page_count revision ids [] = Inr ()"
| "validate_records page_count revision ids (record # records) =
     (if an_id record = 0 then Inl (InvalidAnnotationId (an_id record))
      else if an_id record \<in> ids then Inl (DuplicateAnnotationId (an_id record))
      else and_then (validate_range (an_range record) page_count) (\<lambda>_.
        and_then (validate_content (an_highlight record) (an_comment record)) (\<lambda>_.
          if invalid_revisions (an_created record) (an_updated record) revision
          then Inl (InvalidAnnotationRevision (an_id record) (an_created record) (an_updated record) revision)
          else validate_records page_count revision (insert (an_id record) ids) records)))"

definition as_validate :: "annotation_set \<Rightarrow> (annotation_error, unit) rust_result" where
  "as_validate s = validate_records (as_page_count s) (as_revision s) {} (as_records s)"

end
