(* ===== verification/SidecarStore.thy ===== *)
theory SidecarStore
  imports Annotations
begin

text \<open>
  The persistence boundary of \<open>crates/key-sidecar-store/src\<close>: document identities, keys, receipts and
  errors (\<open>store.rs\<close>) and the in-memory store (\<open>memory.rs\<close>). Paths are byte strings. What the operating
  system answers (metadata, reads, its error texts) and the SHA-256 of the \<open>sha2\<close> crate are arguments.
\<close>

section \<open>Data\<close>

text \<open>An \<open>i64\<close> is a word read with \<open>sint\<close>.\<close>

type_synonym i64 = "64 word"

text \<open>A \<open>SystemTime\<close> as \<open>duration_since(UNIX_EPOCH)\<close> sees it: a duration after the epoch, or the
  duration by which it lies before it.\<close>

datatype system_time = AfterEpoch u64 u32 | BeforeEpoch u64 u32

datatype document_identity = DocumentIdentity
  (di_byte_len: u64) (di_seconds: i64) (di_nanos: u32) (di_page_count: nat) (di_sha256: "u8 list option")

datatype store_conflict =
    DocumentIdentityMismatch document_identity document_identity
  | RevisionMismatch u64 u64

type_synonym path = string

datatype io_kind = NotFound | AlreadyExists | OtherKind

datatype io_source = IoSource (io_kind_of: io_kind) (io_text: string)

datatype store_error =
    Io string path io_source
  | Json path string
  | AnnotationInvalid annotation_error
  | Conflict store_conflict
  | MissingSourceFileName
  | SidecarTooLarge u64 nat
  | UnsupportedSchemaVersion u32 u32
  | InvalidDocumentIdentity
  | InvalidStoredTextPosition
  | PageCountMismatch nat nat
  | RevisionRegression u64 u64
  | RevisionNotAdvanced u64 u64
  | LockPoisoned

section \<open>Times\<close>

text \<open>\<open>i64::try_from\<close> of an unsigned number, and the checked operations on \<open>i64\<close>.\<close>

definition i64_from :: "u64 \<Rightarrow> i64 option" where
  "i64_from n = (if unat n < 2 ^ 63 then Some (ucast n) else None)"

definition i64_checked_add :: "i64 \<Rightarrow> i64 \<Rightarrow> i64 option" where
  "i64_checked_add a b = (if sint a + sint b \<in> {- (2 ^ 63) ..< 2 ^ 63} then Some (a + b) else None)"

definition i64_checked_neg :: "i64 \<Rightarrow> i64 option" where
  "i64_checked_neg a = (if sint a = - (2 ^ 63) then None else Some (- a))"

definition system_time_parts :: "system_time \<Rightarrow> (store_error, i64 \<times> u32) rust_result" where
  "system_time_parts time =
     (case time of
        AfterEpoch secs nanos \<Rightarrow>
          (case i64_from secs of None \<Rightarrow> Inl InvalidDocumentIdentity | Some s \<Rightarrow> Inr (s, nanos))
      | BeforeEpoch secs nanos \<Rightarrow>
          (case i64_from secs of None \<Rightarrow> Inl InvalidDocumentIdentity
           | Some s \<Rightarrow>
               if nanos = 0 then Inr (- s, 0)
               else
                 (case (case i64_checked_add s 1 of None \<Rightarrow> None | Some s \<Rightarrow> i64_checked_neg s) of
                    None \<Rightarrow> Inl InvalidDocumentIdentity
                  | Some s \<Rightarrow> Inr (s, 1000000000 - nanos))))"

section \<open>Document identities\<close>

definition identity_new :: "u64 \<Rightarrow> i64 \<Rightarrow> u32 \<Rightarrow> nat \<Rightarrow> (store_error, document_identity) rust_result" where
  "identity_new byte_len seconds nanos page_count =
     (if 1000000000 \<le> nanos then Inl InvalidDocumentIdentity
      else Inr (DocumentIdentity byte_len seconds nanos page_count None))"

definition with_sha256 :: "u8 list option \<Rightarrow> document_identity \<Rightarrow> document_identity" where
  "with_sha256 digest i = DocumentIdentity (di_byte_len i) (di_seconds i) (di_nanos i) (di_page_count i) digest"

definition identity_new_with_sha256 ::
  "u64 \<Rightarrow> i64 \<Rightarrow> u32 \<Rightarrow> nat \<Rightarrow> u8 list \<Rightarrow> (store_error, document_identity) rust_result" where
  "identity_new_with_sha256 byte_len seconds nanos page_count digest =
     and_then (identity_new byte_len seconds nanos page_count) (\<lambda>i. Inr (with_sha256 (Some digest) i))"

text \<open>File metadata: the length, and the modification time where the platform has one.\<close>

record metadata =
  md_len :: u64
  md_modified :: "system_time option"

definition modified_parts :: "metadata \<Rightarrow> (store_error, i64 \<times> u32) rust_result" where
  "modified_parts m = (case md_modified m of None \<Rightarrow> Inl InvalidDocumentIdentity | Some t \<Rightarrow> system_time_parts t)"

definition metadata_revision :: "metadata \<Rightarrow> (store_error, u64 \<times> i64 \<times> u32) rust_result" where
  "metadata_revision m = and_then (modified_parts m) (\<lambda>(seconds, nanos). Inr (md_len m, seconds, nanos))"

definition from_metadata :: "metadata \<Rightarrow> nat \<Rightarrow> u8 list option \<Rightarrow> (store_error, document_identity) rust_result" where
  "from_metadata m page_count digest =
     and_then (modified_parts m) (\<lambda>(seconds, nanos).
       and_then (identity_new (md_len m) seconds nanos page_count) (\<lambda>i. Inr (with_sha256 digest i)))"

text \<open>What the operating system answers, in the order it is asked: an error or the value. Reading
  ends at the first empty chunk; \<open>sha256\<close> is the digest of the bytes read.\<close>

type_synonym 'a io = "(io_source, 'a) rust_result"

definition io_error :: "string \<Rightarrow> path \<Rightarrow> 'a io \<Rightarrow> (store_error, 'a) rust_result" where
  "io_error operation path r = (case r of Inl source \<Rightarrow> Inl (Io operation path source) | Inr x \<Rightarrow> Inr x)"

fun hash_reads :: "(u8 list \<Rightarrow> u8 list) \<Rightarrow> path \<Rightarrow> u8 list \<Rightarrow> u8 list io list \<Rightarrow> (store_error, u8 list) rust_result" where
  "hash_reads sha256 path digested [] = Inr (sha256 digested)"
| "hash_reads sha256 path digested (r # reads) =
     and_then (io_error ''hash PDF identity'' path r) (\<lambda>chunk.
       if chunk = [] then Inr (sha256 digested) else hash_reads sha256 path (digested @ chunk) reads)"

record file_answers =
  fa_open :: "unit io"
  fa_before :: "metadata io"
  fa_clone :: "unit io"
  fa_seek :: "unit io"
  fa_reads :: "u8 list io list"
  fa_after :: "metadata io"

definition hash_file :: "(u8 list \<Rightarrow> u8 list) \<Rightarrow> file_answers \<Rightarrow> path \<Rightarrow> (store_error, u8 list) rust_result" where
  "hash_file sha256 f path =
     and_then (io_error ''clone PDF for identity'' path (fa_clone f)) (\<lambda>_.
     and_then (io_error ''seek PDF for identity'' path (fa_seek f)) (\<lambda>_.
       hash_reads sha256 path [] (fa_reads f)))"

definition from_file :: "(u8 list \<Rightarrow> u8 list) \<Rightarrow> file_answers \<Rightarrow> path \<Rightarrow> nat \<Rightarrow> (store_error, document_identity) rust_result" where
  "from_file sha256 f path page_count =
     and_then (io_error ''read locked PDF metadata'' path (fa_before f)) (\<lambda>before.
     and_then (hash_file sha256 f path) (\<lambda>digest.
     and_then (io_error ''re-read locked PDF metadata'' path (fa_after f)) (\<lambda>after.
     and_then (metadata_revision before) (\<lambda>b.
     and_then (metadata_revision after) (\<lambda>a.
       if b \<noteq> a then Inl InvalidDocumentIdentity else from_metadata after page_count (Some digest))))))"

definition from_file_metadata :: "metadata io \<Rightarrow> path \<Rightarrow> nat \<Rightarrow> (store_error, document_identity) rust_result" where
  "from_file_metadata answer path page_count =
     and_then (io_error ''read PDF metadata'' path answer) (\<lambda>m. from_metadata m page_count None)"

definition from_pdf :: "(u8 list \<Rightarrow> u8 list) \<Rightarrow> file_answers \<Rightarrow> path \<Rightarrow> nat \<Rightarrow> (store_error, document_identity) rust_result" where
  "from_pdf sha256 f path page_count =
     and_then (io_error ''open PDF for identity'' path (fa_open f)) (\<lambda>_. from_file sha256 f path page_count)"

definition same_metadata_revision :: "document_identity \<Rightarrow> document_identity \<Rightarrow> bool" where
  "same_metadata_revision a b \<longleftrightarrow> di_byte_len a = di_byte_len b \<and> di_seconds a = di_seconds b \<and>
     di_nanos a = di_nanos b \<and> di_page_count a = di_page_count b"

definition same_revision :: "document_identity \<Rightarrow> document_identity \<Rightarrow> bool" where
  "same_revision a b \<longleftrightarrow>
     (case (di_sha256 a, di_sha256 b) of
        (Some left, Some right) \<Rightarrow> di_byte_len a = di_byte_len b \<and> di_page_count a = di_page_count b \<and> left = right
      | _ \<Rightarrow> di_byte_len a = di_byte_len b \<and> di_seconds a = di_seconds b \<and>
             di_nanos a = di_nanos b \<and> di_page_count a = di_page_count b)"

record document_key =
  dk_path :: path
  dk_identity :: document_identity

definition key_new :: "path \<Rightarrow> document_identity \<Rightarrow> document_key" where
  "key_new p i = \<lparr> dk_path = p, dk_identity = i \<rparr>"

definition key_from_pdf :: "(u8 list \<Rightarrow> u8 list) \<Rightarrow> file_answers \<Rightarrow> path \<Rightarrow> nat \<Rightarrow> (store_error, document_key) rust_result" where
  "key_from_pdf sha256 f p page_count = and_then (from_pdf sha256 f p page_count) (\<lambda>i. Inr (key_new p i))"

record save_receipt =
  sr_previous :: u64
  sr_saved :: u64

section \<open>The in-memory store\<close>

record memory_entry =
  me_identity :: document_identity
  me_annotations :: annotation_set

record memory_store =
  ms_entries :: "(path, memory_entry) hash_map"
  ms_poisoned :: bool

definition memory_store_new :: memory_store where
  "memory_store_new = \<lparr> ms_entries = [], ms_poisoned = False \<rparr>"

definition memory_remove :: "path \<Rightarrow> memory_store \<Rightarrow> (store_error, bool) rust_result \<times> memory_store" where
  "memory_remove p m =
     (if ms_poisoned m then (Inl LockPoisoned, m)
      else (Inr (map_of (ms_entries m) p \<noteq> None), m\<lparr> ms_entries := hm_remove p (ms_entries m) \<rparr>))"

definition memory_load :: "document_key \<Rightarrow> memory_store \<Rightarrow> (store_error, annotation_set) rust_result" where
  "memory_load document m =
     (if ms_poisoned m then Inl LockPoisoned
      else
        (case map_of (ms_entries m) (dk_path document) of
           None \<Rightarrow> Inr (annotation_set_new (di_page_count (dk_identity document)))
         | Some entry \<Rightarrow>
             if \<not> same_revision (me_identity entry) (dk_identity document)
             then Inl (Conflict (DocumentIdentityMismatch (dk_identity document) (me_identity entry)))
             else Inr (me_annotations entry)))"

definition memory_compare_and_save :: "document_key \<Rightarrow> u64 \<Rightarrow> annotation_set \<Rightarrow> memory_store \<Rightarrow>
    (store_error, save_receipt) rust_result \<times> memory_store" where
  "memory_compare_and_save document expected annotations m =
     (if as_page_count annotations \<noteq> di_page_count (dk_identity document)
      then (Inl (PageCountMismatch (di_page_count (dk_identity document)) (as_page_count annotations)), m)
      else
        (case as_validate annotations of Inl e \<Rightarrow> (Inl (AnnotationInvalid e), m)
         | Inr _ \<Rightarrow>
             if ms_poisoned m then (Inl LockPoisoned, m)
             else
               (let entry = map_of (ms_entries m) (dk_path document);
                    current = (case entry of None \<Rightarrow> 0 | Some e \<Rightarrow> as_revision (me_annotations e))
                in case (case entry of None \<Rightarrow> None
                         | Some e \<Rightarrow> if \<not> same_revision (me_identity e) (dk_identity document)
                                     then Some (DocumentIdentityMismatch (dk_identity document) (me_identity e)) else None) of
                     Some conflict \<Rightarrow> (Inl (Conflict conflict), m)
                   | None \<Rightarrow>
                       if current \<noteq> expected then (Inl (Conflict (RevisionMismatch expected current)), m)
                       else if as_revision annotations < current
                       then (Inl (RevisionRegression current (as_revision annotations)), m)
                       else if as_revision annotations = current \<and>
                            (case entry of None \<Rightarrow> False | Some e \<Rightarrow> me_annotations e \<noteq> annotations)
                       then (Inl (RevisionNotAdvanced current (as_revision annotations)), m)
                       else
                         (Inr \<lparr> sr_previous = current, sr_saved = as_revision annotations \<rparr>,
                          m\<lparr> ms_entries := hm_insert (dk_path document)
                               \<lparr> me_identity = dk_identity document, me_annotations = annotations \<rparr> (ms_entries m) \<rparr>))))"

end
