(* ===== verification/SidecarTimes.thy ===== *)
theory SidecarTimes
  imports SidecarStore
begin

text \<open>
  The modification times in document identities (\<open>crates/key-sidecar-store/src/store.rs\<close>): the conversion
  of a system time to seconds and nanoseconds around the epoch.
\<close>

lemma sint_of_int_small: "- (2 ^ 63) \<le> k \<Longrightarrow> k < 2 ^ 63 \<Longrightarrow> sint (word_of_int k :: i64) = k"
  by (simp add: signed_of_int signed_take_bit_int_eq_self)

lemma unat_small: "unat w < 2 ^ 63 \<longleftrightarrow> uint (w :: 64 word) < 2 ^ 63"
  using of_nat_less_iff[where ?'a=int, of "unat w" "2 ^ 63"] by simp

lemma sint_small: "unat w < 2 ^ 63 \<Longrightarrow> sint (w :: i64) = uint w"
  using sint_of_int_small[of "uint w"] iffD1[OF unat_small, of w] uint_nonnegative[of w] by simp

lemma sint_neg_small: "unat w < 2 ^ 63 \<Longrightarrow> sint (- w :: i64) = - uint w"
proof -
  assume a: "unat w < 2 ^ 63"
  have "(word_of_int (- uint w) :: 64 word) = - w" by (subst of_int_minus) simp
  then show ?thesis
    using sint_of_int_small[of "- uint w"] iffD1[OF unat_small a] uint_nonnegative[of w] by simp
qed

lemma i64_from_iff: "i64_from n = (if unat n < 2 ^ 63 then Some n else None)"
  by (simp add: i64_from_def)

lemma not_min: "(0 :: int) \<le> x \<Longrightarrow> (x = - (2 ^ 63)) = False"
  by simp

lemma negated_second:
  assumes "unat secs < 2 ^ 63"
  shows "(case i64_checked_add secs 1 of None \<Rightarrow> None | Some s \<Rightarrow> i64_checked_neg s) =
    (if unat secs + 1 < 2 ^ 63 then Some (- (secs + 1)) else None)"
proof (cases "unat secs + 1 < 2 ^ 63")
  case True
  then have u: "unat (secs + 1) = unat secs + 1" by (simp add: unat_word_ariths)
  have "uint secs + 1 < 2 ^ 63" using of_nat_less_iff[where ?'a=int, of "unat secs + 1" "2 ^ 63"] True by simp
  then have "i64_checked_add secs 1 = Some (secs + 1)"
    by (simp add: i64_checked_add_def sint_small[OF assms])
  moreover have "sint (secs + 1) = uint (secs + 1)" using True sint_small[of "secs + 1"] u by simp
  then have "i64_checked_neg (secs + 1) = Some (- (secs + 1))" 
    using not_min[OF uint_nonnegative, of "secs + 1"] by (simp only: i64_checked_neg_def if_False)
  ultimately show ?thesis using True by simp
next
  case False
  then have "unat secs = 2 ^ 63 - 1" using assms by simp
  then have "int (unat secs) = 2 ^ 63 - 1" by (simp only:) simp
  then have "uint secs + 1 = 2 ^ 63" by simp
  then have "i64_checked_add secs 1 = None" by (simp add: i64_checked_add_def sint_small[OF assms])
  then show ?thesis using False by simp
qed

lemma nanos_complement:
  "nanos \<noteq> 0 \<Longrightarrow> nanos < (1000000000 :: u32) \<Longrightarrow> unat (1000000000 - nanos) = 1000000000 - unat nanos"
  by (simp add: unat_sub word_less_nat_alt word_le_nat_alt)


text \<open>The modification time of an identity is exact, also before 1970: seconds and nanoseconds together
  are the time since the epoch in nanoseconds, with the nanoseconds of a second; the conversion fails
  only for times whose seconds do not fit.\<close>

theorem identity_times_are_exact:
  assumes "nanos < 1000000000"
  shows "(case system_time_parts (AfterEpoch secs nanos) of
            Inr (s, n) \<Rightarrow> unat n < 1000000000 \<and> sint s * 1000000000 + int (unat n) = int (unat secs) * 1000000000 + int (unat nanos)
          | Inl e \<Rightarrow> e = InvalidDocumentIdentity \<and> 2 ^ 63 \<le> unat secs) \<and>
         (case system_time_parts (BeforeEpoch secs nanos) of
            Inr (s, n) \<Rightarrow> unat n < 1000000000 \<and> sint s * 1000000000 + int (unat n) = - (int (unat secs) * 1000000000 + int (unat nanos))
          | Inl e \<Rightarrow> e = InvalidDocumentIdentity \<and> 2 ^ 63 \<le> unat secs + (if nanos = 0 then 0 else 1))"
proof (intro conjI)
  show "case system_time_parts (AfterEpoch secs nanos) of
            Inr (s, n) \<Rightarrow> unat n < 1000000000 \<and> sint s * 1000000000 + int (unat n) = int (unat secs) * 1000000000 + int (unat nanos)
          | Inl e \<Rightarrow> e = InvalidDocumentIdentity \<and> 2 ^ 63 \<le> unat secs"
    using assms by (auto simp: system_time_parts_def i64_from_iff sint_small word_less_nat_alt)
  show "case system_time_parts (BeforeEpoch secs nanos) of
            Inr (s, n) \<Rightarrow> unat n < 1000000000 \<and> sint s * 1000000000 + int (unat n) = - (int (unat secs) * 1000000000 + int (unat nanos))
          | Inl e \<Rightarrow> e = InvalidDocumentIdentity \<and> 2 ^ 63 \<le> unat secs + (if nanos = 0 then 0 else 1)"
  proof (cases "unat secs < 2 ^ 63")
    case False
    then show ?thesis by (simp add: system_time_parts_def i64_from_iff)
  next
    case secs: True
    show ?thesis
    proof (cases "nanos = 0")
      case True
      then show ?thesis using secs by (simp add: system_time_parts_def i64_from_iff sint_neg_small)
    next
      case False
      have b: "0 < unat nanos" "unat nanos < 1000000000" using False assms by (simp_all add: word_less_nat_alt unat_gt_0)
      show ?thesis
      proof (cases "unat secs + 1 < 2 ^ 63")
        case True
        then have u: "unat (secs + 1) = unat secs + 1" by (simp add: unat_word_ariths)
        have "uint (secs + 1) = int (unat (secs + 1))" by simp
        then have "sint (- (secs + 1)) = - (int (unat secs) + 1)" using True u sint_neg_small[of "secs + 1"] by simp
        moreover have "system_time_parts (BeforeEpoch secs nanos) = Inr (- (secs + 1), 1000000000 - nanos)"
          using secs True False by (simp only: system_time_parts_def i64_from_iff system_time.case if_True option.case
              negated_second[OF secs] if_False simp_thms)
        moreover have "int (unat (1000000000 - nanos)) = 1000000000 - int (unat nanos)"
          using nanos_complement[OF False assms] b by simp
        moreover have "unat (1000000000 - nanos) < 1000000000" using nanos_complement[OF False assms] b by simp
        ultimately show ?thesis by (simp only: sum.case prod.case) (simp add: algebra_simps)
      next
        case f: False
        then show ?thesis using secs False by (simp add: system_time_parts_def i64_from_iff negated_second)
      qed
    qed
  qed
qed

theorem identity_times_are_exact_witness:
  "system_time_parts (BeforeEpoch 1 500000000) = Inr (-2, 500000000) \<and> sint (-2 :: i64) * 1000000000 + 500000000 = -1500000000"
proof -
  have "system_time_parts (BeforeEpoch 1 500000000) = Inr (-2, 500000000)"
    by (simp add: system_time_parts_def i64_from_def i64_checked_add_def i64_checked_neg_def)
  then show ?thesis using identity_times_are_exact[of 500000000 1] by simp
qed

end
