(* ===== verification/SidecarMessages.thy ===== *)
theory SidecarMessages
  imports SidecarStore
begin

text \<open>
  The texts of errors: \<open>Display\<close> for \<open>AnnotationError\<close> (\<open>key-pdf-core/src/annotations.rs\<close>) and \<open>StoreError\<close>
  (\<open>key-sidecar-store/src/store.rs\<close>), which the annotation service sends to its clients. Paths are shown
  as their bytes.
\<close>

definition show_i64 :: "i64 \<Rightarrow> string" where
  "show_i64 n = (if sint n < 0 then ''-'' @ show_nat (nat (- sint n)) else show_nat (nat (sint n)))"

definition show_padded :: "nat \<Rightarrow> nat \<Rightarrow> string" where
  "show_padded width n = replicate (width - length (show_nat n)) CHR ''0'' @ show_nat n"

definition show_u64 :: "u64 \<Rightarrow> string" where
  "show_u64 n = show_nat (unat n)"

definition annotation_error_message :: "annotation_error \<Rightarrow> string" where
  "annotation_error_message e =
     (case e of
        CommentTooLarge bytes \<Rightarrow> ''comment is '' @ show_nat bytes @ '' bytes; the limit is '' @ show_nat MAX_COMMENT_BYTES
      | EmptyComment \<Rightarrow> ''a stored comment cannot be blank''
      | EmptyAnnotation \<Rightarrow> ''an annotation needs a highlight or a comment''
      | PageOutOfRange page page_count \<Rightarrow>
          ''annotation page '' @ show_nat page @ '' is outside the '' @ show_nat page_count @ ''-page document''
      | CharacterIndexOutOfRange index \<Rightarrow> ''annotation character index '' @ show_nat index @ '' is unsupported''
      | ReversedTextRange \<Rightarrow> ''stored text range is reversed''
      | UnknownAnnotation i \<Rightarrow> ''annotation '' @ show_u64 i @ '' does not exist''
      | InvalidAnnotationId i \<Rightarrow> ''annotation ID '' @ show_u64 i @ '' is invalid''
      | DuplicateAnnotationId i \<Rightarrow> ''annotation ID '' @ show_u64 i @ '' occurs more than once''
      | InvalidAnnotationRevision i created updated document \<Rightarrow>
          ''annotation '' @ show_u64 i @ '' has invalid revisions '' @ show_u64 created @ ''/'' @ show_u64 updated
          @ '' for document revision '' @ show_u64 document
      | AnnotationIdExhausted \<Rightarrow> ''annotation IDs are exhausted''
      | RevisionExhausted \<Rightarrow> ''annotation revisions are exhausted'')"

definition show_identity :: "document_identity \<Rightarrow> string" where
  "show_identity i =
     show_u64 (di_byte_len i) @ '' bytes, timestamp '' @ show_i64 (di_seconds i) @ ''.'' @ show_padded 9 (unat (di_nanos i))
     @ '', '' @ show_nat (di_page_count i) @ '' pages''"

definition store_error_message :: "store_error \<Rightarrow> string" where
  "store_error_message e =
     (case e of
        Io operation p source \<Rightarrow> ''could not '' @ operation @ '' at '' @ p @ '': '' @ io_text source
      | Json p source \<Rightarrow> ''annotation sidecar JSON at '' @ p @ '' is invalid: '' @ source
      | AnnotationInvalid error \<Rightarrow> annotation_error_message error
      | Conflict (DocumentIdentityMismatch expected found) \<Rightarrow>
          ''annotation sidecar belongs to a different PDF revision (expected '' @ show_identity expected
          @ ''; found '' @ show_identity found @ '')''
      | Conflict (RevisionMismatch expected found) \<Rightarrow>
          ''annotation sidecar changed on disk (expected revision '' @ show_u64 expected @ '', found revision ''
          @ show_u64 found @ ''); reload the PDF before saving''
      | MissingSourceFileName \<Rightarrow> ''the PDF path has no file name''
      | SidecarTooLarge bytes limit \<Rightarrow>
          ''annotation sidecar is '' @ show_u64 bytes @ '' bytes; the limit is '' @ show_nat limit
      | UnsupportedSchemaVersion found supported \<Rightarrow>
          ''annotation schema '' @ show_nat (unat found) @ '' is unsupported; this build supports ''
          @ show_nat (unat supported)
      | InvalidDocumentIdentity \<Rightarrow> ''document identity is invalid''
      | InvalidStoredTextPosition \<Rightarrow> ''stored text position is invalid''
      | PageCountMismatch identity annotations \<Rightarrow>
          ''document identity has '' @ show_nat identity @ '' pages but annotations expect '' @ show_nat annotations
      | RevisionRegression current attempted \<Rightarrow>
          ''annotation revision cannot move backwards from '' @ show_u64 current @ '' to '' @ show_u64 attempted
      | RevisionNotAdvanced current attempted \<Rightarrow>
          ''annotation content changed without advancing revision '' @ show_u64 current @ '' (attempted ''
          @ show_u64 attempted @ '')''
      | LockPoisoned \<Rightarrow> ''annotation store lock was poisoned'')"

end
