(* ===== verification/AnnotationService.thy ===== *)
theory AnnotationService
  imports SidecarMessages
begin

text \<open>
  The annotation service of \<open>crates/key-sidecar-store/src/service.rs\<close>: one thread that owns the persistence
  of all open documents. The state of the thread and what it shares with the clients (the mailbox, the
  event channels, the leases, the store) are one record; \<open>turn\<close> is one iteration of the loop in
  \<open>run_service\<close>. The store is a parameter (\<open>store_ops\<close>), as in the code. Thread start and join are left out.
\<close>

section \<open>Data\<close>

definition COMMAND_CAPACITY :: nat where
  "COMMAND_CAPACITY = 256"

definition EVENT_CAPACITY :: nat where
  "EVENT_CAPACITY = 64"

definition PENDING_EVENT_CAPACITY :: nat where
  "PENDING_EVENT_CAPACITY = 8"

type_synonym client_id = u64
type_synonym document_id = u64

datatype service_operation = LoadOperation | SaveOperation

datatype event_kind =
    Loaded document_identity annotation_set
  | Saved u64
  | FailedEvent service_operation "u64 option" string

record service_event =
  ev_client :: client_id
  ev_document :: document_id
  ev_generation :: u64
  ev_kind :: event_kind

record service_diagnostics =
  sd_clients :: nat
  sd_documents :: nat
  sd_pending :: nat

datatype start_error = WorkerUnavailable | IdsExhausted

text \<open>Channels and leases are shared with the clients: here their addresses.\<close>

datatype service_command =
    Attach client_id document_id nat nat
  | LoadCommand client_id document_id u64 path nat
  | SaveCommand client_id document_id u64 path document_identity u64 annotation_set
  | Inspect nat
  | Wake
  | Shutdown

datatype lane_operation =
    LoadDocument u64 path nat
  | SaveDocument u64 path document_identity u64 annotation_set
  | Detach

record document_lane =
  dl_client :: client_id
  dl_lease :: nat
  dl_operations :: "lane_operation list"
  dl_scheduled :: bool
  dl_closing :: bool
  dl_generation :: "u64 option"
  dl_path :: "path option"
  dl_observed :: "u64 option"

definition lane_new :: "client_id \<Rightarrow> nat \<Rightarrow> document_lane" where
  "lane_new client lease =
     \<lparr> dl_client = client, dl_lease = lease, dl_operations = [], dl_scheduled = False, dl_closing = False,
       dl_generation = None, dl_path = None, dl_observed = None \<rparr>"

record client_sink =
  cs_events :: nat
  cs_pending :: "service_event list"

text \<open>A bounded channel, from the side that sends: what its receiver has not taken yet, and whether there
  still is a receiver.\<close>

record event_channel =
  ch_queue :: "service_event list"
  ch_connected :: bool

record 's store_ops =
  so_from_pdf :: "path \<Rightarrow> nat \<Rightarrow> 's \<Rightarrow> (store_error, document_key) rust_result"
  so_load :: "document_key \<Rightarrow> 's \<Rightarrow> (store_error, annotation_set) rust_result"
  so_save :: "document_key \<Rightarrow> u64 \<Rightarrow> annotation_set \<Rightarrow> 's \<Rightarrow> (store_error, save_receipt) rust_result \<times> 's"

record 's service =
  sv_clients :: "(client_id, client_sink) hash_map"
  sv_documents :: "(document_id, document_lane) hash_map"
  sv_ready :: "document_id list"
  sv_ready_set :: "document_id set"
  sv_inspections :: "nat list"
  sv_shutting_down :: bool
  sv_mailbox_open :: bool
  sv_last_served :: "document_id option"
  sv_mailbox :: "service_command list"
  sv_alive :: bool
  sv_next_client :: u64
  sv_next_document :: u64
  sv_channels :: "nat \<Rightarrow> event_channel"
  sv_detached :: "nat \<Rightarrow> bool"
  sv_replies :: "(nat \<times> service_diagnostics) list"
  sv_store :: 's

definition service_new :: "(nat \<Rightarrow> event_channel) \<Rightarrow> 's \<Rightarrow> 's service" where
  "service_new channels store =
     \<lparr> sv_clients = [], sv_documents = [], sv_ready = [], sv_ready_set = {}, sv_inspections = [],
       sv_shutting_down = False, sv_mailbox_open = True, sv_last_served = None, sv_mailbox = [], sv_alive = True,
       sv_next_client = 1, sv_next_document = 1, sv_channels = channels, sv_detached = (\<lambda>_. False), sv_replies = [],
       sv_store = store \<rparr>"

section \<open>Scheduling\<close>

definition service_schedule :: "document_id \<Rightarrow> document_lane \<Rightarrow> 's service \<Rightarrow> document_lane \<times> 's service" where
  "service_schedule i lane s =
     (if \<not> dl_scheduled lane \<and> i \<notin> sv_ready_set s
      then (lane\<lparr> dl_scheduled := True \<rparr>, s\<lparr> sv_ready_set := insert i (sv_ready_set s), sv_ready := sv_ready s @ [i] \<rparr>)
      else (lane, s))"

definition put_lane :: "document_id \<Rightarrow> document_lane \<times> 's service \<Rightarrow> 's service" where
  "put_lane i r = (snd r)\<lparr> sv_documents := hm_insert i (fst r) (sv_documents (snd r)) \<rparr>"

definition remove_client :: "client_id \<Rightarrow> 's service \<Rightarrow> 's service" where
  "remove_client c s = s\<lparr> sv_clients := hm_remove c (sv_clients s) \<rparr>"

text \<open>Ends a lane: the last operation of its queue detaches it.\<close>

definition close_lane :: "document_id \<Rightarrow> document_lane \<Rightarrow> 's service \<Rightarrow> 's service" where
  "close_lane i lane s =
     put_lane i (service_schedule i (lane\<lparr> dl_closing := True, dl_operations := dl_operations lane @ [Detach] \<rparr>) s)"

section \<open>Commands\<close>

definition open_lane :: "client_id \<Rightarrow> document_id \<Rightarrow> 's service \<Rightarrow> document_lane option" where
  "open_lane client i s =
     (case map_of (sv_documents s) i of None \<Rightarrow> None
      | Some lane \<Rightarrow> if dl_client lane = client \<and> \<not> dl_closing lane then Some lane else None)"

text \<open>A save joins the last operation of the queue when that is an older save of the same generation and path.\<close>

definition enqueue_save :: "u64 \<Rightarrow> path \<Rightarrow> document_identity \<Rightarrow> u64 \<Rightarrow> annotation_set \<Rightarrow> lane_operation list \<Rightarrow> lane_operation list" where
  "enqueue_save generation p identity expected annotations operations =
     (case rev operations of
        SaveDocument generation' p' identity' expected' annotations' # before \<Rightarrow>
          if generation' = generation \<and> p' = p \<and> as_revision annotations' \<le> as_revision annotations
          then rev before @ [SaveDocument generation' p' identity expected' annotations]
          else operations @ [SaveDocument generation p identity expected annotations]
      | _ \<Rightarrow> operations @ [SaveDocument generation p identity expected annotations])"

definition ingest :: "service_command \<Rightarrow> 's service \<Rightarrow> 's service" where
  "ingest command s =
     (case command of
        Attach client i events lease \<Rightarrow>
          s\<lparr> sv_clients := hm_insert client \<lparr> cs_events = events, cs_pending = [] \<rparr> (sv_clients s),
             sv_documents := hm_insert i (lane_new client lease) (sv_documents s) \<rparr>
      | LoadCommand client i generation p page_count \<Rightarrow>
          (case open_lane client i s of None \<Rightarrow> s
           | Some lane \<Rightarrow>
               put_lane i (service_schedule i
                 (lane\<lparr> dl_operations := dl_operations lane @ [LoadDocument generation p page_count] \<rparr>) s))
      | SaveCommand client i generation p identity expected annotations \<Rightarrow>
          (case open_lane client i s of None \<Rightarrow> s
           | Some lane \<Rightarrow>
               put_lane i (service_schedule i
                 (lane\<lparr> dl_operations := enqueue_save generation p identity expected annotations (dl_operations lane) \<rparr>) s))
      | Inspect reply \<Rightarrow> s\<lparr> sv_inspections := sv_inspections s @ [reply] \<rparr>
      | Wake \<Rightarrow> s
      | Shutdown \<Rightarrow>
          (let s = s\<lparr> sv_shutting_down := True, sv_clients := [] \<rparr> in
           fold (\<lambda>(i, lane) s. if dl_closing lane then s else close_lane i lane s) (sv_documents s) s))"

definition reap_detached :: "'s service \<Rightarrow> 's service" where
  "reap_detached s =
     fold (\<lambda>(i, lane) s. if sv_detached s (dl_lease lane) \<and> \<not> dl_closing lane
                        then close_lane i lane (remove_client (dl_client lane) s) else s) (sv_documents s) s"

section \<open>Events\<close>

datatype send_outcome = Sent event_channel | Full | Disconnected

definition service_try_send :: "service_event \<Rightarrow> event_channel \<Rightarrow> send_outcome" where
  "service_try_send e ch =
     (if \<not> ch_connected ch then Disconnected
      else if EVENT_CAPACITY \<le> length (ch_queue ch) then Full
      else Sent (ch\<lparr> ch_queue := ch_queue ch @ [e] \<rparr>))"

text \<open>The loop of \<open>flush_sink\<close>: what stays pending, the channel, and whether the client is still there.\<close>

fun flush_pending :: "service_event list \<Rightarrow> event_channel \<Rightarrow> service_event list \<times> event_channel \<times> bool" where
  "flush_pending [] ch = ([], ch, True)"
| "flush_pending (e # es) ch =
     (case service_try_send e ch of Sent ch' \<Rightarrow> flush_pending es ch' | Full \<Rightarrow> (e # es, ch, True)
      | Disconnected \<Rightarrow> (es, ch, False))"

text \<open>Flushes one client; without its receiver it is removed.\<close>

definition flush_client :: "client_id \<Rightarrow> client_sink \<Rightarrow> 's service \<Rightarrow> 's service" where
  "flush_client c sink s =
     (case flush_pending (cs_pending sink) (sv_channels s (cs_events sink)) of (pending, ch, present) \<Rightarrow>
        (let s = s\<lparr> sv_channels := (sv_channels s)(cs_events sink := ch) \<rparr> in
         if present then s\<lparr> sv_clients := hm_insert c (sink\<lparr> cs_pending := pending \<rparr>) (sv_clients s) \<rparr>
         else remove_client c s))"

definition flush_all_clients :: "'s service \<Rightarrow> 's service" where
  "flush_all_clients s = fold (\<lambda>(c, sink) s. flush_client c sink s) (sv_clients s) s"

definition client_can_accept_event :: "client_id \<Rightarrow> 's service \<Rightarrow> bool \<times> 's service" where
  "client_can_accept_event c s =
     (case map_of (sv_clients s) c of None \<Rightarrow> (True, s)
      | Some sink \<Rightarrow>
          (let s = flush_client c sink s in
           case map_of (sv_clients s) c of None \<Rightarrow> (True, s)
           | Some sink \<Rightarrow> (length (cs_pending sink) < PENDING_EVENT_CAPACITY, s)))"

definition send_event :: "client_id \<Rightarrow> document_id \<Rightarrow> u64 \<Rightarrow> event_kind \<Rightarrow> 's service \<Rightarrow> 's service" where
  "send_event c i generation kind s =
     (let e = \<lparr> ev_client = c, ev_document = i, ev_generation = generation, ev_kind = kind \<rparr> in
      case map_of (sv_clients s) c of None \<Rightarrow> s
      | Some sink \<Rightarrow>
          if cs_pending sink = []
          then (case service_try_send e (sv_channels s (cs_events sink)) of
                  Sent ch \<Rightarrow> s\<lparr> sv_channels := (sv_channels s)(cs_events sink := ch) \<rparr>
                | Full \<Rightarrow> s\<lparr> sv_clients := hm_insert c (sink\<lparr> cs_pending := [e] \<rparr>) (sv_clients s) \<rparr>
                | Disconnected \<Rightarrow> remove_client c s)
          else s\<lparr> sv_clients := hm_insert c (sink\<lparr> cs_pending := cs_pending sink @ [e] \<rparr>) (sv_clients s) \<rparr>)"

definition send_failure :: "client_id \<Rightarrow> document_id \<Rightarrow> u64 \<Rightarrow> service_operation \<Rightarrow> u64 option \<Rightarrow> store_error \<Rightarrow> 's service \<Rightarrow> 's service" where
  "send_failure c i generation operation revision error s =
     send_event c i generation (FailedEvent operation revision (store_error_message error)) s"

section \<open>One operation\<close>

definition run_load :: "'s store_ops \<Rightarrow> document_id \<Rightarrow> u64 \<Rightarrow> path \<Rightarrow> nat \<Rightarrow> document_lane \<Rightarrow> 's service \<Rightarrow>
    document_lane \<times> 's service" where
  "run_load ops i generation p page_count lane s =
     (let lane = lane\<lparr> dl_generation := Some generation, dl_path := Some p, dl_observed := None \<rparr> in
      case and_then (so_from_pdf ops p page_count (sv_store s)) (\<lambda>document.
             and_then (so_load ops document (sv_store s)) (\<lambda>annotations. Inr (dk_identity document, annotations))) of
        Inr (identity, annotations) \<Rightarrow>
          (lane\<lparr> dl_observed := Some (as_revision annotations) \<rparr>,
           send_event (dl_client lane) i generation (Loaded identity annotations) s)
      | Inl error \<Rightarrow> (lane, send_failure (dl_client lane) i generation LoadOperation None error s))"

definition stale_save :: "u64 \<Rightarrow> path \<Rightarrow> document_lane \<Rightarrow> bool" where
  "stale_save generation p lane \<longleftrightarrow>
     (case dl_generation lane of None \<Rightarrow> False | Some active \<Rightarrow> active \<noteq> generation) \<or>
     (case dl_path lane of None \<Rightarrow> False | Some active \<Rightarrow> active \<noteq> p)"

definition run_save :: "'s store_ops \<Rightarrow> document_id \<Rightarrow> u64 \<Rightarrow> path \<Rightarrow> document_identity \<Rightarrow> u64 \<Rightarrow> annotation_set \<Rightarrow>
    document_lane \<Rightarrow> 's service \<Rightarrow> document_lane \<times> 's service" where
  "run_save ops i generation p identity expected annotations lane s =
     (let revision = as_revision annotations in
      if stale_save generation p lane
      then (lane, send_event (dl_client lane) i generation
              (FailedEvent SaveOperation (Some revision) ''ignored a stale annotation document generation'') s)
      else
        (let lane = lane\<lparr> dl_generation := Some generation, dl_path := Some p \<rparr>;
             expected = (case dl_observed lane of Some r \<Rightarrow> r | None \<Rightarrow> expected)
         in case so_save ops (key_new p identity) expected annotations (sv_store s) of
              (Inr receipt, store) \<Rightarrow>
                (lane\<lparr> dl_observed := Some (sr_saved receipt) \<rparr>,
                 send_event (dl_client lane) i generation (Saved (sr_saved receipt)) (s\<lparr> sv_store := store \<rparr>))
            | (Inl error, store) \<Rightarrow>
                (lane, send_failure (dl_client lane) i generation SaveOperation (Some revision) error
                         (s\<lparr> sv_store := store \<rparr>))))"

text \<open>The end of \<open>process_one\<close>: a lane with more to do is ready again.\<close>

definition return_lane :: "document_id \<Rightarrow> document_lane \<times> 's service \<Rightarrow> 's service" where
  "return_lane i r =
     (case r of (lane, s) \<Rightarrow>
        put_lane i (if dl_operations lane \<noteq> [] then service_schedule i lane s else (lane, s)))"

definition process_one :: "'s store_ops \<Rightarrow> document_id \<Rightarrow> 's service \<Rightarrow> 's service" where
  "process_one ops i s =
     (case map_of (sv_documents s) i of None \<Rightarrow> s
      | Some lane \<Rightarrow>
          (let s = s\<lparr> sv_documents := hm_remove i (sv_documents s) \<rparr>;
               lane = lane\<lparr> dl_scheduled := False \<rparr>
           in case dl_operations lane of
                [] \<Rightarrow> put_lane i (lane, s)
              | operation # operations \<Rightarrow>
                  (let lane = lane\<lparr> dl_operations := operations \<rparr> in
                   case operation of
                     LoadDocument generation p page_count \<Rightarrow> return_lane i (run_load ops i generation p page_count lane s)
                   | SaveDocument generation p identity expected annotations \<Rightarrow>
                       return_lane i (run_save ops i generation p identity expected annotations lane s)
                   | Detach \<Rightarrow> remove_client (dl_client lane) s)))"

section \<open>The loop\<close>

text \<open>The search for a lane whose client can take an event; the others go to the back of the queue.\<close>

fun select_lane :: "nat \<Rightarrow> 's service \<Rightarrow> document_id option \<times> 's service" where
  "select_lane 0 s = (None, s)"
| "select_lane (Suc n) s =
     (case sv_ready s of [] \<Rightarrow> (None, s)
      | i # ready \<Rightarrow>
          (let s = s\<lparr> sv_ready := ready \<rparr> in
           case (case map_of (sv_documents s) i of None \<Rightarrow> (True, s)
                 | Some lane \<Rightarrow> if dl_closing lane then (True, s) else client_can_accept_event (dl_client lane) s) of
             (eligible, s) \<Rightarrow>
               if eligible then (Some i, s) else select_lane n (s\<lparr> sv_ready := sv_ready s @ [i] \<rparr>)))"

definition rotate_last_served :: "'s service \<Rightarrow> 's service" where
  "rotate_last_served s =
     (if 1 < length (sv_ready s) \<and> Some (hd (sv_ready s)) = sv_last_served s
      then s\<lparr> sv_ready := tl (sv_ready s) @ [hd (sv_ready s)] \<rparr> else s)"

definition any_pending :: "'s service \<Rightarrow> bool" where
  "any_pending s = list_ex (\<lambda>(c, sink). cs_pending sink \<noteq> []) (sv_clients s)"

text \<open>One receive that may wait: the next command, or the mailbox is closed; \<open>None\<close> while there is neither.\<close>

definition receive :: "'s service \<Rightarrow> 's service option" where
  "receive s =
     (case sv_mailbox s of
        command # rest \<Rightarrow> Some (ingest command (s\<lparr> sv_mailbox := rest \<rparr>))
      | [] \<Rightarrow> if sv_alive s then None else Some (s\<lparr> sv_mailbox_open := False \<rparr>))"

definition drain_mailbox :: "'s service \<Rightarrow> 's service" where
  "drain_mailbox s =
     (if \<not> sv_mailbox_open s then s
      else
        (let s = fold ingest (sv_mailbox s) (s\<lparr> sv_mailbox := [] \<rparr>)
         in if sv_alive s then s else s\<lparr> sv_mailbox_open := False \<rparr>))"

definition answer_inspections :: "'s service \<Rightarrow> 's service" where
  "answer_inspections s =
     (let diagnostics = \<lparr> sd_clients = length (sv_clients s), sd_documents = length (sv_documents s),
                          sd_pending = sum_list (map (\<lambda>(i, lane). length (dl_operations lane)) (sv_documents s)) \<rparr>
      in s\<lparr> sv_replies := sv_replies s @ map (\<lambda>r. (r, diagnostics)) (sv_inspections s), sv_inspections := [] \<rparr>)"

datatype loop_flow = Waiting | Next | Finished

text \<open>One iteration. \<open>late\<close> is what the clients send before the loop waits for room in a channel.\<close>

definition turn :: "'s store_ops \<Rightarrow> service_command list \<Rightarrow> 's service \<Rightarrow> loop_flow \<times> 's service" where
  "turn ops late s =
     (case (if sv_ready s = [] \<and> sv_inspections s = [] \<and> \<not> any_pending s \<and> \<not> sv_shutting_down s \<and> sv_mailbox_open s
            then receive s else Some s) of
        None \<Rightarrow> (Waiting, s)
      | Some s \<Rightarrow>
          (let s = rotate_last_served (flush_all_clients (reap_detached (drain_mailbox s))) in
           case select_lane (length (sv_ready s)) s of
             (Some i, s) \<Rightarrow>
               (Next, (process_one ops i (s\<lparr> sv_ready_set := sv_ready_set s - {i} \<rparr>))\<lparr> sv_last_served := Some i \<rparr>)
           | (None, s) \<Rightarrow>
               if (sv_ready s \<noteq> [] \<or> any_pending s) \<and> sv_mailbox_open s \<and> \<not> sv_shutting_down s
               then (let s = s\<lparr> sv_mailbox := sv_mailbox s @ late \<rparr>
                     in (Next, case receive s of Some s \<Rightarrow> s | None \<Rightarrow> s))
               else
                 (let s = (if sv_inspections s \<noteq> [] then answer_inspections s else s)
                  in (if sv_shutting_down s \<or> \<not> sv_mailbox_open s then Finished else Next, s))))"

section \<open>Clients\<close>

definition next_service_id :: "u64 \<Rightarrow> (u64 \<times> u64) option" where
  "next_service_id counter = (case checked_add counter 1 of None \<Rightarrow> None | Some n \<Rightarrow> Some (counter, n))"

text \<open>\<open>attach\<close> waits while the mailbox is full: then it has no result yet.\<close>

definition service_attach :: "nat \<Rightarrow> nat \<Rightarrow> 's service \<Rightarrow> ((start_error, client_id \<times> document_id) rust_result \<times> 's service) option" where
  "service_attach events lease s =
     (case next_service_id (sv_next_client s) of None \<Rightarrow> Some (Inl IdsExhausted, s)
      | Some (client, n) \<Rightarrow>
          (let s = s\<lparr> sv_next_client := n \<rparr> in
           case next_service_id (sv_next_document s) of None \<Rightarrow> Some (Inl IdsExhausted, s)
           | Some (document, n) \<Rightarrow>
               (let s = s\<lparr> sv_next_document := n \<rparr> in
                if COMMAND_CAPACITY \<le> length (sv_mailbox s) then None
                else Some (Inr (client, document),
                           s\<lparr> sv_mailbox := sv_mailbox s @ [Attach client document events lease] \<rparr>))))"

definition submit :: "service_command \<Rightarrow> 's service \<Rightarrow> bool \<times> 's service" where
  "submit command s =
     (if \<not> sv_alive s \<or> COMMAND_CAPACITY \<le> length (sv_mailbox s) then (False, s)
      else (True, s\<lparr> sv_mailbox := sv_mailbox s @ [command] \<rparr>))"

definition drop_client :: "nat \<Rightarrow> 's service \<Rightarrow> 's service" where
  "drop_client lease s = snd (submit Wake (s\<lparr> sv_detached := (sv_detached s)(lease := True) \<rparr>))"

text \<open>Dropping the last handle: the shutdown command waits for room in the mailbox, then nothing can follow.\<close>

definition drop_service :: "'s service \<Rightarrow> 's service option" where
  "drop_service s =
     (if COMMAND_CAPACITY \<le> length (sv_mailbox s) then None
      else Some (s\<lparr> sv_mailbox := sv_mailbox s @ [Shutdown], sv_alive := False \<rparr>))"

end
