(* ===== verification/AnnotationServiceInv.thy ===== *)
theory AnnotationServiceInv
  imports AnnotationService
begin

text \<open>
  The invariant of the annotation service (\<open>crates/key-sidecar-store/src/service.rs\<close>) and its proof for each
  part of a turn: the queue of ready lanes, the lanes, and the clients.
\<close>

section \<open>The invariant\<close>

definition lane_ok :: "document_lane \<Rightarrow> bool" where
  "lane_ok lane \<longleftrightarrow>
     (if dl_closing lane then dl_operations lane \<noteq> [] \<and> last (dl_operations lane) = Detach \<and> Detach \<notin> set (butlast (dl_operations lane))
      else Detach \<notin> set (dl_operations lane))"

text \<open>The identifiers that wait in the mailbox to be attached.\<close>

fun attach_ids :: "service_command list \<Rightarrow> (client_id \<times> document_id) list" where
  "attach_ids [] = []"
| "attach_ids (Attach c d events lease # commands) = (c, d) # attach_ids commands"
| "attach_ids (command # commands) = attach_ids commands"

definition lanes_ok :: "'s service \<Rightarrow> bool" where
  "lanes_ok s \<longleftrightarrow> hm_ok (sv_documents s) \<and> distinct (sv_ready s) \<and> sv_ready_set s = set (sv_ready s) \<and>
     set (sv_ready s) \<subseteq> dom (map_of (sv_documents s)) \<and>
     (\<forall>d lane. map_of (sv_documents s) d = Some lane \<longrightarrow>
        lane_ok lane \<and> (dl_scheduled lane \<longleftrightarrow> d \<in> set (sv_ready s)) \<and> (dl_operations lane \<noteq> [] \<longrightarrow> dl_scheduled lane))"

definition client_of :: "'s service \<Rightarrow> document_id \<Rightarrow> client_id option" where
  "client_of s d = map_option dl_client (map_of (sv_documents s) d)"

definition ids_inv :: "(document_id \<Rightarrow> client_id option) \<Rightarrow> (client_id \<times> document_id) list \<Rightarrow> u64 \<Rightarrow> u64 \<Rightarrow> bool" where
  "ids_inv f attaches next_client next_document \<longleftrightarrow>
     (\<forall>d d' c. f d = Some c \<longrightarrow> f d' = Some c \<longrightarrow> d = d') \<and>
     distinct (map fst attaches) \<and> distinct (map snd attaches) \<and>
     (\<forall>(c, d) \<in> set attaches. c < next_client \<and> d < next_document \<and> f d = None \<and> Some c \<notin> range f) \<and>
     (\<forall>d c. f d = Some c \<longrightarrow> d < next_document \<and> c < next_client)"

definition ids_ok :: "'s service \<Rightarrow> bool" where
  "ids_ok s \<longleftrightarrow> ids_inv (client_of s) (attach_ids (sv_mailbox s)) (sv_next_client s) (sv_next_document s)"

text \<open>Every client of the service has its open lane, and no more events wait for it than the bound.\<close>

definition clients_ok :: "'s service \<Rightarrow> bool" where
  "clients_ok s \<longleftrightarrow> hm_ok (sv_clients s) \<and>
     (\<forall>c sink. map_of (sv_clients s) c = Some sink \<longrightarrow>
        length (cs_pending sink) \<le> PENDING_EVENT_CAPACITY \<and>
        (\<exists>d lane. map_of (sv_documents s) d = Some lane \<and> dl_client lane = c \<and> \<not> dl_closing lane))"

definition service_ok :: "'s service \<Rightarrow> bool" where
  "service_ok s \<longleftrightarrow> lanes_ok s \<and> ids_ok s \<and> clients_ok s"

lemma attach_ids_append [simp]: "attach_ids (xs @ ys) = attach_ids xs @ attach_ids ys"
  by (induction xs rule: attach_ids.induct) auto

lemma lane_ok_scheduled [simp]: "lane_ok (lane\<lparr> dl_scheduled := b \<rparr>) = lane_ok lane"
  by (simp add: lane_ok_def)

lemma service_ok_new: "service_ok (service_new channels store)"
  by (simp add: service_ok_def lanes_ok_def ids_ok_def ids_inv_def client_of_def clients_ok_def service_new_def)

section \<open>Replacing a lane\<close>

lemma put_lane_fields [simp]:
  "sv_documents (put_lane i r) = hm_insert i (fst r) (sv_documents (snd r))"
  "sv_clients (put_lane i r) = sv_clients (snd r)" "sv_ready (put_lane i r) = sv_ready (snd r)"
  "sv_ready_set (put_lane i r) = sv_ready_set (snd r)" "sv_mailbox (put_lane i r) = sv_mailbox (snd r)"
  "sv_next_client (put_lane i r) = sv_next_client (snd r)" "sv_next_document (put_lane i r) = sv_next_document (snd r)"
  "sv_alive (put_lane i r) = sv_alive (snd r)" "sv_mailbox_open (put_lane i r) = sv_mailbox_open (snd r)"
  "sv_shutting_down (put_lane i r) = sv_shutting_down (snd r)" "sv_detached (put_lane i r) = sv_detached (snd r)"
  "sv_store (put_lane i r) = sv_store (snd r)" "sv_inspections (put_lane i r) = sv_inspections (snd r)"
  by (simp_all add: put_lane_def)

lemma schedule_fields [simp]:
  "sv_documents (snd (service_schedule i lane s)) = sv_documents s" "sv_clients (snd (service_schedule i lane s)) = sv_clients s"
  "sv_mailbox (snd (service_schedule i lane s)) = sv_mailbox s"
  "sv_next_client (snd (service_schedule i lane s)) = sv_next_client s"
  "sv_next_document (snd (service_schedule i lane s)) = sv_next_document s"
  "sv_alive (snd (service_schedule i lane s)) = sv_alive s" "sv_mailbox_open (snd (service_schedule i lane s)) = sv_mailbox_open s"
  "sv_shutting_down (snd (service_schedule i lane s)) = sv_shutting_down s"
  "sv_detached (snd (service_schedule i lane s)) = sv_detached s" "sv_store (snd (service_schedule i lane s)) = sv_store s"
  "sv_inspections (snd (service_schedule i lane s)) = sv_inspections s"
  "dl_client (fst (service_schedule i lane s)) = dl_client lane" "dl_operations (fst (service_schedule i lane s)) = dl_operations lane"
  "dl_closing (fst (service_schedule i lane s)) = dl_closing lane" "dl_lease (fst (service_schedule i lane s)) = dl_lease lane"
  "dl_observed (fst (service_schedule i lane s)) = dl_observed lane" "dl_path (fst (service_schedule i lane s)) = dl_path lane"
  by (simp_all add: service_schedule_def)

text \<open>A lane whose queue changes keeps the invariant when it is scheduled again and its client is kept.\<close>

lemma schedule_put_ok:
  assumes ok: "service_ok s" and old: "map_of (sv_documents s) i = Some lane"
    and new: "lane_ok new" "dl_client new = dl_client lane" "dl_scheduled new = dl_scheduled lane"
    and client: "dl_closing new \<Longrightarrow> map_of (sv_clients s) (dl_client lane) = None" and ops: "dl_closing lane \<Longrightarrow> dl_closing new"
  shows "service_ok (put_lane i (service_schedule i new s))"
proof -
  let ?s = "put_lane i (service_schedule i new s)"
  have l: "lanes_ok s" and d: "ids_ok s" and c: "clients_ok s" using ok by (simp_all add: service_ok_def)
  have sched: "dl_scheduled lane \<longleftrightarrow> i \<in> set (sv_ready s)" "sv_ready_set s = set (sv_ready s)"
    using l old by (auto simp: lanes_ok_def)
  have "lanes_ok ?s"
    using l new(1,3) sched by (auto simp: lanes_ok_def service_schedule_def put_lane_def split: if_splits)
  moreover have "ids_ok ?s"
  proof -
    have "client_of ?s = client_of s" using old new(2) by (auto simp: client_of_def fun_eq_iff)
    then show ?thesis using d by (simp add: ids_ok_def)
  qed
  moreover have "clients_ok ?s"
    unfolding clients_ok_def
  proof (intro conjI allI impI)
    show "hm_ok (sv_clients ?s)" using c by (simp add: clients_ok_def)
    fix k sink
    assume "map_of (sv_clients ?s) k = Some sink"
    then have k: "map_of (sv_clients s) k = Some sink" by simp
    then show "length (cs_pending sink) \<le> PENDING_EVENT_CAPACITY" using c by (auto simp: clients_ok_def)
    obtain e lane' where e: "map_of (sv_documents s) e = Some lane'" "dl_client lane' = k" "\<not> dl_closing lane'"
      using c k unfolding clients_ok_def by blast
    show "\<exists>d lane. map_of (sv_documents ?s) d = Some lane \<and> dl_client lane = k \<and> \<not> dl_closing lane"
    proof (cases "e = i")
      case True
      then have "lane' = lane" using e old by simp
      then have "\<not> dl_closing new" using client k e(2) by auto
      then show ?thesis using True e new(2) \<open>lane' = lane\<close> by (intro exI[of _ i]) auto
    qed (use e in \<open>intro exI[of _ e], auto\<close>)
  qed
  ultimately show ?thesis by (simp add: service_ok_def)
qed

section \<open>Removing clients, passing over all lanes\<close>

lemma remove_client_fields [simp]:
  "sv_documents (remove_client c s) = sv_documents s" "sv_ready (remove_client c s) = sv_ready s"
  "sv_ready_set (remove_client c s) = sv_ready_set s" "sv_mailbox (remove_client c s) = sv_mailbox s"
  "sv_next_client (remove_client c s) = sv_next_client s" "sv_next_document (remove_client c s) = sv_next_document s"
  "sv_alive (remove_client c s) = sv_alive s" "sv_mailbox_open (remove_client c s) = sv_mailbox_open s"
  "sv_shutting_down (remove_client c s) = sv_shutting_down s" "sv_detached (remove_client c s) = sv_detached s"
  "sv_store (remove_client c s) = sv_store s" "sv_inspections (remove_client c s) = sv_inspections s"
  "sv_clients (remove_client c s) = hm_remove c (sv_clients s)"
  by (simp_all add: remove_client_def)

text \<open>The invariant only looks at some fields, and it allows to forget clients.\<close>

lemma service_ok_cong:
  assumes "service_ok s" "sv_documents s' = sv_documents s" "sv_ready s' = sv_ready s" "sv_ready_set s' = sv_ready_set s"
    "sv_mailbox s' = sv_mailbox s" "sv_next_client s' = sv_next_client s" "sv_next_document s' = sv_next_document s"
    "clients_ok s'"
  shows "service_ok s'"
proof -
  have "client_of s' = client_of s" using assms(2) by (auto simp: client_of_def fun_eq_iff)
  then have "ids_ok s'" using assms by (simp add: service_ok_def ids_ok_def)
  moreover have "lanes_ok s' = lanes_ok s" unfolding lanes_ok_def assms(2-4) by (rule refl)
  ultimately show ?thesis using assms(1,8) by (simp add: service_ok_def)
qed

lemma remove_client_ok: "service_ok s \<Longrightarrow> service_ok (remove_client c s)"
  by (rule service_ok_cong) (auto simp: service_ok_def clients_ok_def split: if_splits)

lemma fold_documents:
  assumes step: "\<And>i lane s. P s \<Longrightarrow> map_of (sv_documents s) i = Some lane \<Longrightarrow>
      P (f (i, lane) s) \<and> (\<forall>j. j \<noteq> i \<longrightarrow> map_of (sv_documents (f (i, lane) s)) j = map_of (sv_documents s) j)"
    and dist: "distinct (map fst xs)" and here: "\<forall>(i, lane) \<in> set xs. map_of (sv_documents s) i = Some lane" and start: "P s"
  shows "P (fold f xs s)"
  using dist here start
proof (induction xs arbitrary: s)
  case (Cons x xs)
  obtain i lane where x: "x = (i, lane)" by fastforce
  have st: "P (f x s)" "\<forall>j. j \<noteq> i \<longrightarrow> map_of (sv_documents (f x s)) j = map_of (sv_documents s) j"
    using step[of s i lane] Cons.prems by (auto simp: x)
  have "\<forall>(j, l) \<in> set xs. map_of (sv_documents (f x s)) j = Some l"
    using Cons.prems(1,2) st(2) by (force simp: x)
  then show ?case using Cons.IH[of "f x s"] Cons.prems(1) st(1) by simp
qed simp

lemma fold_all_documents:
  assumes "\<And>i lane s. P s \<Longrightarrow> map_of (sv_documents s) i = Some lane \<Longrightarrow>
      P (f (i, lane) s) \<and> (\<forall>j. j \<noteq> i \<longrightarrow> map_of (sv_documents (f (i, lane) s)) j = map_of (sv_documents s) j)"
    and "hm_ok (sv_documents s)" and "P (g s)" and "sv_documents (g s) = sv_documents s"
  shows "P (fold f (sv_documents s) (g s))"
  by (rule fold_documents[OF assms(1)]) (use assms(2-4) in \<open>auto simp: hm_ok_def\<close>)

lemma close_lane_ok:
  assumes "service_ok s" "map_of (sv_documents s) i = Some lane" "\<not> dl_closing lane"
    "map_of (sv_clients s) (dl_client lane) = None"
  shows "service_ok (close_lane i lane s)"
proof -
  have "lane_ok lane" using assms(1,2) by (auto simp: service_ok_def lanes_ok_def)
  then show ?thesis
    unfolding close_lane_def using assms by (intro schedule_put_ok[OF assms(1,2)]) (auto simp: lane_ok_def)
qed

lemma close_lane_others: "j \<noteq> i \<Longrightarrow> map_of (sv_documents (close_lane i lane s)) j = map_of (sv_documents s) j"
  by (simp add: close_lane_def)

lemma reap_detached_ok:
  assumes "service_ok s"
  shows "service_ok (reap_detached s)"
  unfolding reap_detached_def
proof (rule fold_all_documents[where P=service_ok and g="\<lambda>s. s"])
  fix i lane and s :: "'a service"
  assume s: "service_ok s" "map_of (sv_documents s) i = Some lane"
  let ?f = "\<lambda>(i, lane) s. if sv_detached s (dl_lease lane) \<and> \<not> dl_closing lane
                        then close_lane i lane (remove_client (dl_client lane) s) else s"
  show "service_ok (?f (i, lane) s) \<and> (\<forall>j. j \<noteq> i \<longrightarrow> map_of (sv_documents (?f (i, lane) s)) j = map_of (sv_documents s) j)"
    using s close_lane_ok[OF remove_client_ok[OF s(1), of "dl_client lane"], of i lane] by (auto simp: close_lane_others)
qed (use assms in \<open>auto simp: service_ok_def lanes_ok_def\<close>)

section \<open>Commands\<close>

text \<open>The state while the command at the head of the mailbox is taken in.\<close>

lemma enqueue_save_lane_ok:
  "\<not> dl_closing lane \<Longrightarrow> lane_ok lane \<Longrightarrow>
   lane_ok (lane\<lparr> dl_operations := enqueue_save generation p identity expected annotations (dl_operations lane) \<rparr>)"
proof -
  assume a: "\<not> dl_closing lane" "lane_ok lane"
  have "Detach \<notin> set (enqueue_save generation p identity expected annotations ops)" if "Detach \<notin> set ops" for ops
  proof (cases "rev ops")
    case (Cons x before)
    then have ops: "ops = rev before @ [x]" by simp
    then show ?thesis using that by (auto simp: enqueue_save_def split: lane_operation.splits)
  qed (auto simp: enqueue_save_def)
  then show ?thesis using a by (simp add: lane_ok_def)
qed

lemma open_lane_Some:
  "open_lane c i s = Some lane \<longleftrightarrow> map_of (sv_documents s) i = Some lane \<and> dl_client lane = c \<and> \<not> dl_closing lane"
  by (auto simp: open_lane_def split: option.splits if_splits)

lemma service_ok_tail:
  assumes "service_ok s" "sv_mailbox s = command # rest"
  shows "service_ok (s\<lparr> sv_mailbox := rest \<rparr>)"
proof -
  have "attach_ids (command # rest) = attach_ids [command] @ attach_ids rest" by (cases command) auto
  then have "ids_ok (s\<lparr> sv_mailbox := rest \<rparr>)"
    using assms by (auto simp: service_ok_def ids_ok_def ids_inv_def client_of_def)
  moreover have "lanes_ok (s\<lparr> sv_mailbox := rest \<rparr>) = lanes_ok s" "clients_ok (s\<lparr> sv_mailbox := rest \<rparr>) = clients_ok s"
    by (simp_all add: lanes_ok_def clients_ok_def)
  ultimately show ?thesis using assms(1) by (simp add: service_ok_def)
qed

lemma shutdown_ok:
  assumes "service_ok s"
  shows "service_ok (ingest Shutdown s)"
proof -
  let ?f = "\<lambda>(i, lane) s. if dl_closing lane then s else close_lane i lane s"
  let ?g = "\<lambda>s :: 'a service. s\<lparr> sv_shutting_down := True, sv_clients := [] \<rparr>"
  have "service_ok (fold ?f (sv_documents s) (?g s)) \<and> sv_clients (fold ?f (sv_documents s) (?g s)) = []"
  proof (rule fold_all_documents[where P="\<lambda>s. service_ok s \<and> sv_clients s = []"])
    fix i lane and s :: "'a service"
    assume s: "service_ok s \<and> sv_clients s = []" "map_of (sv_documents s) i = Some lane"
    show "(service_ok (?f (i, lane) s) \<and> sv_clients (?f (i, lane) s) = []) \<and>
        (\<forall>j. j \<noteq> i \<longrightarrow> map_of (sv_documents (?f (i, lane) s)) j = map_of (sv_documents s) j)"
      using s close_lane_ok[of s i lane] by (auto simp: close_lane_others close_lane_def)
    next
    have "clients_ok (?g s)" by (simp add: clients_ok_def)
    then show "service_ok (?g s) \<and> sv_clients (?g s) = []" using service_ok_cong[OF assms, of "?g s"] by simp
  qed (use assms in \<open>auto simp: service_ok_def lanes_ok_def\<close>)
  then show ?thesis by (simp add: ingest_def Let_def)
qed

lemma mailbox_commutes:
  "service_schedule i lane (s\<lparr> sv_mailbox := m \<rparr>) = map_prod id (\<lambda>s. s\<lparr> sv_mailbox := m \<rparr>) (service_schedule i lane s)"
  "put_lane i (map_prod id (\<lambda>s. s\<lparr> sv_mailbox := m \<rparr>) r) = (put_lane i r)\<lparr> sv_mailbox := m \<rparr>"
  "close_lane i lane (s\<lparr> sv_mailbox := m \<rparr>) = (close_lane i lane s)\<lparr> sv_mailbox := m \<rparr>"
proof -
  show a: "service_schedule i lane (s\<lparr> sv_mailbox := m \<rparr>) = map_prod id (\<lambda>s. s\<lparr> sv_mailbox := m \<rparr>) (service_schedule i lane s)"
    for lane by (simp add: service_schedule_def)
  show b: "put_lane i (map_prod id (\<lambda>s. s\<lparr> sv_mailbox := m \<rparr>) r) = (put_lane i r)\<lparr> sv_mailbox := m \<rparr>" for r
    by (cases r) (simp add: put_lane_def)
  show "close_lane i lane (s\<lparr> sv_mailbox := m \<rparr>) = (close_lane i lane s)\<lparr> sv_mailbox := m \<rparr>"
    by (simp add: close_lane_def a b)
qed

lemma ingest_mailbox: "ingest command (s\<lparr> sv_mailbox := m \<rparr>) = (ingest command s)\<lparr> sv_mailbox := m \<rparr>"
proof (cases command)
  case Shutdown
  have "fold (\<lambda>(i, lane) s. if dl_closing lane then s else close_lane i lane s) xs (t\<lparr> sv_mailbox := m \<rparr>) =
      (fold (\<lambda>(i, lane) s. if dl_closing lane then s else close_lane i lane s) xs t)\<lparr> sv_mailbox := m \<rparr>"
    for xs :: "(document_id \<times> document_lane) list" and t :: "'a service"
    by (induction xs arbitrary: t) (auto simp: mailbox_commutes)
  from this[of "sv_documents s" "s\<lparr> sv_shutting_down := True, sv_clients := [] \<rparr>"]
  moreover have "s\<lparr> sv_mailbox := m, sv_shutting_down := True, sv_clients := [] \<rparr> =
      s\<lparr> sv_shutting_down := True, sv_clients := [], sv_mailbox := m \<rparr>" by simp
  ultimately show ?thesis by (simp only: Shutdown ingest_def Let_def service_command.case) simp
qed (auto simp: ingest_def mailbox_commutes open_lane_def split: option.splits)

lemma ids_inv_attach:
  assumes "ids_inv f ((c, d) # rest) nc nd"
  shows "ids_inv (f(d \<mapsto> c)) rest nc nd"
proof -
  have n: "c \<notin> fst ` set rest" "d \<notin> snd ` set rest" "Some c \<notin> range f" "c < nc" "d < nd"
    using assms by (auto simp: ids_inv_def)
  have r: "\<And>a b. (a, b) \<in> set rest \<Longrightarrow> a < nc \<and> b < nd \<and> f b = None \<and> Some a \<notin> range f"
    using assms by (auto simp: ids_inv_def)
  have ab: "\<And>a b. (a, b) \<in> set rest \<Longrightarrow> a \<noteq> c \<and> b \<noteq> d" using n(1,2) by force
  have inj: "\<And>e e' k. f e = Some k \<Longrightarrow> f e' = Some k \<Longrightarrow> e = e'" "\<And>e k. f e = Some k \<Longrightarrow> e < nd \<and> k < nc"
    using assms by (auto simp: ids_inv_def)
  have rf: "\<And>e. f e \<noteq> Some c" using n(3) by (metis rangeI)
  have rr: "\<And>a b e. (a, b) \<in> set rest \<Longrightarrow> f e \<noteq> Some a" using r by (metis rangeI)
  show ?thesis
    unfolding ids_inv_def
  proof (intro conjI)
    show "\<forall>e e' k. (f(d \<mapsto> c)) e = Some k \<longrightarrow> (f(d \<mapsto> c)) e' = Some k \<longrightarrow> e = e'"
      using inj(1) rf by (auto split: if_splits)
    show "distinct (map fst rest)" "distinct (map snd rest)" using assms by (auto simp: ids_inv_def)
    show "\<forall>(a, b) \<in> set rest. a < nc \<and> b < nd \<and> (f(d \<mapsto> c)) b = None \<and> Some a \<notin> range (f(d \<mapsto> c))"
      using r ab rr by (auto split: if_splits)
    show "\<forall>e k. (f(d \<mapsto> c)) e = Some k \<longrightarrow> e < nd \<and> k < nc" using inj(2) n(4,5) by (auto split: if_splits)
  qed
qed

lemma attach_ok:
  assumes ok: "service_ok s" and m: "sv_mailbox s = Attach c d events lease # rest"
  shows "service_ok (ingest (Attach c d events lease) (s\<lparr> sv_mailbox := rest \<rparr>))"
proof -
  let ?s = "ingest (Attach c d events lease) (s\<lparr> sv_mailbox := rest \<rparr>)"
  have l: "lanes_ok s" and ids: "ids_ok s" and cl: "clients_ok s" using ok by (simp_all add: service_ok_def)
  have fresh: "map_of (sv_documents s) d = None" "\<And>e lane. map_of (sv_documents s) e = Some lane \<Longrightarrow> dl_client lane \<noteq> c"
  proof -
    have "client_of s d = None" "Some c \<notin> range (client_of s)" using ids m by (auto simp: ids_ok_def ids_inv_def)
    then show "map_of (sv_documents s) d = None" and "\<And>e lane. map_of (sv_documents s) e = Some lane \<Longrightarrow> dl_client lane \<noteq> c"
      by (auto simp: client_of_def image_iff) (metis option.simps(9))
  qed
  have cf: "client_of ?s = (client_of s)(d \<mapsto> c)"
    by (auto simp: client_of_def ingest_def lane_new_def fun_eq_iff)
  have ids': "ids_ok ?s"
    using ids m ids_inv_attach unfolding ids_ok_def cf by (auto simp: ingest_def)
  have "d \<notin> set (sv_ready s)" using l fresh(1) by (auto simp: lanes_ok_def)
  moreover have "lane_ok (lane_new c lease)" by (simp add: lane_ok_def lane_new_def)
  ultimately have "lanes_ok ?s" using l by (auto simp: lanes_ok_def ingest_def) (simp_all add: lane_new_def)
  moreover have "clients_ok ?s"
    unfolding clients_ok_def
  proof (intro conjI allI impI)
    show "hm_ok (sv_clients ?s)" using cl by (simp add: clients_ok_def ingest_def)
    fix k sink
    assume k: "map_of (sv_clients ?s) k = Some sink"
    show "length (cs_pending sink) \<le> PENDING_EVENT_CAPACITY"
      using k cl by (auto simp: clients_ok_def ingest_def split: if_splits)
    show "\<exists>d lane. map_of (sv_documents ?s) d = Some lane \<and> dl_client lane = k \<and> \<not> dl_closing lane"
    proof (cases "k = c")
      case True
      then show ?thesis by (intro exI[of _ d]) (simp add: ingest_def lane_new_def)
    next
      case False
      then obtain e lane where e: "map_of (sv_documents s) e = Some lane" "dl_client lane = k" "\<not> dl_closing lane"
      proof -
        have "map_of (sv_clients s) k = Some sink" using k False by (simp add: ingest_def)
        then show thesis using cl that unfolding clients_ok_def by blast
      qed
      then have "e \<noteq> d" using fresh(1) by auto
      then show ?thesis using e by (intro exI[of _ e]) (simp add: ingest_def)
    qed
  qed
  ultimately show ?thesis using ids' by (simp add: service_ok_def)
qed

lemma ingest_ok:
  assumes ok: "service_ok s" and m: "sv_mailbox s = command # rest"
  shows "service_ok (ingest command (s\<lparr> sv_mailbox := rest \<rparr>))"
proof -
  note t = service_ok_tail[OF ok m]
  show ?thesis
  proof (cases command)
    case (Attach c d events lease)
    then show ?thesis using attach_ok[OF ok] m by simp
  next
    case (LoadCommand c i generation p page_count)
    show ?thesis
    proof (cases "open_lane c i (s\<lparr> sv_mailbox := rest \<rparr>)")
      case (Some lane)
      then have l: "map_of (sv_documents (s\<lparr> sv_mailbox := rest \<rparr>)) i = Some lane" "\<not> dl_closing lane"
        unfolding open_lane_Some by auto
      have "lane_ok lane" using t l by (auto simp: service_ok_def lanes_ok_def)
      then have "lane_ok (lane\<lparr> dl_operations := dl_operations lane @ [LoadDocument generation p page_count] \<rparr>)"
        using l by (simp add: lane_ok_def)
      then show ?thesis using l Some by (auto simp: LoadCommand ingest_def intro!: schedule_put_ok[OF t l(1)])
    qed (use t in \<open>simp add: LoadCommand ingest_def\<close>)
  next
    case (SaveCommand c i generation p identity expected annotations)
    show ?thesis
    proof (cases "open_lane c i (s\<lparr> sv_mailbox := rest \<rparr>)")
      case (Some lane)
      then have l: "map_of (sv_documents (s\<lparr> sv_mailbox := rest \<rparr>)) i = Some lane" "\<not> dl_closing lane"
        unfolding open_lane_Some by auto
      have "lane_ok lane" using t l by (auto simp: service_ok_def lanes_ok_def)
      from enqueue_save_lane_ok[OF l(2) this, of generation p identity expected annotations]
      show ?thesis using l Some by (auto simp: SaveCommand ingest_def intro!: schedule_put_ok[OF t l(1)])
    qed (use t in \<open>simp add: SaveCommand ingest_def\<close>)
  next
    case (Inspect reply)
    have "clients_ok (ingest (Inspect reply) (s\<lparr> sv_mailbox := rest \<rparr>))"
      using t by (simp add: service_ok_def clients_ok_def ingest_def)
    then show ?thesis unfolding Inspect by (intro service_ok_cong[OF t]) (simp_all add: ingest_def)
  next
    case Shutdown
    then show ?thesis using shutdown_ok[OF t] by simp
  qed (use t in \<open>simp add: ingest_def\<close>)
qed

lemma fold_ingest_ok: "service_ok (s\<lparr> sv_mailbox := commands \<rparr>) \<Longrightarrow> service_ok (fold ingest commands (s\<lparr> sv_mailbox := [] \<rparr>))"
proof (induction commands arbitrary: s)
  case (Cons command commands)
  have "service_ok (ingest command (s\<lparr> sv_mailbox := commands \<rparr>))"
    using ingest_ok[OF Cons.prems, of command commands] by simp
  then have "service_ok ((ingest command s)\<lparr> sv_mailbox := commands \<rparr>)" by (simp add: ingest_mailbox)
  then show ?case using Cons.IH[of "ingest command s"] by (simp add: ingest_mailbox)
qed simp

lemma close_mailbox_ok: "service_ok s \<Longrightarrow> service_ok (s\<lparr> sv_mailbox_open := b \<rparr>)"
  by (rule service_ok_cong) (auto simp: service_ok_def clients_ok_def)

lemma drain_mailbox_ok: "service_ok s \<Longrightarrow> service_ok (drain_mailbox s)"
  using fold_ingest_ok[where s=s and commands="sv_mailbox s"] by (auto simp: drain_mailbox_def Let_def close_mailbox_ok)

lemma receive_ok: "service_ok s \<Longrightarrow> receive s = Some s' \<Longrightarrow> service_ok s'"
  using ingest_ok[of s] by (auto simp: receive_def close_mailbox_ok split: list.splits if_splits)

section \<open>Events\<close>

text \<open>Steps that touch only the clients and their channels.\<close>

definition events_only :: "'s service \<Rightarrow> 's service \<Rightarrow> bool" where
  "events_only s s' \<longleftrightarrow> (\<exists>clients channels. s' = s\<lparr> sv_clients := clients, sv_channels := channels \<rparr>)"

lemma events_only_fields:
  assumes "events_only s s'"
  shows "sv_documents s' = sv_documents s" "sv_ready s' = sv_ready s" "sv_ready_set s' = sv_ready_set s"
    "sv_mailbox s' = sv_mailbox s" "sv_next_client s' = sv_next_client s" "sv_next_document s' = sv_next_document s"
    "sv_shutting_down s' = sv_shutting_down s" "sv_mailbox_open s' = sv_mailbox_open s" "sv_alive s' = sv_alive s"
    "sv_store s' = sv_store s" "sv_inspections s' = sv_inspections s" "sv_last_served s' = sv_last_served s"
  using assms by (auto simp: events_only_def)

lemma events_only_refl: "events_only s s"
  unfolding events_only_def by (intro exI[of _ "sv_clients s"] exI[of _ "sv_channels s"]) simp

lemma events_only_trans: "events_only s t \<Longrightarrow> events_only t u \<Longrightarrow> events_only s u"
  unfolding events_only_def by (elim exE) (simp, blast)

lemma events_only_ok:
  assumes ok: "service_ok s" and e: "events_only s s'" and hm: "hm_ok (sv_clients s')"
    and sinks: "\<And>c sink. map_of (sv_clients s') c = Some sink \<Longrightarrow>
      \<exists>old. map_of (sv_clients s) c = Some old \<and> (length (cs_pending sink) \<le> length (cs_pending old) \<or>
        length (cs_pending sink) \<le> PENDING_EVENT_CAPACITY)"
  shows "service_ok s'"
proof (rule service_ok_cong[OF ok])
  show "clients_ok s'"
    unfolding clients_ok_def
  proof (intro conjI allI impI)
    fix c sink
    assume "map_of (sv_clients s') c = Some sink"
    then obtain old where old: "map_of (sv_clients s) c = Some old"
      "length (cs_pending sink) \<le> length (cs_pending old) \<or> length (cs_pending sink) \<le> PENDING_EVENT_CAPACITY"
      using sinks by blast
    have cl: "clients_ok s" using ok by (simp add: service_ok_def)
    then show "length (cs_pending sink) \<le> PENDING_EVENT_CAPACITY" using old by (fastforce simp: clients_ok_def)
    show "\<exists>d lane. map_of (sv_documents s') d = Some lane \<and> dl_client lane = c \<and> \<not> dl_closing lane"
      using cl old(1) events_only_fields(1)[OF e] unfolding clients_ok_def by simp
  qed (rule hm)
qed (use events_only_fields[OF e] in simp_all)

lemma flush_pending_length: "flush_pending es ch = (es', ch', present) \<Longrightarrow> length es' \<le> length es"
  by (induction es ch rule: flush_pending.induct) (auto split: send_outcome.splits)

lemma flush_client_events: "events_only s (flush_client c sink s)"
proof -
  obtain es ch present where f: "flush_pending (cs_pending sink) (sv_channels s (cs_events sink)) = (es, ch, present)"
    by (metis prod_cases3)
  show ?thesis unfolding events_only_def
    by (intro exI[of _ "sv_clients (flush_client c sink s)"] exI[of _ "sv_channels (flush_client c sink s)"])
       (simp add: flush_client_def f Let_def remove_client_def)
qed

lemma flush_client_sinks:
  "map_of (sv_clients (flush_client c sink s)) k = Some new \<Longrightarrow>
   (k \<noteq> c \<and> map_of (sv_clients s) k = Some new) \<or> (k = c \<and> length (cs_pending new) \<le> length (cs_pending sink))"
  by (auto simp: flush_client_def Let_def split: prod.splits if_splits dest: flush_pending_length)

lemma flush_client_hm: "hm_ok (sv_clients s) \<Longrightarrow> hm_ok (sv_clients (flush_client c sink s))"
  by (auto simp: flush_client_def Let_def split: prod.splits)

lemma flush_client_ok:
  assumes "service_ok s" "map_of (sv_clients s) c = Some sink"
  shows "service_ok (flush_client c sink s)"
proof (rule events_only_ok[OF assms(1) flush_client_events flush_client_hm])
  show "hm_ok (sv_clients s)" using assms(1) by (simp add: service_ok_def clients_ok_def)
  fix k new
  assume "map_of (sv_clients (flush_client c sink s)) k = Some new"
  then show "\<exists>old. map_of (sv_clients s) k = Some old \<and> (length (cs_pending new) \<le> length (cs_pending old) \<or>
        length (cs_pending new) \<le> PENDING_EVENT_CAPACITY)"
    using flush_client_sinks assms(2) by fastforce
qed

lemma flush_fold_ok:
  assumes "distinct (map fst xs)" "\<forall>(c, sink) \<in> set xs. map_of (sv_clients s) c = Some sink" "service_ok s"
  shows "service_ok (fold (\<lambda>(c, sink) s. flush_client c sink s) xs s) \<and>
    events_only s (fold (\<lambda>(c, sink) s. flush_client c sink s) xs s)"
  using assms
proof (induction xs arbitrary: s)
  case (Cons x xs)
  obtain c sink where x: "x = (c, sink)" by fastforce
  let ?t = "flush_client c sink s"
  have ok: "service_ok ?t" using Cons.prems by (intro flush_client_ok) (auto simp: x)
  have others: "map_of (sv_clients ?t) k = map_of (sv_clients s) k" if "k \<noteq> c" for k
    using that by (auto simp: flush_client_def Let_def split: prod.splits)
  have "\<forall>(k, v) \<in> set xs. map_of (sv_clients ?t) k = Some v"
    using Cons.prems(1,2) others by (force simp: x)
  then have "service_ok (fold (\<lambda>(c, sink) s. flush_client c sink s) xs ?t) \<and>
      events_only ?t (fold (\<lambda>(c, sink) s. flush_client c sink s) xs ?t)"
    using Cons.IH[of ?t] Cons.prems(1) ok by simp
  then show ?case using events_only_trans[OF flush_client_events] by (auto simp: x)
qed (simp add: events_only_refl)

lemma flush_all_ok: "service_ok s \<Longrightarrow> service_ok (flush_all_clients s) \<and> events_only s (flush_all_clients s)"
  unfolding flush_all_clients_def
  by (rule flush_fold_ok) (auto simp: service_ok_def clients_ok_def hm_ok_def)

lemma can_accept_ok:
  assumes "service_ok s" "client_can_accept_event c s = (b, s')"
  shows "service_ok s' \<and> events_only s s' \<and>
    (b \<longrightarrow> (\<forall>sink. map_of (sv_clients s') c = Some sink \<longrightarrow> length (cs_pending sink) < PENDING_EVENT_CAPACITY))"
  using assms flush_client_ok[OF assms(1), of c] flush_client_events[of s c]
  by (auto simp: client_can_accept_event_def Let_def events_only_refl split: option.splits)

section \<open>Selecting a lane\<close>

lemma ready_permuted_ok:
  assumes "service_ok s" "mset ready = mset (sv_ready s)"
  shows "service_ok (s\<lparr> sv_ready := ready \<rparr>)"
proof -
  have "set ready = set (sv_ready s)" "distinct ready = distinct (sv_ready s)"
    using mset_eq_setD[OF assms(2)] mset_eq_imp_distinct_iff[OF assms(2)] by auto
  then have "lanes_ok (s\<lparr> sv_ready := ready \<rparr>) = lanes_ok s" by (simp add: lanes_ok_def)
  moreover have "clients_ok (s\<lparr> sv_ready := ready \<rparr>) = clients_ok s" by (simp add: clients_ok_def)
  moreover have "client_of (s\<lparr> sv_ready := ready \<rparr>) = client_of s" by (simp add: client_of_def fun_eq_iff)
  then have "ids_ok (s\<lparr> sv_ready := ready \<rparr>) = ids_ok s" by (simp add: ids_ok_def)
  ultimately show ?thesis using assms(1) by (simp add: service_ok_def)
qed

lemma flush_client_ready: "flush_client c sink (s\<lparr> sv_ready := r \<rparr>) = (flush_client c sink s)\<lparr> sv_ready := r \<rparr>"
proof -
  obtain es ch present where f: "flush_pending (cs_pending sink) (sv_channels s (cs_events sink)) = (es, ch, present)"
    by (metis prod_cases3)
  show ?thesis by (simp add: flush_client_def f Let_def remove_client_def)
qed

lemma can_accept_ready:
  "client_can_accept_event c (s\<lparr> sv_ready := r \<rparr>) = map_prod id (\<lambda>s. s\<lparr> sv_ready := r \<rparr>) (client_can_accept_event c s)"
  by (simp add: client_can_accept_event_def flush_client_ready Let_def split: option.split)

definition eligible :: "document_id \<Rightarrow> 's service \<Rightarrow> bool" where
  "eligible i s \<longleftrightarrow> (\<forall>lane sink. map_of (sv_documents s) i = Some lane \<longrightarrow> map_of (sv_clients s) (dl_client lane) = Some sink \<longrightarrow>
     length (cs_pending sink) < PENDING_EVENT_CAPACITY)"

lemma closing_no_client:
  assumes "service_ok s" "map_of (sv_documents s) i = Some lane" "dl_closing lane"
  shows "map_of (sv_clients s) (dl_client lane) = None"
proof (rule ccontr)
  assume "map_of (sv_clients s) (dl_client lane) \<noteq> None"
  then obtain d lane' where d: "map_of (sv_documents s) d = Some lane'" "dl_client lane' = dl_client lane" "\<not> dl_closing lane'"
    using assms(1) unfolding service_ok_def clients_ok_def by blast
  then have "client_of s d = Some (dl_client lane)" "client_of s i = Some (dl_client lane)"
    using assms(2) by (simp_all add: client_of_def)
  then have "d = i" using assms(1) unfolding service_ok_def ids_ok_def ids_inv_def by blast
  then show False using d assms(2,3) by simp
qed

text \<open>One look at the front of the queue.\<close>

lemma select_look:
  assumes ok: "service_ok s" and r: "sv_ready s = i # ready"
    and look: "(case map_of (sv_documents s) i of None \<Rightarrow> (True, s\<lparr> sv_ready := ready \<rparr>)
      | Some lane \<Rightarrow> if dl_closing lane then (True, s\<lparr> sv_ready := ready \<rparr>)
                     else client_can_accept_event (dl_client lane) (s\<lparr> sv_ready := ready \<rparr>)) = (b, t)"
  shows "\<exists>u. t = u\<lparr> sv_ready := ready \<rparr> \<and> service_ok u \<and> events_only s u \<and> (b \<longrightarrow> eligible i u)"
proof (cases "map_of (sv_documents s) i")
  case None
  then show ?thesis using look ok events_only_refl[of s] by (intro exI[of _ s]) (auto simp: eligible_def)
next
  case (Some lane)
  show ?thesis
  proof (cases "dl_closing lane")
    case True
    then show ?thesis using look ok Some events_only_refl[of s] closing_no_client[OF ok Some True]
      by (intro exI[of _ s]) (auto simp: eligible_def)
  next
    case False
    obtain b' u where u: "client_can_accept_event (dl_client lane) s = (b', u)" by fastforce
    note c = can_accept_ok[OF ok u]
    have "t = u\<lparr> sv_ready := ready \<rparr>" "b = b'" using look Some False u by (simp_all add: can_accept_ready)
    then show ?thesis using c Some events_only_fields(1)[of s u] by (intro exI[of _ u]) (auto simp: eligible_def)
  qed
qed

lemma select_lane_ok:
  assumes "service_ok s" "select_lane n s = (r, s')"
  shows "(case r of None \<Rightarrow> service_ok s' | Some i \<Rightarrow> service_ok (s'\<lparr> sv_ready := i # sv_ready s' \<rparr>) \<and> eligible i s') \<and>
    (\<exists>u. events_only s u \<and> s' = u\<lparr> sv_ready := sv_ready s' \<rparr>)"
  using assms
proof (induction n arbitrary: s)
  case 0
  then show ?case using events_only_refl[of s] by auto
next
  case (Suc n)
  show ?case
  proof (cases "sv_ready s")
    case Nil
    then show ?thesis using Suc.prems events_only_refl[of s] by auto
  next
    case (Cons i ready)
    obtain b t where look: "(case map_of (sv_documents s) i of None \<Rightarrow> (True, s\<lparr> sv_ready := ready \<rparr>)
      | Some lane \<Rightarrow> if dl_closing lane then (True, s\<lparr> sv_ready := ready \<rparr>)
                     else client_can_accept_event (dl_client lane) (s\<lparr> sv_ready := ready \<rparr>)) = (b, t)" by fastforce
    from select_look[OF Suc.prems(1) Cons look] obtain u where u: "t = u\<lparr> sv_ready := ready \<rparr>" "service_ok u"
      "events_only s u" "b \<longrightarrow> eligible i u" by blast
    have ru: "sv_ready u = i # ready" using events_only_fields(2)[OF u(3)] Cons by simp
    have step: "select_lane (Suc n) s = (if b then (Some i, t) else select_lane n (t\<lparr> sv_ready := sv_ready t @ [i] \<rparr>))"
      using Cons look by (simp add: Let_def)
    show ?thesis
    proof (cases b)
      case True
      have "u\<lparr> sv_ready := i # ready \<rparr> = u" using ru by simp
      then show ?thesis using True step Suc.prems(2) u by (auto simp: eligible_def)
    next
      case False
      let ?v = "u\<lparr> sv_ready := ready @ [i] \<rparr>"
      have v: "service_ok ?v" by (rule ready_permuted_ok[OF u(2)]) (simp add: ru)
      have "select_lane n ?v = (r, s')" using False step Suc.prems(2) u(1) by simp
      note ih = Suc.IH[OF v this]
      then obtain w where w: "events_only ?v w" "s' = w\<lparr> sv_ready := sv_ready s' \<rparr>" by blast
      obtain cl ch where "w = ?v\<lparr> sv_clients := cl, sv_channels := ch \<rparr>" using w(1) unfolding events_only_def by blast
      then have "s' = (u\<lparr> sv_clients := cl, sv_channels := ch \<rparr>)\<lparr> sv_ready := sv_ready s' \<rparr>" using w(2) by simp
      moreover have "events_only s (u\<lparr> sv_clients := cl, sv_channels := ch \<rparr>)"
        using u(3) by (rule events_only_trans) (auto simp: events_only_def)
      ultimately show ?thesis using ih by blast
    qed
  qed
qed

section \<open>Processing an operation\<close>

text \<open>What an operation may do to the rest of the state: events, and the store.\<close>

definition effects_only :: "'s service \<Rightarrow> 's service \<Rightarrow> bool" where
  "effects_only s s' \<longleftrightarrow> (\<exists>u store. events_only s u \<and> s' = u\<lparr> sv_store := store \<rparr>)"

lemma effects_only_fields:
  "effects_only s s' \<Longrightarrow> sv_documents s' = sv_documents s \<and> sv_ready s' = sv_ready s \<and> sv_ready_set s' = sv_ready_set s \<and>
    sv_mailbox s' = sv_mailbox s \<and> sv_next_client s' = sv_next_client s \<and> sv_next_document s' = sv_next_document s \<and>
    sv_shutting_down s' = sv_shutting_down s \<and> sv_mailbox_open s' = sv_mailbox_open s \<and> sv_alive s' = sv_alive s \<and>
    sv_inspections s' = sv_inspections s"
  by (auto simp: effects_only_def dest: events_only_fields)

lemma send_event_events: "events_only s (send_event c i generation kind s)"
proof -
  let ?t = "send_event c i generation kind s"
  have "?t = s\<lparr> sv_clients := sv_clients ?t, sv_channels := sv_channels ?t \<rparr>"
    by (simp add: send_event_def Let_def remove_client_def split: option.split send_outcome.split)
  then show ?thesis unfolding events_only_def by blast
qed

lemma send_event_sinks:
  "map_of (sv_clients (send_event c i generation kind s)) k = Some new \<Longrightarrow>
   \<exists>old. map_of (sv_clients s) k = Some old \<and> (if k = c then length (cs_pending new) \<le> Suc (length (cs_pending old)) else new = old)"
  by (cases "k = c") (auto simp: send_event_def Let_def split: option.splits send_outcome.splits if_splits)

lemma send_event_hm: "hm_ok (sv_clients s) \<Longrightarrow> hm_ok (sv_clients (send_event c i generation kind s))"
  by (auto simp: send_event_def Let_def split: option.splits send_outcome.splits if_splits)

lemma run_load_lane:
  assumes "run_load ops i generation p page_count lane s = (lane', s')"
  shows "dl_client lane' = dl_client lane" "dl_closing lane' = dl_closing lane" "dl_operations lane' = dl_operations lane"
    "dl_scheduled lane' = dl_scheduled lane" "\<exists>kind. s' = send_event (dl_client lane) i generation kind s"
  using assms by (auto simp: run_load_def send_failure_def Let_def split: sum.splits prod.splits)

lemma run_save_lane:
  assumes "run_save ops i generation p identity expected annotations lane s = (lane', s')"
  shows "dl_client lane' = dl_client lane" "dl_closing lane' = dl_closing lane" "dl_operations lane' = dl_operations lane"
    "dl_scheduled lane' = dl_scheduled lane"
    "\<exists>kind store. s' = send_event (dl_client lane) i generation kind (s\<lparr> sv_store := store \<rparr>)"
proof -
  show "dl_client lane' = dl_client lane" "dl_closing lane' = dl_closing lane" "dl_operations lane' = dl_operations lane"
    "dl_scheduled lane' = dl_scheduled lane"
    using assms by (auto simp: run_save_def send_failure_def Let_def split: sum.splits prod.splits if_splits)
  show "\<exists>kind store. s' = send_event (dl_client lane) i generation kind (s\<lparr> sv_store := store \<rparr>)"
  proof (cases "stale_save generation p lane")
    case True
    then show ?thesis using assms by (auto simp: run_save_def Let_def intro!: exI[of _ "sv_store s"])
  next
    case False
    then show ?thesis using assms by (auto simp: run_save_def send_failure_def Let_def split: sum.splits prod.splits)
  qed
qed

text \<open>Putting the lane back after its operation.\<close>

lemma return_lane_ok:
  assumes ok: "service_ok (s\<lparr> sv_ready := i # sv_ready s \<rparr>)" and lane: "map_of (sv_documents s) i = Some lane"
    and lane': "dl_client lane' = dl_client lane" "dl_closing lane' = dl_closing lane" "\<not> dl_scheduled lane'" "lane_ok lane'"
    and t: "sv_documents t = hm_remove i (sv_documents s)" "sv_ready t = sv_ready s" "sv_ready_set t = sv_ready_set s - {i}"
      "sv_mailbox t = sv_mailbox s" "sv_next_client t = sv_next_client s" "sv_next_document t = sv_next_document s"
    and hm: "hm_ok (sv_clients t)"
    and sinks: "\<And>c new. map_of (sv_clients t) c = Some new \<Longrightarrow> map_of (sv_clients s) c \<noteq> None \<and>
      length (cs_pending new) \<le> PENDING_EVENT_CAPACITY"
  shows "service_ok (return_lane i (lane', t))"
proof -
  let ?r = "return_lane i (lane', t)"
  have l: "lanes_ok (s\<lparr> sv_ready := i # sv_ready s \<rparr>)" and cl: "clients_ok (s\<lparr> sv_ready := i # sv_ready s \<rparr>)"
    and ids: "ids_ok (s\<lparr> sv_ready := i # sv_ready s \<rparr>)" using ok by (simp_all add: service_ok_def)
  have rs: "sv_ready_set s = insert i (set (sv_ready s))" "i \<notin> set (sv_ready s)" using l by (auto simp: lanes_ok_def)
  then have set: "sv_ready_set t = set (sv_ready t)" using t by auto
  have lanes: "lanes_ok ?r"
    using l lane' t rs set by (auto simp: lanes_ok_def return_lane_def service_schedule_def put_lane_def split: if_splits)
  have "client_of ?r = client_of s"
    using lane lane'(1) t(1) by (auto simp: client_of_def return_lane_def fun_eq_iff)
  moreover have "client_of (s\<lparr> sv_ready := i # sv_ready s \<rparr>) = client_of s" by (simp add: client_of_def fun_eq_iff)
  moreover have "sv_mailbox ?r = sv_mailbox s" "sv_next_client ?r = sv_next_client s" "sv_next_document ?r = sv_next_document s"
    using t by (simp_all add: return_lane_def)
  ultimately have "ids_ok ?r" using ids by (simp add: ids_ok_def)
  moreover have "clients_ok ?r"
    unfolding clients_ok_def
  proof (intro conjI allI impI)
    show "hm_ok (sv_clients ?r)" using hm by (simp add: return_lane_def)
    fix c sink
    assume "map_of (sv_clients ?r) c = Some sink"
    then have c: "map_of (sv_clients t) c = Some sink" by (simp add: return_lane_def split: if_splits)
    then show "length (cs_pending sink) \<le> PENDING_EVENT_CAPACITY" using sinks by blast
    obtain d lane0 where d: "map_of (sv_documents s) d = Some lane0" "dl_client lane0 = c" "\<not> dl_closing lane0"
    proof -
      obtain old where "map_of (sv_clients s) c = Some old" using sinks[OF c] by blast
      then show thesis using cl that unfolding clients_ok_def by simp blast
    qed
    show "\<exists>d lane. map_of (sv_documents ?r) d = Some lane \<and> dl_client lane = c \<and> \<not> dl_closing lane"
    proof (cases "d = i")
      case True
      then show ?thesis using d lane lane' t(1) by (intro exI[of _ i]) (auto simp: return_lane_def)
    next
      case False
      then show ?thesis using d t(1) by (intro exI[of _ d] exI[of _ lane0]) (auto simp: return_lane_def)
    qed
  qed
  ultimately show ?thesis using lanes by (simp add: service_ok_def)
qed

lemma operation_events:
  assumes hm: "hm_ok (sv_clients s)" and bound: "\<And>c sink. map_of (sv_clients s) c = Some sink \<Longrightarrow> length (cs_pending sink) \<le> PENDING_EVENT_CAPACITY"
    and el: "\<And>sink. map_of (sv_clients s) c = Some sink \<Longrightarrow> length (cs_pending sink) < PENDING_EVENT_CAPACITY"
  shows "hm_ok (sv_clients (send_event c i generation kind s))"
    "map_of (sv_clients (send_event c i generation kind s)) k = Some new \<Longrightarrow>
      map_of (sv_clients s) k \<noteq> None \<and> length (cs_pending new) \<le> PENDING_EVENT_CAPACITY"
proof -
  show "hm_ok (sv_clients (send_event c i generation kind s))" using hm by (rule send_event_hm)
  assume "map_of (sv_clients (send_event c i generation kind s)) k = Some new"
  from send_event_sinks[OF this] obtain old where old: "map_of (sv_clients s) k = Some old"
    "if k = c then length (cs_pending new) \<le> Suc (length (cs_pending old)) else new = old" by blast
  then show "map_of (sv_clients s) k \<noteq> None \<and> length (cs_pending new) \<le> PENDING_EVENT_CAPACITY"
    using el[of old] bound[of k old] by (auto split: if_splits)
qed

lemma process_one_ok:
  assumes ok: "service_ok (s\<lparr> sv_ready := i # sv_ready s \<rparr>)" and el: "eligible i s"
  shows "service_ok (process_one ops i (s\<lparr> sv_ready_set := sv_ready_set s - {i} \<rparr>))"
proof -
  let ?s = "s\<lparr> sv_ready_set := sv_ready_set s - {i} \<rparr>"
  have l: "lanes_ok (s\<lparr> sv_ready := i # sv_ready s \<rparr>)" and cl: "clients_ok (s\<lparr> sv_ready := i # sv_ready s \<rparr>)"
    and ids: "ids_ok (s\<lparr> sv_ready := i # sv_ready s \<rparr>)" using ok by (simp_all add: service_ok_def)
  obtain lane where lane: "map_of (sv_documents s) i = Some lane" using l by (auto simp: lanes_ok_def)
  have lok: "lane_ok lane" and rs: "sv_ready_set s = insert i (set (sv_ready s))" "i \<notin> set (sv_ready s)"
    using l lane by (auto simp: lanes_ok_def)
  have hm: "hm_ok (sv_clients s)" and bound: "\<And>c sink. map_of (sv_clients s) c = Some sink \<Longrightarrow> length (cs_pending sink) \<le> PENDING_EVENT_CAPACITY"
    using cl by (auto simp: clients_ok_def)
  let ?t = "?s\<lparr> sv_documents := hm_remove i (sv_documents s) \<rparr>"
  have elc: "\<And>sink. map_of (sv_clients s) (dl_client lane) = Some sink \<Longrightarrow> length (cs_pending sink) < PENDING_EVENT_CAPACITY"
    using el lane by (auto simp: eligible_def)
  have ret: "service_ok (return_lane i (lane', send_event (dl_client lane) i generation kind (?t\<lparr> sv_store := store \<rparr>)))"
    if "dl_client lane' = dl_client lane" "dl_closing lane' = dl_closing lane" "\<not> dl_scheduled lane'" "lane_ok lane'"
    for lane' generation kind store
  proof (rule return_lane_ok[OF ok lane that])
    let ?u = "send_event (dl_client lane) i generation kind (?t\<lparr> sv_store := store \<rparr>)"
    note f = events_only_fields[OF send_event_events[of "?t\<lparr> sv_store := store \<rparr>" "dl_client lane" i generation kind]]
    show "sv_documents ?u = hm_remove i (sv_documents s)" "sv_ready ?u = sv_ready s" "sv_ready_set ?u = sv_ready_set s - {i}"
      "sv_mailbox ?u = sv_mailbox s" "sv_next_client ?u = sv_next_client s" "sv_next_document ?u = sv_next_document s"
      by (simp_all add: f)
    show "hm_ok (sv_clients ?u)" by (rule operation_events(1)) (use hm bound elc in auto)
    show "map_of (sv_clients s) c \<noteq> None \<and> length (cs_pending new) \<le> PENDING_EVENT_CAPACITY"
      if "map_of (sv_clients ?u) c = Some new" for c new
      using operation_events(2)[of "?t\<lparr> sv_store := store \<rparr>", OF _ _ _ that] hm bound elc by auto
  qed
  show ?thesis
  proof (cases "dl_operations lane")
    case Nil
    let ?l = "lane\<lparr> dl_scheduled := False \<rparr>"
    have "service_ok (return_lane i (?l, ?t))"
      by (rule return_lane_ok[OF ok lane]) (use lok hm bound in \<open>auto simp: Nil\<close>)
    then show ?thesis using lane Nil by (simp add: process_one_def Let_def return_lane_def)
  next
    case (Cons operation operations)
    let ?l = "lane\<lparr> dl_scheduled := False, dl_operations := operations \<rparr>"
    have lok': "operation \<noteq> Detach \<Longrightarrow> lane_ok ?l" using lok Cons by (cases operations) (auto simp: lane_ok_def split: if_splits)
    show ?thesis
    proof (cases operation)
      case (LoadDocument generation p page_count)
      obtain lane' u where r: "run_load ops i generation p page_count ?l ?t = (lane', u)" by fastforce
      note q = run_load_lane[OF r]
      obtain kind where "u = send_event (dl_client lane) i generation kind ?t" using q(5) by auto
      then have u: "u = send_event (dl_client lane) i generation kind (?t\<lparr> sv_store := sv_store s \<rparr>)" by simp
      have "lane_ok lane'" using lok' q LoadDocument by (auto simp: lane_ok_def)
      then have "service_ok (return_lane i (lane', u))" unfolding u using q by (intro ret) auto
      then show ?thesis using lane Cons LoadDocument r by (simp add: process_one_def Let_def)
    next
      case (SaveDocument generation p identity expected annotations)
      obtain lane' u where r: "run_save ops i generation p identity expected annotations ?l ?t = (lane', u)" by fastforce
      note q = run_save_lane[OF r]
      obtain kind store where u: "u = send_event (dl_client lane) i generation kind (?t\<lparr> sv_store := store \<rparr>)" using q(5) by auto
      have "lane_ok lane'" using lok' q SaveDocument by (auto simp: lane_ok_def)
      then have "service_ok (return_lane i (lane', u))" unfolding u using q by (intro ret) auto
      then show ?thesis using lane Cons SaveDocument r by (simp add: process_one_def Let_def)
    next
      case Detach
      let ?u = "remove_client (dl_client lane) ?t"
      have closing: "dl_closing lane" using lok Cons Detach by (auto simp: lane_ok_def split: if_splits)
      have "lanes_ok ?u" using l rs by (auto simp: lanes_ok_def)
      moreover have "ids_ok ?u"
      proof -
        have c: "client_of ?u = (client_of s)(i := None)" by (auto simp: client_of_def fun_eq_iff)
        have "client_of (s\<lparr> sv_ready := i # sv_ready s \<rparr>) = client_of s" by (simp add: client_of_def fun_eq_iff)
        then have "ids_inv (client_of s) (attach_ids (sv_mailbox s)) (sv_next_client s) (sv_next_document s)"
          using ids by (simp add: ids_ok_def)
        then have "ids_inv ((client_of s)(i := None)) (attach_ids (sv_mailbox s)) (sv_next_client s) (sv_next_document s)"
          by (auto simp: ids_inv_def split: if_splits)
        then show ?thesis unfolding ids_ok_def c by simp
      qed
      moreover have "clients_ok ?u"
        unfolding clients_ok_def
      proof (intro conjI allI impI)
        show "hm_ok (sv_clients ?u)" using hm by simp
        fix c sink
        assume "map_of (sv_clients ?u) c = Some sink"
        then have c: "map_of (sv_clients s) c = Some sink" by (simp split: if_splits)
        then show "length (cs_pending sink) \<le> PENDING_EVENT_CAPACITY" by (rule bound)
        obtain d lane0 where d: "map_of (sv_documents s) d = Some lane0" "dl_client lane0 = c" "\<not> dl_closing lane0"
          using cl c unfolding clients_ok_def by simp blast
        then have "d \<noteq> i" using lane closing by auto
        then show "\<exists>d lane. map_of (sv_documents ?u) d = Some lane \<and> dl_client lane = c \<and> \<not> dl_closing lane"
          using d by (intro exI[of _ d] exI[of _ lane0]) simp
      qed
      ultimately have "service_ok ?u" by (simp add: service_ok_def)
      then show ?thesis using lane Cons Detach by (simp add: process_one_def Let_def)
    qed
  qed
qed

section \<open>Whole turns and the clients\<close>

lemma rotate_ok: "service_ok s \<Longrightarrow> service_ok (rotate_last_served s)"
  using ready_permuted_ok[of s "tl (sv_ready s) @ [hd (sv_ready s)]"]
  by (cases "sv_ready s") (auto simp: rotate_last_served_def)

lemma served_ok: "service_ok s \<Longrightarrow> service_ok (s\<lparr> sv_last_served := x \<rparr>)"
  by (rule service_ok_cong) (auto simp: service_ok_def clients_ok_def)

lemma answer_ok: "service_ok s \<Longrightarrow> service_ok (answer_inspections s)"
  by (rule service_ok_cong) (auto simp: service_ok_def clients_ok_def answer_inspections_def Let_def)

lemma mailbox_append_ok:
  assumes "service_ok s" "attach_ids commands = []"
  shows "service_ok (s\<lparr> sv_mailbox := sv_mailbox s @ commands \<rparr>)"
proof -
  let ?s = "s\<lparr> sv_mailbox := sv_mailbox s @ commands \<rparr>"
  have "client_of ?s = client_of s" by (simp add: client_of_def fun_eq_iff)
  then have "ids_ok ?s = ids_ok s" using assms(2) by (simp add: ids_ok_def)
  moreover have "lanes_ok ?s = lanes_ok s" "clients_ok ?s = clients_ok s" by (simp_all add: lanes_ok_def clients_ok_def)
  ultimately show ?thesis using assms(1) by (simp add: service_ok_def)
qed

lemma turn_ok:
  assumes ok: "service_ok s" and late: "attach_ids late = []" and t: "turn ops late s = (flow, s')"
  shows "service_ok s'"
proof (cases "if sv_ready s = [] \<and> sv_inspections s = [] \<and> \<not> any_pending s \<and> \<not> sv_shutting_down s \<and> sv_mailbox_open s
            then receive s else Some s")
  case None
  then show ?thesis using t ok by (auto simp: turn_def)
next
  case (Some s1)
  have s1: "service_ok s1" using Some ok receive_ok[OF ok] by (auto split: if_splits)
  let ?s2 = "rotate_last_served (flush_all_clients (reap_detached (drain_mailbox s1)))"
  have s2: "service_ok ?s2" using s1 by (intro rotate_ok) (auto intro: drain_mailbox_ok reap_detached_ok flush_all_ok[THEN conjunct1])
  obtain r s3 where sel: "select_lane (length (sv_ready ?s2)) ?s2 = (r, s3)" by fastforce
  note q = select_lane_ok[OF s2 sel]
  show ?thesis
  proof (cases r)
    case (Some i)
    have "service_ok (process_one ops i (s3\<lparr> sv_ready_set := sv_ready_set s3 - {i} \<rparr>))"
      using q Some by (intro process_one_ok) auto
    then show ?thesis using t sel Some \<open>_ = Some s1\<close> served_ok by (auto simp: turn_def Let_def)
  next
    case None
    then have s3: "service_ok s3" using q by simp
    show ?thesis
      using t sel None \<open>_ = Some s1\<close> s3 mailbox_append_ok[OF s3 late] receive_ok[OF mailbox_append_ok[OF s3 late]] answer_ok[OF s3]
      by (auto simp: turn_def Let_def split: if_splits option.splits)
  qed
qed

lemma ids_inv_append:
  assumes "ids_inv f attaches nc nd" "nc < nc'" "nd < nd'"
  shows "ids_inv f (attaches @ [(nc, nd)]) nc' nd'"
proof -
  have old: "\<And>a b. (a, b) \<in> set attaches \<Longrightarrow> a < nc \<and> b < nd \<and> f b = None \<and> Some a \<notin> range f"
    "\<And>e k. f e = Some k \<Longrightarrow> e < nd \<and> k < nc"
    using assms(1) by (auto simp: ids_inv_def)
  have "nc \<notin> fst ` set attaches" "nd \<notin> snd ` set attaches" using old(1) by fastforce+
  moreover have "f nd = None" using old(2)[of nd] by (cases "f nd") auto
  moreover have "Some nc \<notin> range f" using old(2) by (metis less_irrefl rangeE)
  moreover have "\<forall>e k. f e = Some k \<longrightarrow> e < nd' \<and> k < nc'" using old(2) assms(2,3) by (meson less_trans)
  moreover have "\<forall>(a, b) \<in> set attaches. a < nc' \<and> b < nd' \<and> f b = None \<and> Some a \<notin> range f"
    using old(1) assms(2,3) by (auto intro: less_trans)
  moreover have "\<forall>e e' k. f e = Some k \<longrightarrow> f e' = Some k \<longrightarrow> e = e'" "distinct (map fst attaches)" "distinct (map snd attaches)"
    using assms(1) by (auto simp: ids_inv_def)
  ultimately show ?thesis using assms(2,3) unfolding ids_inv_def by simp
qed

lemma ids_inv_later: "ids_inv f attaches nc nd \<Longrightarrow> nc \<le> nc' \<Longrightarrow> ids_inv f attaches nc' nd"
proof -
  assume a: "ids_inv f attaches nc nd" "nc \<le> nc'"
  have lt: "c < nc \<Longrightarrow> c < nc'" for c using a(2) by (rule order.strict_trans2[rotated])
  have "\<forall>(a, b) \<in> set attaches. a < nc' \<and> b < nd \<and> f b = None \<and> Some a \<notin> range f"
    "\<forall>e k. f e = Some k \<longrightarrow> e < nd \<and> k < nc'"
    using a(1) lt unfolding ids_inv_def by blast+
  then show ?thesis using a(1) unfolding ids_inv_def by blast
qed

lemma lanes_ok_cong:
  "sv_documents s' = sv_documents s \<Longrightarrow> sv_ready s' = sv_ready s \<Longrightarrow> sv_ready_set s' = sv_ready_set s \<Longrightarrow> lanes_ok s' = lanes_ok s"
  by (simp add: lanes_ok_def)

lemma clients_ok_cong:
  "sv_documents s' = sv_documents s \<Longrightarrow> sv_clients s' = sv_clients s \<Longrightarrow> clients_ok s' = clients_ok s"
  by (simp add: clients_ok_def)

lemma attach_step_ok:
  assumes ok: "service_ok s" and step: "service_attach events lease s = Some (r, s')"
  shows "service_ok s'"
proof -
  have f: "sv_documents s' = sv_documents s" "sv_ready s' = sv_ready s" "sv_ready_set s' = sv_ready_set s"
    "sv_clients s' = sv_clients s"
    using step by (auto simp: service_attach_def Let_def split: option.splits prod.splits if_splits)
  have c: "client_of s' = client_of s" using f(1) by (simp add: client_of_def fun_eq_iff)
  have i: "ids_inv (client_of s) (attach_ids (sv_mailbox s)) (sv_next_client s) (sv_next_document s)"
    using ok by (simp add: service_ok_def ids_ok_def)
  have "ids_inv (client_of s) (attach_ids (sv_mailbox s')) (sv_next_client s') (sv_next_document s')"
    using step i
    by (auto simp: service_attach_def next_service_id_def Let_def split: option.splits prod.splits if_splits
        intro!: ids_inv_append[OF i] ids_inv_later[OF i] intro: order.strict_implies_order[OF checked_add_one_less] checked_add_one_less)
  then show ?thesis
    using ok lanes_ok_cong[OF f(1-3)] clients_ok_cong[OF f(1,4)] c by (simp add: service_ok_def ids_ok_def)
qed

lemma submit_ok: "service_ok s \<Longrightarrow> attach_ids [command] = [] \<Longrightarrow> service_ok (snd (submit command s))"
  by (auto simp: submit_def intro: mailbox_append_ok)

section \<open>Reachable states\<close>

text \<open>Everything that happens to the service: its own turns, its clients (which attach, send commands, take
  events, let go of their receiver, or go away), the end of the service, after which nothing is sent any
  more, and other writers of the store.\<close>

inductive service_step :: "'s store_ops \<Rightarrow> ('s \<Rightarrow> 's \<Rightarrow> bool) \<Rightarrow> 's service \<Rightarrow> 's service \<Rightarrow> bool"
  for ops :: "'s store_ops" and others :: "'s \<Rightarrow> 's \<Rightarrow> bool" where
  turn: "attach_ids late = [] \<Longrightarrow> Shutdown \<notin> set late \<Longrightarrow> sv_alive s \<or> late = [] \<Longrightarrow> turn ops late s = (flow, s') \<Longrightarrow>
    service_step ops others s s'"
| attach: "sv_alive s \<Longrightarrow> service_attach events lease s = Some (r, s') \<Longrightarrow> service_step ops others s s'"
| submit: "attach_ids [command] = [] \<Longrightarrow> command \<noteq> Shutdown \<Longrightarrow> service_step ops others s (snd (submit command s))"
| drop_client: "service_step ops others s (drop_client lease s)"
| drop_service: "sv_alive s \<Longrightarrow> drop_service s = Some s' \<Longrightarrow> service_step ops others s s'"
| take_event: "service_step ops others s
    (s\<lparr> sv_channels := (sv_channels s)(c := (sv_channels s c)\<lparr> ch_queue := tl (ch_queue (sv_channels s c)) \<rparr>) \<rparr>)"
| disconnect: "service_step ops others s
    (s\<lparr> sv_channels := (sv_channels s)(c := (sv_channels s c)\<lparr> ch_connected := False \<rparr>) \<rparr>)"
| other: "others (sv_store s) store \<Longrightarrow> service_step ops others s (s\<lparr> sv_store := store \<rparr>)"

inductive service_reachable :: "'s store_ops \<Rightarrow> ('s \<Rightarrow> 's \<Rightarrow> bool) \<Rightarrow> 's service \<Rightarrow> bool"
  for ops :: "'s store_ops" and others :: "'s \<Rightarrow> 's \<Rightarrow> bool" where
  start: "service_reachable ops others (service_new channels store)"
| step: "service_reachable ops others s \<Longrightarrow> service_step ops others s s' \<Longrightarrow> service_reachable ops others s'"

lemma service_step_ok: "service_step ops others s s' \<Longrightarrow> service_ok s \<Longrightarrow> service_ok s'"
proof (induction rule: service_step.induct)
  case (turn late s flow s')
  show ?case by (rule turn_ok[OF turn.prems turn.hyps(1,4)])
next
  case (attach s events lease r s')
  show ?case by (rule attach_step_ok[OF attach.prems attach.hyps(2)])
next
  case (submit command s)
  show ?case by (rule submit_ok[OF submit.prems submit.hyps(1)])
next
  case (drop_client s lease)
  have "service_ok (s\<lparr> sv_detached := (sv_detached s)(lease := True) \<rparr>)"
    by (rule service_ok_cong[OF drop_client.prems]) (use drop_client.prems in \<open>auto simp: service_ok_def clients_ok_def\<close>)
  then show ?case by (auto simp: drop_client_def intro: submit_ok)
next
  case (drop_service s s')
  let ?t = "s\<lparr> sv_mailbox := sv_mailbox s @ [Shutdown] \<rparr>"
  have t: "service_ok ?t" using mailbox_append_ok[OF drop_service.prems, of "[Shutdown]"] by simp
  have s': "s' = ?t\<lparr> sv_alive := False \<rparr>" using drop_service.hyps by (auto simp: drop_service_def split: if_splits)
  show ?case unfolding s'
    by (rule service_ok_cong[OF t]) (use t clients_ok_cong[of "?t\<lparr> sv_alive := False \<rparr>" ?t] in \<open>auto simp: service_ok_def\<close>)
next
  case (take_event s c)
  show ?case by (rule service_ok_cong[OF take_event.prems]) (use take_event.prems in \<open>auto simp: service_ok_def clients_ok_def\<close>)
next
  case (disconnect s c)
  show ?case by (rule service_ok_cong[OF disconnect.prems]) (use disconnect.prems in \<open>auto simp: service_ok_def clients_ok_def\<close>)
next
  case (other s store)
  show ?case by (rule service_ok_cong[OF other.prems]) (use other.prems in \<open>auto simp: service_ok_def clients_ok_def\<close>)
qed

lemma service_reachable_ok: "service_reachable ops others s \<Longrightarrow> service_ok s"
  by (induction rule: service_reachable.induct) (auto intro: service_ok_new service_step_ok)

end
