(* ===== verification/AnnotationShutdown.thy ===== *)
theory AnnotationShutdown
  imports AnnotationServiceInv
begin

text \<open>
  The end of the annotation service (\<open>crates/key-sidecar-store/src/service.rs\<close>): after the last handle is
  dropped the loop carries out what was accepted, and stops.
\<close>

section \<open>Where the shutdown command can be\<close>

text \<open>The state after the shutdown command: nothing can arrive, every lane ends.\<close>

definition quiet :: "'s service \<Rightarrow> bool" where
  "quiet s \<longleftrightarrow> sv_mailbox s = [] \<and> sv_shutting_down s \<and> sv_clients s = [] \<and>
     (\<forall>d lane. map_of (sv_documents s) d = Some lane \<longrightarrow> dl_closing lane)"

definition ending_ok :: "'s service \<Rightarrow> bool" where
  "ending_ok s \<longleftrightarrow>
     (if sv_alive s then Shutdown \<notin> set (sv_mailbox s) \<and> \<not> sv_shutting_down s \<and> sv_mailbox_open s
      else quiet s \<or> (\<exists>xs. sv_mailbox s = xs @ [Shutdown] \<and> Shutdown \<notin> set xs \<and> \<not> sv_shutting_down s \<and> sv_mailbox_open s))"

text \<open>What the parts of a turn after the mailbox do to these fields.\<close>

definition keeps :: "'s service \<Rightarrow> 's service \<Rightarrow> bool" where
  "keeps s t \<longleftrightarrow> sv_alive t = sv_alive s \<and> sv_shutting_down t = sv_shutting_down s \<and> sv_mailbox t = sv_mailbox s \<and>
     sv_mailbox_open t = sv_mailbox_open s \<and> (quiet s \<longrightarrow> quiet t)"

lemma keeps_refl: "keeps s s"
  by (simp add: keeps_def)

lemma keeps_trans: "keeps s t \<Longrightarrow> keeps t u \<Longrightarrow> keeps s u"
  by (simp add: keeps_def)

lemma keeps_ending: "keeps s t \<Longrightarrow> ending_ok s \<Longrightarrow> ending_ok t"
  by (auto simp: keeps_def ending_ok_def)

lemma keeps_events: "events_only s t \<Longrightarrow> (sv_clients s = [] \<Longrightarrow> sv_clients t = []) \<Longrightarrow> keeps s t"
  using events_only_fields[of s t] by (auto simp: keeps_def quiet_def)

lemma keeps_lane:
  "(quiet s \<Longrightarrow> dl_closing (fst r)) \<Longrightarrow> keeps s (snd r) \<Longrightarrow> keeps s (put_lane i r)"
  by (auto simp: keeps_def quiet_def split: if_splits)

lemma schedule_keeps: "keeps s (snd (service_schedule i lane s))"
  by (auto simp: keeps_def quiet_def)

lemma close_lane_keeps: "keeps s (close_lane i lane s)"
  unfolding close_lane_def by (rule keeps_lane) (simp_all add: schedule_keeps)

lemma remove_client_keeps: "keeps s (remove_client c s)"
  by (auto simp: keeps_def quiet_def hm_remove_def)

lemma fold_keeps: "(\<And>x s. keeps s (f x s)) \<Longrightarrow> keeps s (fold f xs s)"
  by (induction xs arbitrary: s) (auto simp: keeps_refl intro: keeps_trans)

lemma reap_keeps: "keeps s (reap_detached s)"
  unfolding reap_detached_def
  by (rule fold_keeps) (auto simp: keeps_refl intro: keeps_trans[OF remove_client_keeps close_lane_keeps])

lemma flush_all_keeps: "service_ok s \<Longrightarrow> keeps s (flush_all_clients s)"
  by (rule keeps_events[OF conjunct2[OF flush_all_ok]]) (simp_all add: flush_all_clients_def)

lemma rotate_keeps: "keeps s (rotate_last_served s)"
  by (auto simp: rotate_last_served_def keeps_def quiet_def)

lemma can_accept_keeps: "client_can_accept_event c s = (b, t) \<Longrightarrow> service_ok s \<Longrightarrow> keeps s t"
  by (rule keeps_events) (auto dest: can_accept_ok simp: client_can_accept_event_def)

lemma ready_keeps: "keeps s (s\<lparr> sv_ready := r \<rparr>)" "keeps s (s\<lparr> sv_ready_set := q \<rparr>)" "keeps s (s\<lparr> sv_last_served := l \<rparr>)"
  "keeps s (answer_inspections s)"
  by (auto simp: keeps_def quiet_def answer_inspections_def Let_def)

lemma select_keeps:
  assumes "service_ok s" "select_lane n s = (r, s')"
  shows "keeps s s'"
  using assms
proof (induction n arbitrary: s)
  case 0
  then show ?case by (simp add: keeps_refl)
next
  case (Suc n)
  show ?case
  proof (cases "sv_ready s")
    case Nil
    then show ?thesis using Suc.prems by (simp add: keeps_refl)
  next
    case (Cons i ready)
    obtain b t where look: "(case map_of (sv_documents s) i of None \<Rightarrow> (True, s\<lparr> sv_ready := ready \<rparr>)
      | Some lane \<Rightarrow> if dl_closing lane then (True, s\<lparr> sv_ready := ready \<rparr>)
                     else client_can_accept_event (dl_client lane) (s\<lparr> sv_ready := ready \<rparr>)) = (b, t)" by fastforce
    from select_look[OF Suc.prems(1) Cons look] obtain u where u: "t = u\<lparr> sv_ready := ready \<rparr>" "service_ok u"
      "events_only s u" by blast
    have k: "keeps s u"
    proof (rule keeps_events[OF u(3)])
      assume e: "sv_clients s = []"
      then have "client_can_accept_event c (s\<lparr> sv_ready := ready \<rparr>) = (True, s\<lparr> sv_ready := ready \<rparr>)" for c
        by (simp add: client_can_accept_event_def)
      then have "sv_clients t = []" using look e by (auto split: option.splits if_splits)
      then show "sv_clients u = []" using u(1) by simp
    qed
    have ru: "sv_ready u = i # ready" using events_only_fields(2)[OF u(3)] Cons by simp
    have step: "select_lane (Suc n) s = (if b then (Some i, t) else select_lane n (t\<lparr> sv_ready := sv_ready t @ [i] \<rparr>))"
      using Cons look by (simp add: Let_def)
    show ?thesis
    proof (cases b)
      case True
      then have "s' = u\<lparr> sv_ready := ready \<rparr>" using step Suc.prems(2) u(1) by auto
      then show ?thesis using keeps_trans[OF k ready_keeps(1)] by blast
    next
      case False
      have v: "service_ok (u\<lparr> sv_ready := ready @ [i] \<rparr>)" by (rule ready_permuted_ok[OF u(2)]) (simp add: ru)
      have "select_lane n (u\<lparr> sv_ready := ready @ [i] \<rparr>) = (r, s')" using False step Suc.prems(2) u(1) by simp
      from Suc.IH[OF v this] show ?thesis using keeps_trans[OF keeps_trans[OF k ready_keeps(1)]] by blast
    qed
  qed
qed

lemma send_event_keeps: "keeps s (send_event c i generation kind s)"
  by (rule keeps_events[OF send_event_events]) (simp add: send_event_def)

lemma store_keeps: "keeps s (s\<lparr> sv_store := x \<rparr>)"
  by (auto simp: keeps_def quiet_def)

lemma run_keeps:
  "run_load ops i g p n lane s = (lane', s') \<Longrightarrow> keeps s s'"
  "run_save ops i g p identity expected annotations lane s = (lane', s') \<Longrightarrow> keeps s s'"
proof -
  show "run_load ops i g p n lane s = (lane', s') \<Longrightarrow> keeps s s'"
    using run_load_lane(5)[of ops i g p n lane s lane' s'] send_event_keeps by metis
  show "run_save ops i g p identity expected annotations lane s = (lane', s') \<Longrightarrow> keeps s s'"
    using run_save_lane(5)[of ops i g p identity expected annotations lane s lane' s']
      keeps_trans[OF store_keeps send_event_keeps] by metis
qed

lemma removed_keeps: "keeps s (s\<lparr> sv_documents := hm_remove i (sv_documents s) \<rparr>)"
  by (auto simp: keeps_def quiet_def split: if_splits)

lemma return_keeps:
  "(quiet s \<Longrightarrow> dl_closing lane) \<Longrightarrow> keeps s t \<Longrightarrow> keeps s (return_lane i (lane, t))"
  unfolding return_lane_def
  using keeps_trans[OF _ schedule_keeps] by (auto intro!: keeps_lane)

lemma process_keeps: "keeps s (process_one ops i s)"
proof (cases "map_of (sv_documents s) i")
  case None
  then show ?thesis by (simp add: process_one_def keeps_refl)
next
  case (Some lane)
  have c: "quiet s \<Longrightarrow> dl_closing lane" using Some by (auto simp: quiet_def)
  let ?t = "s\<lparr> sv_documents := hm_remove i (sv_documents s) \<rparr>"
  note t = removed_keeps[of s i]
  show ?thesis
  proof (cases "dl_operations lane")
    case Nil
    then show ?thesis using Some c t by (auto simp: process_one_def Let_def intro!: keeps_lane)
  next
    case (Cons operation operations)
    let ?l = "lane\<lparr> dl_scheduled := False, dl_operations := operations \<rparr>"
    show ?thesis
    proof (cases operation)
      case (LoadDocument g p n)
      obtain lane' u where r: "run_load ops i g p n ?l ?t = (lane', u)" by fastforce
      show ?thesis using Some Cons LoadDocument r c run_load_lane(2)[OF r] keeps_trans[OF t run_keeps(1)[OF r]]
        by (auto simp: process_one_def Let_def intro!: return_keeps)
    next
      case (SaveDocument g p identity expected annotations)
      obtain lane' u where r: "run_save ops i g p identity expected annotations ?l ?t = (lane', u)" by fastforce
      show ?thesis using Some Cons SaveDocument r c run_save_lane(2)[OF r] keeps_trans[OF t run_keeps(2)[OF r]]
        by (auto simp: process_one_def Let_def intro!: return_keeps)
    next
      case Detach
      then show ?thesis using Some Cons keeps_trans[OF t remove_client_keeps] by (simp add: process_one_def Let_def)
    qed
  qed
qed

section \<open>The mailbox\<close>

lemma fold_field: "(\<And>x s. g (f x s) = g s) \<Longrightarrow> g (fold f xs s) = g s"
  by (induction xs arbitrary: s) simp_all

lemma ingest_fields:
  "sv_mailbox (ingest command s) = sv_mailbox s" "sv_alive (ingest command s) = sv_alive s"
  "sv_mailbox_open (ingest command s) = sv_mailbox_open s"
  "command \<noteq> Shutdown \<Longrightarrow> sv_shutting_down (ingest command s) = sv_shutting_down s"
proof -
  have f: "sv_alive (fold (\<lambda>(i, lane) s. if dl_closing lane then s else close_lane i lane s) xs t) = sv_alive t \<and>
      sv_mailbox_open (fold (\<lambda>(i, lane) s. if dl_closing lane then s else close_lane i lane s) xs t) = sv_mailbox_open t \<and>
      sv_mailbox (fold (\<lambda>(i, lane) s. if dl_closing lane then s else close_lane i lane s) xs t) = sv_mailbox t"
    for xs :: "(document_id \<times> document_lane) list" and t :: "'a service"
    by (intro conjI; rule fold_field) (simp_all add: close_lane_def split: prod.split)
  have "sv_mailbox (ingest command s) = sv_mailbox s \<and> sv_alive (ingest command s) = sv_alive s \<and>
    sv_mailbox_open (ingest command s) = sv_mailbox_open s"
  proof (cases "command = Shutdown")
    case True
    then show ?thesis
      using f[of "sv_documents s" "s\<lparr> sv_shutting_down := True, sv_clients := [] \<rparr>"] by (simp add: ingest_def Let_def)
  next
    case False
    then show ?thesis by (cases command; simp add: ingest_def split: option.split)
  qed
  then show "sv_mailbox (ingest command s) = sv_mailbox s" "sv_alive (ingest command s) = sv_alive s"
    "sv_mailbox_open (ingest command s) = sv_mailbox_open s" by auto
  show "command \<noteq> Shutdown \<Longrightarrow> sv_shutting_down (ingest command s) = sv_shutting_down s"
    by (cases command; simp add: ingest_def Let_def split: option.split)
qed

lemma ingest_shutdown_quiet:
  assumes ok: "hm_ok (sv_documents s)" and m: "sv_mailbox s = []"
  shows "quiet (ingest Shutdown s)"
proof -
  let ?f = "\<lambda>(i, lane) s. if dl_closing lane then s else close_lane i lane s"
  let ?g = "s\<lparr> sv_shutting_down := True, sv_clients := [] \<rparr>"
  have "distinct (map fst xs) \<Longrightarrow> (\<forall>(i, lane) \<in> set xs. map_of (sv_documents t) i = Some lane) \<Longrightarrow>
      (\<forall>d lane. map_of (sv_documents (fold ?f xs t)) d = Some lane \<longrightarrow> dl_closing lane \<or> d \<notin> fst ` set xs \<and> map_of (sv_documents t) d = Some lane) \<and>
      sv_mailbox (fold ?f xs t) = sv_mailbox t \<and> sv_shutting_down (fold ?f xs t) = sv_shutting_down t \<and>
      sv_clients (fold ?f xs t) = sv_clients t" for xs and t :: "'a service"
  proof (induction xs arbitrary: t)
    case (Cons x xs)
    obtain i lane where x: "x = (i, lane)" by fastforce
    let ?t = "?f x t"
    have others: "\<And>j. j \<noteq> i \<Longrightarrow> map_of (sv_documents ?t) j = map_of (sv_documents t) j"
      by (simp add: x close_lane_def)
    have own: "\<And>l. map_of (sv_documents ?t) i = Some l \<Longrightarrow> dl_closing l"
      using Cons.prems(2) by (auto simp: x close_lane_def split: if_splits)
    have "\<forall>(j, l) \<in> set xs. map_of (sv_documents ?t) j = Some l"
      using Cons.prems(1,2) others by (force simp: x)
    from Cons.IH[OF _ this] Cons.prems(1)
    have ih: "\<And>d l. map_of (sv_documents (fold ?f xs ?t)) d = Some l \<Longrightarrow> dl_closing l \<or> d \<notin> fst ` set xs \<and> map_of (sv_documents ?t) d = Some l"
      "sv_mailbox (fold ?f xs ?t) = sv_mailbox ?t" "sv_shutting_down (fold ?f xs ?t) = sv_shutting_down ?t"
      "sv_clients (fold ?f xs ?t) = sv_clients ?t" by (simp_all add: x)
    have f: "sv_mailbox ?t = sv_mailbox t" "sv_shutting_down ?t = sv_shutting_down t" "sv_clients ?t = sv_clients t"
      by (simp_all add: x close_lane_def)
    have e: "fold ?f (x # xs) t = fold ?f xs ?t" by simp
    show ?case unfolding e
    proof (intro conjI allI impI)
      fix d l
      assume d: "map_of (sv_documents (fold ?f xs ?t)) d = Some l"
      show "dl_closing l \<or> d \<notin> fst ` set (x # xs) \<and> map_of (sv_documents t) d = Some l"
      proof (cases "d = i")
        case True
        then show ?thesis using ih(1)[OF d] own by blast
      next
        case False
        then show ?thesis using ih(1)[OF d] others[OF False] by (simp add: x)
      qed
    qed (simp_all only: ih f)
  qed simp
  from this[of "sv_documents s" ?g] have "(\<forall>d lane. map_of (sv_documents (fold ?f (sv_documents s) ?g)) d = Some lane \<longrightarrow>
      dl_closing lane \<or> d \<notin> fst ` set (sv_documents s) \<and> map_of (sv_documents s) d = Some lane) \<and>
      sv_mailbox (fold ?f (sv_documents s) ?g) = [] \<and> sv_shutting_down (fold ?f (sv_documents s) ?g) \<and>
      sv_clients (fold ?f (sv_documents s) ?g) = []"
    using ok m by (auto simp: hm_ok_def)
  moreover have "map_of (sv_documents s) d = Some lane \<Longrightarrow> d \<in> fst ` set (sv_documents s)" for d lane
    by (metis domI dom_map_of_conv_image_fst)
  ultimately show ?thesis unfolding quiet_def by (simp add: ingest_def Let_def) blast
qed

lemma fold_ingest_fields:
  "sv_mailbox (fold ingest commands s) = sv_mailbox s" "sv_alive (fold ingest commands s) = sv_alive s"
  "sv_mailbox_open (fold ingest commands s) = sv_mailbox_open s"
  "Shutdown \<notin> set commands \<Longrightarrow> sv_shutting_down (fold ingest commands s) = sv_shutting_down s"
  by (induction commands arbitrary: s) (auto simp: ingest_fields)

text \<open>Once the mailbox is drained, the end has come or not.\<close>

lemma drain_ending:
  assumes ok: "service_ok s" and e: "ending_ok s"
  shows "sv_mailbox (drain_mailbox s) = []" "sv_alive (drain_mailbox s) = sv_alive s"
    "if sv_alive s then \<not> sv_shutting_down (drain_mailbox s) \<and> sv_mailbox_open (drain_mailbox s) else quiet (drain_mailbox s)"
proof -
  let ?d = "fold ingest (sv_mailbox s) (s\<lparr> sv_mailbox := [] \<rparr>)"
  have "sv_mailbox (drain_mailbox s) = [] \<and> sv_alive (drain_mailbox s) = sv_alive s \<and>
    (if sv_alive s then \<not> sv_shutting_down (drain_mailbox s) \<and> sv_mailbox_open (drain_mailbox s) else quiet (drain_mailbox s))"
  proof (cases "sv_alive s")
    case True
    then show ?thesis using e
      by (auto simp: ending_ok_def drain_mailbox_def Let_def fold_ingest_fields)
  next
    case False
    show ?thesis
    proof (cases "quiet s")
      case True
      then show ?thesis using False by (auto simp: drain_mailbox_def Let_def quiet_def)
    next
      case nq: False
      then obtain xs where xs: "sv_mailbox s = xs @ [Shutdown]" "Shutdown \<notin> set xs" "sv_mailbox_open s"
        using e False by (auto simp: ending_ok_def)
      let ?p = "fold ingest xs (s\<lparr> sv_mailbox := [] \<rparr>)"
      have d: "?d = ingest Shutdown ?p" using xs by simp
      have "service_ok (fold ingest xs (s\<lparr> sv_mailbox := [] \<rparr>))"
      proof -
        have "service_ok (s\<lparr> sv_mailbox := xs \<rparr>)"
        proof -
          have "client_of (s\<lparr> sv_mailbox := xs \<rparr>) = client_of s" by (simp add: client_of_def fun_eq_iff)
          then have "ids_ok (s\<lparr> sv_mailbox := xs \<rparr>) = ids_ok s" by (simp add: ids_ok_def xs(1))
          moreover have "lanes_ok (s\<lparr> sv_mailbox := xs \<rparr>) = lanes_ok s" "clients_ok (s\<lparr> sv_mailbox := xs \<rparr>) = clients_ok s"
            by (simp_all add: lanes_ok_def clients_ok_def)
          ultimately show ?thesis using ok by (simp add: service_ok_def)
        qed
        then show ?thesis by (rule fold_ingest_ok)
      qed
      then have "quiet ?d" unfolding d
        by (intro ingest_shutdown_quiet) (auto simp: service_ok_def lanes_ok_def fold_ingest_fields)
      then show ?thesis using False xs
        by (simp add: drain_mailbox_def Let_def fold_ingest_fields ingest_fields quiet_def)
    qed
  qed
  then show "sv_mailbox (drain_mailbox s) = []" "sv_alive (drain_mailbox s) = sv_alive s"
    "if sv_alive s then \<not> sv_shutting_down (drain_mailbox s) \<and> sv_mailbox_open (drain_mailbox s) else quiet (drain_mailbox s)"
    by auto
qed

section \<open>Every step keeps it\<close>

lemma receive_ending:
  assumes ok: "service_ok s" and e: "ending_ok s" and r: "receive s = Some t"
  shows "ending_ok t"
proof (cases "sv_mailbox s")
  case Nil
  then have t: "t = s\<lparr> sv_mailbox_open := False \<rparr>" and dead: "\<not> sv_alive s"
    using r by (auto simp: receive_def split: if_splits)
  then have "quiet s" using e Nil by (auto simp: ending_ok_def)
  then show ?thesis using t dead by (auto simp: ending_ok_def quiet_def)
next
  case (Cons command rest)
  then have t: "t = ingest command (s\<lparr> sv_mailbox := rest \<rparr>)" using r by (simp add: receive_def)
  show ?thesis
  proof (cases "sv_alive s")
    case True
    then show ?thesis using e Cons t by (auto simp: ending_ok_def ingest_fields)
  next
    case dead: False
    then obtain xs where xs: "sv_mailbox s = xs @ [Shutdown]" "Shutdown \<notin> set xs" "\<not> sv_shutting_down s" "sv_mailbox_open s"
      using e Cons by (auto simp: ending_ok_def quiet_def)
    show ?thesis
    proof (cases xs)
      case Nil
      then have c: "command = Shutdown" "rest = []" using xs(1) Cons by auto
      have "quiet t" unfolding t c using ok
        by (intro ingest_shutdown_quiet) (auto simp: service_ok_def lanes_ok_def)
      then show ?thesis using dead by (simp add: ending_ok_def t ingest_fields)
    next
      case c: (Cons x ys)
      then have "command = x" "rest = ys @ [Shutdown]" using xs(1) \<open>sv_mailbox s = command # rest\<close> by auto
      then show ?thesis using xs c dead by (auto simp: ending_ok_def t ingest_fields)
    qed
  qed
qed

lemma drain_ending_ok: "service_ok s \<Longrightarrow> ending_ok s \<Longrightarrow> ending_ok (drain_mailbox s)"
  using drain_ending[of s] by (auto simp: ending_ok_def)

lemma late_ending:
  "ending_ok s \<Longrightarrow> Shutdown \<notin> set late \<Longrightarrow> sv_alive s \<or> late = [] \<Longrightarrow> ending_ok (s\<lparr> sv_mailbox := sv_mailbox s @ late \<rparr>)"
  by (auto simp: ending_ok_def quiet_def)

definition before_selection :: "'s service \<Rightarrow> 's service" where
  "before_selection s = rotate_last_served (flush_all_clients (reap_detached (drain_mailbox s)))"

lemma before_selection_ok: "service_ok s \<Longrightarrow> service_ok (before_selection s)"
  unfolding before_selection_def
  by (intro rotate_ok conjunct1[OF flush_all_ok] reap_detached_ok drain_mailbox_ok)

lemma before_selection_keeps: "service_ok s \<Longrightarrow> keeps (drain_mailbox s) (before_selection s)"
  unfolding before_selection_def
  by (rule keeps_trans[OF keeps_trans[OF reap_keeps flush_all_keeps] rotate_keeps])
     (intro reap_detached_ok drain_mailbox_ok)

lemma turn_cases:
  assumes "turn ops late s = (flow, s')"
  obtains (waiting) "flow = Waiting" "s' = s" "sv_alive s" "\<not> sv_shutting_down s"
  | (served) s1 i s3 where "s1 = s \<or> receive s = Some s1"
      "select_lane (length (sv_ready (before_selection s1))) (before_selection s1) = (Some i, s3)" "flow = Next"
      "s' = (process_one ops i (s3\<lparr> sv_ready_set := sv_ready_set s3 - {i} \<rparr>))\<lparr> sv_last_served := Some i \<rparr>"
      "sv_shutting_down s \<longrightarrow> s1 = s"
  | (idle) s1 s3 where "s1 = s \<or> receive s = Some s1"
      "select_lane (length (sv_ready (before_selection s1))) (before_selection s1) = (None, s3)" "flow = Next"
      "sv_mailbox_open s3" "\<not> sv_shutting_down s3"
      "s' = s3\<lparr> sv_mailbox := sv_mailbox s3 @ late \<rparr> \<or> receive (s3\<lparr> sv_mailbox := sv_mailbox s3 @ late \<rparr>) = Some s'"
  | (answered) s1 s3 where "s1 = s \<or> receive s = Some s1"
      "select_lane (length (sv_ready (before_selection s1))) (before_selection s1) = (None, s3)"
      "s' = s3 \<or> s' = answer_inspections s3" "flow = (if sv_shutting_down s3 \<or> \<not> sv_mailbox_open s3 then Finished else Next)"
      "\<not> ((sv_ready s3 \<noteq> [] \<or> any_pending s3) \<and> sv_mailbox_open s3 \<and> \<not> sv_shutting_down s3)"
proof (cases "if sv_ready s = [] \<and> sv_inspections s = [] \<and> \<not> any_pending s \<and> \<not> sv_shutting_down s \<and> sv_mailbox_open s
            then receive s else Some s")
  case None
  then show ?thesis using assms waiting by (auto simp: turn_def receive_def split: if_splits list.splits)
next
  case (Some s1)
  have s1: "s1 = s \<or> receive s = Some s1" "sv_shutting_down s \<longrightarrow> s1 = s" using Some by (auto split: if_splits)
  obtain r s3 where sel: "select_lane (length (sv_ready (before_selection s1))) (before_selection s1) = (r, s3)" by fastforce
  show ?thesis
  proof (cases r)
    case (Some i)
    then show ?thesis using assms sel \<open>_ = Some s1\<close> served[OF s1(1) _ _ _ s1(2)] unfolding before_selection_def by (auto simp: turn_def Let_def)
  next
    case None
    have sh: "sv_shutting_down (answer_inspections s3) = sv_shutting_down s3" "sv_mailbox_open (answer_inspections s3) = sv_mailbox_open s3"
      by (simp_all add: answer_inspections_def Let_def)
    show ?thesis
    proof (cases "(sv_ready s3 \<noteq> [] \<or> any_pending s3) \<and> sv_mailbox_open s3 \<and> \<not> sv_shutting_down s3")
      case True
      then have "(flow, s') = (Next, case receive (s3\<lparr> sv_mailbox := sv_mailbox s3 @ late \<rparr>) of Some s \<Rightarrow> s
          | None \<Rightarrow> s3\<lparr> sv_mailbox := sv_mailbox s3 @ late \<rparr>)"
        using assms sel None \<open>_ = Some s1\<close> unfolding before_selection_def by (simp add: turn_def Let_def)
      then show ?thesis using idle[OF s1(1) sel[unfolded None]] True by (auto split: option.splits)
    next
      case False
      let ?u = "if sv_inspections s3 \<noteq> [] then answer_inspections s3 else s3"
      have u: "sv_shutting_down ?u = sv_shutting_down s3" "sv_mailbox_open ?u = sv_mailbox_open s3" using sh by simp_all
      have "(flow, s') = (if sv_shutting_down ?u \<or> \<not> sv_mailbox_open ?u then Finished else Next, ?u)"
        using assms sel None \<open>_ = Some s1\<close> False unfolding before_selection_def
        by (simp only: turn_def Let_def option.case prod.case if_False)
      then have "flow = (if sv_shutting_down s3 \<or> \<not> sv_mailbox_open s3 then Finished else Next)" "s' = ?u"
        unfolding u by blast+
      then have "s' = s3 \<or> s' = answer_inspections s3"
        "flow = (if sv_shutting_down s3 \<or> \<not> sv_mailbox_open s3 then Finished else Next)" by (simp_all split: if_splits)
      then show ?thesis using answered[OF s1(1) sel[unfolded None] _ _ False] by blast
    qed
  qed
qed

lemma turn_ending:
  assumes ok: "service_ok s" and e: "ending_ok s" and late: "Shutdown \<notin> set late" "sv_alive s \<or> late = []"
    and t: "turn ops late s = (flow, s')"
  shows "ending_ok s'"
proof -
  have alive: "receive s = Some s1 \<Longrightarrow> sv_alive s1 = sv_alive s" for s1
    by (auto simp: receive_def ingest_fields split: list.splits if_splits)
  have main: "service_ok s3 \<or> r \<noteq> None" "ending_ok s3" "sv_alive s3 = sv_alive s"
    if s1: "s1 = s \<or> receive s = Some s1"
      and sel: "select_lane (length (sv_ready (before_selection s1))) (before_selection s1) = (r, s3)" for s1 r s3
  proof -
    have ok1: "service_ok s1" and e1: "ending_ok s1" and a1: "sv_alive s1 = sv_alive s"
      using s1 ok e receive_ok[OF ok] receive_ending[OF ok e] alive by auto
    have k: "keeps (drain_mailbox s1) s3"
      by (rule keeps_trans[OF before_selection_keeps[OF ok1] select_keeps[OF before_selection_ok[OF ok1] sel]])
    show "ending_ok s3" by (rule keeps_ending[OF k drain_ending_ok[OF ok1 e1]])
    show "sv_alive s3 = sv_alive s" using k drain_ending(2)[OF ok1 e1] a1 by (simp add: keeps_def)
    show "service_ok s3 \<or> r \<noteq> None" using select_lane_ok[OF before_selection_ok[OF ok1] sel] by (cases r) auto
  qed
  from t show ?thesis
  proof (cases rule: turn_cases)
    case waiting
    then show ?thesis using e by simp
  next
    case (served s1 i s3)
    note m = main[OF served(1,2)]
    have "keeps s3 s'" unfolding served(4)
      by (rule keeps_trans[OF keeps_trans[OF ready_keeps(2) process_keeps] ready_keeps(3)])
    then show ?thesis using keeps_ending m(2) by blast
  next
    case (idle s1 s3)
    note m = main[OF idle(1,2)]
    let ?l = "s3\<lparr> sv_mailbox := sv_mailbox s3 @ late \<rparr>"
    have l: "ending_ok ?l" using late m by (intro late_ending) auto
    show ?thesis
    proof (cases "sv_alive s")
      case False
      then have "\<not> sv_alive s3" "quiet s3 \<or> sv_mailbox s3 \<noteq> []" using m by (auto simp: ending_ok_def)
      have ok1: "service_ok s1" and e1: "ending_ok s1" using idle(1) ok e receive_ok[OF ok] receive_ending[OF ok e] by auto
      have "quiet (drain_mailbox s1)" using drain_ending[OF ok1 e1] alive idle(1) False by auto
      then have "quiet s3"
        using keeps_trans[OF before_selection_keeps[OF ok1] select_keeps[OF before_selection_ok[OF ok1] idle(2)]]
        by (simp add: keeps_def)
      then show ?thesis using idle(5) by (simp add: quiet_def)
    next
      case True
      have "sv_alive ?l" using m True by simp
      have "ending_ok t" if "receive ?l = Some t" for t
      proof (cases "sv_mailbox ?l")
        case Nil
        then show ?thesis using that \<open>sv_alive ?l\<close> by (simp add: receive_def)
      next
        case (Cons command rest)
        then show ?thesis using that l \<open>sv_alive ?l\<close> by (auto simp: receive_def ending_ok_def ingest_fields)
      qed
      then show ?thesis using idle(6) l by blast
    qed
  next
    case (answered s1 s3)
    note m = main[OF answered(1,2)]
    show ?thesis using answered(3) m(2) keeps_ending[OF ready_keeps(4)] by blast
  qed
qed

lemma service_step_ending: "service_step ops others s s' \<Longrightarrow> service_ok s \<Longrightarrow> ending_ok s \<Longrightarrow> ending_ok s'"
proof (induction rule: service_step.induct)
  case (turn late s flow s')
  then show ?case using turn_ending by blast
next
  case (attach s events lease r s')
  then show ?case
    by (auto simp: service_attach_def Let_def ending_ok_def split: option.splits prod.splits if_splits)
next
  case (submit command s)
  then show ?case by (auto simp: submit_def ending_ok_def)
next
  case (drop_client s lease)
  then show ?case by (auto simp: drop_client_def submit_def ending_ok_def quiet_def)
next
  case (drop_service s s')
  then show ?case by (auto simp: drop_service_def ending_ok_def split: if_splits)
qed (auto simp: ending_ok_def quiet_def)

lemma service_reachable_ending: "service_reachable ops others s \<Longrightarrow> ending_ok s"
proof (induction rule: service_reachable.induct)
  case (start channels store)
  show ?case by (simp add: ending_ok_def service_new_def)
next
  case (step s s')
  then show ?case using service_step_ending service_reachable_ok by blast
qed

section \<open>What is left to do\<close>

definition pending_operations :: "(document_id, document_lane) hash_map \<Rightarrow> nat" where
  "pending_operations m = sum_list (map (\<lambda>(i, lane). length (dl_operations lane)) m)"

lemma pending_remove:
  "distinct (map fst m) \<Longrightarrow> map_of m i = Some lane \<Longrightarrow>
   pending_operations (hm_remove i m) + length (dl_operations lane) = pending_operations m"
proof (induction m)
  case (Cons x m)
  obtain j l where x: "x = (j, l)" by fastforce
  show ?case
  proof (cases "j = i")
    case True
    then have "i \<notin> fst ` set m" using Cons.prems(1) x by auto
    then have "AList.delete i m = m" by (simp add: delete_idem)
    then show ?thesis using Cons.prems True by (simp add: x pending_operations_def hm_remove_def)
  next
    case False
    then show ?thesis using Cons by (simp add: x pending_operations_def hm_remove_def)
  qed
qed simp

lemma update_new: "map_of m i = None \<Longrightarrow> AList.update i v m = m @ [(i, v)]"
  by (induction m) auto

lemma pending_insert:
  "map_of m i = None \<Longrightarrow> pending_operations (hm_insert i lane m) = pending_operations m + length (dl_operations lane)"
  by (simp add: hm_insert_def update_new pending_operations_def)

lemma send_event_nobody: "sv_clients s = [] \<Longrightarrow> send_event c i g kind s = s"
  by (simp add: send_event_def)

lemma process_pending:
  assumes hm: "distinct (map fst (sv_documents s))" and nobody: "sv_clients s = []" and lane: "map_of (sv_documents s) i = Some lane"
    and ops: "dl_operations lane \<noteq> []"
  shows "Suc (pending_operations (sv_documents (process_one so i s))) = pending_operations (sv_documents s) \<or>
    (Detach \<in> set (butlast (dl_operations lane)))"
proof -
  obtain operation operations where o: "dl_operations lane = operation # operations" using ops by (cases "dl_operations lane") auto
  have rem: "pending_operations (hm_remove i (sv_documents s)) + Suc (length operations) = pending_operations (sv_documents s)"
    using pending_remove[OF hm lane] o by simp
  let ?l = "lane\<lparr> dl_scheduled := False, dl_operations := operations \<rparr>"
  let ?t = "s\<lparr> sv_documents := hm_remove i (sv_documents s) \<rparr>"
  have back': "Suc (pending_operations (sv_documents (return_lane i (lane', u)))) = pending_operations (sv_documents s)"
    if "dl_operations lane' = operations" "sv_documents u = sv_documents ?t" for lane' u
    using that rem by (auto simp: return_lane_def pending_insert)
  show ?thesis
  proof (cases operation)
    case (LoadDocument g p n)
    obtain lane' u where r: "run_load so i g p n ?l ?t = (lane', u)" by fastforce
    have "u = ?t" using run_load_lane(5)[OF r] nobody by (auto simp: send_event_nobody)
    then show ?thesis using back'[of lane' u] run_load_lane(3)[OF r] r lane o LoadDocument
      by (simp add: process_one_def Let_def)
  next
    case (SaveDocument g p identity expected annotations)
    obtain lane' u where r: "run_save so i g p identity expected annotations ?l ?t = (lane', u)" by fastforce
    have "sv_documents u = sv_documents ?t" using run_save_lane(5)[OF r] nobody by (auto simp: send_event_nobody)
    then show ?thesis using back'[of lane' u] run_save_lane(3)[OF r] r lane o SaveDocument
      by (simp add: process_one_def Let_def)
  next
    case Detach
    show ?thesis
    proof (cases operations)
      case Nil
      then show ?thesis using rem lane o Detach by (simp add: process_one_def Let_def)
    qed (use o Detach in simp)
  qed
qed

section \<open>Turns after the end\<close>

lemma select_quiet:
  assumes "quiet t" "service_ok t" "select_lane (length (sv_ready t)) t = (r, s3)"
  shows "(case sv_ready t of [] \<Rightarrow> r = None \<and> s3 = t | i # ready \<Rightarrow> r = Some i \<and> s3 = t\<lparr> sv_ready := ready \<rparr>)"
proof (cases "sv_ready t")
  case Nil
  then show ?thesis using assms(3) by simp
next
  case (Cons i ready)
  then obtain lane where "map_of (sv_documents t) i = Some lane" using assms(2) by (auto simp: service_ok_def lanes_ok_def)
  then show ?thesis using assms(1,3) Cons by (auto simp: quiet_def Let_def)
qed

lemma quiet_not_ready_done:
  assumes "quiet t" "service_ok t" "sv_ready t = []"
  shows "sv_documents t = []"
proof (rule ccontr)
  assume "sv_documents t \<noteq> []"
  then obtain x xs where "sv_documents t = x # xs" by (cases "sv_documents t") auto
  then have "map_of (sv_documents t) (fst x) = Some (snd x)" by simp
  then show False using assms by (auto simp: quiet_def service_ok_def lanes_ok_def lane_ok_def)
qed

text \<open>Nothing is left to prepare for: the documents wait as they are.\<close>

lemma reap_quiet: "(\<forall>(i, lane) \<in> set xs. dl_closing lane) \<Longrightarrow>
  fold (\<lambda>(i, lane) s. if sv_detached s (dl_lease lane) \<and> \<not> dl_closing lane
                        then close_lane i lane (remove_client (dl_client lane) s) else s) xs s = s"
  by (induction xs) auto

lemma before_selection_quiet:
  assumes "quiet s" "service_ok s"
  shows "sv_documents (before_selection s) = sv_documents s"
proof -
  have d: "sv_documents (drain_mailbox s) = sv_documents s" "sv_clients (drain_mailbox s) = []"
    using assms(1) by (simp_all add: drain_mailbox_def quiet_def Let_def)
  have hm: "distinct (map fst (sv_documents s))" using assms(2) by (simp add: service_ok_def lanes_ok_def hm_ok_def)
  have "\<forall>(i, lane) \<in> set (sv_documents s). dl_closing lane"
    using assms(1) map_of_is_SomeI[OF hm] by (auto simp: quiet_def)
  then have "reap_detached (drain_mailbox s) = drain_mailbox s"
    unfolding reap_detached_def d(1) by (rule reap_quiet)
  then show ?thesis using d by (simp add: before_selection_def flush_all_clients_def rotate_last_served_def)
qed

lemma dead_turn:
  assumes ok: "service_ok s" and e: "ending_ok s" and dead: "\<not> sv_alive s" and t: "turn ops [] s = (flow, s')"
  shows "(flow = Finished \<and> sv_documents s' = [] \<and> sv_clients s' = []) \<or>
    (flow = Next \<and> quiet s' \<and> \<not> sv_alive s' \<and> service_ok s' \<and> ending_ok s' \<and>
     (quiet s \<longrightarrow> pending_operations (sv_documents s') < pending_operations (sv_documents s)))"
proof -
  have ok': "service_ok s'" and e': "ending_ok s'" using turn_ok[OF ok _ t] turn_ending[OF ok e _ _ t] by auto
  have prep: "service_ok (before_selection s1)" "quiet (before_selection s1)" "\<not> sv_alive (before_selection s1)"
    if "s1 = s \<or> receive s = Some s1" for s1
  proof -
    have ok1: "service_ok s1" and e1: "ending_ok s1" and d1: "\<not> sv_alive s1"
      using that ok e dead receive_ok[OF ok] receive_ending[OF ok e]
      by (auto simp: receive_def ingest_fields split: list.splits if_splits)
    show "service_ok (before_selection s1)" by (rule before_selection_ok[OF ok1])
    note k = before_selection_keeps[OF ok1]
    show "quiet (before_selection s1)" using k drain_ending(3)[OF ok1 e1] d1 by (simp add: keeps_def)
    show "\<not> sv_alive (before_selection s1)" using k drain_ending(2)[OF ok1 e1] d1 by (simp add: keeps_def)
  qed
  from t show ?thesis
  proof (cases rule: turn_cases)
    case waiting
    then show ?thesis using dead by simp
  next
    case (idle s1 s3)
    note p = prep[OF idle(1)]
    have "s3 = before_selection s1" using select_quiet[OF p(2,1) idle(2)] by (auto split: list.splits)
    then show ?thesis using p(2) idle(5) by (simp add: quiet_def)
  next
    case (answered s1 s3)
    note p = prep[OF answered(1)]
    have s3: "s3 = before_selection s1" "sv_ready (before_selection s1) = []"
      using select_quiet[OF p(2,1) answered(2)] by (auto split: list.splits)
    then have "sv_documents s3 = []" "sv_clients s3 = []" "sv_shutting_down s3"
      using quiet_not_ready_done[OF p(2,1)] p(2) by (auto simp: quiet_def)
    then show ?thesis using answered(3,4) by (auto simp: answer_inspections_def Let_def)
  next
    case (served s1 i s3)
    let ?b = "before_selection s1"
    note p = prep[OF served(1)]
    obtain ready where r: "sv_ready ?b = i # ready" "s3 = ?b\<lparr> sv_ready := ready \<rparr>"
      using select_quiet[OF p(2,1) served(2)] by (auto split: list.splits)
    have k: "keeps ?b s'" unfolding served(4) r(2)
      by (rule keeps_trans[OF keeps_trans[OF keeps_trans[OF ready_keeps(1) ready_keeps(2)] process_keeps] ready_keeps(3)])
    have q: "quiet s'" "\<not> sv_alive s'" using k p by (simp_all add: keeps_def)
    have less: "pending_operations (sv_documents s') < pending_operations (sv_documents s)" if qs: "quiet s"
    proof -
      have s1: "s1 = s" using served(5) qs by (simp add: quiet_def)
      let ?u = "s3\<lparr> sv_ready_set := sv_ready_set s3 - {i} \<rparr>"
      have docs: "sv_documents ?u = sv_documents s" "sv_clients ?u = []"
        using before_selection_quiet[OF qs ok] p(2) by (simp_all add: r(2) s1 quiet_def)
      have lok: "lanes_ok ?b" using p(1) by (simp add: service_ok_def)
      then obtain lane where lane: "map_of (sv_documents ?b) i = Some lane" using r(1) by (auto simp: lanes_ok_def)
      then have "lane_ok lane" "dl_closing lane" using lok p(2) by (auto simp: lanes_ok_def quiet_def)
      then have l: "dl_operations lane \<noteq> []" "Detach \<notin> set (butlast (dl_operations lane))" by (simp_all add: lane_ok_def)
      have "map_of (sv_documents ?u) i = Some lane" using lane by (simp add: r(2))
      moreover have "distinct (map fst (sv_documents ?u))" using lok by (simp add: r(2) lanes_ok_def hm_ok_def)
      ultimately have "Suc (pending_operations (sv_documents (process_one ops i ?u))) = pending_operations (sv_documents ?u)"
        using process_pending[of ?u i lane ops] docs(2) l by blast
      then show ?thesis using docs(1) by (simp add: served(4))
    qed
    show ?thesis using q ok' e' served(3) less by blast
  qed
qed

end
