(* ===== verification/SidecarJson.thy ===== *)
theory SidecarJson
  imports SidecarStore
begin

text \<open>
  The JSON sidecar store of \<open>crates/key-sidecar-store/src/json.rs\<close>: the stored form of a snapshot and its
  digests, encoding and decoding, reading, the atomic replacement and the save protocol. \<open>serde_json\<close> is a
  parameter (\<open>json_codec\<close>). The file system is a map from paths to contents; where a call can fail, the
  operation receives the faults of its calls. A missing file is the only cause of \<open>NotFound\<close> and an
  existing one the only cause of \<open>AlreadyExists\<close>.
\<close>

section \<open>Constants\<close>

definition SIDECAR_SCHEMA_VERSION :: u32 where
  "SIDECAR_SCHEMA_VERSION = 2"

definition LEGACY_SIDECAR_SCHEMA_VERSION :: u32 where
  "LEGACY_SIDECAR_SCHEMA_VERSION = 1"

definition MAX_SIDECAR_BYTES :: nat where
  "MAX_SIDECAR_BYTES = 4 * 1024 * 1024"

definition SIDECAR_SUFFIX :: string where
  "SIDECAR_SUFFIX = ''.gpui-pdf-reader.json''"

definition MAX_TEMP_FILE_ATTEMPTS :: nat where
  "MAX_TEMP_FILE_ATTEMPTS = 32"

section \<open>Paths\<close>

text \<open>Unix paths on their bytes: the last component, after trailing separators and \<open>.\<close> components, on the
  reversed path; \<open>file_name\<close> is \<open>None\<close> for the root, \<open>.\<close> and \<open>..\<close>.\<close>

fun trim_back :: "string \<Rightarrow> string" where
  "trim_back (c # d # r) =
     (if c = CHR ''/'' then trim_back (d # r)
      else if c = CHR ''.'' \<and> d = CHR ''/'' then trim_back (d # r)
      else c # d # r)"
| "trim_back r = r"

definition file_name :: "path \<Rightarrow> string option" where
  "file_name p =
     (let component = rev (takeWhile (\<lambda>c. c \<noteq> CHR ''/'') (trim_back (rev p))) in
      if component = [] \<or> component = ''.'' \<or> component = ''..'' then None else Some component)"

definition parent_of :: "path \<Rightarrow> path" where
  "parent_of p = rev (trim_back (dropWhile (\<lambda>c. c \<noteq> CHR ''/'') (trim_back (rev p))))"

definition push_component :: "path \<Rightarrow> string \<Rightarrow> path" where
  "push_component base name =
     (if base = [] then name else if hd (rev base) = CHR ''/'' then base @ name else base @ ''/'' @ name)"

definition with_file_name :: "path \<Rightarrow> string \<Rightarrow> path" where
  "with_file_name p name = (if file_name p = None then push_component p name else push_component (parent_of p) name)"

definition sidecar_path :: "path \<Rightarrow> (store_error, path) rust_result" where
  "sidecar_path pdf_path =
     (case file_name pdf_path of None \<Rightarrow> Inl MissingSourceFileName
      | Some name \<Rightarrow> Inr (with_file_name pdf_path (name @ SIDECAR_SUFFIX)))"

section \<open>Digests in hexadecimal\<close>

definition hex2 :: "u8 \<Rightarrow> string" where
  "hex2 b = [digit_char (unat b div 16), digit_char (unat b mod 16)]"

definition encode_digest :: "u8 list \<Rightarrow> string" where
  "encode_digest digest = fold (\<lambda>b encoded. encoded @ hex2 b) digest []"

text \<open>\<open>u8::from_str_radix\<close> of a two-byte slice: a leading plus sign is accepted before a digit.\<close>

definition u8_from_hex :: "string \<Rightarrow> u8 option" where
  "u8_from_hex s =
     (let digits = (case s of c # d # r \<Rightarrow> if c = CHR ''+'' then d # r else s | _ \<Rightarrow> s) in
      case parse_digits 16 digits of None \<Rightarrow> None | Some n \<Rightarrow> if n < 256 then Some (word_of_int n) else None)"

fun decode_pairs :: "string \<Rightarrow> (store_error, u8 list) rust_result" where
  "decode_pairs (a # b # rest) =
     (case u8_from_hex [a, b] of None \<Rightarrow> Inl InvalidDocumentIdentity
      | Some first \<Rightarrow> and_then (decode_pairs rest) (\<lambda>bytes. Inr (first # bytes)))"
| "decode_pairs _ = Inr []"

definition decode_digest :: "string \<Rightarrow> (store_error, u8 list) rust_result" where
  "decode_digest encoded =
     (if length encoded \<noteq> 64 \<or> \<not> list_all is_ascii encoded then Inl InvalidDocumentIdentity
      else decode_pairs encoded)"

section \<open>The stored form\<close>

record stored_identity =
  si_byte_len :: u64
  si_seconds :: i64
  si_nanos :: u32
  si_page_count :: u64
  si_sha256 :: "string option"

record stored_position =
  sp_page :: u64
  sp_index :: u64

record stored_annotation =
  sa_id :: u64
  sa_start :: stored_position
  sa_end :: stored_position
  sa_highlight :: "highlight_color option"
  sa_comment :: "string option"
  sa_created :: u64
  sa_updated :: u64

record stored_sidecar =
  ss_schema :: u32
  ss_document :: stored_identity
  ss_revision :: u64
  ss_annotations :: "stored_annotation list"

text \<open>\<open>u64::try_from\<close> of a \<open>usize\<close>; the way back never fails where \<open>usize\<close> has 64 bits.\<close>

definition u64_from :: "nat \<Rightarrow> u64 option" where
  "u64_from n = (if n < 2 ^ 64 then Some (word_of_nat n) else None)"

definition store_identity :: "document_identity \<Rightarrow> (store_error, stored_identity) rust_result" where
  "store_identity i =
     (case u64_from (di_page_count i) of None \<Rightarrow> Inl InvalidDocumentIdentity
      | Some pages \<Rightarrow>
          (case di_sha256 i of None \<Rightarrow> Inl InvalidDocumentIdentity
           | Some digest \<Rightarrow>
               Inr \<lparr> si_byte_len = di_byte_len i, si_seconds = di_seconds i, si_nanos = di_nanos i,
                     si_page_count = pages, si_sha256 = Some (encode_digest digest) \<rparr>))"

definition into_identity :: "bool \<Rightarrow> stored_identity \<Rightarrow> (store_error, document_identity) rust_result" where
  "into_identity require_digest s =
     and_then (case si_sha256 s of None \<Rightarrow> Inr None
               | Some encoded \<Rightarrow> and_then (decode_digest encoded) (\<lambda>digest. Inr (Some digest)))
       (\<lambda>digest.
         if require_digest \<and> digest = None then Inl InvalidDocumentIdentity
         else case digest of
                Some d \<Rightarrow> identity_new_with_sha256 (si_byte_len s) (si_seconds s) (si_nanos s) (unat (si_page_count s)) d
              | None \<Rightarrow> identity_new (si_byte_len s) (si_seconds s) (si_nanos s) (unat (si_page_count s)))"

definition store_position :: "text_position \<Rightarrow> (store_error, stored_position) rust_result" where
  "store_position p =
     (case u64_from (tp_page p) of None \<Rightarrow> Inl InvalidStoredTextPosition
      | Some page \<Rightarrow>
          (case u64_from (tp_index p) of None \<Rightarrow> Inl InvalidStoredTextPosition
           | Some index \<Rightarrow> Inr \<lparr> sp_page = page, sp_index = index \<rparr>))"

definition restore_position :: "stored_position \<Rightarrow> text_position" where
  "restore_position p = TextPosition (unat (sp_page p)) (unat (sp_index p))"

definition store_annotation :: "annotation \<Rightarrow> (store_error, stored_annotation) rust_result" where
  "store_annotation a =
     and_then (store_position (range_start (an_range a))) (\<lambda>start.
     and_then (store_position (range_end (an_range a))) (\<lambda>finish.
       Inr \<lparr> sa_id = an_id a, sa_start = start, sa_end = finish, sa_highlight = an_highlight a,
             sa_comment = an_comment a, sa_created = an_created a, sa_updated = an_updated a \<rparr>))"

definition restore_stored :: "stored_annotation \<Rightarrow> (store_error, restored_annotation) rust_result" where
  "restore_stored a =
     (case range_restore (restore_position (sa_start a)) (restore_position (sa_end a)) of
        Inl e \<Rightarrow> Inl (AnnotationInvalid e)
      | Inr r \<Rightarrow> Inr \<lparr> ra_id = sa_id a, ra_range = r, ra_highlight = sa_highlight a, ra_comment = sa_comment a,
                       ra_created = sa_created a, ra_updated = sa_updated a \<rparr>)"

text \<open>\<open>collect\<close> into a \<open>Result\<close>: the first error, or all the values.\<close>

fun collect_results :: "('a \<Rightarrow> ('e, 'b) rust_result) \<Rightarrow> 'a list \<Rightarrow> ('e, 'b list) rust_result" where
  "collect_results f [] = Inr []"
| "collect_results f (x # xs) = and_then (f x) (\<lambda>y. and_then (collect_results f xs) (\<lambda>ys. Inr (y # ys)))"

definition stored_from_parts :: "document_identity \<Rightarrow> annotation_set \<Rightarrow> (store_error, stored_sidecar) rust_result" where
  "stored_from_parts identity annotations =
     and_then (store_identity identity) (\<lambda>document.
     and_then (collect_results store_annotation (as_records annotations)) (\<lambda>stored.
       Inr \<lparr> ss_schema = SIDECAR_SCHEMA_VERSION, ss_document = document,
             ss_revision = as_revision annotations, ss_annotations = stored \<rparr>))"

section \<open>Encoding and decoding\<close>

definition validate_snapshot :: "document_identity \<Rightarrow> annotation_set \<Rightarrow> (store_error, unit) rust_result" where
  "validate_snapshot identity annotations =
     (if di_page_count identity \<noteq> as_page_count annotations
      then Inl (PageCountMismatch (di_page_count identity) (as_page_count annotations))
      else (case as_validate annotations of Inl e \<Rightarrow> Inl (AnnotationInvalid e) | Inr _ \<Rightarrow> Inr ()))"

text \<open>What the store uses of \<open>serde_json\<close>: printing a sidecar, reading the schema version only, reading a
  sidecar. An error is its text.\<close>

record json_codec =
  jc_print :: "stored_sidecar \<Rightarrow> (string, u8 list) rust_result"
  jc_probe :: "u8 list \<Rightarrow> (string, u32) rust_result"
  jc_parse :: "u8 list \<Rightarrow> (string, stored_sidecar) rust_result"

definition json_error :: "path \<Rightarrow> (string, 'a) rust_result \<Rightarrow> (store_error, 'a) rust_result" where
  "json_error p r = (case r of Inl source \<Rightarrow> Inl (Json p source) | Inr x \<Rightarrow> Inr x)"

definition encode_sidecar :: "json_codec \<Rightarrow> document_identity \<Rightarrow> annotation_set \<Rightarrow> (store_error, u8 list) rust_result" where
  "encode_sidecar json identity annotations =
     and_then (validate_snapshot identity annotations) (\<lambda>_.
     and_then (stored_from_parts identity annotations) (\<lambda>stored.
     and_then (json_error ''<memory>'' (jc_print json stored)) (\<lambda>bytes.
       if MAX_SIDECAR_BYTES < length bytes
       then Inl (SidecarTooLarge (word_of_nat (length bytes)) MAX_SIDECAR_BYTES) else Inr bytes)))"

definition ensure_identity :: "document_identity \<Rightarrow> document_identity \<Rightarrow> (store_error, unit) rust_result" where
  "ensure_identity expected found =
     (if same_revision expected found then Inr () else Inl (Conflict (DocumentIdentityMismatch expected found)))"

definition decode_sidecar :: "json_codec \<Rightarrow> path \<Rightarrow> u8 list \<Rightarrow> document_identity \<Rightarrow> (store_error, annotation_set) rust_result" where
  "decode_sidecar json p bytes expected =
     and_then (json_error p (jc_probe json bytes)) (\<lambda>version.
       if version \<noteq> LEGACY_SIDECAR_SCHEMA_VERSION \<and> version \<noteq> SIDECAR_SCHEMA_VERSION
       then Inl (UnsupportedSchemaVersion version SIDECAR_SCHEMA_VERSION)
       else
         and_then (json_error p (jc_parse json bytes)) (\<lambda>stored.
         and_then (into_identity (ss_schema stored = SIDECAR_SCHEMA_VERSION) (ss_document stored)) (\<lambda>identity.
         and_then (ensure_identity expected identity) (\<lambda>_.
         and_then (collect_results restore_stored (ss_annotations stored)) (\<lambda>records.
           (case as_restore (di_page_count identity) (ss_revision stored) records of
              Inl e \<Rightarrow> Inl (AnnotationInvalid e) | Inr annotations \<Rightarrow> Inr annotations))))))"

section \<open>The file system\<close>

record sidecar_world =
  sw_files :: "path \<rightharpoonup> u8 list"
  sw_sequence :: u64

text \<open>The faults of the calls that read a sidecar, each with its error text; \<open>None\<close> where the call works.\<close>

record read_faults =
  rf_metadata :: "string option"
  rf_open :: "string option"
  rf_read :: "string option"

definition file_call :: "string option \<Rightarrow> path \<Rightarrow> sidecar_world \<Rightarrow> u8 list io" where
  "file_call fault p w =
     (case sw_files w p of None \<Rightarrow> Inl (IoSource NotFound ''No such file or directory (os error 2)'')
      | Some bytes \<Rightarrow> (case fault of None \<Rightarrow> Inr bytes | Some e \<Rightarrow> Inl (IoSource OtherKind e)))"

definition load_at :: "json_codec \<Rightarrow> read_faults \<Rightarrow> path \<Rightarrow> document_identity \<Rightarrow> sidecar_world \<Rightarrow>
    (store_error, annotation_set) rust_result" where
  "load_at json f p expected w =
     and_then (io_error ''read annotation sidecar metadata'' p (file_call (rf_metadata f) p w)) (\<lambda>m.
       if MAX_SIDECAR_BYTES < length m
       then Inl (SidecarTooLarge (word_of_nat (length m)) MAX_SIDECAR_BYTES)
       else
         and_then (io_error ''open annotation sidecar'' p (file_call (rf_open f) p w)) (\<lambda>_.
         and_then (io_error ''read annotation sidecar'' p (file_call (rf_read f) p w)) (\<lambda>content.
           (let bytes = take (MAX_SIDECAR_BYTES + 1) content in
            if MAX_SIDECAR_BYTES < length bytes
            then Inl (SidecarTooLarge (word_of_nat (length bytes)) MAX_SIDECAR_BYTES)
            else decode_sidecar json p bytes expected))))"

definition load_or_empty :: "json_codec \<Rightarrow> read_faults \<Rightarrow> path \<Rightarrow> document_identity \<Rightarrow> sidecar_world \<Rightarrow>
    (store_error, annotation_set) rust_result" where
  "load_or_empty json f p expected w =
     (case load_at json f p expected w of
        Inl (Io _ _ source) \<Rightarrow>
          if io_kind_of source = NotFound then Inr (annotation_set_new (di_page_count expected))
          else load_at json f p expected w
      | result \<Rightarrow> result)"

section \<open>The atomic replacement\<close>

text \<open>The faults of \<open>atomic_write\<close>: of each attempt to create a temporary file, of writing (after some bytes),
  of renaming, and whether the removal in the guard's destructor fails.\<close>

record write_faults =
  wf_create :: "nat \<Rightarrow> string option"
  wf_write :: "(nat \<times> string) option"
  wf_rename :: "string option"
  wf_remove :: bool

definition temporary_path :: "nat \<Rightarrow> path \<Rightarrow> sidecar_world \<Rightarrow> (store_error, path) rust_result \<times> sidecar_world" where
  "temporary_path pid target w =
     (case file_name target of None \<Rightarrow> (Inl MissingSourceFileName, w)
      | Some name \<Rightarrow>
          (Inr (with_file_name target (name @ ''.tmp-'' @ show_nat pid @ ''-'' @ show_nat (unat (sw_sequence w)))),
           w\<lparr> sw_sequence := sw_sequence w + 1 \<rparr>))"

text \<open>The search for an unused name: the turns left, the number of this attempt, the last collision.\<close>

fun create_temporary :: "nat \<Rightarrow> nat \<Rightarrow> io_source option \<Rightarrow> nat \<Rightarrow> write_faults \<Rightarrow> path \<Rightarrow> sidecar_world \<Rightarrow>
    (store_error, path) rust_result \<times> sidecar_world" where
  "create_temporary 0 attempt last_collision pid f target w =
     (Inl (Io ''allocate annotation sidecar temporary file'' target
        (case last_collision of Some e \<Rightarrow> e
         | None \<Rightarrow> IoSource AlreadyExists ''could not allocate a unique annotation sidecar temporary file'')), w)"
| "create_temporary (Suc turns) attempt last_collision pid f target w =
     (case temporary_path pid target w of
        (Inl e, w) \<Rightarrow> (Inl e, w)
      | (Inr candidate, w) \<Rightarrow>
          (if sw_files w candidate \<noteq> None
           then create_temporary turns (Suc attempt) (Some (IoSource AlreadyExists ''File exists (os error 17)'')) pid f target w
           else (case wf_create f attempt of
                   Some e \<Rightarrow> (Inl (Io ''create annotation sidecar temporary file'' candidate (IoSource OtherKind e)), w)
                 | None \<Rightarrow> (Inr candidate, w\<lparr> sw_files := (sw_files w)(candidate \<mapsto> []) \<rparr>))))"

text \<open>The destructor of \<open>TemporaryFileGuard\<close> while it is armed.\<close>

definition drop_guard :: "write_faults \<Rightarrow> path \<Rightarrow> sidecar_world \<Rightarrow> sidecar_world" where
  "drop_guard f p w = (if wf_remove f then w else w\<lparr> sw_files := (sw_files w)(p := None) \<rparr>)"

text \<open>The result, and the states of the file system after each call that changes it, in order: what a
  reader, or the machine after a crash, may find. The last one is the final state.\<close>

definition atomic_write :: "nat \<Rightarrow> write_faults \<Rightarrow> path \<Rightarrow> u8 list \<Rightarrow> sidecar_world \<Rightarrow>
    (store_error, unit) rust_result \<times> sidecar_world list" where
  "atomic_write pid f target bytes w =
     (if MAX_SIDECAR_BYTES < length bytes
      then (Inl (SidecarTooLarge (word_of_nat (length bytes)) MAX_SIDECAR_BYTES), [w])
      else
        (case create_temporary MAX_TEMP_FILE_ATTEMPTS 0 None pid f target w of
           (Inl e, w) \<Rightarrow> (Inl e, [w])
         | (Inr temp, w) \<Rightarrow>
             (case wf_write f of
                Some (n, e) \<Rightarrow>
                  (let w' = w\<lparr> sw_files := (sw_files w)(temp \<mapsto> take n bytes) \<rparr>
                   in (Inl (Io ''write annotation sidecar temporary file'' temp (IoSource OtherKind e)),
                       [w, w', drop_guard f temp w']))
              | None \<Rightarrow>
                  (let w' = w\<lparr> sw_files := (sw_files w)(temp \<mapsto> bytes) \<rparr> in
                   case wf_rename f of
                     Some e \<Rightarrow>
                       (Inl (Io ''atomically replace annotation sidecar'' target (IoSource OtherKind e)),
                        [w, w', drop_guard f temp w'])
                   | None \<Rightarrow> (Inr (), [w, w', w'\<lparr> sw_files := (sw_files w')(temp := None, target \<mapsto> bytes) \<rparr>])))))"

section \<open>The save protocol\<close>

text \<open>What the operating system answers when the identity of an open PDF is checked again.\<close>

record pdf_answers =
  pa_metadata :: "metadata io"
  pa_file :: file_answers

definition revalidate_file :: "(u8 list \<Rightarrow> u8 list) \<Rightarrow> pdf_answers \<Rightarrow> document_key \<Rightarrow> (store_error, unit) rust_result" where
  "revalidate_file sha256 a document =
     and_then (from_file_metadata (pa_metadata a) (dk_path document) (di_page_count (dk_identity document))) (\<lambda>m.
       if same_metadata_revision (dk_identity document) m then Inr ()
       else
         and_then (from_file sha256 (pa_file a) (dk_path document) (di_page_count (dk_identity document))) (\<lambda>content.
           ensure_identity (dk_identity document) content))"

definition revalidate_document_path :: "(u8 list \<Rightarrow> u8 list) \<Rightarrow> unit io \<times> pdf_answers \<Rightarrow> document_key \<Rightarrow>
    (store_error, unit) rust_result" where
  "revalidate_document_path sha256 a document =
     and_then (io_error ''open PDF for annotation validation'' (dk_path document) (fst a)) (\<lambda>_.
       revalidate_file sha256 (snd a) document)"

definition revalidate_locked_document :: "(u8 list \<Rightarrow> u8 list) \<Rightarrow> pdf_answers \<Rightarrow> unit io \<times> pdf_answers \<Rightarrow> document_key \<Rightarrow>
    (store_error, unit) rust_result" where
  "revalidate_locked_document sha256 locked current document =
     and_then (revalidate_file sha256 locked document) (\<lambda>_. revalidate_document_path sha256 current document)"

text \<open>Everything the surroundings contribute to one load and to one save.\<close>

record load_env =
  le_path :: "unit io \<times> pdf_answers"
  le_read :: read_faults

record save_env =
  se_pid :: nat
  se_open :: "unit io"
  se_lock :: "unit io"
  se_locked1 :: pdf_answers
  se_path1 :: "unit io \<times> pdf_answers"
  se_read :: read_faults
  se_locked2 :: pdf_answers
  se_path2 :: "unit io \<times> pdf_answers"
  se_write :: write_faults

definition json_load :: "(u8 list \<Rightarrow> u8 list) \<Rightarrow> json_codec \<Rightarrow> load_env \<Rightarrow> document_key \<Rightarrow> sidecar_world \<Rightarrow>
    (store_error, annotation_set) rust_result" where
  "json_load sha256 json env document w =
     and_then (revalidate_document_path sha256 (le_path env) document) (\<lambda>_.
     and_then (sidecar_path (dk_path document)) (\<lambda>p.
       load_or_empty json (le_read env) p (dk_identity document) w))"

text \<open>The part of \<open>compare_and_save\<close> before the file system changes: the sidecar path, the bytes to write and
  the revision they replace.\<close>

definition prepare_save :: "(u8 list \<Rightarrow> u8 list) \<Rightarrow> json_codec \<Rightarrow> save_env \<Rightarrow> document_key \<Rightarrow> u64 \<Rightarrow> annotation_set \<Rightarrow>
    sidecar_world \<Rightarrow> (store_error, path \<times> u8 list \<times> u64) rust_result" where
  "prepare_save sha256 json env document expected annotations w =
     and_then (validate_snapshot (dk_identity document) annotations) (\<lambda>_.
     and_then (sidecar_path (dk_path document)) (\<lambda>sidecar.
     and_then (io_error ''open PDF for annotation lock'' (dk_path document) (se_open env)) (\<lambda>_.
     and_then (io_error ''lock PDF for annotation save'' (dk_path document) (se_lock env)) (\<lambda>_.
     and_then (revalidate_locked_document sha256 (se_locked1 env) (se_path1 env) document) (\<lambda>_.
     and_then (load_or_empty json (se_read env) sidecar (dk_identity document) w) (\<lambda>current.
       if as_revision current \<noteq> expected
       then Inl (Conflict (RevisionMismatch expected (as_revision current)))
       else if as_revision annotations < as_revision current
       then Inl (RevisionRegression (as_revision current) (as_revision annotations))
       else if as_revision annotations = as_revision current \<and> annotations \<noteq> current
       then Inl (RevisionNotAdvanced (as_revision current) (as_revision annotations))
       else
         and_then (encode_sidecar json (dk_identity document) annotations) (\<lambda>bytes.
         and_then (revalidate_locked_document sha256 (se_locked2 env) (se_path2 env) document) (\<lambda>_.
           Inr (sidecar, bytes, as_revision current)))))))))"

definition json_save_trace :: "(u8 list \<Rightarrow> u8 list) \<Rightarrow> json_codec \<Rightarrow> save_env \<Rightarrow> document_key \<Rightarrow> u64 \<Rightarrow> annotation_set \<Rightarrow>
    sidecar_world \<Rightarrow> (store_error, save_receipt) rust_result \<times> sidecar_world list" where
  "json_save_trace sha256 json env document expected annotations w =
     (case prepare_save sha256 json env document expected annotations w of
        Inl e \<Rightarrow> (Inl e, [w])
      | Inr (sidecar, bytes, current) \<Rightarrow>
          (case atomic_write (se_pid env) (se_write env) sidecar bytes w of
             (Inl e, ws) \<Rightarrow> (Inl e, ws)
           | (Inr _, ws) \<Rightarrow> (Inr \<lparr> sr_previous = current, sr_saved = as_revision annotations \<rparr>, ws)))"

definition json_compare_and_save :: "(u8 list \<Rightarrow> u8 list) \<Rightarrow> json_codec \<Rightarrow> save_env \<Rightarrow> document_key \<Rightarrow> u64 \<Rightarrow> annotation_set \<Rightarrow>
    sidecar_world \<Rightarrow> (store_error, save_receipt) rust_result \<times> sidecar_world" where
  "json_compare_and_save sha256 json env document expected annotations w =
     map_prod id last (json_save_trace sha256 json env document expected annotations w)"

end
