(* ===== verification/AnnotationLemmas.thy ===== *)
theory AnnotationLemmas
  imports Annotations
begin

text \<open>
  The invariant of annotation sets of \<open>crates/key-pdf-core/src/annotations.rs\<close> and the lemmas about its
  operations: what validation accepts, the records as a finite map, and the queries over the order.
\<close>

section \<open>What validation accepts\<close>

definition record_ok :: "nat \<Rightarrow> u64 \<Rightarrow> annotation \<Rightarrow> bool" where
  "record_ok page_count revision a \<longleftrightarrow>
     an_id a \<noteq> 0 \<and> validate_range (an_range a) page_count = Inr () \<and>
     validate_content (an_highlight a) (an_comment a) = Inr () \<and>
     \<not> invalid_revisions (an_created a) (an_updated a) revision"

lemma and_then_unit: "and_then r f = Inr y \<longleftrightarrow> r = (Inr () :: ('e, unit) rust_result) \<and> f () = Inr y"
  by (cases r) auto

lemma validate_range_ok:
  "validate_range r page_count = Inr () \<longleftrightarrow>
     tp_page (range_end r) < page_count \<and> tp_index (range_start r) \<le> MAX_TEXT_CHARACTER_INDEX \<and>
     tp_index (range_end r) \<le> MAX_TEXT_CHARACTER_INDEX \<and> range_start r \<le> range_end r"
  by (auto simp: validate_range_def less_eq_text_position_def less_text_position_def not_le not_less)

lemma validate_content_ok:
  "validate_content highlight comment = Inr () \<longleftrightarrow>
     (highlight \<noteq> None \<or> comment \<noteq> None) \<and>
     (\<forall>c. comment = Some c \<longrightarrow> length c \<le> MAX_COMMENT_BYTES \<and> trim c \<noteq> [])"
  by (cases comment) (auto simp: validate_content_def)

lemma validate_records_ok:
  "validate_records page_count revision ids records = Inr () \<longleftrightarrow>
     list_all (record_ok page_count revision) records \<and> distinct (map an_id records) \<and>
     an_id ` set records \<inter> ids = {}"
proof (induction records arbitrary: ids)
  case (Cons a records)
  show ?case
    by (auto simp: Cons.IH and_then_unit record_ok_def)
qed simp

section \<open>The invariant\<close>

definition as_wf :: "annotation_set \<Rightarrow> bool" where
  "as_wf s \<longleftrightarrow>
     list_all (record_ok (as_page_count s) (as_revision s)) (as_records s) \<and>
     distinct (map an_id (as_records s)) \<and> sorted (map annotation_order (as_records s)) \<and>
     (\<forall>i. as_next_id s = Some i \<longrightarrow> i \<noteq> 0 \<and> (\<forall>a \<in> set (as_records s). an_id a < i))"

lemma as_validate_ok: "as_validate s = Inr () \<longleftrightarrow>
    list_all (record_ok (as_page_count s) (as_revision s)) (as_records s) \<and> distinct (map an_id (as_records s))"
  by (auto simp: as_validate_def validate_records_ok)

lemma as_wf_new: "as_wf (annotation_set_new page_count)"
  by (simp add: as_wf_def annotation_set_new_def)

lemma as_wf_valid: "as_wf s \<Longrightarrow> as_validate s = Inr ()"
  by (simp add: as_wf_def as_validate_ok)

lemma next_revision_Inr:
  "next_revision s = Inr r \<longleftrightarrow> checked_add (as_revision s) 1 = Some r"
  by (auto simp: next_revision_def split: option.splits)

lemma record_ok_later: "record_ok n r a \<Longrightarrow> r \<le> r' \<Longrightarrow> record_ok n r' a"
  by (auto simp: record_ok_def invalid_revisions_def)

lemma next_revision_le: "checked_add (r :: u64) 1 = Some r' \<Longrightarrow> r \<le> r'"
  using checked_add_one_less by fastforce

lemma checked_one_positive: "checked_add (r :: u64) 1 = Some r' \<Longrightarrow> r' \<noteq> 0"
  using checked_add_one_less by fastforce

lemma records_later:
  "list_all (record_ok n r) records \<Longrightarrow> checked_add r 1 = Some r' \<Longrightarrow> list_all (record_ok n r') records"
  by (auto simp: list_all_iff intro: record_ok_later next_revision_le)

section \<open>Finding a record\<close>

lemma find_index_from_None: "find_index_from P n xs = None \<longleftrightarrow> (\<forall>x \<in> set xs. \<not> P x)"
  by (induction xs arbitrary: n) auto

lemma find_index_from_Some:
  "find_index_from P n xs = Some i \<Longrightarrow> n \<le> i \<and> i - n < length xs \<and> P (xs ! (i - n))"
proof (induction xs arbitrary: n)
  case (Cons x xs)
  show ?case
  proof (cases "P x")
    case False
    then have "Suc n \<le> i \<and> i - Suc n < length xs \<and> P (xs ! (i - Suc n))" using Cons by simp
    then show ?thesis by (auto simp: nth_Cons' Suc_le_eq)
  qed (use Cons in auto)
qed simp

lemma record_index_None: "record_index i records = None \<longleftrightarrow> i \<notin> an_id ` set records"
  by (auto simp: record_index_def find_index_from_None)

lemma record_index_Some:
  "record_index i records = Some k \<Longrightarrow> k < length records \<and> an_id (records ! k) = i"
  using find_index_from_Some[of "\<lambda>record. an_id record = i" 0 records k] by (simp add: record_index_def)

text \<open>With distinct identifiers the list of records is a finite map.\<close>

lemma as_get_iff:
  "distinct (map an_id (as_records s)) \<Longrightarrow> as_get s i = Some a \<longleftrightarrow> a \<in> set (as_records s) \<and> an_id a = i"
  by (auto simp: as_get_def find_Some_iff in_set_conv_nth distinct_conv_nth)

lemma as_get_None: "as_get s i = None \<longleftrightarrow> i \<notin> an_id ` set (as_records s)"
  by (auto simp: as_get_def find_None_iff)

section \<open>The operations\<close>

lemma as_add_Inr:
  assumes "as_add r highlight comment s = (Inr i, s')"
  obtains revision where "validate_range r (as_page_count s) = Inr ()" "validate_content highlight comment = Inr ()"
    "as_next_id s = Some i" "checked_add (as_revision s) 1 = Some revision"
    "s' = s\<lparr> as_records := sort_key annotation_order (as_records s @
               [\<lparr> an_id = i, an_range = r, an_highlight = highlight, an_comment = comment,
                  an_created = revision, an_updated = revision \<rparr>]),
             as_revision := revision, as_next_id := checked_add i 1 \<rparr>"
  using assms by (auto simp: as_add_def Let_def next_revision_Inr split: sum.splits option.splits)

lemma as_update_True:
  assumes "as_update i r highlight comment s = (Inr True, s')"
  obtains revision index where "validate_range r (as_page_count s) = Inr ()" "validate_content highlight comment = Inr ()"
    "index < length (as_records s)" "an_id (as_records s ! index) = i" "checked_add (as_revision s) 1 = Some revision"
    "s' = s\<lparr> as_records := sort_key annotation_order ((as_records s)[index := (as_records s ! index)\<lparr>
               an_range := r, an_highlight := highlight, an_comment := comment, an_updated := revision \<rparr>]),
             as_revision := revision \<rparr>"
  using assms by (auto simp: as_update_def Let_def next_revision_Inr dest!: record_index_Some
                   split: sum.splits option.splits if_splits)

lemma as_update_False:
  "as_update i r highlight comment s = (Inr False, s') \<Longrightarrow>
   s' = s \<and> (\<exists>a \<in> set (as_records s). an_id a = i \<and> an_range a = r \<and> an_highlight a = highlight \<and> an_comment a = comment)"
  by (auto simp: as_update_def Let_def next_revision_Inr dest!: record_index_Some
           split: sum.splits option.splits if_splits)

lemma as_delete_True:
  assumes "as_delete i s = (Inr True, s')"
  obtains revision index where "index < length (as_records s)" "an_id (as_records s ! index) = i"
    "checked_add (as_revision s) 1 = Some revision"
    "s' = s\<lparr> as_records := take index (as_records s) @ drop (Suc index) (as_records s), as_revision := revision \<rparr>"
  using assms by (auto simp: as_delete_def next_revision_Inr dest!: record_index_Some
                   split: sum.splits option.splits)

lemma as_delete_False: "as_delete i s = (Inr False, s') \<Longrightarrow> s' = s \<and> i \<notin> an_id ` set (as_records s)"
  by (auto simp: as_delete_def record_index_None split: sum.splits option.splits)

lemma as_add_Inl: "as_add r highlight comment s = (Inl e, s') \<Longrightarrow> s' = s"
  by (auto simp: as_add_def Let_def split: sum.splits option.splits)

lemma as_update_Inl: "as_update i r highlight comment s = (Inl e, s') \<Longrightarrow> s' = s"
  by (auto simp: as_update_def Let_def split: sum.splits option.splits if_splits)

lemma as_delete_Inl: "as_delete i s = (Inl e, s') \<Longrightarrow> s' = s"
  by (auto simp: as_delete_def split: sum.splits option.splits)

text \<open>Replacing one record of a list, and removing one.\<close>

lemma distinct_ids_update:
  "distinct (map an_id records) \<Longrightarrow> index < length records \<Longrightarrow> an_id a = an_id (records ! index) \<Longrightarrow>
   distinct (map an_id (records[index := a]))"
  by (metis list_update_id map_update nth_map)

lemma set_around:
  "distinct (map f (xs @ y # zs)) \<Longrightarrow> set (xs @ zs) = {x \<in> set (xs @ y # zs). f x \<noteq> f y}"
  by (auto simp: image_iff)

lemma set_remove_distinct:
  assumes "distinct (map f xs)" "n < length xs"
  shows "set (take n xs @ drop (Suc n) xs) = {x \<in> set xs. f x \<noteq> f (xs ! n)}"
proof -
  have xs: "take n xs @ xs ! n # drop (Suc n) xs = xs" using id_take_nth_drop[OF assms(2)] by (rule sym)
  show ?thesis using set_around[where xs="take n xs" and y="xs ! n" and zs="drop (Suc n) xs" and f=f] assms(1)
    unfolding xs by simp
qed

lemma set_update_distinct:
  "distinct (map f xs) \<Longrightarrow> n < length xs \<Longrightarrow> set (xs[n := y]) = insert y {x \<in> set xs. f x \<noteq> f (xs ! n)}"
  using set_remove_distinct[of f xs n] by (simp add: upd_conv_take_nth_drop)

lemma sorted_remove: "sorted (map f xs) \<Longrightarrow> sorted (map f (take n xs @ drop (Suc n) xs))"
proof (cases "n < length xs")
  case True
  assume "sorted (map f xs)"
  then have "sorted (map f (take n xs @ xs ! n # drop (Suc n) xs))" using id_take_nth_drop[OF True] by simp
  then show ?thesis by (auto simp: sorted_append)
qed simp

lemma distinct_remove: "distinct (map f xs) \<Longrightarrow> distinct (map f (take n xs @ drop (Suc n) xs))"
proof (cases "n < length xs")
  case True
  assume "distinct (map f xs)"
  then have "distinct (map f (take n xs @ xs ! n # drop (Suc n) xs))" using id_take_nth_drop[OF True] by simp
  then show ?thesis by auto
qed simp

section \<open>The invariant is kept\<close>

lemma sorted_sort: "sorted (map f (sort_key f xs))"
  by simp

lemma wf_records_sorted:
  "list_all (record_ok n r) records \<Longrightarrow> list_all (record_ok n r) (sort_key annotation_order records)"
  by (simp add: list_all_iff)

lemma distinct_map_sort: "distinct (map g (sort_key f xs)) \<longleftrightarrow> distinct (map g xs)"
proof -
  have "mset (map g (sort_key f xs)) = mset (map g xs)" by simp
  then show ?thesis by (metis mset_eq_imp_distinct_iff)
qed

lemma fresh_id: "as_wf s \<Longrightarrow> as_next_id s = Some i \<Longrightarrow> i \<noteq> 0 \<and> i \<notin> an_id ` set (as_records s)"
  by (auto simp: as_wf_def)

lemma as_wf_add:
  assumes wf: "as_wf s" and add: "as_add r highlight comment s = (Inr i, s')"
  shows "as_wf s'"
proof -
  obtain revision where c: "validate_range r (as_page_count s) = Inr ()" "validate_content highlight comment = Inr ()"
    "as_next_id s = Some i" and rev: "checked_add (as_revision s) 1 = Some revision"
    and s': "s' = s\<lparr> as_records := sort_key annotation_order (as_records s @
               [\<lparr> an_id = i, an_range = r, an_highlight = highlight, an_comment = comment,
                  an_created = revision, an_updated = revision \<rparr>]),
             as_revision := revision, as_next_id := checked_add i 1 \<rparr>"
    using as_add_Inr[OF add] .
  have "list_all (record_ok (as_page_count s) revision) (as_records s)"
    using wf rev by (auto simp: as_wf_def intro: records_later)
  moreover note fresh_id[OF wf c(3)]
  moreover have "\<And>j a. checked_add i 1 = Some j \<Longrightarrow> a \<in> set (as_records s) \<Longrightarrow> an_id a < j"
    using wf c(3) checked_add_one_less[of i] by (fastforce simp: as_wf_def)
  ultimately show ?thesis
    using wf c checked_one_positive[OF rev] unfolding s'
    by (auto simp: as_wf_def list_all_iff record_ok_def invalid_revisions_def distinct_map_sort
             dest: checked_one_positive checked_add_one_less)
qed

lemma as_wf_update:
  assumes wf: "as_wf s" and upd: "as_update i r highlight comment s = (Inr True, s')"
  shows "as_wf s'"
proof -
  obtain revision index where c: "validate_range r (as_page_count s) = Inr ()" "validate_content highlight comment = Inr ()"
    and i: "index < length (as_records s)" "an_id (as_records s ! index) = i"
    and rev: "checked_add (as_revision s) 1 = Some revision"
    and s': "s' = s\<lparr> as_records := sort_key annotation_order ((as_records s)[index := (as_records s ! index)\<lparr>
               an_range := r, an_highlight := highlight, an_comment := comment, an_updated := revision \<rparr>]),
             as_revision := revision \<rparr>"
    using as_update_True[OF upd] .
  let ?a = "(as_records s ! index)\<lparr> an_range := r, an_highlight := highlight, an_comment := comment, an_updated := revision \<rparr>"
  have d: "distinct (map an_id (as_records s))" using wf by (simp add: as_wf_def)
  have old: "list_all (record_ok (as_page_count s) revision) (as_records s)"
    using wf rev by (auto simp: as_wf_def intro: records_later)
  then have "record_ok (as_page_count s) revision (as_records s ! index)" using i(1) by (simp add: list_all_length)
  then have new: "record_ok (as_page_count s) revision ?a"
    using c by (auto simp: record_ok_def invalid_revisions_def)
  have records: "set ((as_records s)[index := ?a]) = insert ?a {a \<in> set (as_records s). an_id a \<noteq> i}"
    using set_update_distinct[OF d i(1)] i(2) by simp
  have "distinct (map an_id ((as_records s)[index := ?a]))" using distinct_ids_update[OF d i(1)] by simp
  moreover have "an_id ` set ((as_records s)[index := ?a]) \<subseteq> an_id ` set (as_records s)"
    unfolding records using nth_mem[OF i(1)] by auto
  ultimately show ?thesis
    using wf old new records unfolding s'
    by (auto simp: as_wf_def list_all_iff distinct_map_sort image_subset_iff)
qed

lemma as_wf_delete:
  assumes wf: "as_wf s" and del: "as_delete i s = (Inr True, s')"
  shows "as_wf s'"
proof -
  obtain revision index where i: "index < length (as_records s)" "an_id (as_records s ! index) = i"
    and rev: "checked_add (as_revision s) 1 = Some revision"
    and s': "s' = s\<lparr> as_records := take index (as_records s) @ drop (Suc index) (as_records s), as_revision := revision \<rparr>"
    using as_delete_True[OF del] .
  have "list_all (record_ok (as_page_count s) revision) (as_records s)"
    using wf rev by (auto simp: as_wf_def intro: records_later)
  then show ?thesis
    using wf sorted_remove[of annotation_order "as_records s" index] distinct_remove[of an_id "as_records s" index]
    unfolding s' by (auto simp: as_wf_def list_all_iff dest!: in_set_takeD in_set_dropD simp del: map_append)
qed

section \<open>Restoring\<close>

lemma restore_records_Inr:
  "restore_records n r ids m out records = Inr (out', m') \<longleftrightarrow>
     validate_records n r ids (map to_annotation records) = Inr () \<and>
     out' = out @ map to_annotation records \<and> m' = fold (\<lambda>record m. max m (ra_id record)) records m"
  by (induction n r ids m out records rule: restore_records.induct)
     (auto simp: and_then_unit to_annotation_def)

lemma fold_max_ge:
  "m \<le> fold (\<lambda>record m. max m (ra_id record)) records m \<and>
   (\<forall>record \<in> set records. ra_id record \<le> fold (\<lambda>record m. max m (ra_id record)) records (m :: u64))"
proof (induction records arbitrary: m)
  case (Cons x records)
  show ?case using Cons.IH[of "max m (ra_id x)"] by auto
qed simp

lemma as_restore_Inr:
  "as_restore n r records = Inr s \<longleftrightarrow>
     validate_records n r {} (map to_annotation records) = Inr () \<and>
     s = \<lparr> as_page_count = n, as_records = sort_key annotation_order (map to_annotation records),
           as_next_id = checked_add (fold (\<lambda>record m. max m (ra_id record)) records 0) 1, as_revision = r \<rparr>"
  by (auto simp: as_restore_def and_then_Inr restore_records_Inr)

lemma as_wf_restore:
  assumes "as_restore n r records = Inr s"
  shows "as_wf s"
proof -
  have "\<And>i record. checked_add (fold (\<lambda>record m. max m (ra_id record)) records 0) 1 = Some i \<Longrightarrow>
      record \<in> set records \<Longrightarrow> ra_id record < i"
    using fold_max_ge[where m=0 and records=records] checked_add_one_less by (meson le_less_trans)
  then show ?thesis using assms
    by (auto simp: as_restore_Inr as_wf_def validate_records_ok distinct_map_sort list_all_iff to_annotation_def
             dest: checked_one_positive)
qed

lemma to_annotation_restored [simp]: "to_annotation (restored_from a) = a"
  by (simp add: to_annotation_def restored_from_def)

lemma restored_set:
  "as_wf s \<Longrightarrow> as_restore (as_page_count s) (as_revision s) (map restored_from (as_records s)) =
     Inr \<lparr> as_page_count = as_page_count s, as_records = as_records s,
           as_next_id = checked_add (fold (\<lambda>record m. max m (ra_id record)) (map restored_from (as_records s)) 0) 1,
           as_revision = as_revision s \<rparr>"
  using as_wf_valid[of s] sort_key_id_if_sorted[of annotation_order "as_records s"]
  by (simp add: as_restore_Inr comp_def as_validate_def as_wf_def)

end
