(* ===== verification/SidecarLemmas.thy ===== *)
theory SidecarLemmas
  imports SidecarJson AnnotationLemmas
begin

text \<open>
  Lemmas about the JSON sidecar store (\<open>crates/key-sidecar-store/src/json.rs\<close>): names of temporary files,
  the states of the file system during an atomic replacement, digests, and the round trip of a snapshot
  through its stored form.
\<close>

section \<open>File names\<close>

lemma trim_back_keep:
  "c \<noteq> CHR ''/'' \<Longrightarrow> \<not> (c = CHR ''.'' \<and> (\<exists>u. r = CHR ''/'' # u)) \<Longrightarrow> trim_back (c # r) = c # r"
  by (cases r) auto

lemma file_name_push:
  assumes "n \<noteq> []" "n \<noteq> ''.''" "n \<noteq> ''..''" "CHR ''/'' \<notin> set n"
  shows "file_name (push_component base n) = Some n"
proof -
  obtain rest where base: "push_component base n = rev rest @ n" and rest: "rest = [] \<or> hd rest = CHR ''/''"
  proof (cases "base = [] \<or> hd (rev base) = CHR ''/''")
    case True
    then show ?thesis using that[of "rev base"] by (auto simp: push_component_def)
  next
    case False
    then show ?thesis using that[of "CHR ''/'' # rev base"] by (simp add: push_component_def)
  qed
  obtain c r where n: "rev n = c # r" using assms(1) by (cases "rev n") auto
  have c: "c \<noteq> CHR ''/''" using assms(4) n by (metis list.set_intros(1) set_rev)
  have dot: "\<not> (c = CHR ''.'' \<and> (\<exists>u. r @ rest = CHR ''/'' # u))"
  proof
    assume d: "c = CHR ''.'' \<and> (\<exists>u. r @ rest = CHR ''/'' # u)"
    have "r \<noteq> []" using assms(2) n d by (metis rev_singleton_conv)
    then have "CHR ''/'' \<in> set (rev n)" using d n by (cases r) auto
    then show False using assms(4) by simp
  qed
  have "trim_back (rev (push_component base n)) = rev n @ rest"
    using trim_back_keep[OF c dot] by (simp add: base n)
  moreover have "takeWhile (\<lambda>c. c \<noteq> CHR ''/'') (rev n @ rest) = rev n"
    using assms(4) rest by (cases rest) (auto simp: takeWhile_append)
  ultimately show ?thesis using assms by (simp add: file_name_def)
qed

lemma file_name_component:
  "file_name p = Some n \<Longrightarrow> n \<noteq> [] \<and> n \<noteq> ''.'' \<and> n \<noteq> ''..'' \<and> CHR ''/'' \<notin> set n"
  by (auto simp: file_name_def Let_def split: if_splits dest: set_takeWhileD)

lemma digit_char_not_slash: "d < 36 \<Longrightarrow> digit_char d \<noteq> CHR ''/''"
  by (auto simp: digit_char_def dest!: arg_cong[where f="of_char :: char \<Rightarrow> int"])

lemma show_nat_not_slash: "CHR ''/'' \<notin> set (show_nat n)"
proof -
  have "CHR ''/'' \<notin> set (radix_digits 10 n)"
  proof (induction "10 :: nat" n rule: radix_digits.induct)
    case (1 n)
    have "n mod 10 < 36" by (rule less_trans[of _ 10]) simp_all
    then have "digit_char (n mod 10) \<noteq> CHR ''/''" by (rule digit_char_not_slash)
    then show ?case
      using 1 digit_char_not_slash[of n] by (subst radix_digits.simps) auto
  qed
  then show ?thesis by (simp add: show_nat_def)
qed

lemma temporary_path_differs:
  assumes "temporary_path pid target w = (Inr temp, w')"
  shows "temp \<noteq> target \<and> sw_files w' = sw_files w"
proof -
  obtain name where name: "file_name target = Some name"
    and temp: "temp = with_file_name target (name @ ''.tmp-'' @ show_nat pid @ ''-'' @ show_nat (unat (sw_sequence w)))"
    and w': "sw_files w' = sw_files w"
    using assms by (auto simp: temporary_path_def split: option.splits)
  let ?n = "name @ ''.tmp-'' @ show_nat pid @ ''-'' @ show_nat (unat (sw_sequence w))"
  have "file_name temp = Some ?n"
    unfolding temp with_file_name_def
    using name file_name_component[OF name] show_nat_not_slash by (auto intro!: file_name_push)
  then show ?thesis using name w' by auto
qed

section \<open>The atomic replacement\<close>

lemma create_temporary_Inr:
  "create_temporary turns attempt collision pid f target w = (Inr temp, w') \<Longrightarrow>
   temp \<noteq> target \<and> sw_files w temp = None \<and> sw_files w' = (sw_files w)(temp \<mapsto> [])"
proof (induction turns arbitrary: attempt collision w)
  case (Suc turns)
  obtain r w1 where t: "temporary_path pid target w = (r, w1)" by fastforce
  show ?case
  proof (cases r)
    case (Inr candidate)
    note d = temporary_path_differs[OF t[unfolded Inr]]
    show ?thesis
    proof (cases "sw_files w1 candidate = None")
      case True
      then show ?thesis using Suc.prems d by (auto simp: t Inr split: option.splits)
    next
      case False
      then show ?thesis using Suc.prems Suc.IH[of _ _ w1] d by (auto simp: t Inr)
    qed
  qed (use Suc.prems in \<open>auto simp: t\<close>)
qed simp

lemma create_temporary_Inl:
  "create_temporary turns attempt collision pid f target w = (Inl e, w') \<Longrightarrow> sw_files w' = sw_files w"
proof (induction turns arbitrary: attempt collision w)
  case (Suc turns)
  obtain r w1 where t: "temporary_path pid target w = (r, w1)" by fastforce
  have w1: "sw_files w1 = sw_files w" using t by (auto simp: temporary_path_def split: option.splits)
  show ?case
    using Suc.prems Suc.IH[of _ _ w1] w1 by (auto simp: t split: sum.splits option.splits if_splits)
qed simp

text \<open>Every state a reader or a crash may find has at the target the old or the whole new content; besides
  the target only a file that did not exist before differs.\<close>

lemma atomic_write_states:
  assumes "atomic_write pid f target bytes w = (r, ws)"
  shows "ws \<noteq> [] \<and>
    (\<forall>v \<in> set ws. (sw_files v target = sw_files w target \<or> sw_files v target = Some bytes) \<and>
       (\<forall>p. p \<noteq> target \<longrightarrow> sw_files w p \<noteq> None \<longrightarrow> sw_files v p = sw_files w p)) \<and>
    (case r of Inr _ \<Rightarrow> sw_files (last ws) = (sw_files w)(target \<mapsto> bytes)
     | Inl _ \<Rightarrow> sw_files (last ws) target = sw_files w target \<and>
         (\<not> wf_remove f \<longrightarrow> sw_files (last ws) = sw_files w))"
proof (cases "MAX_SIDECAR_BYTES < length bytes")
  case True
  then show ?thesis using assms by (auto simp: atomic_write_def)
next
  case False
  obtain c w1 where c: "create_temporary MAX_TEMP_FILE_ATTEMPTS 0 None pid f target w = (c, w1)" by fastforce
  show ?thesis
  proof (cases c)
    case (Inl e)
    then show ?thesis using assms False c create_temporary_Inl[OF c[unfolded Inl]] by (auto simp: atomic_write_def)
  next
    case (Inr temp)
    note d = create_temporary_Inr[OF c[unfolded Inr]]
    show ?thesis
      using assms False c Inr d
      by (auto simp: atomic_write_def drop_guard_def Let_def fun_eq_iff split: option.splits)
  qed
qed

section \<open>Digests\<close>

lemma u8_from_hex_hex2: "u8_from_hex (hex2 b) = Some b"
proof -
  let ?h = "unat b div 16" and ?l = "unat b mod 16"
  have "unat b < 256" using unat_bound[of b] by simp
  then have h: "?h < 16" by auto
  have "to_digit 16 (digit_char ?h) = Some (int ?h)" "to_digit 16 (digit_char ?l) = Some (int ?l)"
    using to_digit_digit_char[of ?h 16] to_digit_digit_char[of ?l 16] h by simp_all
  moreover from this(1) have "digit_char ?h \<noteq> CHR ''+''"
    by (auto simp: to_digit_def is_ascii_digit_def byte_def split: if_splits)
  ultimately have "u8_from_hex (hex2 b) =
      (if int ?h * 16 + int ?l < 256 then Some (word_of_int (int ?h * 16 + int ?l)) else None)"
    by (simp add: u8_from_hex_def hex2_def parse_digits_def)
  moreover have "int ?h * 16 + int ?l = int (unat b)" by (simp add: zdiv_int zmod_int)
  ultimately show ?thesis using uint_lt2p[of b] by simp
qed

lemma decode_pairs_hex: "decode_pairs (concat (map hex2 digest)) = Inr digest"
proof (induction digest)
  case (Cons b digest)
  have "hex2 b = [hd (hex2 b), hex2 b ! 1]" by (simp add: hex2_def)
  then show ?case using Cons u8_from_hex_hex2[of b] by (simp add: hex2_def)
qed simp

lemma fold_append_hex: "fold (\<lambda>b encoded. encoded @ hex2 b) digest out = out @ concat (map hex2 digest)"
  by (induction digest arbitrary: out) simp_all

lemma digit_char_ascii: "d < 16 \<Longrightarrow> is_ascii (digit_char d)"
  by (auto simp: is_ascii_def digit_char_def byte_def)

lemma decode_encode_digest: "length digest = 32 \<Longrightarrow> decode_digest (encode_digest digest) = Inr digest"
proof -
  assume l: "length digest = 32"
  have e: "encode_digest digest = concat (map hex2 digest)" by (simp add: encode_digest_def fold_append_hex)
  have "length (concat (map hex2 digest)) = 2 * length digest" by (induction digest) (simp_all add: hex2_def)
  moreover have "list_all is_ascii (hex2 b)" for b
    using digit_char_ascii[of "unat b div 16"] digit_char_ascii[of "unat b mod 16"] unat_bound[of b]
    by (simp add: hex2_def)
  then have "list_all is_ascii (concat (map hex2 digest))" by (simp add: list_all_iff)
  ultimately show ?thesis using l by (simp add: decode_digest_def e decode_pairs_hex)
qed

section \<open>The stored form\<close>

definition identity_ok :: "document_identity \<Rightarrow> bool" where
  "identity_ok i \<longleftrightarrow> di_nanos i < 1000000000 \<and>
     (\<forall>digest. di_sha256 i = Some digest \<longrightarrow> length digest = 32)"

definition codec_ok :: "json_codec \<Rightarrow> bool" where
  "codec_ok json \<longleftrightarrow> (\<forall>x bytes. jc_print json x = Inr bytes \<longrightarrow>
     jc_probe json bytes = Inr (ss_schema x) \<and> jc_parse json bytes = Inr x)"

lemma u64_from_Some: "u64_from n = Some x \<Longrightarrow> unat x = n"
  by (auto simp: u64_from_def unat_of_nat split: if_splits)

lemma identity_round_trip:
  assumes "store_identity i = Inr s" "identity_ok i"
  shows "into_identity required s = Inr i"
  using assms
  by (cases i)
     (auto simp: store_identity_def into_identity_def identity_ok_def decode_encode_digest identity_new_def
        identity_new_with_sha256_def with_sha256_def not_le dest!: u64_from_Some split: option.splits)

lemma position_round_trip: "store_position p = Inr s \<Longrightarrow> restore_position s = p"
  by (auto simp: store_position_def restore_position_def dest!: u64_from_Some split: option.splits)

lemma annotation_round_trip:
  "store_annotation a = Inr s \<Longrightarrow> range_start (an_range a) \<le> range_end (an_range a) \<Longrightarrow> restore_stored s = Inr (restored_from a)"
  by (cases "an_range a")
     (auto simp: store_annotation_def restore_stored_def range_restore_def restored_from_def and_then_Inr
       dest!: position_round_trip)

lemma annotations_round_trip:
  "collect_results store_annotation xs = Inr ys \<Longrightarrow> \<forall>a \<in> set xs. range_start (an_range a) \<le> range_end (an_range a) \<Longrightarrow>
   collect_results restore_stored ys = Inr (map restored_from xs)"
  by (induction xs arbitrary: ys) (auto simp: and_then_Inr dest: annotation_round_trip)

section \<open>Snapshots in the file\<close>

text \<open>A stored snapshot, decoded for the identity it was stored with.\<close>

definition stored_set :: "json_codec \<Rightarrow> u8 list \<Rightarrow> annotation_set option" where
  "stored_set json bytes =
     (case jc_parse json bytes of Inl _ \<Rightarrow> None
      | Inr stored \<Rightarrow>
          (case into_identity (ss_schema stored = SIDECAR_SCHEMA_VERSION) (ss_document stored) of
             Inl _ \<Rightarrow> None
           | Inr identity \<Rightarrow>
               (case decode_sidecar json [] bytes identity of Inl _ \<Rightarrow> None | Inr a \<Rightarrow> Some a)))"

lemma same_revision_refl [simp]: "same_revision i i"
  by (auto simp: same_revision_def split: option.splits)

lemma map_error_Inr [simp]:
  "(case r of Inl e \<Rightarrow> Inl (f e) | Inr x \<Rightarrow> Inr x) = Inr y \<longleftrightarrow> r = Inr y"
  by (cases r) auto

lemma json_error_Inr [simp]: "json_error p r = Inr x \<longleftrightarrow> r = Inr x"
  by (simp add: json_error_def)

lemma io_error_Inr [simp]: "io_error operation p r = Inr x \<longleftrightarrow> r = Inr x"
  by (simp add: io_error_def)

lemma ensure_identity_Inr [simp]: "ensure_identity expected found = Inr u \<longleftrightarrow> same_revision expected found"
  by (simp add: ensure_identity_def)

lemma decode_InrD:
  "decode_sidecar json p bytes expected = Inr a \<Longrightarrow>
     \<exists>version stored identity records. jc_probe json bytes = Inr version \<and>
        (version = LEGACY_SIDECAR_SCHEMA_VERSION \<or> version = SIDECAR_SCHEMA_VERSION) \<and>
        jc_parse json bytes = Inr stored \<and>
        into_identity (ss_schema stored = SIDECAR_SCHEMA_VERSION) (ss_document stored) = Inr identity \<and>
        same_revision expected identity \<and>
        collect_results restore_stored (ss_annotations stored) = Inr records \<and>
        as_restore (di_page_count identity) (ss_revision stored) records = Inr a"
  unfolding decode_sidecar_def and_then_Inr json_error_Inr ensure_identity_Inr
  by (elim exE conjE) (simp only: and_then_Inr json_error_Inr ensure_identity_Inr map_error_Inr split: if_splits, auto)

lemma decode_InrI:
  "jc_probe json bytes = Inr version \<Longrightarrow>
   version = LEGACY_SIDECAR_SCHEMA_VERSION \<or> version = SIDECAR_SCHEMA_VERSION \<Longrightarrow>
   jc_parse json bytes = Inr stored \<Longrightarrow>
   into_identity (ss_schema stored = SIDECAR_SCHEMA_VERSION) (ss_document stored) = Inr identity \<Longrightarrow>
   same_revision expected identity \<Longrightarrow>
   collect_results restore_stored (ss_annotations stored) = Inr records \<Longrightarrow>
   as_restore (di_page_count identity) (ss_revision stored) records = Inr a \<Longrightarrow>
   decode_sidecar json p bytes expected = Inr a"
  by (auto simp: decode_sidecar_def json_error_def ensure_identity_def)

lemma decode_stored: "decode_sidecar json p bytes expected = Inr a \<Longrightarrow> stored_set json bytes = Some a"
proof -
  assume d: "decode_sidecar json p bytes expected = Inr a"
  from decode_InrD[OF this] obtain version stored identity records
    where v: "jc_probe json bytes = Inr version"
        "version = LEGACY_SIDECAR_SCHEMA_VERSION \<or> version = SIDECAR_SCHEMA_VERSION"
      and st: "jc_parse json bytes = Inr stored"
        "into_identity (ss_schema stored = SIDECAR_SCHEMA_VERSION) (ss_document stored) = Inr identity"
      and r: "collect_results restore_stored (ss_annotations stored) = Inr records"
        "as_restore (di_page_count identity) (ss_revision stored) records = Inr a"
    by blast
  then have "decode_sidecar json [] bytes identity = Inr a"
    by (intro decode_InrI[OF v st _ r]) simp
  then show ?thesis using st by (simp add: stored_set_def)
qed

lemma decode_encode_exactly:
  assumes codec: "codec_ok json" and enc: "encode_sidecar json identity a = Inr bytes"
    and id: "identity_ok identity" and same: "same_revision expected identity" and wf: "as_wf a"
  shows "decode_sidecar json p bytes expected =
    Inr (a\<lparr> as_next_id := checked_add (fold (\<lambda>x m. max m (an_id x)) (as_records a) 0) 1 \<rparr>)"
proof -
  obtain document stored where doc: "store_identity identity = Inr document"
    and st: "collect_results store_annotation (as_records a) = Inr stored"
    and pages: "di_page_count identity = as_page_count a"
    and pr: "jc_print json \<lparr> ss_schema = SIDECAR_SCHEMA_VERSION, ss_document = document,
             ss_revision = as_revision a, ss_annotations = stored \<rparr> = Inr bytes"
    using enc by (auto simp: encode_sidecar_def stored_from_parts_def validate_snapshot_def and_then_Inr
        split: if_splits)
  have r: "collect_results restore_stored stored = Inr (map restored_from (as_records a))"
    using annotations_round_trip[OF st] wf by (auto simp: as_wf_def list_all_iff record_ok_def validate_range_ok)
  have parse: "jc_probe json bytes = Inr SIDECAR_SCHEMA_VERSION" "jc_parse json bytes = Inr \<lparr> ss_schema = SIDECAR_SCHEMA_VERSION,
      ss_document = document, ss_revision = as_revision a, ss_annotations = stored \<rparr>"
    using codec pr by (auto simp: codec_ok_def)
  have ids: "fold (\<lambda>record m. max m (ra_id record)) (map restored_from xs) m = fold (\<lambda>x m. max m (an_id x)) xs m" for xs m
    by (induction xs arbitrary: m) (simp_all add: restored_from_def)
  have "as_restore (as_page_count a) (as_revision a) (map restored_from (as_records a)) =
      Inr (a\<lparr> as_next_id := checked_add (fold (\<lambda>x m. max m (an_id x)) (as_records a) 0) 1 \<rparr>)"
    unfolding restored_set[OF wf] ids by simp
  then show ?thesis
    using parse r same pages identity_round_trip[OF doc id]
    by (intro decode_InrI[OF parse(1) _ parse(2), where identity=identity and records="map restored_from (as_records a)"])
       simp_all
qed

lemma decode_encode:
  assumes "codec_ok json" "encode_sidecar json identity a = Inr bytes" "identity_ok identity"
    "same_revision expected identity" "as_wf a"
  shows "\<exists>t. decode_sidecar json p bytes expected = Inr t \<and> as_page_count t = as_page_count a \<and>
    as_revision t = as_revision a \<and> as_records t = as_records a"
  using decode_encode_exactly[OF assms] by simp

section \<open>Reading\<close>

definition no_faults :: read_faults where
  "no_faults = \<lparr> rf_metadata = None, rf_open = None, rf_read = None \<rparr>"

lemma load_at_Inr:
  "load_at json f p expected w = Inr a \<Longrightarrow>
   \<exists>bytes. sw_files w p = Some bytes \<and> length bytes \<le> MAX_SIDECAR_BYTES \<and> decode_sidecar json p bytes expected = Inr a"
  by (auto simp: load_at_def and_then_Inr file_call_def Let_def min_def split: option.splits if_splits)

lemma and_then_Inl: "and_then r f = Inl e \<longleftrightarrow> r = Inl e \<or> (\<exists>x. r = Inr x \<and> f x = Inl e)"
  by (cases r) auto

lemma collect_not_io: "collect_results restore_stored xs \<noteq> Inl (Io operation q source)"
  by (induction xs) (auto simp: and_then_Inl restore_stored_def split: sum.splits)

lemma decode_pairs_not_io: "decode_pairs s \<noteq> Inl (Io operation q source)"
  by (induction s rule: decode_pairs.induct) (auto simp: and_then_Inl split: option.splits)

lemma into_identity_not_io: "into_identity required s \<noteq> Inl (Io operation q source)"
  by (auto simp: into_identity_def and_then_Inl decode_digest_def decode_pairs_not_io identity_new_def
      identity_new_with_sha256_def split: option.splits if_splits)

lemma decode_not_io: "decode_sidecar json p bytes expected \<noteq> Inl (Io operation q source)"
  by (auto simp: decode_sidecar_def and_then_Inl json_error_def ensure_identity_def collect_not_io
      into_identity_not_io split: sum.splits if_splits)

lemma load_or_empty_Inr:
  "load_or_empty json f p expected w = Inr a \<Longrightarrow>
   (sw_files w p = None \<and> a = annotation_set_new (di_page_count expected)) \<or>
   (\<exists>bytes. sw_files w p = Some bytes \<and> decode_sidecar json p bytes expected = Inr a)"
proof -
  assume l: "load_or_empty json f p expected w = Inr a"
  show ?thesis
  proof (cases "load_at json f p expected w")
    case (Inr b)
    then show ?thesis using l load_at_Inr[OF Inr] by (auto simp: load_or_empty_def)
  next
    case (Inl e)
    then obtain op q source where e: "e = Io op q source" "io_kind_of source = NotFound"
      and a: "a = annotation_set_new (di_page_count expected)"
      using l by (auto simp: load_or_empty_def split: store_error.splits if_splits)
    have "sw_files w p = None"
    proof (rule ccontr)
      assume "sw_files w p \<noteq> None"
      then show False using Inl e decode_not_io
        by (auto simp: load_at_def and_then_Inl file_call_def io_error_def Let_def split: option.splits if_splits)
    qed
    then show ?thesis using a by simp
  qed
qed

end
