(* ===== verification/AnnotationProps.thy ===== *)
theory AnnotationProps
  imports AnnotationLemmas
begin

text \<open>
  The properties of annotation sets (\<open>crates/key-pdf-core/src/annotations.rs\<close>).
\<close>

section \<open>Reachable sets\<close>

inductive as_reachable :: "annotation_set \<Rightarrow> bool" where
  new: "as_reachable (annotation_set_new page_count)"
| restore: "as_restore page_count revision records = Inr s \<Longrightarrow> as_reachable s"
| add: "as_reachable s \<Longrightarrow> as_add r highlight comment s = (result, s') \<Longrightarrow> as_reachable s'"
| update: "as_reachable s \<Longrightarrow> as_update i r highlight comment s = (changed, s') \<Longrightarrow> as_reachable s'"
| delete: "as_reachable s \<Longrightarrow> as_delete i s = (changed, s') \<Longrightarrow> as_reachable s'"

lemma as_reachable_wf: "as_reachable s \<Longrightarrow> as_wf s"
proof (induction rule: as_reachable.induct)
  case (add s r highlight comment result s')
  then show ?case by (cases result) (auto dest: as_add_Inl as_wf_add)
next
  case (update s i r highlight comment changed s')
  show ?case
  proof (cases changed)
    case (Inr b)
    then show ?thesis using update by (cases b) (auto dest: as_update_False as_wf_update)
  qed (use update in \<open>auto dest: as_update_Inl\<close>)
next
  case (delete s i changed s')
  show ?case
  proof (cases changed)
    case (Inr b)
    then show ?thesis using delete by (cases b) (auto dest: as_delete_False as_wf_delete)
  qed (use delete in \<open>auto dest: as_delete_Inl\<close>)
qed (simp_all add: as_wf_new as_wf_restore)

text \<open>C22: Every annotation set the program can build (from a new or a restored one, by any sequence of
  additions, changes and removals, failed ones included) passes the validation at the persistence
  boundary, is sorted by start and identifier, and the next identifier is larger than all in use.\<close>

theorem reachable_annotation_sets_are_valid:
  assumes "as_reachable s"
  shows "as_validate s = Inr () \<and> sorted (map annotation_order (as_records s)) \<and>
    (\<forall>i. as_next_id s = Some i \<longrightarrow> (\<forall>a \<in> set (as_records s). an_id a < i))"
  using as_reachable_wf[OF assms] as_wf_valid by (auto simp: as_wf_def)

definition example_annotation :: annotation_set where
  "example_annotation = snd (as_add (range_new (TextPosition 1 7) (TextPosition 0 3)) (Some Yellow) None (annotation_set_new 2))"

lemma example_annotation_reachable: "as_reachable example_annotation"
  unfolding example_annotation_def by (rule as_reachable.add[OF as_reachable.new surjective_pairing])

lemma example_added:
  "fst (as_add (range_new (TextPosition 1 7) (TextPosition 0 3)) (Some Yellow) None (annotation_set_new 2)) = Inr 1"
  by (simp add: as_add_def annotation_set_new_def range_new_def less_eq_text_position_def
      less_text_position_def validate_range_def validate_content_def MAX_TEXT_CHARACTER_INDEX_def next_revision_def
      checked_add_def)

theorem reachable_annotation_sets_are_valid_witness:
  "as_validate example_annotation = Inr () \<and> length (as_records example_annotation) = 1"
proof -
  have "length (as_records example_annotation) = 1"
    by (simp add: example_annotation_def as_add_def annotation_set_new_def range_new_def less_eq_text_position_def
        less_text_position_def validate_range_def validate_content_def MAX_TEXT_CHARACTER_INDEX_def next_revision_def
        checked_add_def)
  then show ?thesis using reachable_annotation_sets_are_valid[OF example_annotation_reachable] by simp
qed

section \<open>The records as a map\<close>

lemma map_eqI: "(\<And>i v. f i = Some v \<longleftrightarrow> g i = Some v) \<Longrightarrow> f = g"
  by (metis ext option.exhaust)

lemma as_get_set:
  assumes "distinct (map an_id (as_records s))" "distinct (map an_id (as_records s'))"
    and "set (as_records s') = insert a {b \<in> set (as_records s). an_id b \<noteq> an_id a}"
  shows "as_get s' = (as_get s)(an_id a \<mapsto> a)"
  by (rule map_eqI) (auto simp: as_get_iff assms)

lemma as_get_remove:
  assumes "distinct (map an_id (as_records s))" "distinct (map an_id (as_records s'))"
    and "set (as_records s') = {b \<in> set (as_records s). an_id b \<noteq> i}"
  shows "as_get s' = (as_get s)(i := None)"
  by (rule map_eqI) (auto simp: as_get_iff assms)

lemma unat_next: "checked_add (r :: u64) 1 = Some r' \<Longrightarrow> unat r' = unat r + 1"
  by (simp add: checked_add_Some)

lemma as_add_refines:
  assumes wf: "as_wf s" and step: "as_add r highlight comment s = (Inr i, s')"
  shows "as_get s i = None \<and> unat (as_revision s') = unat (as_revision s) + 1 \<and>
    as_get s' = (as_get s)(i \<mapsto> \<lparr> an_id = i, an_range = r, an_highlight = highlight, an_comment = comment,
                                  an_created = as_revision s', an_updated = as_revision s' \<rparr>)"
proof -
  note d = as_wf_add[OF wf step, unfolded as_wf_def] wf[unfolded as_wf_def]
  show ?thesis
  proof (rule as_add_Inr[OF step], intro conjI)
    fix revision
    let ?a = "\<lparr> an_id = i, an_range = r, an_highlight = highlight, an_comment = comment,
                  an_created = revision, an_updated = revision \<rparr>"
    assume i: "as_next_id s = Some i" and rev: "checked_add (as_revision s) 1 = Some revision"
      and s': "s' = s\<lparr> as_records := sort_key annotation_order (as_records s @ [?a]),
             as_revision := revision, as_next_id := checked_add i 1 \<rparr>"
    note f = fresh_id[OF wf i]
    then show "as_get s i = None" by (simp add: as_get_None)
    show "unat (as_revision s') = unat (as_revision s) + 1" using unat_next[OF rev] s' by simp
    have "set (as_records s') = insert ?a {b \<in> set (as_records s). an_id b \<noteq> an_id ?a}"
      using f s' by (auto simp: image_iff)
    then have "as_get s' = (as_get s)(an_id ?a \<mapsto> ?a)" using d by (intro as_get_set) auto
    then show "as_get s' = (as_get s)(i \<mapsto> \<lparr> an_id = i, an_range = r, an_highlight = highlight,
        an_comment = comment, an_created = as_revision s', an_updated = as_revision s' \<rparr>)" using s' by simp
  qed
qed

lemma as_update_refines:
  assumes wf: "as_wf s" and step: "as_update i r highlight comment s = (Inr True, s')"
  shows "\<exists>a. as_get s i = Some a \<and> unat (as_revision s') = unat (as_revision s) + 1 \<and>
    as_get s' = (as_get s)(i \<mapsto> a\<lparr> an_range := r, an_highlight := highlight, an_comment := comment,
                                    an_updated := as_revision s' \<rparr>)"
proof -
  note d = as_wf_update[OF wf step, unfolded as_wf_def] wf[unfolded as_wf_def]
  obtain revision index where i: "index < length (as_records s)" "an_id (as_records s ! index) = i"
    and rev: "checked_add (as_revision s) 1 = Some revision"
    and s': "s' = s\<lparr> as_records := sort_key annotation_order ((as_records s)[index := (as_records s ! index)\<lparr>
               an_range := r, an_highlight := highlight, an_comment := comment, an_updated := revision \<rparr>]),
             as_revision := revision \<rparr>"
    using as_update_True[OF step] .
  let ?a = "as_records s ! index"
  let ?b = "?a\<lparr> an_range := r, an_highlight := highlight, an_comment := comment, an_updated := revision \<rparr>"
  have dd: "distinct (map an_id (as_records s))" using d by blast
  have "as_get s i = Some ?a" using as_get_iff[OF dd] i by auto
  moreover have "set (as_records s') = insert ?b {b \<in> set (as_records s). an_id b \<noteq> an_id ?b}"
    using set_update_distinct[OF dd i(1)] i(2) s' by simp
  then have "as_get s' = (as_get s)(an_id ?b \<mapsto> ?b)" using d by (intro as_get_set) auto
  ultimately show ?thesis using unat_next[OF rev] s' i(2) by auto
qed

lemma as_delete_refines:
  assumes wf: "as_wf s" and step: "as_delete i s = (Inr True, s')"
  shows "as_get s i \<noteq> None \<and> unat (as_revision s') = unat (as_revision s) + 1 \<and> as_get s' = (as_get s)(i := None)"
proof -
  note d = as_wf_delete[OF wf step, unfolded as_wf_def] wf[unfolded as_wf_def]
  obtain revision index where i: "index < length (as_records s)" "an_id (as_records s ! index) = i"
    and rev: "checked_add (as_revision s) 1 = Some revision"
    and s': "s' = s\<lparr> as_records := take index (as_records s) @ drop (Suc index) (as_records s), as_revision := revision \<rparr>"
    using as_delete_True[OF step] .
  have dd: "distinct (map an_id (as_records s))" using d by blast
  have "set (as_records s') = {b \<in> set (as_records s). an_id b \<noteq> i}"
    using set_remove_distinct[OF dd i(1)] i(2) s' by simp
  then have "as_get s' = (as_get s)(i := None)" using d by (intro as_get_remove) auto
  moreover have "as_get s i \<noteq> None" using i by (auto simp: as_get_None)
  ultimately show ?thesis using unat_next[OF rev] s' by auto
qed

text \<open>C21: The set refines a finite map from identifiers to annotations. An addition takes an identifier
  that is not in use and adds exactly that entry; a change overwrites exactly the fields of its entry; a
  removal takes exactly its entry away; each of them advances the revision by one. Whatever fails or
  changes nothing leaves the whole set, its revision included, as it was.\<close>

theorem annotation_operations_refine_a_map:
  assumes "as_reachable s"
  shows "(case as_add r highlight comment s of
            (Inl _, s') \<Rightarrow> s' = s
          | (Inr i, s') \<Rightarrow> as_get s i = None \<and> unat (as_revision s') = unat (as_revision s) + 1 \<and>
              as_get s' = (as_get s)(i \<mapsto> \<lparr> an_id = i, an_range = r, an_highlight = highlight,
                an_comment = comment, an_created = as_revision s', an_updated = as_revision s' \<rparr>)) \<and>
         (case as_update i r highlight comment s of
            (Inr True, s') \<Rightarrow> (\<exists>a. as_get s i = Some a \<and> unat (as_revision s') = unat (as_revision s) + 1 \<and>
              as_get s' = (as_get s)(i \<mapsto> a\<lparr> an_range := r, an_highlight := highlight, an_comment := comment,
                an_updated := as_revision s' \<rparr>))
          | (_, s') \<Rightarrow> s' = s) \<and>
         (case as_delete i s of
            (Inr True, s') \<Rightarrow> as_get s i \<noteq> None \<and> unat (as_revision s') = unat (as_revision s) + 1 \<and>
              as_get s' = (as_get s)(i := None)
          | (_, s') \<Rightarrow> s' = s)"
proof (intro conjI)
  note wf = as_reachable_wf[OF assms]
  show "case as_add r highlight comment s of
            (Inl _, s') \<Rightarrow> s' = s
          | (Inr i, s') \<Rightarrow> as_get s i = None \<and> unat (as_revision s') = unat (as_revision s) + 1 \<and>
              as_get s' = (as_get s)(i \<mapsto> \<lparr> an_id = i, an_range = r, an_highlight = highlight,
                an_comment = comment, an_created = as_revision s', an_updated = as_revision s' \<rparr>)"
    using as_add_Inl[of r highlight comment s] as_add_refines[OF wf, of r highlight comment]
    by (simp split: prod.split sum.split)
  show "case as_update i r highlight comment s of
            (Inr True, s') \<Rightarrow> (\<exists>a. as_get s i = Some a \<and> unat (as_revision s') = unat (as_revision s) + 1 \<and>
              as_get s' = (as_get s)(i \<mapsto> a\<lparr> an_range := r, an_highlight := highlight, an_comment := comment,
                an_updated := as_revision s' \<rparr>))
          | (_, s') \<Rightarrow> s' = s"
    using as_update_Inl[of i r highlight comment s] as_update_False[of i r highlight comment s]
      as_update_refines[OF wf, of i r highlight comment]
    by (simp split: prod.split sum.split bool.split)
  show "case as_delete i s of
            (Inr True, s') \<Rightarrow> as_get s i \<noteq> None \<and> unat (as_revision s') = unat (as_revision s) + 1 \<and>
              as_get s' = (as_get s)(i := None)
          | (_, s') \<Rightarrow> s' = s"
    using as_delete_Inl[of i s] as_delete_False[of i s] as_delete_refines[OF wf, of i]
    by (simp split: prod.split sum.split bool.split)
qed

theorem annotation_operations_refine_a_map_witness:
  "as_get example_annotation 1 \<noteq> None"
proof -
  have step: "as_add (range_new (TextPosition 1 7) (TextPosition 0 3)) (Some Yellow) None (annotation_set_new 2)
      = (Inr 1, example_annotation)"
    using example_added by (simp add: example_annotation_def prod_eq_iff)
  show ?thesis
    using annotation_operations_refine_a_map[where s="annotation_set_new 2" and comment=None and highlight="Some Yellow"
        and r="range_new (TextPosition 1 7) (TextPosition 0 3)", THEN conjunct1, OF as_reachable.new]
    by (simp only: step prod.case sum.case) simp
qed

section \<open>Queries\<close>

lemma filter_takeWhile_sorted:
  "sorted (map f xs) \<Longrightarrow> (\<And>x y. f x \<le> f y \<Longrightarrow> P y \<Longrightarrow> P x) \<Longrightarrow> (\<And>x. Q x \<Longrightarrow> P x) \<Longrightarrow>
   filter Q (takeWhile P xs) = filter Q xs"
proof (induction xs)
  case (Cons x xs)
  show ?case
  proof (cases "P x")
    case False
    then have "\<forall>y \<in> set xs. \<not> Q y" using Cons.prems by fastforce
    then show ?thesis using False Cons.prems(3)[of x] by auto
  qed (use Cons in auto)
qed simp

text \<open>The order of the records is first the order of their starts.\<close>

lemma starts_sorted: "as_wf s \<Longrightarrow> sorted (map (\<lambda>a. range_start (an_range a)) (as_records s))"
  by (auto simp: as_wf_def annotation_order_def sorted_map less_eq_prod_def elim!: sorted_wrt_mono_rel[rotated])

lemma page_mono: "a \<le> b \<Longrightarrow> tp_page a \<le> tp_page b"
  by (auto simp: less_eq_text_position_def)

lemma range_ordered: "as_wf s \<Longrightarrow> a \<in> set (as_records s) \<Longrightarrow> range_start (an_range a) \<le> range_end (an_range a)"
  by (auto simp: as_wf_def list_all_iff record_ok_def validate_range_ok)

text \<open>C24: The queries that stop at the first annotation that starts too late are exactly the searches over
  all annotations: by page, by position, and by overlap with a range. The topmost annotation at a
  position is one that contains it, edited last among them, and there is one whenever any contains it.\<close>

theorem queries_find_every_annotation:
  assumes "as_reachable s"
  shows "on_page s page = filter (\<lambda>a. tp_page (range_start (an_range a)) \<le> page \<and> page \<le> tp_page (range_end (an_range a)))
           (as_records s) \<and>
         at_position s position = filter (\<lambda>a. range_contains (an_range a) position) (as_records s) \<and>
         overlapping s r = filter (\<lambda>a. range_overlaps (an_range a) r) (as_records s) \<and>
         (case topmost_at s position of
            None \<Rightarrow> \<forall>a \<in> set (as_records s). \<not> range_contains (an_range a) position
          | Some a \<Rightarrow> a \<in> set (as_records s) \<and> range_contains (an_range a) position \<and>
              (\<forall>b \<in> set (as_records s). range_contains (an_range b) position \<longrightarrow> an_updated b \<le> an_updated a))"
proof -
  note wf = as_reachable_wf[OF assms]
  note ordered = starts_sorted[OF wf]
  have page: "on_page s page = filter (\<lambda>a. tp_page (range_start (an_range a)) \<le> page \<and> page \<le> tp_page (range_end (an_range a)))
           (as_records s)"
  proof -
    have "on_page s page = filter (\<lambda>a. tp_page (range_start (an_range a)) \<le> page \<and> page \<le> tp_page (range_end (an_range a)))
        (takeWhile (\<lambda>a. tp_page (range_start (an_range a)) \<le> page) (as_records s))"
      by (auto simp: on_page_def dest: set_takeWhileD intro!: filter_cong)
    also have "\<dots> = filter (\<lambda>a. tp_page (range_start (an_range a)) \<le> page \<and> page \<le> tp_page (range_end (an_range a)))
        (as_records s)"
      by (rule filter_takeWhile_sorted[OF ordered]) (auto dest: page_mono)
    finally show ?thesis .
  qed
  have at: "at_position s position = filter (\<lambda>a. range_contains (an_range a) position) (as_records s)"
    unfolding at_position_def by (rule filter_takeWhile_sorted[OF ordered]) (auto simp: range_contains_def)
  have over: "overlapping s r = filter (\<lambda>a. range_overlaps (an_range a) r) (as_records s)"
    unfolding overlapping_def by (rule filter_takeWhile_sorted[OF ordered]) (auto simp: range_overlaps_def)
  show ?thesis
  proof (cases "topmost_at s position")
    case None
    then have "at_position s position = []" by (simp add: topmost_at_def)
    then show ?thesis using None page at over by (auto simp: filter_empty_conv)
  next
    case (Some a)
    note m = max_by_key_Some[OF Some[unfolded topmost_at_def]]
    show ?thesis using Some page over m(1) m(2) unfolding at by (fastforce simp: less_eq_prod_def)
  qed
qed

theorem queries_find_every_annotation_witness:
  "on_page example_annotation 1 = as_records example_annotation"
proof -
  have "length (as_records example_annotation) = 1" "\<forall>a \<in> set (as_records example_annotation).
      an_range a = TextRange (TextPosition 0 3) (TextPosition 1 7)"
    by (simp_all add: example_annotation_def as_add_def annotation_set_new_def range_new_def less_eq_text_position_def
        less_text_position_def validate_range_def validate_content_def MAX_TEXT_CHARACTER_INDEX_def next_revision_def
        checked_add_def)
  then show ?thesis
    using queries_find_every_annotation[OF example_annotation_reachable, of 1, THEN conjunct1] by simp
qed

section \<open>Snapshots\<close>

lemma fold_max: "fold (\<lambda>x m. max m (f x)) xs m = Max (insert m (f ` set xs))" for f :: "'a \<Rightarrow> 'b :: linorder"
proof (induction xs arbitrary: m)
  case (Cons x xs)
  have "Max (insert (max m (f x)) S) = Max (insert m (insert (f x) S))" if "finite S" for S
    using that by (cases "S = {}") (simp_all add: max.assoc)
  then show ?case using Cons[of "max m (f x)"] by simp
qed simp

text \<open>C23: Writing out the annotations of a set and restoring them gives the set again: page count,
  revision, and the annotations in their order. Only the next identifier is computed anew: it is the one
  after the largest that is stored (after 0 when nothing is stored; none when the largest is the last of
  all), never above the one the set had.\<close>

theorem snapshots_restore_the_set:
  assumes "as_reachable s"
  shows "\<exists>t. as_restore (as_page_count s) (as_revision s) (map restored_from (as_records s)) = Inr t \<and>
    t\<lparr> as_next_id := as_next_id s \<rparr> = s \<and> as_validate t = Inr () \<and>
    as_next_id t = checked_add (Max (insert 0 (an_id ` set (as_records s)))) 1 \<and>
    (\<forall>i. as_next_id s = Some i \<longrightarrow> (\<exists>j. as_next_id t = Some j \<and> j \<le> i))"
proof -
  note wf = as_reachable_wf[OF assms]
  let ?m = "fold (\<lambda>record m. max m (ra_id record)) (map restored_from (as_records s)) 0"
  let ?t = "\<lparr> as_page_count = as_page_count s, as_records = as_records s, as_next_id = checked_add ?m 1,
              as_revision = as_revision s \<rparr>"
  have "as_restore (as_page_count s) (as_revision s) (map restored_from (as_records s)) = Inr ?t"
    by (rule restored_set[OF wf])
  moreover have "\<exists>j. checked_add ?m 1 = Some j \<and> j \<le> i" if "as_next_id s = Some i" for i
  proof -
    have "fold (\<lambda>record m. max m (ra_id record)) (map restored_from xs) m < i"
      if "\<forall>a \<in> set xs. an_id a < i" "m < i" for xs m
      using that by (induction xs arbitrary: m) (auto simp: restored_from_def)
    moreover have "0 < i" using wf that by (auto simp: as_wf_def word_neq_0_conv)
    ultimately have "?m < i" using wf that by (auto simp: as_wf_def)
    then have "\<not> 2 ^ 64 \<le> unat ?m + 1" using unat_bound[of i] by (simp add: word_less_nat_alt)
    then obtain j where "checked_add ?m 1 = Some j" by (cases "checked_add ?m 1") (auto simp: checked_add_None)
    then show ?thesis using \<open>?m < i\<close> checked_add_one_le[of ?m j] by (auto simp: checked_add_Some word_le_nat_alt word_less_nat_alt)
  qed
  moreover have "as_validate ?t = Inr ()" using as_wf_valid[OF wf] by (simp add: as_validate_def)
  moreover have "?m = Max (insert 0 (an_id ` set (as_records s)))"
    by (simp add: fold_max image_image restored_from_def)
  ultimately show ?thesis by (intro exI[of _ ?t]) simp
qed

theorem snapshots_restore_the_set_witness:
  "\<exists>t. as_restore (as_page_count example_annotation) (as_revision example_annotation)
         (map restored_from (as_records example_annotation)) = Inr t \<and> as_records t = as_records example_annotation"
proof -
  obtain t where t: "as_restore (as_page_count example_annotation) (as_revision example_annotation)
         (map restored_from (as_records example_annotation)) = Inr t"
    and e: "t\<lparr> as_next_id := as_next_id example_annotation \<rparr> = example_annotation"
    using snapshots_restore_the_set[OF example_annotation_reachable] by blast
  have "as_records t = as_records (t\<lparr> as_next_id := as_next_id example_annotation \<rparr>)" by simp
  then show ?thesis using t e by simp
qed

end
