(* ===== verification/SidecarProps.thy ===== *)
theory SidecarProps
  imports SidecarLemmas AnnotationProps
begin

text \<open>
  The contract of \<open>AnnotationStore\<close> (\<open>crates/key-sidecar-store/src/store.rs\<close>), its consequence for many
  writers, its implementation by the in-memory and by the JSON store, and the properties of the two.
\<close>

section \<open>The contract of a store\<close>

text \<open>Any number of saves by anybody, successful or not.\<close>

inductive saves_by :: "('e \<Rightarrow> document_key \<Rightarrow> u64 \<Rightarrow> annotation_set \<Rightarrow> 's \<Rightarrow> (store_error, save_receipt) rust_result \<times> 's) \<Rightarrow>
    (document_key \<Rightarrow> annotation_set \<Rightarrow> bool) \<Rightarrow> 's \<Rightarrow> 's \<Rightarrow> bool"
  for save :: "'e \<Rightarrow> document_key \<Rightarrow> u64 \<Rightarrow> annotation_set \<Rightarrow> 's \<Rightarrow> (store_error, save_receipt) rust_result \<times> 's"
  and good :: "document_key \<Rightarrow> annotation_set \<Rightarrow> bool" where
  nobody: "saves_by save good st st"
| somebody: "saves_by save good st st' \<Longrightarrow> good k a \<Longrightarrow> save env k expected a st' = (r, st'') \<Longrightarrow> saves_by save good st st''"

text \<open>What is stored at the location of a document is a revision and the annotations of that revision; a
  missing sidecar is the empty revision zero.\<close>

locale annotation_store =
  fixes location :: "document_key \<Rightarrow> 'l"
    and load :: "'i \<Rightarrow> document_key \<Rightarrow> 's \<Rightarrow> (store_error, annotation_set) rust_result"
    and save :: "'e \<Rightarrow> document_key \<Rightarrow> u64 \<Rightarrow> annotation_set \<Rightarrow> 's \<Rightarrow> (store_error, save_receipt) rust_result \<times> 's"
    and content :: "'s \<Rightarrow> 'l \<Rightarrow> u64 \<times> annotation list"
    and good :: "document_key \<Rightarrow> annotation_set \<Rightarrow> bool"
  assumes load_content: "load i k st = Inr a \<Longrightarrow> content st (location k) = (as_revision a, as_records a)"
    and save_Inl: "save e k expected a st = (Inl error, st') \<Longrightarrow> content st' (location j) = content st (location j)"
    and save_Inr: "good k a \<Longrightarrow> save e k expected a st = (Inr r, st') \<Longrightarrow>
      content st' (location j) = (if location j = location k then (as_revision a, as_records a) else content st (location j)) \<and>
      fst (content st (location k)) = expected \<and> expected \<le> as_revision a \<and>
      (as_revision a = expected \<longrightarrow> content st (location k) = (as_revision a, as_records a))"
begin

lemma save_progress:
  assumes "good k a" "save e k expected a st = (r, st')"
  shows "fst (content st (location j)) \<le> fst (content st' (location j)) \<and>
    (fst (content st (location j)) = fst (content st' (location j)) \<longrightarrow> content st (location j) = content st' (location j))"
proof (cases r)
  case (Inl x)
  then show ?thesis using save_Inl[of e k expected a st x st' j] assms(2) by simp
next
  case (Inr x)
  then show ?thesis using save_Inr[of k a e expected st x st' j] assms by (auto split: if_splits)
qed

lemma content_progress:
  "saves_by save good st st' \<Longrightarrow> fst (content st (location j)) \<le> fst (content st' (location j)) \<and>
    (fst (content st (location j)) = fst (content st' (location j)) \<longrightarrow> content st (location j) = content st' (location j))"
proof (induction rule: saves_by.induct)
  case (somebody st st' k a env expected r st'')
  note p = save_progress[OF somebody(2,3), of j]
  have "fst (content st (location j)) \<le> fst (content st'' (location j))" using somebody.IH p by (meson order_trans)
  moreover have "content st (location j) = content st'' (location j)"
    if e: "fst (content st (location j)) = fst (content st'' (location j))"
  proof -
    have "fst (content st' (location j)) = fst (content st'' (location j))"
      using somebody.IH p e by (intro order_antisym) simp_all
    then show ?thesis using somebody.IH p e by simp
  qed
  ultimately show ?case by blast
qed simp

lemma no_lost_update:
  assumes "load i k st = Inr seen" "saves_by save good st st'" "good k' a"
    and "save e k' (as_revision seen) a st' = (Inr r, st'')" "location k' = location k"
  shows "content st' (location k) = (as_revision seen, as_records seen) \<and>
    content st'' (location k) = (as_revision a, as_records a)"
proof -
  note s = save_Inr[OF assms(3,4), of k]
  have "content st (location k) = (as_revision seen, as_records seen)" by (rule load_content[OF assms(1)])
  then show ?thesis using content_progress[OF assms(2), of k] s assms(5) by (simp add: prod_eq_iff)
qed

end

section \<open>The in-memory store\<close>

definition memory_content :: "memory_store \<Rightarrow> path \<Rightarrow> u64 \<times> annotation list" where
  "memory_content m p = (case map_of (ms_entries m) p of None \<Rightarrow> (0, [])
     | Some e \<Rightarrow> (as_revision (me_annotations e), as_records (me_annotations e)))"

definition any_annotations :: "document_key \<Rightarrow> annotation_set \<Rightarrow> bool" where
  "any_annotations k a = True"

lemma revision_zero_empty: "as_validate a = Inr () \<Longrightarrow> as_revision a = 0 \<Longrightarrow> as_records a = []"
  by (cases "as_records a") (auto simp: as_validate_ok record_ok_def invalid_revisions_def word_le_0_iff not_less)

lemma memory_save_Inr:
  "memory_compare_and_save k expected a m = (Inr r, m') \<Longrightarrow>
   as_validate a = Inr () \<and> as_page_count a = di_page_count (dk_identity k) \<and> \<not> ms_poisoned m \<and>
   (\<forall>e. map_of (ms_entries m) (dk_path k) = Some e \<longrightarrow> same_revision (me_identity e) (dk_identity k)) \<and>
   fst (memory_content m (dk_path k)) = expected \<and> expected \<le> as_revision a \<and>
   (\<forall>e. map_of (ms_entries m) (dk_path k) = Some e \<longrightarrow> as_revision a = expected \<longrightarrow> me_annotations e = a) \<and>
   r = \<lparr> sr_previous = expected, sr_saved = as_revision a \<rparr> \<and>
   m' = m\<lparr> ms_entries := hm_insert (dk_path k) \<lparr> me_identity = dk_identity k, me_annotations = a \<rparr> (ms_entries m) \<rparr>"
  by (auto simp: memory_compare_and_save_def memory_content_def Let_def split: sum.splits option.splits if_splits)

lemma memory_save_Inl: "memory_compare_and_save k expected a m = (Inl e, m') \<Longrightarrow> m' = m"
  by (auto simp: memory_compare_and_save_def Let_def split: sum.splits option.splits if_splits)

interpretation mem: annotation_store dk_path "\<lambda>_ :: unit. memory_load" "\<lambda>_ :: unit. memory_compare_and_save"
  memory_content any_annotations
proof unfold_locales
  show "memory_load k st = Inr a \<Longrightarrow> memory_content st (dk_path k) = (as_revision a, as_records a)" for i :: unit and k st a
    by (auto simp: memory_load_def memory_content_def annotation_set_new_def split: option.splits if_splits)
  show "memory_compare_and_save k expected a st = (Inl error, st') \<Longrightarrow> memory_content st' (dk_path j) = memory_content st (dk_path j)"
    for e :: unit and k expected a st error st' j
    by (auto dest: memory_save_Inl)
next
  fix e :: unit and k a expected st r st' j
  assume "memory_compare_and_save k expected a st = (Inr r, st')"
  note s = memory_save_Inr[OF this]
  have "as_revision a = expected \<Longrightarrow> memory_content st (dk_path k) = (as_revision a, as_records a)"
    using s revision_zero_empty[of a] by (auto simp: memory_content_def split: option.splits)
  then show "memory_content st' (dk_path j) = (if dk_path j = dk_path k then (as_revision a, as_records a)
        else memory_content st (dk_path j)) \<and>
      fst (memory_content st (dk_path k)) = expected \<and> expected \<le> as_revision a \<and>
      (as_revision a = expected \<longrightarrow> memory_content st (dk_path k) = (as_revision a, as_records a))"
    using s by (auto simp: memory_content_def)
qed

section \<open>The JSON store\<close>

definition json_location :: "document_key \<Rightarrow> path" where
  "json_location k = (case sidecar_path (dk_path k) of Inl _ \<Rightarrow> [] | Inr p \<Rightarrow> p)"

definition json_content :: "json_codec \<Rightarrow> sidecar_world \<Rightarrow> path \<Rightarrow> u64 \<times> annotation list" where
  "json_content json w p =
     (case sw_files w p of None \<Rightarrow> (0, [])
      | Some bytes \<Rightarrow> (case stored_set json bytes of None \<Rightarrow> (0, []) | Some a \<Rightarrow> (as_revision a, as_records a)))"

definition well_formed :: "document_key \<Rightarrow> annotation_set \<Rightarrow> bool" where
  "well_formed k a \<longleftrightarrow> identity_ok (dk_identity k) \<and> as_wf a"

text \<open>A temporary file is never the sidecar of any document: its name ends with a number.\<close>

lemma show_nat_last: "last (show_nat n) \<noteq> CHR ''n''"
proof -
  have d: "d < 10 \<Longrightarrow> digit_char d \<noteq> CHR ''n''" for d
    by (auto simp: digit_char_def dest!: arg_cong[where f="of_char :: char \<Rightarrow> int"])
  have "last (radix_digits 10 n) \<noteq> CHR ''n''"
    using d[of n] d[of "n mod 10"] by (subst radix_digits.simps) auto
  then show ?thesis by (simp add: show_nat_def)
qed

lemma show_nat_nonempty: "show_nat n \<noteq> []"
  unfolding show_nat_def by (subst radix_digits.simps) simp

lemma temporary_not_location:
  assumes "temporary_path pid target w = (Inr temp, w')"
  shows "temp \<noteq> json_location k"
proof -
  obtain name where name: "file_name target = Some name"
    and temp: "temp = with_file_name target (name @ ''.tmp-'' @ show_nat pid @ ''-'' @ show_nat (unat (sw_sequence w)))"
    using assms by (auto simp: temporary_path_def split: option.splits)
  let ?n = "name @ ''.tmp-'' @ show_nat pid @ ''-'' @ show_nat (unat (sw_sequence w))"
  have n: "file_name temp = Some ?n"
    unfolding temp with_file_name_def
    using name file_name_component[OF name] show_nat_not_slash by (auto intro!: file_name_push)
  have l: "last ?n \<noteq> CHR ''n''" using show_nat_last show_nat_nonempty by simp
  show ?thesis
  proof (cases "file_name (dk_path k)")
    case None
    have "file_name [] = None" by (simp add: file_name_def)
    then show ?thesis using n None by (auto simp: json_location_def sidecar_path_def)
  next
    case (Some m)
    have "file_name (json_location k) = Some (m @ SIDECAR_SUFFIX)"
      using Some file_name_component[OF Some]
      by (auto simp: json_location_def sidecar_path_def with_file_name_def SIDECAR_SUFFIX_def intro!: file_name_push)
    moreover have "last (m @ SIDECAR_SUFFIX) = CHR ''n''" by (simp add: SIDECAR_SUFFIX_def)
    ultimately show ?thesis using n l by (metis option.inject)
  qed
qed

lemma create_not_location:
  "create_temporary turns attempt collision pid f target w = (Inr temp, w') \<Longrightarrow> temp \<noteq> json_location k"
proof (induction turns arbitrary: attempt collision w)
  case (Suc turns)
  then show ?case
    by (auto split: prod.splits sum.splits if_splits option.splits dest: temporary_not_location)
qed simp

lemma failed_write_keeps_sidecars:
  assumes "atomic_write pid f target bytes w = (Inl e, ws)"
  shows "sw_files (last ws) (json_location k) = sw_files w (json_location k)"
proof (cases "MAX_SIDECAR_BYTES < length bytes")
  case True
  then show ?thesis using assms by (auto simp: atomic_write_def)
next
  case False
  obtain c w1 where c: "create_temporary MAX_TEMP_FILE_ATTEMPTS 0 None pid f target w = (c, w1)" by fastforce
  show ?thesis
  proof (cases c)
    case (Inl e)
    then show ?thesis using assms False c create_temporary_Inl[OF c[unfolded Inl]] by (auto simp: atomic_write_def)
  next
    case (Inr temp)
    note d = create_temporary_Inr[OF c[unfolded Inr]] create_not_location[OF c[unfolded Inr], of k]
    show ?thesis
      using assms False c Inr d
      by (auto simp: atomic_write_def drop_guard_def Let_def split: option.splits)
  qed
qed

lemma prepare_Inr:
  assumes "prepare_save sha256 json env k expected a w = Inr (sidecar, bytes, current)"
  shows "\<exists>old. sidecar_path (dk_path k) = Inr sidecar \<and> load_or_empty json (se_read env) sidecar (dk_identity k) w = Inr old \<and>
    as_revision old = expected \<and> current = expected \<and> expected \<le> as_revision a \<and>
    (as_revision a = expected \<longrightarrow> old = a) \<and> encode_sidecar json (dk_identity k) a = Inr bytes"
  using assms unfolding prepare_save_def and_then_Inr
  by (elim exE conjE) (auto simp: and_then_Inr split: if_splits)

lemma loaded_content:
  "load_or_empty json f p i w = Inr a \<Longrightarrow> json_content json w p = (as_revision a, as_records a)"
  by (auto simp: json_content_def annotation_set_new_def dest!: load_or_empty_Inr decode_stored)

lemma json_is_store:
  assumes codec: "codec_ok json"
  shows "annotation_store json_location (json_load sha256 json) (json_compare_and_save sha256 json)
    (json_content json) well_formed"
proof
  show "json_load sha256 json i k st = Inr a \<Longrightarrow> json_content json st (json_location k) = (as_revision a, as_records a)" for i k st a
    by (auto simp: json_load_def and_then_Inr json_location_def dest!: loaded_content)
next
  fix e k expected a st error st' j
  assume "json_compare_and_save sha256 json e k expected a st = (Inl error, st')"
  then have "sw_files st' (json_location j) = sw_files st (json_location j)"
    by (auto simp: json_compare_and_save_def json_save_trace_def map_prod_def split: sum.splits prod.splits
        dest: failed_write_keeps_sidecars)
  then show "json_content json st' (json_location j) = json_content json st (json_location j)"
    by (simp add: json_content_def)
next
  fix e k expected a st r st' j
  assume good: "well_formed k a"
    and step: "json_compare_and_save sha256 json e k expected a st = (Inr r, st')"
  obtain sidecar bytes current ws u where p: "prepare_save sha256 json e k expected a st = Inr (sidecar, bytes, current)"
    and w: "atomic_write (se_pid e) (se_write e) sidecar bytes st = (Inr u, ws)" and st': "st' = last ws"
    using step by (auto simp: json_compare_and_save_def json_save_trace_def map_prod_def split: sum.splits prod.splits)
  from prepare_Inr[OF p] obtain old where loc: "sidecar_path (dk_path k) = Inr sidecar"
    and old: "load_or_empty json (se_read e) sidecar (dk_identity k) st = Inr old" "as_revision old = expected"
      "expected \<le> as_revision a" "as_revision a = expected \<longrightarrow> old = a"
    and enc: "encode_sidecar json (dk_identity k) a = Inr bytes" by blast
  have files: "sw_files st' = (sw_files st)(sidecar \<mapsto> bytes)" using atomic_write_states[OF w] st' by simp
  obtain t where "decode_sidecar json [] bytes (dk_identity k) = Inr t" "as_revision t = as_revision a" "as_records t = as_records a"
    using decode_encode[OF codec enc _ same_revision_refl] good unfolding well_formed_def by metis
  then have new: "json_content json st' sidecar = (as_revision a, as_records a)"
    using files decode_stored[of json "[]" bytes "dk_identity k" t] by (simp add: json_content_def)
  have others: "p \<noteq> sidecar \<Longrightarrow> json_content json st' p = json_content json st p" for p
    using files by (simp add: json_content_def)
  have l: "json_location k = sidecar" using loc by (simp add: json_location_def)
  show "json_content json st' (json_location j) = (if json_location j = json_location k then (as_revision a, as_records a)
        else json_content json st (json_location j)) \<and>
      fst (json_content json st (json_location k)) = expected \<and> expected \<le> as_revision a \<and>
      (as_revision a = expected \<longrightarrow> json_content json st (json_location k) = (as_revision a, as_records a))"
    using new others l old loaded_content[OF old(1)] by auto
qed

section \<open>An example\<close>

definition example_identity :: document_identity where
  "example_identity = DocumentIdentity 42 1700000000 12 2 (Some (replicate 32 7))"

definition example_key :: document_key where
  "example_key = key_new ''docs/paper.pdf'' example_identity"

definition example_stored :: stored_sidecar where
  "example_stored = (case stored_from_parts example_identity example_annotation of Inr s \<Rightarrow> s)"

definition example_codec :: json_codec where
  "example_codec = \<lparr> jc_print = (\<lambda>x. if x = example_stored then Inr [1] else Inl ''unsupported''),
     jc_probe = (\<lambda>bytes. if bytes = [1] then Inr (ss_schema example_stored) else Inl ''syntax''),
     jc_parse = (\<lambda>bytes. if bytes = [1] then Inr example_stored else Inl ''syntax'') \<rparr>"

definition example_metadata :: metadata where
  "example_metadata = \<lparr> md_len = 42, md_modified = Some (AfterEpoch 1700000000 12) \<rparr>"

definition example_answers :: pdf_answers where
  "example_answers = \<lparr> pa_metadata = Inr example_metadata, pa_file = \<lparr> fa_open = Inr (), fa_before = Inr example_metadata,
     fa_clone = Inr (), fa_seek = Inr (), fa_reads = [], fa_after = Inr example_metadata \<rparr> \<rparr>"

definition example_env :: save_env where
  "example_env = \<lparr> se_pid = 1, se_open = Inr (), se_lock = Inr (), se_locked1 = example_answers, se_path1 = (Inr (), example_answers),
     se_read = no_faults, se_locked2 = example_answers, se_path2 = (Inr (), example_answers),
     se_write = \<lparr> wf_create = (\<lambda>_. None), wf_write = None, wf_rename = None, wf_remove = False \<rparr> \<rparr>"

definition example_load_env :: load_env where
  "example_load_env = \<lparr> le_path = (Inr (), example_answers), le_read = no_faults \<rparr>"

definition empty_world :: sidecar_world where
  "empty_world = \<lparr> sw_files = Map.empty, sw_sequence = 0 \<rparr>"

lemma example_codec_ok: "codec_ok example_codec"
  by (simp add: codec_ok_def example_codec_def)

lemma example_well_formed: "well_formed example_key example_annotation"
  using as_reachable_wf[OF example_annotation_reachable]
  by (simp add: well_formed_def example_key_def key_new_def example_identity_def identity_ok_def)

lemma example_annotation_eq:
  "example_annotation = \<lparr> as_page_count = 2, as_records = [\<lparr> an_id = 1, an_range = TextRange (TextPosition 0 3) (TextPosition 1 7),
     an_highlight = Some Yellow, an_comment = None, an_created = 1, an_updated = 1 \<rparr>], as_next_id = Some 2, as_revision = 1 \<rparr>"
  by (simp add: example_annotation_def as_add_def annotation_set_new_def range_new_def less_eq_text_position_def
      less_text_position_def validate_range_def validate_content_def MAX_TEXT_CHARACTER_INDEX_def next_revision_def
      checked_add_def)

lemma example_revalidated:
  "revalidate_file sha256 example_answers example_key = Inr ()"
  by (simp add: revalidate_file_def from_file_metadata_def from_metadata_def modified_parts_def system_time_parts_def
      i64_from_def example_answers_def example_metadata_def example_key_def key_new_def example_identity_def
      identity_new_def with_sha256_def same_metadata_revision_def io_error_def)

lemma example_sidecar: "sidecar_path (dk_path example_key) = Inr ''docs/paper.pdf.gpui-pdf-reader.json''"
  by (simp add: example_key_def key_new_def sidecar_path_def file_name_def with_file_name_def parent_of_def
      push_component_def SIDECAR_SUFFIX_def)

lemma example_encoded: "encode_sidecar example_codec (dk_identity example_key) example_annotation = Inr [1]"
proof -
  have "stored_from_parts example_identity example_annotation = Inr example_stored"
    by (simp add: example_stored_def stored_from_parts_def store_identity_def example_identity_def example_annotation_eq
        u64_from_def store_annotation_def store_position_def)
  moreover have "validate_snapshot example_identity example_annotation = Inr ()"
    using as_wf_valid[OF as_reachable_wf[OF example_annotation_reachable]]
    by (simp add: validate_snapshot_def example_identity_def example_annotation_eq)
  ultimately show ?thesis
    by (simp add: encode_sidecar_def example_key_def key_new_def example_codec_def json_error_def MAX_SIDECAR_BYTES_def)
qed

lemma example_load: "json_load sha256 json example_load_env example_key empty_world = Inr (annotation_set_new 2)"
  using example_sidecar example_revalidated
  by (simp add: json_load_def revalidate_document_path_def example_load_env_def io_error_def load_or_empty_def load_at_def
      file_call_def empty_world_def example_key_def key_new_def example_identity_def)

lemma example_save:
  "\<exists>r w. json_compare_and_save sha256 example_codec example_env example_key 0 example_annotation empty_world = (Inr r, w)"
proof -
  have v: "validate_snapshot (dk_identity example_key) example_annotation = Inr ()"
    using example_encoded by (auto simp: encode_sidecar_def and_then_Inr)
  have l: "load_or_empty example_codec no_faults ''docs/paper.pdf.gpui-pdf-reader.json'' (dk_identity example_key) empty_world
      = Inr (annotation_set_new 2)"
    by (simp add: load_or_empty_def load_at_def file_call_def empty_world_def io_error_def example_key_def key_new_def
        example_identity_def)
  have p: "prepare_save sha256 example_codec example_env example_key 0 example_annotation empty_world
      = Inr (''docs/paper.pdf.gpui-pdf-reader.json'', [1], 0)"
    using v l example_sidecar example_encoded example_revalidated
    by (simp add: prepare_save_def example_env_def io_error_def revalidate_locked_document_def revalidate_document_path_def
        annotation_set_new_def example_annotation_eq)
  have f: "file_name ''docs/paper.pdf.gpui-pdf-reader.json'' = Some ''paper.pdf.gpui-pdf-reader.json''"
    by (simp add: file_name_def)
  have "\<exists>temp w. create_temporary (Suc n) 0 None 1 (se_write example_env) ''docs/paper.pdf.gpui-pdf-reader.json'' empty_world
      = (Inr temp, w)" for n
    by (simp add: temporary_path_def f empty_world_def example_env_def)
  from this[of 31] obtain temp w where c: "create_temporary MAX_TEMP_FILE_ATTEMPTS 0 None 1 (se_write example_env)
      ''docs/paper.pdf.gpui-pdf-reader.json'' empty_world = (Inr temp, w)"
    by (auto simp: MAX_TEMP_FILE_ATTEMPTS_def)
  have e: "se_pid example_env = 1" "wf_write (se_write example_env) = None" "wf_rename (se_write example_env) = None"
    by (simp_all add: example_env_def)
  have "\<exists>ws. atomic_write (se_pid example_env) (se_write example_env) ''docs/paper.pdf.gpui-pdf-reader.json'' [1] empty_world
      = (Inr (), ws)"
    using c by (simp add: atomic_write_def MAX_SIDECAR_BYTES_def e Let_def)
  then show ?thesis
    by (auto simp: json_compare_and_save_def json_save_trace_def p map_prod_def)
qed

section \<open>Properties\<close>

text \<open>C14: No update is lost in the JSON store. A writer saves with the revision of the snapshot it loaded.
  Whatever other writers save in between, the save succeeds only if the sidecar still holds exactly the
  annotations it loaded, and then it holds those it saved; so nobody's change is overwritten unseen. This
  needs of the JSON library only that it reads what it printed.\<close>

theorem json_store_loses_no_update:
  assumes "codec_ok json"
    and "json_load sha256 json i k w = Inr seen"
    and "saves_by (json_compare_and_save sha256 json) well_formed w w'"
    and "well_formed k' a" and "json_location k' = json_location k"
    and "json_compare_and_save sha256 json e k' (as_revision seen) a w' = (Inr r, w'')"
  shows "json_content json w' (json_location k) = (as_revision seen, as_records seen) \<and>
    json_content json w'' (json_location k) = (as_revision a, as_records a)"
  by (rule annotation_store.no_lost_update[OF json_is_store[OF assms(1)] assms(2,3,4,6,5)])

theorem json_store_loses_no_update_witness:
  "\<exists>r w. json_compare_and_save id example_codec example_env example_key 0 example_annotation empty_world = (Inr r, w) \<and>
     json_content example_codec w (json_location example_key) = (1, as_records example_annotation)"
proof -
  obtain r w where s: "json_compare_and_save id example_codec example_env example_key 0 example_annotation empty_world = (Inr r, w)"
    using example_save by blast
  then have "json_compare_and_save id example_codec example_env example_key (as_revision (annotation_set_new 2))
      example_annotation empty_world = (Inr r, w)" by (simp add: annotation_set_new_def)
  from json_store_loses_no_update[OF example_codec_ok example_load saves_by.nobody example_well_formed refl this]
  show ?thesis using s by (auto simp: example_annotation_eq)
qed

text \<open>C15: The sidecar is replaced as a whole. In every state of the file system during a save, so at any
  crash or failing call, the sidecar has its old content or the complete new snapshot, and every other
  file that existed is unchanged; a save that reports an error has left the sidecar as it was.\<close>

theorem sidecar_is_replaced_atomically:
  assumes "json_save_trace sha256 json e k expected a w = (r, ws)" and "v \<in> set ws"
  shows "(sw_files v (json_location k) = sw_files w (json_location k) \<or>
      (\<exists>bytes. sw_files v (json_location k) = Some bytes \<and> encode_sidecar json (dk_identity k) a = Inr bytes)) \<and>
    (\<forall>p. p \<noteq> json_location k \<longrightarrow> sw_files w p \<noteq> None \<longrightarrow> sw_files v p = sw_files w p) \<and>
    ((\<exists>error. r = Inl error) \<longrightarrow> sw_files (last ws) (json_location k) = sw_files w (json_location k))"
proof (cases "prepare_save sha256 json e k expected a w")
  case (Inl error)
  then show ?thesis using assms by (auto simp: json_save_trace_def)
next
  case (Inr x)
  then obtain sidecar bytes current where p: "prepare_save sha256 json e k expected a w = Inr (sidecar, bytes, current)"
    by (cases x) auto
  obtain r' where aw: "atomic_write (se_pid e) (se_write e) sidecar bytes w = (r', ws)"
    and r: "(\<exists>error. r = Inl error) \<longleftrightarrow> (\<exists>error. r' = Inl error)"
    using assms(1) p by (auto simp: json_save_trace_def split: prod.splits sum.splits)
  have l: "json_location k = sidecar" and enc: "encode_sidecar json (dk_identity k) a = Inr bytes"
    using prepare_Inr[OF p] by (auto simp: json_location_def)
  note s = atomic_write_states[OF aw]
  have "sw_files v sidecar = sw_files w sidecar \<or> sw_files v sidecar = Some bytes"
    "\<forall>p. p \<noteq> sidecar \<longrightarrow> sw_files w p \<noteq> None \<longrightarrow> sw_files v p = sw_files w p"
    using s assms(2) by blast+
  moreover have "(\<exists>error. r' = Inl error) \<Longrightarrow> sw_files (last ws) sidecar = sw_files w sidecar"
    using s by auto
  ultimately show ?thesis using enc r unfolding l by blast
qed

theorem sidecar_is_replaced_atomically_witness:
  "\<exists>r ws. json_save_trace id example_codec example_env example_key 0 example_annotation empty_world = (r, ws) \<and>
     (\<forall>v \<in> set ws. sw_files v (json_location example_key) = None \<or> sw_files v (json_location example_key) = Some [1])"
proof -
  obtain r ws where t: "json_save_trace id example_codec example_env example_key 0 example_annotation empty_world = (r, ws)"
    by fastforce
  show ?thesis
    using sidecar_is_replaced_atomically[OF t] t example_encoded by (fastforce simp: empty_world_def)
qed

lemma load_no_faults:
  "sw_files w p = Some bytes \<Longrightarrow> length bytes \<le> MAX_SIDECAR_BYTES \<Longrightarrow>
   load_at json no_faults p expected w = decode_sidecar json p bytes expected"
  by (simp add: load_at_def no_faults_def file_call_def io_error_def Let_def)

text \<open>C16: What was saved loads again: after a successful save, a load of the same document (whose identity
  the file still has) returns the page count, the revision and the annotations that were saved.\<close>

theorem saved_annotations_load_again:
  assumes "codec_ok json" and "identity_ok (dk_identity k)" and "as_reachable a"
    and "json_compare_and_save sha256 json e k expected a w = (Inr r, w')"
    and "revalidate_document_path sha256 (le_path i) k = Inr ()" and "le_read i = no_faults"
  shows "\<exists>t. json_load sha256 json i k w' = Inr t \<and> as_page_count t = as_page_count a \<and>
    as_revision t = as_revision a \<and> as_records t = as_records a"
proof -
  obtain sidecar bytes current ws u where p: "prepare_save sha256 json e k expected a w = Inr (sidecar, bytes, current)"
    and aw: "atomic_write (se_pid e) (se_write e) sidecar bytes w = (Inr u, ws)" and w': "w' = last ws"
    using assms(4) by (auto simp: json_compare_and_save_def json_save_trace_def map_prod_def split: sum.splits prod.splits)
  have loc: "sidecar_path (dk_path k) = Inr sidecar" and enc: "encode_sidecar json (dk_identity k) a = Inr bytes"
    using prepare_Inr[OF p] by auto
  have files: "sw_files w' sidecar = Some bytes" using atomic_write_states[OF aw] w' by simp
  have size: "length bytes \<le> MAX_SIDECAR_BYTES"
    using enc by (auto simp: encode_sidecar_def and_then_Inr split: if_splits)
  obtain t where t: "decode_sidecar json sidecar bytes (dk_identity k) = Inr t" and eq: "as_page_count t = as_page_count a"
    "as_revision t = as_revision a" "as_records t = as_records a"
    using decode_encode[OF assms(1) enc assms(2) same_revision_refl as_reachable_wf[OF assms(3)]] by metis
  have "json_load sha256 json i k w' = Inr t"
    using assms(5,6) loc load_no_faults[OF files size] t by (simp add: json_load_def load_or_empty_def)
  then show ?thesis using eq by blast
qed

theorem saved_annotations_load_again_witness:
  "\<exists>r w t. json_compare_and_save id example_codec example_env example_key 0 example_annotation empty_world = (Inr r, w) \<and>
     json_load id example_codec example_load_env example_key w = Inr t \<and> as_records t = as_records example_annotation"
proof -
  obtain r w where s: "json_compare_and_save id example_codec example_env example_key 0 example_annotation empty_world = (Inr r, w)"
    using example_save by blast
  have "identity_ok (dk_identity example_key)" using example_well_formed by (simp add: well_formed_def)
  moreover have "revalidate_document_path id (le_path example_load_env) example_key = Inr ()"
    using example_revalidated by (simp add: revalidate_document_path_def example_load_env_def io_error_def)
  moreover have "le_read example_load_env = no_faults" by (simp add: example_load_env_def)
  ultimately show ?thesis
    using saved_annotations_load_again[OF example_codec_ok _ example_annotation_reachable s] s by blast
qed

text \<open>The stored form has no next identifier, and \<open>compare_and_save\<close> compares whole sets: once the annotation
  with the largest identifier has been deleted, saving the very snapshot that is on disk again is
  refused as a change without a new revision. The in-memory store accepts it.\<close>

lemma resaving_a_saved_snapshot_is_refused:
  assumes codec: "codec_ok json" and id: "identity_ok (dk_identity k)" and a: "as_reachable a"
    and saved: "json_compare_and_save sha256 json e k expected a w = (Inr r, w')"
    and deleted: "as_next_id a \<noteq> checked_add (fold (\<lambda>x m. max m (an_id x)) (as_records a) 0) 1"
    and again: "se_open f = Inr ()" "se_lock f = Inr ()" "se_read f = no_faults"
      "revalidate_locked_document sha256 (se_locked1 f) (se_path1 f) k = Inr ()"
  shows "json_compare_and_save sha256 json f k (as_revision a) a w' =
    (Inl (RevisionNotAdvanced (as_revision a) (as_revision a)), w')"
proof -
  obtain sidecar bytes current ws u where p: "prepare_save sha256 json e k expected a w = Inr (sidecar, bytes, current)"
    and aw: "atomic_write (se_pid e) (se_write e) sidecar bytes w = (Inr u, ws)" and w': "w' = last ws"
    using saved by (auto simp: json_compare_and_save_def json_save_trace_def map_prod_def split: sum.splits prod.splits)
  have loc: "sidecar_path (dk_path k) = Inr sidecar" and enc: "encode_sidecar json (dk_identity k) a = Inr bytes"
    using prepare_Inr[OF p] by auto
  have files: "sw_files w' sidecar = Some bytes" using atomic_write_states[OF aw] w' by simp
  have size: "length bytes \<le> MAX_SIDECAR_BYTES" and valid: "validate_snapshot (dk_identity k) a = Inr ()"
    using enc by (auto simp: encode_sidecar_def and_then_Inr split: if_splits)
  let ?t = "a\<lparr> as_next_id := checked_add (fold (\<lambda>x m. max m (an_id x)) (as_records a) 0) 1 \<rparr>"
  have "decode_sidecar json sidecar bytes (dk_identity k) = Inr ?t"
    using decode_encode_exactly[OF codec enc id same_revision_refl as_reachable_wf[OF a]] .
  then have l: "load_or_empty json no_faults sidecar (dk_identity k) w' = Inr ?t"
    using load_no_faults[OF files size] by (simp add: load_or_empty_def)
  have "a \<noteq> ?t"
  proof
    assume "a = ?t"
    then have "as_next_id a = as_next_id ?t" by (rule arg_cong)
    then show False using deleted by simp
  qed
  then have "prepare_save sha256 json f k (as_revision a) a w' = Inl (RevisionNotAdvanced (as_revision a) (as_revision a))"
    using valid loc again l by (simp add: prepare_save_def io_error_def)
  then show ?thesis by (simp add: json_compare_and_save_def json_save_trace_def)
qed

lemma memory_accepts_a_saved_snapshot:
  assumes "memory_compare_and_save k expected a m = (Inr r, m')"
  shows "\<exists>r'. memory_compare_and_save k (as_revision a) a m' = (Inr r', m')"
proof -
  note s = memory_save_Inr[OF assms]
  let ?e = "\<lparr> me_identity = dk_identity k, me_annotations = a \<rparr>"
  have e: "map_of (ms_entries m') (dk_path k) = Some ?e" using s by simp
  then have same: "hm_insert (dk_path k) ?e (ms_entries m') = ms_entries m'"
    unfolding hm_insert_def by (rule update_triv)
  have "memory_compare_and_save k (as_revision a) a m' =
      (Inr \<lparr> sr_previous = as_revision a, sr_saved = as_revision a \<rparr>, m'\<lparr> ms_entries := hm_insert (dk_path k) ?e (ms_entries m') \<rparr>)"
    using s e unfolding memory_compare_and_save_def by (simp add: Let_def)
  then show ?thesis unfolding same by simp
qed

end
