(* ===== verification/AnnotationServiceProps.thy ===== *)
theory AnnotationServiceProps
  imports AnnotationShutdown SidecarProps
begin

text \<open>
  What the annotation service promises (\<open>crates/key-sidecar-store/src/service.rs\<close>): its invariant, that it ends
  after the last handle is dropped, that it never rolls a document back, and that joining saves loses nothing.
\<close>

section \<open>The service on the memory store\<close>

text \<open>How a document key is read from a file is left open.\<close>

definition memory_ops :: "(path \<Rightarrow> nat \<Rightarrow> (store_error, document_key) rust_result) \<Rightarrow> memory_store store_ops" where
  "memory_ops key_from =
     \<lparr> so_from_pdf = (\<lambda>p n _. key_from p n), so_load = memory_load, so_save = memory_compare_and_save \<rparr>"

definition memory_writers :: "memory_store \<Rightarrow> memory_store \<Rightarrow> bool" where
  "memory_writers = saves_by (\<lambda>_ :: unit. memory_compare_and_save) any_annotations"

section \<open>Turns one after the other\<close>

fun run_turns :: "'s store_ops \<Rightarrow> nat \<Rightarrow> 's service \<Rightarrow> loop_flow \<times> 's service" where
  "run_turns ops 0 s = (Next, s)"
| "run_turns ops (Suc n) s =
     (case turn ops [] s of (Next, s') \<Rightarrow> run_turns ops n s' | (flow, s') \<Rightarrow> (flow, s'))"

lemma quiet_turns_finish:
  assumes "service_ok s" "ending_ok s" "\<not> sv_alive s" "quiet s"
  shows "\<exists>n s'. n \<le> Suc (pending_operations (sv_documents s)) \<and> run_turns ops n s = (Finished, s') \<and>
    sv_documents s' = [] \<and> sv_clients s' = []"
  using assms
proof (induction "pending_operations (sv_documents s)" arbitrary: s rule: less_induct)
  case less
  obtain flow t where t: "turn ops [] s = (flow, t)" by fastforce
  from dead_turn[OF less.prems(1-3) t] show ?case
  proof (elim disjE conjE)
    assume "flow = Finished" "sv_documents t = []" "sv_clients t = []"
    then show ?thesis using t by (intro exI[of _ "Suc 0"] exI[of _ t]) simp
  next
    assume n: "flow = Next" "quiet t" "\<not> sv_alive t" "service_ok t" "ending_ok t"
      "quiet s \<longrightarrow> pending_operations (sv_documents t) < pending_operations (sv_documents s)"
    then have l: "pending_operations (sv_documents t) < pending_operations (sv_documents s)" using less.prems(4) by blast
    from less.hyps[OF l n(4,5,3,2)] obtain m s' where "m \<le> Suc (pending_operations (sv_documents t))"
      "run_turns ops m t = (Finished, s')" "sv_documents s' = []" "sv_clients s' = []" by blast
    then show ?thesis using t n(1) l by (intro exI[of _ "Suc m"] exI[of _ s']) simp
  qed
qed

lemma dead_turns_finish:
  assumes "service_ok s" "ending_ok s" "\<not> sv_alive s"
  shows "\<exists>n s'. run_turns ops n s = (Finished, s') \<and> sv_documents s' = [] \<and> sv_clients s' = []"
proof -
  obtain flow t where t: "turn ops [] s = (flow, t)" by fastforce
  from dead_turn[OF assms t] show ?thesis
  proof (elim disjE conjE)
    assume "flow = Finished" "sv_documents t = []" "sv_clients t = []"
    then show ?thesis using t by (intro exI[of _ "Suc 0"] exI[of _ t]) simp
  next
    assume n: "flow = Next" "quiet t" "\<not> sv_alive t" "service_ok t" "ending_ok t"
    from quiet_turns_finish[OF n(4,5,3,2), of ops] obtain m s' where
      "run_turns ops m t = (Finished, s')" "sv_documents s' = []" "sv_clients s' = []" by blast
    then show ?thesis using t n(1) by (intro exI[of _ "Suc m"] exI[of _ s']) simp
  qed
qed

section \<open>The store\<close>

text \<open>Only the operation of a lane touches the store.\<close>

lemma close_lane_store [simp]: "sv_store (close_lane i lane s) = sv_store s"
  by (simp add: close_lane_def)

lemma ingest_store [simp]: "sv_store (ingest command s) = sv_store s"
proof -
  have f: "sv_store (fold (\<lambda>(i, lane) s. if dl_closing lane then s else close_lane i lane s) xs t) = sv_store t"
    for xs and t :: "'a service"
    by (rule fold_field) (simp split: prod.split)
  show ?thesis by (cases command) (simp_all add: ingest_def Let_def f split: option.split)
qed

lemma drain_store [simp]: "sv_store (drain_mailbox s) = sv_store s"
  by (simp add: drain_mailbox_def Let_def fold_field[where g=sv_store])

lemma reap_store [simp]: "sv_store (reap_detached s) = sv_store s"
  unfolding reap_detached_def by (rule fold_field) (simp split: prod.split)

lemma events_only_store: "events_only s t \<Longrightarrow> sv_store t = sv_store s"
  by (auto simp: events_only_def)

lemma receive_store: "receive s = Some t \<Longrightarrow> sv_store t = sv_store s"
  by (auto simp: receive_def split: list.splits if_splits)

lemma flush_client_store [simp]: "sv_store (flush_client c sink s) = sv_store s"
  by (rule events_only_store[OF flush_client_events])

lemma before_selection_store [simp]: "sv_store (before_selection s) = sv_store s"
proof -
  have "sv_store (flush_all_clients t) = sv_store t" for t :: "'a service"
    unfolding flush_all_clients_def by (rule fold_field) (simp split: prod.split)
  then show ?thesis by (simp add: before_selection_def rotate_last_served_def)
qed

lemma can_accept_store: "client_can_accept_event c s = (b, t) \<Longrightarrow> sv_store t = sv_store s"
  by (auto simp: client_can_accept_event_def Let_def split: option.splits)

lemma select_store: "select_lane n s = (r, t) \<Longrightarrow> sv_store t = sv_store s"
proof (induction n arbitrary: s)
  case (Suc n)
  show ?case
  proof (cases "sv_ready s")
    case (Cons i ready)
    let ?s = "s\<lparr> sv_ready := ready \<rparr>"
    obtain b u where look: "(case map_of (sv_documents ?s) i of None \<Rightarrow> (True, ?s)
        | Some lane \<Rightarrow> if dl_closing lane then (True, ?s) else client_can_accept_event (dl_client lane) ?s) = (b, u)"
      by fastforce
    then have "sv_store u = sv_store s" by (auto dest: can_accept_store split: option.splits if_splits)
    moreover have "select_lane (Suc n) s = (if b then (Some i, u) else select_lane n (u\<lparr> sv_ready := sv_ready u @ [i] \<rparr>))"
      using Cons look by (simp add: Let_def)
    ultimately show ?thesis using Suc.IH[of "u\<lparr> sv_ready := sv_ready u @ [i] \<rparr>"] Suc.prems by (auto split: if_splits)
  qed (use Suc.prems in simp)
qed simp

lemma send_event_store [simp]: "sv_store (send_event c i g kind s) = sv_store s"
  by (rule events_only_store[OF send_event_events])

lemma run_load_store: "sv_store (snd (run_load ops i g p n lane s)) = sv_store s"
  by (simp add: run_load_def send_failure_def Let_def split: sum.split prod.split)

lemma run_save_store:
  "sv_store (snd (run_save ops i g p identity expected annotations lane s)) =
     (if stale_save g p lane then sv_store s
      else snd (so_save ops (key_new p identity)
                  (case dl_observed lane of Some r \<Rightarrow> r | None \<Rightarrow> expected) annotations (sv_store s)))"
  by (simp add: run_save_def send_failure_def Let_def split: sum.split prod.split)

lemma return_store: "sv_store (return_lane i r) = sv_store (snd r)"
  by (simp add: return_lane_def split: prod.split)

lemma process_store:
  "sv_store (process_one ops i s) = sv_store s \<or>
   (\<exists>k expected a. sv_store (process_one ops i s) = snd (so_save ops k expected a (sv_store s)))"
proof (cases "map_of (sv_documents s) i")
  case None
  then show ?thesis by (simp add: process_one_def)
next
  case (Some lane)
  show ?thesis
  proof (cases "dl_operations lane")
    case Nil
    then show ?thesis using Some by (simp add: process_one_def Let_def)
  next
    case (Cons operation operations)
    show ?thesis
    proof (cases operation)
      case (SaveDocument g p identity expected annotations)
      then show ?thesis using Some Cons
        by (simp add: process_one_def Let_def return_store run_save_store stale_save_def) blast
    qed (use Some Cons in \<open>simp_all add: process_one_def Let_def return_store run_load_store\<close>)
  qed
qed

lemma turn_store:
  assumes "turn ops late s = (flow, s')"
  shows "sv_store s' = sv_store s \<or> (\<exists>k expected a. sv_store s' = snd (so_save ops k expected a (sv_store s)))"
  using assms
proof (cases rule: turn_cases)
  case waiting
  then show ?thesis by simp
next
  case (served s1 i s3)
  have "sv_store s3 = sv_store s" using select_store[OF served(2)] served(1) by (auto dest: receive_store)
  then show ?thesis using process_store[of ops i "s3\<lparr> sv_ready_set := sv_ready_set s3 - {i} \<rparr>"] served(4) by simp
next
  case (idle s1 s3)
  have "sv_store s3 = sv_store s" using select_store[OF idle(2)] idle(1) by (auto dest: receive_store)
  then show ?thesis using idle(6) by (auto dest: receive_store)
next
  case (answered s1 s3)
  have "sv_store s3 = sv_store s" using select_store[OF answered(2)] answered(1) by (auto dest: receive_store)
  then show ?thesis using answered(3) by (auto simp: answer_inspections_def Let_def)
qed

section \<open>Every writer of the memory store\<close>

lemma any_annotations [simp]: "any_annotations k a"
  by (simp add: any_annotations_def)

lemma memory_writers_trans: "memory_writers m m' \<Longrightarrow> memory_writers m' m'' \<Longrightarrow> memory_writers m m''"
  unfolding memory_writers_def
proof (rotate_tac, induction rule: saves_by.induct)
  case (somebody st st' k a env expected r st'')
  then show ?case by (blast intro: saves_by.somebody)
qed

lemma memory_writers_save: "memory_writers m (snd (memory_compare_and_save k expected a m))"
proof -
  obtain r m' where "memory_compare_and_save k expected a m = (r, m')" by fastforce
  then show ?thesis unfolding memory_writers_def
    using saves_by.somebody[of "\<lambda>_ :: unit. memory_compare_and_save" any_annotations m m k a "()" expected r m']
      saves_by.nobody[of "\<lambda>_ :: unit. memory_compare_and_save" any_annotations m] any_annotations by auto
qed

lemma service_step_writes:
  "service_step (memory_ops key_from) memory_writers s s' \<Longrightarrow> memory_writers (sv_store s) (sv_store s')"
proof (induction rule: service_step.induct)
  case (turn late s flow s')
  then show ?case using turn_store[OF turn(4)] memory_writers_save
    by (auto simp: memory_ops_def memory_writers_def intro: saves_by.nobody)
next
  case (attach s events lease r s')
  then show ?case
    by (auto simp: service_attach_def Let_def memory_writers_def intro: saves_by.nobody split: option.splits prod.splits if_splits)
next
  case (submit command s)
  then show ?case by (auto simp: submit_def memory_writers_def intro: saves_by.nobody)
next
  case (drop_client s lease)
  then show ?case by (auto simp: drop_client_def submit_def memory_writers_def intro: saves_by.nobody)
next
  case (drop_service s s')
  then show ?case by (auto simp: drop_service_def memory_writers_def intro: saves_by.nobody split: if_splits)
qed (auto simp: memory_writers_def intro: saves_by.nobody)

section \<open>An example\<close>

text \<open>One client attaches and saves; then the last handle is dropped.\<close>

definition example_ops :: "memory_store store_ops" where
  "example_ops = memory_ops (\<lambda>p n. Inr example_key)"

definition example_save_command :: service_command where
  "example_save_command = SaveCommand 1 1 7 ''docs/paper.pdf'' example_identity 0 example_annotation"

definition example_submitted :: "memory_store service" where
  "example_submitted =
     (service_new (\<lambda>_. \<lparr> ch_queue = [], ch_connected = True \<rparr>) memory_store_new)
       \<lparr> sv_next_client := 2, sv_next_document := 2, sv_mailbox := [Attach 1 1 0 0, example_save_command] \<rparr>"

definition example_served :: "memory_store service" where
  "example_served = snd (turn example_ops [] example_submitted)"

definition example_dropped :: "memory_store service" where
  "example_dropped = example_submitted
     \<lparr> sv_mailbox := [Attach 1 1 0 0, example_save_command, Shutdown], sv_alive := False \<rparr>"

lemma example_submitted_reachable: "service_reachable example_ops memory_writers example_submitted"
proof -
  let ?s0 = "service_new (\<lambda>_. \<lparr> ch_queue = [], ch_connected = True \<rparr>) memory_store_new"
  let ?s1 = "?s0\<lparr> sv_next_client := 2, sv_next_document := 2, sv_mailbox := [Attach 1 1 0 0] \<rparr>"
  have "service_attach 0 0 ?s0 = Some (Inr (1, 1), ?s1)"
    by (simp add: service_attach_def next_service_id_def checked_add_def service_new_def COMMAND_CAPACITY_def)
  then have "service_reachable example_ops memory_writers ?s1"
    by (intro service_reachable.step[OF service_reachable.start service_step.attach]) (simp_all add: service_new_def)
  moreover have "snd (submit example_save_command ?s1) = example_submitted"
    by (simp add: submit_def service_new_def COMMAND_CAPACITY_def example_submitted_def)
  moreover have "service_step example_ops memory_writers ?s1 (snd (submit example_save_command ?s1))"
    by (rule service_step.submit) (simp_all add: example_save_command_def)
  ultimately show ?thesis using service_reachable.step by metis
qed

lemma example_dropped_reachable: "service_reachable example_ops memory_writers example_dropped"
proof (rule service_reachable.step[OF example_submitted_reachable service_step.drop_service])
  show "sv_alive example_submitted" by (simp add: example_submitted_def service_new_def)
  show "drop_service example_submitted = Some example_dropped"
    by (simp add: drop_service_def example_submitted_def example_dropped_def service_new_def COMMAND_CAPACITY_def)
qed

lemma example_memory_save:
  "memory_compare_and_save (key_new ''docs/paper.pdf'' example_identity) 0 example_annotation memory_store_new =
     (Inr \<lparr> sr_previous = 0, sr_saved = 1 \<rparr>,
      memory_store_new\<lparr> ms_entries := [(''docs/paper.pdf'', \<lparr> me_identity = example_identity, me_annotations = example_annotation \<rparr>)] \<rparr>)"
proof -
  have "as_validate example_annotation = Inr ()" using as_wf_valid[OF as_reachable_wf[OF example_annotation_reachable]] .
  then show ?thesis
    by (simp add: memory_compare_and_save_def memory_store_new_def key_new_def example_identity_def example_annotation_eq
        hm_insert_def Let_def)
qed

lemmas service_eval = turn_def any_pending_def receive_def example_save_command_def ingest_def drain_mailbox_def
  reap_detached_def flush_all_clients_def flush_client_def rotate_last_served_def client_can_accept_event_def
  process_one_def run_save_def stale_save_def return_lane_def put_lane_def service_schedule_def lane_new_def
  open_lane_def enqueue_save_def hm_insert_def hm_remove_def send_event_def service_try_send_def EVENT_CAPACITY_def
  close_lane_def remove_client_def PENDING_EVENT_CAPACITY_def Let_def memory_ops_def

lemma example_turn:
  "turn example_ops [] example_submitted = (Next, example_submitted
     \<lparr> sv_mailbox := [], sv_clients := [(1, \<lparr> cs_events = 0, cs_pending = [] \<rparr>)],
       sv_documents := [(1, (lane_new 1 0)\<lparr> dl_generation := Some 7, dl_path := Some ''docs/paper.pdf'', dl_observed := Some 1 \<rparr>)],
       sv_last_served := Some 1,
       sv_channels := (sv_channels example_submitted)(0 := \<lparr> ch_queue = [\<lparr> ev_client = 1, ev_document = 1, ev_generation = 7, ev_kind = Saved 1 \<rparr>], ch_connected = True \<rparr>),
       sv_store := memory_store_new\<lparr> ms_entries := [(''docs/paper.pdf'', \<lparr> me_identity = example_identity, me_annotations = example_annotation \<rparr>)] \<rparr> \<rparr>)"
  by (simp add: example_submitted_def example_ops_def service_new_def example_memory_save service_eval)

lemma example_served_reachable: "service_reachable example_ops memory_writers (snd (turn example_ops [] example_submitted))"
  using service_reachable.step[OF example_submitted_reachable service_step.turn[OF _ _ _ example_turn]]
  by (simp add: example_turn)

section \<open>The properties\<close>

text \<open>C17: Whatever the clients, the loop and other writers do, in any order: the queue of ready documents has no
  duplicates, its set is its content, every document with operations left waits in it and no unknown document does;
  a document that ends has exactly one detaching operation, the last one, and its client gets no more events;
  a client has one open document, and at most eight events wait for it beside its channel.\<close>

theorem service_keeps_its_lanes:
  assumes "service_reachable ops others s"
  shows "distinct (sv_ready s) \<and> sv_ready_set s = set (sv_ready s) \<and>
    (\<forall>i. i \<in> set (sv_ready s) \<longrightarrow> map_of (sv_documents s) i \<noteq> None) \<and>
    (\<forall>i lane. map_of (sv_documents s) i = Some lane \<longrightarrow>
       (dl_operations lane \<noteq> [] \<longrightarrow> i \<in> set (sv_ready s)) \<and> (dl_scheduled lane \<longleftrightarrow> i \<in> set (sv_ready s)) \<and>
       (if dl_closing lane
        then (\<exists>before. dl_operations lane = before @ [Detach] \<and> Detach \<notin> set before) \<and>
             map_of (sv_clients s) (dl_client lane) = None
        else Detach \<notin> set (dl_operations lane))) \<and>
    (\<forall>c sink. map_of (sv_clients s) c = Some sink \<longrightarrow>
       length (cs_pending sink) \<le> 8 \<and>
       (\<exists>!i. \<exists>lane. map_of (sv_documents s) i = Some lane \<and> dl_client lane = c \<and> \<not> dl_closing lane))"
proof -
  have ok: "service_ok s" by (rule service_reachable_ok[OF assms])
  then have l: "lanes_ok s" and c: "clients_ok s" and ids: "ids_ok s" by (simp_all add: service_ok_def)
  have one: "i = j" if "map_of (sv_documents s) i = Some a" "map_of (sv_documents s) j = Some b" "dl_client a = dl_client b" for i j a b
  proof -
    have "client_of s i = Some (dl_client b)" "client_of s j = Some (dl_client b)" using that by (simp_all add: client_of_def)
    then show ?thesis using ids unfolding ids_ok_def ids_inv_def by blast
  qed
  have lanes: "(dl_operations lane \<noteq> [] \<longrightarrow> i \<in> set (sv_ready s)) \<and> (dl_scheduled lane \<longleftrightarrow> i \<in> set (sv_ready s)) \<and>
      (if dl_closing lane
       then (\<exists>before. dl_operations lane = before @ [Detach] \<and> Detach \<notin> set before) \<and> map_of (sv_clients s) (dl_client lane) = None
       else Detach \<notin> set (dl_operations lane))" if "map_of (sv_documents s) i = Some lane" for i lane
  proof -
    have lo: "lane_ok lane" "dl_scheduled lane \<longleftrightarrow> i \<in> set (sv_ready s)" "dl_operations lane \<noteq> [] \<longrightarrow> dl_scheduled lane"
      using l that by (auto simp: lanes_ok_def)
    moreover have "\<exists>before. dl_operations lane = before @ [Detach] \<and> Detach \<notin> set before" if "dl_closing lane"
      using lo(1) that append_butlast_last_id[of "dl_operations lane"] unfolding lane_ok_def by metis
    ultimately show ?thesis using closing_no_client[OF ok that] by (auto simp: lane_ok_def)
  qed
  have clients: "length (cs_pending sink) \<le> 8 \<and>
      (\<exists>!i. \<exists>lane. map_of (sv_documents s) i = Some lane \<and> dl_client lane = c \<and> \<not> dl_closing lane)"
    if "map_of (sv_clients s) c = Some sink" for c sink
  proof -
    have "length (cs_pending sink) \<le> 8" using c that by (auto simp: clients_ok_def PENDING_EVENT_CAPACITY_def)
    moreover have "\<exists>i lane. map_of (sv_documents s) i = Some lane \<and> dl_client lane = c \<and> \<not> dl_closing lane"
      using c that unfolding clients_ok_def by blast
    then obtain i lane where "map_of (sv_documents s) i = Some lane" "dl_client lane = c" "\<not> dl_closing lane" by blast
    ultimately show ?thesis using one by blast
  qed
  have "distinct (sv_ready s)" "sv_ready_set s = set (sv_ready s)" "\<forall>i. i \<in> set (sv_ready s) \<longrightarrow> map_of (sv_documents s) i \<noteq> None"
    using l by (auto simp: lanes_ok_def)
  then show ?thesis using lanes clients by (intro conjI allI impI) blast+
qed

theorem service_keeps_its_lanes_witness:
  "\<exists>s. service_reachable example_ops memory_writers s \<and> map_of (sv_clients s) 1 \<noteq> None \<and>
    (\<exists>!i. \<exists>lane. map_of (sv_documents s) i = Some lane \<and> dl_client lane = 1 \<and> \<not> dl_closing lane)"
proof -
  let ?s = "snd (turn example_ops [] example_submitted)"
  have "map_of (sv_clients ?s) 1 = Some \<lparr> cs_events = 0, cs_pending = [] \<rparr>" by (simp add: example_turn)
  moreover have "\<exists>!i. \<exists>lane. map_of (sv_documents ?s) i = Some lane \<and> dl_client lane = 1 \<and> \<not> dl_closing lane"
    using service_keeps_its_lanes[OF example_served_reachable] calculation by blast
  ultimately show ?thesis using example_served_reachable by (intro exI[of _ ?s]) simp
qed

text \<open>C18: Once the last handle is dropped, the loop of the service ends: after finitely many turns it returns, and by
  then every lane has come to the detaching operation at its end: no document and no client is left.\<close>

theorem dropped_service_ends:
  assumes "service_reachable ops others s" and "\<not> sv_alive s"
  shows "\<exists>n s'. run_turns ops n s = (Finished, s') \<and> sv_documents s' = [] \<and> sv_clients s' = []"
  using dead_turns_finish[OF service_reachable_ok service_reachable_ending] assms by blast

theorem dropped_service_ends_witness:
  "\<exists>n s'. run_turns example_ops n example_dropped = (Finished, s') \<and> sv_documents s' = [] \<and> sv_clients s' = []"
  by (rule dropped_service_ends[OF example_dropped_reachable]) (simp add: example_dropped_def)

text \<open>C19: On the in-memory store, however the service, its clients and others that save interleave (nobody removes an
  entry), what is stored for a
  document is never rolled back: its revision never falls, and as long as it stays the same so do the annotations.\<close>

theorem service_never_rolls_back:
  assumes "service_reachable (memory_ops key_from) memory_writers s"
    and "(service_step (memory_ops key_from) memory_writers)\<^sup>*\<^sup>* s s'"
  shows "fst (memory_content (sv_store s) p) \<le> fst (memory_content (sv_store s') p) \<and>
    (fst (memory_content (sv_store s) p) = fst (memory_content (sv_store s') p) \<longrightarrow>
     memory_content (sv_store s) p = memory_content (sv_store s') p)"
proof -
  have w: "memory_writers (sv_store s) (sv_store s')"
    using assms(2)
  proof (induction rule: rtranclp_induct)
    case base
    show ?case by (simp add: memory_writers_def saves_by.nobody)
  next
    case (step t u)
    then show ?case using memory_writers_trans service_step_writes by blast
  qed
  obtain k :: document_key where "dk_path k = p" using that[of "key_new p example_identity"] by (simp add: key_new_def)
  then show ?thesis using mem.content_progress[OF w[unfolded memory_writers_def], of k] by simp
qed

theorem service_never_rolls_back_witness:
  "fst (memory_content (sv_store example_submitted) ''docs/paper.pdf'')
     < fst (memory_content (sv_store (snd (turn example_ops [] example_submitted))) ''docs/paper.pdf'')"
proof -
  have "(service_step example_ops memory_writers)\<^sup>*\<^sup>* example_submitted (snd (turn example_ops [] example_submitted))"
    using service_step.turn[OF _ _ _ example_turn, of memory_writers] by (auto simp: example_turn)
  from service_never_rolls_back[OF example_submitted_reachable[unfolded example_ops_def] this[unfolded example_ops_def],
      of "''docs/paper.pdf''"]
  have "fst (memory_content (sv_store example_submitted) ''docs/paper.pdf'')
      \<le> fst (memory_content (sv_store (snd (turn example_ops [] example_submitted))) ''docs/paper.pdf'')"
    by (simp add: example_ops_def)
  moreover have "fst (memory_content (sv_store example_submitted) ''docs/paper.pdf'') = 0"
    "fst (memory_content (sv_store (snd (turn example_ops [] example_submitted))) ''docs/paper.pdf'') = 1"
    by (simp_all only: example_turn) (simp_all add: example_submitted_def service_new_def memory_store_new_def
      memory_content_def example_annotation_eq)
  ultimately show ?thesis by simp
qed

text \<open>C20: On the in-memory store, joining two saves that wait one behind the other loses nothing. When both would
  succeed one after the other, the queue holds only the contents and the document identity of the second, with the
  revision that the first expected, and carrying it out alone leaves the same lane and the same store. The two may
  name different identities, as long as what was stored before is a document that the second one also accepts.\<close>

theorem joined_saves_do_the_same:
  fixes p :: path and g e e' :: u64 and a b :: annotation_set and identity identity' :: document_identity and i :: document_id
    and key_from :: "path \<Rightarrow> nat \<Rightarrow> (store_error, document_key) rust_result" and lane :: document_lane and s :: "memory_store service"
  defines "expected \<equiv> (case dl_observed lane of Some r \<Rightarrow> r | None \<Rightarrow> e)"
    and "first \<equiv> run_save (memory_ops key_from) i g p identity e a lane s"
  assumes "\<not> stale_save g p lane"
    and "memory_compare_and_save (key_new p identity) expected a (sv_store s) = (Inr r, m)"
    and "memory_compare_and_save (key_new p identity') (as_revision a) b m = (Inr r', m')"
    and "\<And>x. map_of (ms_entries (sv_store s)) p = Some x \<Longrightarrow> same_revision (me_identity x) identity'"
  shows "enqueue_save g p identity' e' b (operations @ [SaveDocument g p identity e a]) =
      operations @ [SaveDocument g p identity' e b] \<and>
    fst (run_save (memory_ops key_from) i g p identity' e b lane s) =
      fst (run_save (memory_ops key_from) i g p identity' e' b (fst first) (snd first)) \<and>
    sv_store (snd (run_save (memory_ops key_from) i g p identity' e b lane s)) = m' \<and>
    sv_store (snd (run_save (memory_ops key_from) i g p identity' e' b (fst first) (snd first))) = m'"
proof -
  have k [simp]: "dk_path (key_new p x) = p" "dk_identity (key_new p x) = x" for x by (simp_all add: key_new_def)
  let ?st = "sv_store s"
  note one = memory_save_Inr[OF assms(4), unfolded k] and two = memory_save_Inr[OF assms(5), unfolded k]
  have fa: "fst (memory_content ?st p) = expected" "expected \<le> as_revision a" "\<not> ms_poisoned ?st"
    "\<And>e. map_of (ms_entries ?st) p = Some e \<Longrightarrow> same_revision (me_identity e) identity"
    "\<And>e. map_of (ms_entries ?st) p = Some e \<Longrightarrow> as_revision a = expected \<Longrightarrow> me_annotations e = a"
    "r = \<lparr> sr_previous = expected, sr_saved = as_revision a \<rparr>"
    "m = ?st\<lparr> ms_entries := hm_insert p \<lparr> me_identity = identity, me_annotations = a \<rparr> (ms_entries ?st) \<rparr>"
    using one by blast+
  have fb: "as_validate b = Inr ()" "as_page_count b = di_page_count identity'" "as_revision a \<le> as_revision b"
    "\<And>e. map_of (ms_entries m) p = Some e \<Longrightarrow> as_revision b = as_revision a \<Longrightarrow> me_annotations e = b"
    "r' = \<lparr> sr_previous = as_revision a, sr_saved = as_revision b \<rparr>"
    "m' = m\<lparr> ms_entries := hm_insert p \<lparr> me_identity = identity', me_annotations = b \<rparr> (ms_entries m) \<rparr>"
    using two by blast+
  have insert: "hm_insert p y (hm_insert p x xs) = hm_insert p y xs" for x y :: memory_entry and xs
    by (induction xs) (auto simp: hm_insert_def)
  have out: "m' = ?st\<lparr> ms_entries := hm_insert p \<lparr> me_identity = identity', me_annotations = b \<rparr> (ms_entries ?st) \<rparr>"
    unfolding fb(6) fa(7) by (simp add: insert)
  have le: "\<not> as_revision b < expected" using fa(2) fb(3) by auto
  have same: "b = a" if "as_revision b = expected"
  proof -
    have "as_revision b = as_revision a" using fa(2) fb(3) that by auto
    moreover have "map_of (ms_entries m) p = Some \<lparr> me_identity = identity, me_annotations = a \<rparr>" by (simp add: fa(7))
    ultimately show ?thesis using fb(4) by fastforce
  qed
  have direct: "memory_compare_and_save (key_new p identity') expected b ?st =
      (Inr \<lparr> sr_previous = expected, sr_saved = as_revision b \<rparr>, m')"
  proof (cases "map_of (ms_entries ?st) p")
    case None
    then have "expected = 0" using fa(1) by (simp add: memory_content_def)
    then show ?thesis using None fb(1,2) fa(3) by (simp add: memory_compare_and_save_def out Let_def)
  next
    case (Some entry)
    then have "as_revision (me_annotations entry) = expected" "same_revision (me_identity entry) identity'"
      using fa(1) assms(6)[OF Some] by (simp_all add: memory_content_def)
    moreover have "as_revision b = expected \<longrightarrow> me_annotations entry = b"
      using same fa(5)[OF Some] by auto
    ultimately show ?thesis using Some fb(1,2) fa(3) le by (simp add: memory_compare_and_save_def out Let_def)
  qed
  have stale: "\<not> stale_save g p (lane\<lparr> dl_generation := Some g, dl_path := Some p, dl_observed := x \<rparr>)" for x
    by (simp add: stale_save_def)
  have f: "first = (lane\<lparr> dl_generation := Some g, dl_path := Some p, dl_observed := Some (as_revision a) \<rparr>,
      send_event (dl_client lane) i g (Saved (as_revision a)) (s\<lparr> sv_store := m \<rparr>))"
    using assms(3,4) fa(6) by (simp add: first_def run_save_def memory_ops_def expected_def Let_def)
  have d: "run_save (memory_ops key_from) i g p identity' e b lane s =
      (lane\<lparr> dl_generation := Some g, dl_path := Some p, dl_observed := Some (as_revision b) \<rparr>,
       send_event (dl_client lane) i g (Saved (as_revision b)) (s\<lparr> sv_store := m' \<rparr>))"
    using assms(3) direct by (simp add: run_save_def memory_ops_def expected_def Let_def)
  have t: "run_save (memory_ops key_from) i g p identity' e' b (fst first) (snd first) =
      (lane\<lparr> dl_generation := Some g, dl_path := Some p, dl_observed := Some (as_revision b) \<rparr>,
       send_event (dl_client lane) i g (Saved (as_revision b)) ((snd first)\<lparr> sv_store := m' \<rparr>))"
    using assms(5) fb(5) stale by (simp add: f run_save_def memory_ops_def Let_def)
  show ?thesis unfolding d t using fb(3) by (simp add: enqueue_save_def)
qed

text \<open>The second save knows the digest of the same document.\<close>

definition example_digested :: document_identity where
  "example_digested = with_sha256 (Some (replicate 32 7)) example_identity"

definition example_later :: annotation_set where
  "example_later = example_annotation\<lparr> as_revision := 2 \<rparr>"

theorem joined_saves_do_the_same_witness:
  "enqueue_save 7 ''docs/paper.pdf'' example_digested 9 example_later
      [SaveDocument 7 ''docs/paper.pdf'' example_identity 0 example_annotation] =
    [SaveDocument 7 ''docs/paper.pdf'' example_digested 0 example_later] \<and>
   sv_store (snd (run_save example_ops 1 7 ''docs/paper.pdf'' example_digested 0 example_later (lane_new 1 0) example_submitted))
     = memory_store_new\<lparr> ms_entries := [(''docs/paper.pdf'', \<lparr> me_identity = example_digested, me_annotations = example_later \<rparr>)] \<rparr>"
proof -
  let ?m = "\<lambda>d a. memory_store_new\<lparr> ms_entries := [(''docs/paper.pdf'', \<lparr> me_identity = d, me_annotations = a \<rparr>)] \<rparr>"
  have "as_validate example_later = Inr ()"
    by (simp add: example_later_def example_annotation_eq as_validate_ok record_ok_def invalid_revisions_def
        validate_range_def validate_content_def MAX_TEXT_CHARACTER_INDEX_def less_eq_text_position_def less_text_position_def)
  then have later: "memory_compare_and_save (key_new ''docs/paper.pdf'' example_digested) (as_revision example_annotation)
      example_later (?m example_identity example_annotation) = (Inr \<lparr> sr_previous = 1, sr_saved = 2 \<rparr>, ?m example_digested example_later)"
    by (simp add: memory_compare_and_save_def memory_store_new_def key_new_def example_identity_def example_annotation_eq
        example_later_def example_digested_def with_sha256_def same_revision_def hm_insert_def Let_def)
  have st: "\<not> stale_save 7 ''docs/paper.pdf'' (lane_new 1 0)" by (simp add: stale_save_def lane_new_def)
  have one: "memory_compare_and_save (key_new ''docs/paper.pdf'' example_identity)
      (case dl_observed (lane_new 1 0) of Some r \<Rightarrow> r | None \<Rightarrow> 0) example_annotation (sv_store example_submitted) =
      (Inr \<lparr> sr_previous = 0, sr_saved = 1 \<rparr>, ?m example_identity example_annotation)"
    using example_memory_save by (simp add: lane_new_def example_submitted_def service_new_def)
  have "same_revision (me_identity x) example_digested"
    if "map_of (ms_entries (sv_store example_submitted)) ''docs/paper.pdf'' = Some x" for x
    using that by (simp add: example_submitted_def service_new_def memory_store_new_def)
  then show ?thesis
    using joined_saves_do_the_same[OF st one later, of 9 "[]" "\<lambda>p n. Inr example_key" 1] by (simp add: example_ops_def)
qed

end
