(* ===== verification/Spec2Isabelle.thy ===== *)
theory Spec2Isabelle
  imports SchedulerProps SupervisorProps WorkspaceProps NetworkProps HttpProps
    DocumentCacheProps EditorProps EditorGrapheme SidecarTimes AnnotationServiceProps
begin

text \<open>
  A verification library for GPUI PDF Reader, a PDF reader whose logic is split into Rust crates
  without user interface (src/crates/key-*) and an application that draws them. The library models
  the crates that decide what the program does with documents, work, resources and the network.

  \<^bold>\<open>The parts and how they interact.\<close>
  A document is opened by the PDF runtime (key-pdf-runtime). A \<open>DocumentSession\<close> stands for one
  opening; opening again supersedes it: the \<open>DocumentSessionManager\<close> cancels the old session and
  begins a new one with the next generation. Everything the viewer asks for (tiles, text, previews)
  is a demand stamped with a generation. The \<open>PdfRuntime\<close> gives a demand to the engine only if the
  stamp is current, composes the cancellation of the session with that of the caller, and checks
  both again before it publishes a result. The bounded latest-wins queue of the scheduler keeps one
  revision per key and publishes only the latest. The supervisor runs all documents on one thread:
  clients send commands over bounded channels, the owner replaces queued work by class, evicts by
  priority when full, picks the next document by priority and rotation, and delivers events without
  loss. The workspace crate (key-workspace-core) shares memory, CPU and network among the views: a
  registry of participants, and a coordinator that computes an allocation plan. The HTTP capability
  (key-safe-http) is the only way an extension reaches the network; the document cache keeps what it
  fetched. The editor (key-editor-core) holds the text of an annotation or a note as a rich-text
  buffer that is saved as Markdown. The annotations of a document are a versioned set (key-pdf-core),
  and the annotation service (key-sidecar-store) loads and saves them beside the document, one writer
  for all open documents, with a revision check against other writers.

  \<^bold>\<open>Which theory models which code.\<close>
  \<^item> Prelude: Rust integers at their width, \<open>HashMap\<close> and \<open>BTreeMap\<close> as association lists with the
    interface \<open>keyed_store\<close>, \<open>min_by_key\<close> and \<open>max_by_key\<close>, identifier allocators (\<open>fresh_ids\<close>).
    RustText: \<open>str\<close> methods on UTF-8 bytes, numbers in a radix. Float32: the binary32 operations that
    the code uses, exact and computable.
  \<^item> CancelStore (key-pdf-runtime/src/cancellation.rs): sources and tokens as addresses in a store of
    shared flags. Session, SessionManager (session.rs): sessions, handles, counters, the manager, and
    runs in a world that other threads change. Scheduler, SchedulerProofs, SchedulerProps
    (scheduler.rs). Demand (demand.rs), CachePolicy (cache.rs), PdfModel (key-pdf-core/src/model.rs,
    data and text selection).
  \<^item> Engine, EngineProps (engine.rs): \<open>PdfRuntime\<close> over an engine that is a parameter. Supervisor,
    SupervisorOwner, SupervisorSim, SupervisorInv, SupervisorProps (supervisor.rs): the managed
    documents, the owner loop, the refinement to \<open>PdfRuntime\<close> (for engines that keep the descriptor of a document), the invariant and the properties.
  \<^item> Resources, ResourcesProps (key-workspace-core/src/resources.rs); Workspace, WorkspaceProps (ids.rs,
    layout.rs, resource_registry.rs, scheduler.rs of the same crate).
  \<^item> Network, NetworkProps (key-safe-http/src/network.rs); HttpPolicy (error.rs, policy.rs);
    HttpRequest (request.rs, message types of transport.rs); HttpClient (client.rs); HttpProps;
    DocumentCache, DocumentCacheProps (cache.rs).
  \<^item> Editor (key-editor-core/src/lib.rs): EditorText (lines, graphemes, words, UTF-16), EditorRuns
    (styles and runs), EditorMarkdown (writing, the size check, parsing), Editor (the buffer and its
    edits). EditorUtf8, EditorParse, EditorInv, EditorInline, EditorRoundtrip, EditorDocument, EditorLines,
    EditorEdits and EditorGrapheme hold the lemmas, EditorProps the properties.
  \<^item> Annotations, AnnotationLemmas, AnnotationProps (key-pdf-core/src/annotations.rs): the versioned set of
    annotations. SidecarStore (key-sidecar-store/src/store.rs, memory.rs), SidecarMessages (the error texts),
    SidecarTimes, SidecarJson (json.rs), SidecarLemmas, SidecarProps: document identities, the in-memory
    store and the JSON sidecar, where a save is the list of states the file system goes through.
  \<^item> AnnotationService (key-sidecar-store/src/service.rs): the thread that owns the persistence of all
    documents; \<open>turn\<close> is one iteration of its loop, and \<open>service_step\<close> in AnnotationServiceInv the steps
    of the thread, its clients and other writers. AnnotationShutdown, AnnotationServiceProps.
  State is passed explicitly, one record per struct of the source and one definition per operation,
  in the order of the code. A function that fails returns a sum, \<open>Inl\<close> the error. A mutex or an
  atomic is a field of the state; what other threads do between two steps is a change of the world
  that the operation receives. Functions of other crates (the PDF engine, the \<open>url\<close> parser, the
  resolver, the transport, the operating system) are arguments.

  \<^bold>\<open>What the lemmas show.\<close>
  \<^item> Currency: only results of the current, uncancelled session are published, in the runtime and in
    the supervisor, whatever other threads cancel in between; the supervisor refines the runtime.
  \<^item> The queue: publications of a key are in order of revision, memory is bounded, a stale completion
    was cancelled, the best demand is taken first.
  \<^item> The owner: bounded pending work, fairness by rotation among equal priorities, progress, delivery
    in order, identifiers that never repeat.
  \<^item> The allocator: never above the budget, never above a target, minimums when they fit, nothing wasted
    while somebody wants more; the registry reports each change once.
  \<^item> The HTTP client: a guard in front of resolver and transport that refuses all that the policy does
    not allow is redundant; responses are within the policy; the rate window and the concurrency bound
    hold; the address tests are exactly the reserved CIDR blocks.
  \<^item> The document cache: exact books, quotas, all-or-nothing insertions.
  \<^item> The editor: every reachable buffer is well formed (offsets on character boundaries, runs and blocks
    that tile the text) and its Markdown is within the limit; a refused edit changes nothing; the
    incremental replacement is that of a sequence of styled characters; a saved document loads
    unchanged; parsing a line ends and takes linearly many operations. Four lemmas state where it is wrong.
  \<^item> Annotations: every reachable set passes its own validation, behaves as a map from identifiers, answers
    its queries completely, and comes back from a snapshot.
  \<^item> The stores: whoever saves on top of a loaded set overwrites nothing it has not seen, also when the
    file system fails at any call; at every moment the sidecar is the old or the new file as a whole; what
    was saved loads again. Identity times are exact, before the epoch too.
  \<^item> The annotation service: its lanes, queue and pending events are consistent and bounded in every
    interleaving; after the last handle is dropped the loop ends; on the in-memory store a document is
    never rolled back by those who save, and joined saves do what they would have done one after the other.
  Interfaces are locales, each interpreted on the model's definitions: \<open>keyed_store\<close> (the map types),
  \<open>fresh_ids\<close> (allocators), \<open>boundary_potential\<close> (what a cost measured over an HTTP call needs of the
  boundaries, interpreted on the concurrency counter), \<open>monotone_step\<close> (steps of a world that only grows) and
  \<open>annotation_store\<close> (the contract of a store of annotations, with both stores as its models).

  \<^bold>\<open>Bounds and fuel.\<close>
  No definition runs on fuel that could end too early. The redirect loop recurses on the turns of its
  \<open>for\<close>; the distribution of the allocator, the body and file loops and the text functions have a
  termination measure (what is left of the budget, of the limit, of the text); the rotation of the
  owner looks at most once at each document. The search for the previous grapheme takes as many turns
  as the offset has bytes, which is enough (\<open>previous_from_enough\<close>).

  \<^bold>\<open>Not modelled.\<close>
  Drawing and input (key-ui-gpui, key-editor-gpui, key-pdf-gpui, key-extension-gpui, the application),
  the FFI to PDFium (key-pdfium) and the WebAssembly host (key-extension-wasm) are calls into
  libraries; thread start and join, channels as operating-system objects, the resolver thread and the
  \<open>reqwest\<close> transport are effects outside the model. Window docks and control-bar descriptors of
  key-workspace-core, page layout, search and references of key-pdf-core, the storage of extensions, their
  host, manifests and packages are not modelled. A save to the JSON store is one step, as it is
  under the file lock, and so are writing, flushing and syncing its temporary file; other writers act between
  saves. Removing an entry of the in-memory store is an operation of its own (\<open>memory_remove\<close>), not one of those
  that run beside the service.
\<close>

end
